(* ===== verification/Prelude.thy ===== *)
theory Prelude
  imports Main "HOL-Library.Word" "HOL-Library.Signed_Division"
begin

unbundle bit_operations_syntax

text \<open>
  What every component of the development shares: how a C function that may stop the
  process is modelled (\<open>outcome\<close>), loops that may stop (\<open>run_list\<close>), event loops
  (\<open>run\<close>) with the locale \<open>step_system\<close> that lifts an invariant from one step to a
  run, machine integers and the byte order functions of a little-endian host, the C library's
  character buffers, and list lemmas.
\<close>

section \<open>Collections of facts\<close>

named_theorems bind_iff \<open>how a sequence of statements can end\<close>
named_theorems table_simps \<open>rewriting of arrays of records\<close>

section \<open>Processes that stop\<close>

text \<open>
  A statement either lets the process go on in a new state (\<open>Inr\<close>) or ends it (\<open>Inl\<close>):
  by \<^verbatim>\<open>exit(code)\<close> after a \<^verbatim>\<open>perror\<close> with the message given, or by behaviour
  the C standard leaves undefined (an access outside an array, a string copied into a buffer
  too small for it), or by a loop that never ends (\<open>Hang\<close>). The state in which the process stopped is kept, so that what it had sent
  before is not lost.
\<close>

datatype stop = Exit int string | Undefined string | Hang string

type_synonym 's outcome = "(stop \<times> 's) + 's"

definition bindr :: "'e + 'a \<Rightarrow> ('a \<Rightarrow> 'e + 'b) \<Rightarrow> 'e + 'b" where
  "bindr m f = (case m of Inl e \<Rightarrow> Inl e | Inr s \<Rightarrow> f s)"

definition exit_if :: "bool \<Rightarrow> int \<Rightarrow> string \<Rightarrow> 's \<Rightarrow> 's outcome" where
  "exit_if b code msg s = (if b then Inl (Exit code msg, s) else Inr s)"

definition undef_if :: "bool \<Rightarrow> string \<Rightarrow> 's \<Rightarrow> 's outcome" where
  "undef_if b msg s = (if b then Inl (Undefined msg, s) else Inr s)"

fun run_list :: "('x \<Rightarrow> 's \<Rightarrow> 'e + 's) \<Rightarrow> 'x list \<Rightarrow> 's \<Rightarrow> 'e + 's" where
  "run_list f [] s = Inr s"
| "run_list f (x # xs) s = bindr (f x s) (run_list f xs)"

fun run :: "('s \<Rightarrow> 'i \<Rightarrow> 'e + 's) \<Rightarrow> 's \<Rightarrow> 'i list \<Rightarrow> 'e + 's" where
  "run step s [] = Inr s"
| "run step s (i # is) = bindr (step s i) (\<lambda>s'. run step s' is)"

text \<open>The state an outcome ends in, whether the process goes on or not.\<close>

definition final :: "'s outcome \<Rightarrow> 's" where
  "final r = (case r of Inl (e, s) \<Rightarrow> s | Inr s \<Rightarrow> s)"

text \<open>The process goes on or ends by its own \<^verbatim>\<open>exit\<close>.\<close>

definition benign :: "'s outcome \<Rightarrow> bool" where
  "benign r = (case r of Inl (e, s) \<Rightarrow> (case e of Exit c m \<Rightarrow> True | _ \<Rightarrow> False) | Inr s \<Rightarrow> True)"

lemma bindr_simps [simp]:
  "bindr (Inl e) f = Inl e"
  "bindr (Inr s) f = f s"
  by (simp_all add: bindr_def)

lemma bindr_Inr_iff [bind_iff]: "bindr m f = Inr t \<longleftrightarrow> (\<exists>s. m = Inr s \<and> f s = Inr t)"
  by (cases m) auto

lemma bindr_Inl_iff [bind_iff]:
  "bindr m f = Inl e \<longleftrightarrow> m = Inl e \<or> (\<exists>s. m = Inr s \<and> f s = Inl e)"
  by (cases m) auto

lemma exit_if_Inr_iff [bind_iff]: "exit_if b c m s = Inr t \<longleftrightarrow> \<not> b \<and> t = s"
  by (auto simp: exit_if_def)

lemma undef_if_Inr_iff [bind_iff]: "undef_if b m s = Inr t \<longleftrightarrow> \<not> b \<and> t = s"
  by (auto simp: undef_if_def)

lemma exit_if_simps [simp]:
  "exit_if False c m s = Inr s"
  "exit_if True c m s = Inl (Exit c m, s)"
  by (simp_all add: exit_if_def)

lemma undef_if_simps [simp]:
  "undef_if False m s = Inr s"
  "undef_if True m s = Inl (Undefined m, s)"
  by (simp_all add: undef_if_def)

lemma final_simps [simp]: "final (Inr s) = s" "final (Inl (e, s)) = s"
  by (simp_all add: final_def)

lemma benign_simps [simp]:
  "benign (Inr s)"
  "benign (Inl (Exit c m, s))"
  "\<not> benign (Inl (Undefined m, s))"
  "\<not> benign (Inl (Hang m, s))"
  by (simp_all add: benign_def)

lemma benign_bindr:
  "benign (bindr m f) \<longleftrightarrow> benign m \<and> (\<forall>s. m = Inr s \<longrightarrow> benign (f s))"
  by (cases m) (auto simp: benign_def split: stop.splits)

lemma run_list_append: "run_list f (xs @ ys) s = bindr (run_list f xs s) (run_list f ys)"
  by (induction xs arbitrary: s) (auto simp: bindr_def split: sum.splits)

lemma run_list_inv:
  assumes "\<And>x s t. x \<in> set xs \<Longrightarrow> P s \<Longrightarrow> f x s = Inr t \<Longrightarrow> P t"
    and "P s" and "run_list f xs s = Inr t"
  shows "P t"
  using assms
proof (induction xs arbitrary: s)
  case Nil
  then show ?case by simp
next
  case (Cons x xs)
  from Cons.prems(3) obtain u where "f x s = Inr u" and "run_list f xs u = Inr t"
    by (auto simp: bind_iff)
  with Cons.prems show ?case by (metis Cons.IH list.set_intros)
qed

text \<open>
  Every loop of a program here is an event loop: a step function applied to the events the
  operating system delivers. An invariant is proved for one step, for the events that can
  occur (\<open>good\<close>), and the locale lifts it to every run.
\<close>

locale step_system =
  fixes step :: "'s \<Rightarrow> 'i \<Rightarrow> 'e + 's"
    and good :: "'i \<Rightarrow> bool"
    and inv :: "'s \<Rightarrow> bool"
  assumes step_inv: "inv s \<Longrightarrow> good i \<Longrightarrow> step s i = Inr t \<Longrightarrow> inv t"
begin

lemma run_inv: "inv s \<Longrightarrow> list_all good is \<Longrightarrow> run step s is = Inr t \<Longrightarrow> inv t"
proof (induction "is" arbitrary: s)
  case Nil
  then show ?case by simp
next
  case (Cons i "is")
  then obtain u where "step s i = Inr u" and "run step u is = Inr t"
    by (auto simp: bind_iff)
  with Cons show ?case by (metis list.pred_inject(2) step_inv)
qed

end

text \<open>
  Where the events that can occur depend on the state (an acknowledgement names what was sent),
  \<open>admissible\<close> asks it of every event at the state the run has reached.
\<close>

fun admissible :: "('s \<Rightarrow> 'i \<Rightarrow> bool) \<Rightarrow> ('s \<Rightarrow> 'i \<Rightarrow> 'e + 's) \<Rightarrow> 's \<Rightarrow> 'i list \<Rightarrow> bool" where
  "admissible good step s [] \<longleftrightarrow> True"
| "admissible good step s (i # is) \<longleftrightarrow> good s i
     \<and> (case step s i of Inl e \<Rightarrow> True | Inr t \<Rightarrow> admissible good step t is)"

locale guarded_system =
  fixes step :: "'s \<Rightarrow> 'i \<Rightarrow> 'e + 's"
    and good :: "'s \<Rightarrow> 'i \<Rightarrow> bool"
    and inv :: "'s \<Rightarrow> bool"
  assumes step_inv: "inv s \<Longrightarrow> good s i \<Longrightarrow> step s i = Inr t \<Longrightarrow> inv t"
begin

lemma guarded_run_inv:
  "inv s \<Longrightarrow> admissible good step s is \<Longrightarrow> run step s is = Inr t \<Longrightarrow> inv t"
proof (induction "is" arbitrary: s)
  case Nil
  then show ?case by simp
next
  case (Cons i "is")
  then obtain u where "step s i = Inr u" and "run step u is = Inr t"
    by (auto simp: bind_iff)
  with Cons show ?case by (metis admissible.simps(2) step_inv sum.simps(6))
qed

end

text \<open>
  A system whose states are seen through \<open>abs\<close>, on which every step does what \<open>spec\<close> says: so does
  every run.
\<close>

locale refined_system = guarded_system step good inv
  for step :: "'s \<Rightarrow> 'i \<Rightarrow> 'e + 's" and good inv +
  fixes abs :: "'s \<Rightarrow> 'a" and spec :: "'i \<Rightarrow> 'a \<Rightarrow> 'a"
  assumes step_spec: "inv s \<Longrightarrow> good s i \<Longrightarrow> step s i = Inr t \<Longrightarrow> abs t = spec i (abs s)"
begin

lemma run_spec:
  "inv s \<Longrightarrow> admissible good step s is \<Longrightarrow> run step s is = Inr t \<Longrightarrow> abs t = fold spec is (abs s)"
proof (induction "is" arbitrary: s)
  case Nil
  then show ?case by simp
next
  case (Cons i "is")
  then obtain u where u: "step s i = Inr u" and r: "run step u is = Inr t" and ok: "good s i" "admissible good step u is"
    by (auto simp: bind_iff)
  from Cons.IH [OF step_inv [OF Cons.prems(1) ok(1) u] ok(2) r] show ?case
    using step_spec [OF Cons.prems(1) ok(1) u] by simp
qed

end

text \<open>A system that goes on as long as the events allow it.\<close>

locale live_system = guarded_system step good inv
  for step :: "'s \<Rightarrow> 'i \<Rightarrow> 'e + 's" and good inv +
  assumes step_goes: "inv s \<Longrightarrow> good s i \<Longrightarrow> \<exists>t. step s i = Inr t"
begin

lemma run_goes: "inv s \<Longrightarrow> admissible good step s is \<Longrightarrow> \<exists>t. run step s is = Inr t"
proof (induction "is" arbitrary: s)
  case Nil
  then show ?case by simp
next
  case (Cons i "is")
  then obtain u where u: "step s i = Inr u" using step_goes by fastforce
  with Cons show ?case using step_inv by (auto simp: bind_iff)
qed

end

text \<open>A system in which \<open>ends\<close> holds of what a step stops with.\<close>

locale ending_system = guarded_system step good inv
  for step :: "'s \<Rightarrow> 'i \<Rightarrow> 'e + 's" and good inv +
  fixes ends :: "'e \<Rightarrow> bool"
  assumes step_ends: "inv s \<Longrightarrow> good s i \<Longrightarrow> step s i = Inl e \<Longrightarrow> ends e"
begin

lemma run_ends: "inv s \<Longrightarrow> admissible good step s is \<Longrightarrow> run step s is = Inl e \<Longrightarrow> ends e"
proof (induction "is" arbitrary: s)
  case Nil
  then show ?case by simp
next
  case (Cons i "is")
  then show ?case using step_ends [of s i e] step_inv [of s i] by (auto simp: bind_iff)
qed

end

text \<open>A system no step of which leaves the C language.\<close>

locale safe_system = guarded_system step good inv
  for step :: "'s \<Rightarrow> 'i \<Rightarrow> 's outcome" and good inv +
  assumes step_benign: "inv s \<Longrightarrow> good s i \<Longrightarrow> benign (step s i)"
begin

lemma run_benign: "inv s \<Longrightarrow> admissible good step s is \<Longrightarrow> benign (run step s is)"
proof (induction "is" arbitrary: s)
  case Nil
  then show ?case by simp
next
  case (Cons i "is")
  then have "benign (step s i)" by (simp add: step_benign)
  moreover have "benign (run step t is)" if "step s i = Inr t" for t
    using Cons.prems that step_inv [of s i t] by (intro Cons.IH) simp_all
  ultimately show ?case by (simp add: benign_bindr)
qed

end

sublocale safe_system \<subseteq> stops: ending_system step good inv "\<lambda>e. benign (Inl e)"
  by unfold_locales (use step_benign in fastforce)

sublocale step_system \<subseteq> guarded: guarded_system step "\<lambda>_. good" inv
  by unfold_locales (rule step_inv)

text \<open>
  Several processes in a network: each of the nodes makes its steps on what it can hear of the
  others. \<open>heard N x i\<close> says that event \<open>i\<close> can happen at node \<open>x\<close> when the nodes are in the
  states \<open>N\<close>. The locale asks for an invariant of one node that may refer to what all the nodes have
  done so far: a step of the node keeps it as long as all nodes have it, and it is not lost when
  another node goes on. It gives it for every reachable state.
\<close>

inductive reaches ::
  "('n \<Rightarrow> bool) \<Rightarrow> (('n \<Rightarrow> 's) \<Rightarrow> 'n \<Rightarrow> 'i \<Rightarrow> bool) \<Rightarrow> ('s \<Rightarrow> 'i \<Rightarrow> 'e + 's) \<Rightarrow> ('n \<Rightarrow> 's) \<Rightarrow> ('n \<Rightarrow> 's) \<Rightarrow> bool"
  for node heard step N0 where
  reaches_start: "reaches node heard step N0 N0"
| reaches_step: "reaches node heard step N0 N \<Longrightarrow> node x \<Longrightarrow> heard N x i \<Longrightarrow> step (N x) i = Inr t \<Longrightarrow>
     reaches node heard step N0 (N(x := t))"

locale history_network =
  fixes node :: "'n \<Rightarrow> bool"
    and heard :: "('n \<Rightarrow> 's) \<Rightarrow> 'n \<Rightarrow> 'i \<Rightarrow> bool"
    and step :: "'s \<Rightarrow> 'i \<Rightarrow> 'e + 's"
    and N0 :: "'n \<Rightarrow> 's"
    and inv :: "('n \<Rightarrow> 's) \<Rightarrow> 'n \<Rightarrow> 's \<Rightarrow> bool"
  assumes start_inv: "node x \<Longrightarrow> inv N0 x (N0 x)"
    and node_step_inv: "(\<And>y. node y \<Longrightarrow> inv N y (N y)) \<Longrightarrow> node x \<Longrightarrow> heard N x i \<Longrightarrow> step (N x) i = Inr t \<Longrightarrow>
      inv N x t"
    and inv_lasts: "(\<And>y. node y \<Longrightarrow> inv N y (N y)) \<Longrightarrow> node x \<Longrightarrow> heard N x i \<Longrightarrow> step (N x) i = Inr t \<Longrightarrow>
      node y \<Longrightarrow> inv N y s \<Longrightarrow> inv (N(x := t)) y s"
begin

lemma reaches_inv:
  assumes "reaches node heard step N0 N"
  shows "node x \<Longrightarrow> inv N x (N x)"
  using assms
proof (induction arbitrary: x)
  case reaches_start
  then show ?case by (rule start_inv)
next
  case (reaches_step N y i t)
  have inv: "inv N z (N z)" if "node z" for z using reaches_step.IH that by blast
  have "inv N x ((N(y := t)) x)"
    using node_step_inv [OF inv reaches_step.hyps(2-4)] inv reaches_step.prems by (cases "x = y") auto
  then show ?case using inv_lasts [OF inv reaches_step.hyps(2-4)] reaches_step.prems by blast
qed

end

text \<open>The case in which the invariant of a node does not look at the others.\<close>

locale network =
  fixes node :: "'n \<Rightarrow> bool"
    and heard :: "('n \<Rightarrow> 's) \<Rightarrow> 'n \<Rightarrow> 'i \<Rightarrow> bool"
    and step :: "'s \<Rightarrow> 'i \<Rightarrow> 'e + 's"
    and N0 :: "'n \<Rightarrow> 's"
    and inv :: "'n \<Rightarrow> 's \<Rightarrow> bool"
  assumes start_inv: "node x \<Longrightarrow> inv x (N0 x)"
    and node_step_inv: "(\<And>y. node y \<Longrightarrow> inv y (N y)) \<Longrightarrow> node x \<Longrightarrow> heard N x i \<Longrightarrow> step (N x) i = Inr t \<Longrightarrow> inv x t"

sublocale network \<subseteq> past: history_network node heard step N0 "\<lambda>_. inv"
  by unfold_locales (use start_inv node_step_inv in blast)+

section \<open>Machine integers and byte order\<close>

text \<open>
  \<^verbatim>\<open>int\<close> and \<^verbatim>\<open>uint32_t\<close> are 32 bits wide and the hosts are little-endian, so
  \<^verbatim>\<open>htonl\<close> and \<^verbatim>\<open>ntohl\<close> both reverse the four bytes of a word and
  \<^verbatim>\<open>htons\<close> and \<^verbatim>\<open>ntohs\<close> the two bytes of a half word.
\<close>

type_synonym u8 = "8 word"
type_synonym u16 = "16 word"
type_synonym u32 = "32 word"

definition bswap32 :: "u32 \<Rightarrow> u32" where
  "bswap32 w = push_bit 24 (take_bit 8 w) OR push_bit 16 (take_bit 8 (drop_bit 8 w))
     OR push_bit 8 (take_bit 8 (drop_bit 16 w)) OR take_bit 8 (drop_bit 24 w)"

definition bswap16 :: "u16 \<Rightarrow> u16" where
  "bswap16 w = push_bit 8 (take_bit 8 w) OR take_bit 8 (drop_bit 8 w)"

abbreviation htonl :: "u32 \<Rightarrow> u32" where "htonl \<equiv> bswap32"
abbreviation ntohl :: "u32 \<Rightarrow> u32" where "ntohl \<equiv> bswap32"
abbreviation htons :: "u16 \<Rightarrow> u16" where "htons \<equiv> bswap16"
abbreviation ntohs :: "u16 \<Rightarrow> u16" where "ntohs \<equiv> bswap16"

lemma bit_bswap32:
  "bit (bswap32 w) n \<longleftrightarrow>
     (if n < 8 then bit w (n + 24) else if n < 16 then bit w (n + 8)
      else if n < 24 then bit w (n - 8) else n < 32 \<and> bit w (n - 24))"
proof -
  consider "n < 8" | "8 \<le> n" "n < 16" | "16 \<le> n" "n < 24" | "24 \<le> n" "n < 32" | "32 \<le> n"
    by linarith
  then show ?thesis
    by cases (auto simp: bswap32_def bit_simps add.commute dest: bit_imp_le_length)
qed

lemma bswap32_bswap32 [simp]: "bswap32 (bswap32 w) = w"
proof (rule bit_eqI)
  fix n
  assume "possible_bit TYPE(u32) n"
  then have "n < 32" by simp
  then consider "n < 8" | "8 \<le> n" "n < 16" | "16 \<le> n" "n < 24" | "24 \<le> n" "n < 32"
    by linarith
  then show "bit (bswap32 (bswap32 w)) n \<longleftrightarrow> bit w n"
    by cases (auto simp: bit_bswap32)
qed

lemma bswap16_bswap16 [simp]: "bswap16 (bswap16 w) = w"
  by (rule bit_eqI) (auto simp: bswap16_def bit_simps)

text \<open>
  The contract of a conversion to and from the network's byte order. Whatever crosses the
  network in one of the programs relies on it.
\<close>

locale wire_codec =
  fixes enc :: "'a \<Rightarrow> 'w" and dec :: "'w \<Rightarrow> 'a"
  assumes dec_enc: "dec (enc x) = x"
begin

lemma enc_inj: "enc x = enc y \<longleftrightarrow> x = y"
  using dec_enc by metis

lemma map_dec_enc: "map dec (map enc xs) = xs"
  by (simp add: dec_enc comp_def)

end

interpretation net32: wire_codec htonl ntohl
  by unfold_locales simp

interpretation net16: wire_codec htons ntohs
  by unfold_locales simp

section \<open>Character buffers\<close>

text \<open>
  A buffer holds whatever was last written into it: receiving \<open>data\<close> overwrites its first
  bytes only, and \<^verbatim>\<open>%s\<close>, \<^verbatim>\<open>strcpy\<close> and \<^verbatim>\<open>strcmp\<close> see the part before
  the first NUL. \<^verbatim>\<open>MAXLINE\<close> (\<^verbatim>\<open>unp.h\<close>) is the size of most of them.
\<close>

definition MAXLINE :: nat where "MAXLINE = 4096"

abbreviation NUL :: char where "NUL \<equiv> CHR 0x00"

definition overwrite :: "'a list \<Rightarrow> 'a list \<Rightarrow> 'a list" where
  "overwrite buf data = data @ drop (length data) buf"

definition cstr :: "string \<Rightarrow> string" where
  "cstr buf = takeWhile (\<lambda>c. c \<noteq> NUL) buf"

lemma length_overwrite [simp]: "length (overwrite buf d) = max (length buf) (length d)"
  by (simp add: overwrite_def max_def)

lemma overwrite_same_length: "length d = length buf \<Longrightarrow> overwrite buf d = d"
  by (simp add: overwrite_def)

lemma cstr_no_nul: "NUL \<notin> set s \<Longrightarrow> cstr s = s"
  by (auto simp: cstr_def takeWhile_eq_all_conv)

lemma cstr_append_nul: "NUL \<notin> set s \<Longrightarrow> cstr (s @ NUL # t) = s"
  by (auto simp: cstr_def takeWhile_append1 takeWhile_eq_all_conv takeWhile_tail)

lemma nul_notin_cstr [simp]: "NUL \<notin> set (cstr s)"
  by (auto simp: cstr_def dest: set_takeWhileD)

lemma cstr_cstr [simp]: "cstr (cstr s) = cstr s"
  by (simp add: cstr_no_nul)

section \<open>Searching an array from the front\<close>

text \<open>
  The programs look a table up with \<^verbatim>\<open>for(i=0; i<n; i++) if(p(a[i])) break;\<close>: the loop
  leaves \<open>i\<close> at the first element that satisfies the test, or at \<open>n\<close>.
\<close>

fun index_of :: "('a \<Rightarrow> bool) \<Rightarrow> 'a list \<Rightarrow> nat" where
  "index_of p [] = 0"
| "index_of p (x # xs) = (if p x then 0 else Suc (index_of p xs))"

lemma index_of_le: "index_of p xs \<le> length xs"
  by (induction xs) auto

lemma index_of_less_iff: "index_of p xs < length xs \<longleftrightarrow> (\<exists>x \<in> set xs. p x)"
  by (induction xs) auto

lemma index_of_nth: "index_of p xs < length xs \<Longrightarrow> p (xs ! index_of p xs)"
  by (induction xs) auto

lemma index_of_first: "i < index_of p xs \<Longrightarrow> \<not> p (xs ! i)"
  by (induction xs arbitrary: i) (auto simp: less_Suc_eq_0_disj split: if_splits)

lemma index_of_eqI:
  assumes "i < length xs" and "p (xs ! i)" and "\<And>j. j < i \<Longrightarrow> \<not> p (xs ! j)"
  shows "index_of p xs = i"
proof (rule linorder_cases [of "index_of p xs" i])
  assume "index_of p xs < i"
  with assms show ?thesis using index_of_nth [of p xs] by auto
next
  assume "i < index_of p xs"
  with assms(2) show ?thesis using index_of_first by blast
qed

lemma index_of_distinct:
  "distinct xs \<Longrightarrow> i < length xs \<Longrightarrow> index_of (\<lambda>x. x = xs ! i) xs = i"
  by (rule index_of_eqI) (auto simp: nth_eq_iff_index_eq)

lemma index_of_map: "index_of p (map f xs) = index_of (\<lambda>x. p (f x)) xs"
  by (induction xs) auto

end
