(* ===== verification/Rtt.thy ===== *)
theory Rtt
  imports Prelude Complex_Main
begin

text \<open>
  \<^verbatim>\<open>unpv13e/lib/rtt.c\<close> and \<^verbatim>\<open>unprtt.h\<close>: the retransmission timer the file
  server of assignment 2 uses for its handshake and for every window of data. The estimators
  are scaled integers; \<open>rtt_stop\<close> computes in \<^verbatim>\<open>double\<close> and stores the result
  truncated, which on these magnitudes is an exact truncating division (\<open>rtt_stop_real\<close>).
\<close>

section \<open>Definitions\<close>

record timeval =
  tv_sec :: int
  tv_usec :: int

record rtt_info =
  rtt_rtt :: int
  rtt_srtt :: int
  rtt_rttvar :: int
  rtt_rto :: int
  rtt_nrexmt :: int
  rtt_base :: u32

definition RTT_RXTMIN :: int where "RTT_RXTMIN = 1"
definition RTT_RXTMAX :: int where "RTT_RXTMAX = 3"
definition RTT_MAXNREXMT :: int where "RTT_MAXNREXMT = 12"

definition RTT_RTOCALC :: "rtt_info \<Rightarrow> int" where
  "RTT_RTOCALC ptr = (rtt_srtt ptr + 4 * rtt_rttvar ptr) sdiv 8"

definition rtt_minmax :: "int \<Rightarrow> int" where
  "rtt_minmax rto =
     (if rto < RTT_RXTMIN then RTT_RXTMIN else if rto > RTT_RXTMAX then RTT_RXTMAX else rto)"

text \<open>
  \<open>rtt_init\<close> leaves \<open>rtt_nrexmt\<close> as it finds it; \<open>tv\<close> is what
  \<^verbatim>\<open>Gettimeofday\<close> returns.
\<close>

definition rtt_init :: "timeval \<Rightarrow> rtt_info \<Rightarrow> rtt_info" where
  "rtt_init tv ptr =
     (let ptr = ptr\<lparr>rtt_base := word_of_int (tv_sec tv), rtt_rtt := 0, rtt_srtt := 0,
            rtt_rttvar := 6\<rparr>
      in ptr\<lparr>rtt_rto := rtt_minmax (RTT_RTOCALC ptr)\<rparr>)"

definition rtt_ts :: "timeval \<Rightarrow> rtt_info \<Rightarrow> u32" where
  "rtt_ts tv ptr =
     word_of_int ((tv_sec tv - uint (rtt_base ptr)) * 1000 + tv_usec tv sdiv 1000)"

definition rtt_newpack :: "rtt_info \<Rightarrow> rtt_info" where
  "rtt_newpack ptr = ptr\<lparr>rtt_nrexmt := 0\<rparr>"

definition rtt_start :: "rtt_info \<Rightarrow> int" where
  "rtt_start ptr = rtt_rto ptr"

definition rtt_stop :: "rtt_info \<Rightarrow> u32 \<Rightarrow> rtt_info" where
  "rtt_stop ptr ms =
     (let ptr = ptr\<lparr>rtt_rtt := uint (ms * 8 div 1000)\<rparr>;
          delta = rtt_rtt ptr - rtt_srtt ptr;
          ptr = ptr\<lparr>rtt_srtt := (8 * rtt_srtt ptr + delta) sdiv 8\<rparr>;
          delta = (if delta < 0 then - delta else delta);
          ptr = ptr\<lparr>rtt_rttvar := (4 * rtt_rttvar ptr + (delta - rtt_rttvar ptr)) sdiv 4\<rparr>
      in ptr\<lparr>rtt_rto := rtt_minmax (RTT_RTOCALC ptr)\<rparr>)"

text \<open>The value \<open>-1\<close> tells the caller to give up.\<close>

definition rtt_timeout :: "rtt_info \<Rightarrow> rtt_info \<times> int" where
  "rtt_timeout ptr =
     (let ptr = ptr\<lparr>rtt_rto := rtt_minmax (rtt_rto ptr * 2)\<rparr>;
          ptr = ptr\<lparr>rtt_nrexmt := rtt_nrexmt ptr + 1\<rparr>
      in (ptr, if rtt_nrexmt ptr > RTT_MAXNREXMT then -1 else 0))"

text \<open>The timer after \<open>n\<close> timeouts in a row.\<close>

fun timeouts :: "nat \<Rightarrow> rtt_info \<Rightarrow> rtt_info" where
  "timeouts 0 ptr = ptr"
| "timeouts (Suc n) ptr = fst (rtt_timeout (timeouts n ptr))"

text \<open>
  The well-formedness of a timer: the retransmission timeout lies between the two limits and
  the estimators are small enough for every intermediate result to fit an \<^verbatim>\<open>int\<close>.
\<close>

definition rtt_measure_max :: int where "rtt_measure_max = 4294967"

definition rtt_ok :: "rtt_info \<Rightarrow> bool" where
  "rtt_ok ptr \<longleftrightarrow> RTT_RXTMIN \<le> rtt_rto ptr \<and> rtt_rto ptr \<le> RTT_RXTMAX
     \<and> 0 \<le> rtt_srtt ptr \<and> rtt_srtt ptr \<le> rtt_measure_max
     \<and> 0 \<le> rtt_rttvar ptr \<and> rtt_rttvar ptr \<le> rtt_measure_max"

text \<open>Truncation towards zero, as C converts a \<^verbatim>\<open>double\<close> to an \<^verbatim>\<open>int\<close>.\<close>

definition c_trunc :: "real \<Rightarrow> int" where
  "c_trunc x = (if 0 \<le> x then \<lfloor>x\<rfloor> else \<lceil>x\<rceil>)"

section \<open>Properties\<close>

lemmas rtt_const_defs = RTT_RXTMIN_def RTT_RXTMAX_def RTT_MAXNREXMT_def rtt_measure_max_def

lemma sdiv_nonneg: "0 \<le> a \<Longrightarrow> 0 < b \<Longrightarrow> a sdiv b = a div b" for a b :: int
  by (auto simp: signed_divide_int_def sgn_if)

lemma rtt_minmax_bounds [simp]: "RTT_RXTMIN \<le> rtt_minmax r" "rtt_minmax r \<le> RTT_RXTMAX"
  by (simp_all add: rtt_minmax_def rtt_const_defs)

lemma measured_rtt_bound: "uint (ms * 8 div 1000 :: u32) \<le> rtt_measure_max"
proof -
  have "uint (ms * 8 div 1000 :: u32) = uint (ms * 8) div 1000"
    by (simp add: uint_div_distrib)
  moreover have "uint (ms * 8 :: u32) < 2 ^ 32" using uint_lt2p [of "ms * 8 :: u32"] by simp
  ultimately show ?thesis by (simp add: rtt_const_defs)
qed

lemma rtt_init_ok: "rtt_ok (rtt_init tv ptr)"
  by (simp add: rtt_ok_def rtt_init_def Let_def) (simp add: rtt_const_defs)

lemma rtt_init_rto: "rtt_rto (rtt_init tv ptr) = 3"
  by (simp add: rtt_init_def Let_def RTT_RTOCALC_def rtt_minmax_def rtt_const_defs
      signed_divide_int_def)

lemma rtt_newpack_ok: "rtt_ok ptr \<Longrightarrow> rtt_ok (rtt_newpack ptr)"
  by (simp add: rtt_ok_def rtt_newpack_def)

lemma rtt_timeout_ok: "rtt_ok ptr \<Longrightarrow> rtt_ok (fst (rtt_timeout ptr))"
  by (simp add: rtt_ok_def rtt_timeout_def Let_def)

lemma rtt_stop_fields:
  fixes ms :: u32
  assumes "rtt_ok ptr"
  defines "rtt \<equiv> uint (ms * 8 div 1000)"
  shows "rtt_srtt (rtt_stop ptr ms) = (7 * rtt_srtt ptr + rtt) div 8"
    and "rtt_rttvar (rtt_stop ptr ms) = (3 * rtt_rttvar ptr + \<bar>rtt - rtt_srtt ptr\<bar>) div 4"
    and "rtt_rto (rtt_stop ptr ms) = rtt_minmax (RTT_RTOCALC (rtt_stop ptr ms))"
  using assms(1)
  by (auto simp: rtt_stop_def Let_def rtt_def rtt_ok_def RTT_RTOCALC_def sdiv_nonneg abs_if
      intro!: arg_cong2 [where f = "(div)"])

lemma rtt_stop_ok:
  assumes "rtt_ok ptr"
  shows "rtt_ok (rtt_stop ptr ms)"
proof -
  define u where "u = uint (ms * 8 div 1000 :: u32)"
  have "0 \<le> u" "u \<le> 4294967"
    using measured_rtt_bound [of ms] by (auto simp: u_def rtt_const_defs)
  moreover from assms have "0 \<le> rtt_srtt ptr" "rtt_srtt ptr \<le> 4294967"
    "0 \<le> rtt_rttvar ptr" "rtt_rttvar ptr \<le> 4294967"
    by (simp_all add: rtt_ok_def rtt_const_defs)
  ultimately have "0 \<le> (7 * rtt_srtt ptr + u) div 8" "(7 * rtt_srtt ptr + u) div 8 \<le> 4294967"
    "0 \<le> (3 * rtt_rttvar ptr + \<bar>u - rtt_srtt ptr\<bar>) div 4"
    "(3 * rtt_rttvar ptr + \<bar>u - rtt_srtt ptr\<bar>) div 4 \<le> 4294967"
    by linarith+
  then show ?thesis
    by (simp add: rtt_ok_def rtt_stop_fields [OF assms] flip: u_def) (simp add: rtt_const_defs)
qed

lemma timeouts_fields:
  "rtt_nrexmt (timeouts n ptr) = rtt_nrexmt ptr + int n"
  "rtt_srtt (timeouts n ptr) = rtt_srtt ptr"
  "rtt_rttvar (timeouts n ptr) = rtt_rttvar ptr"
  by (induction n) (auto simp: rtt_timeout_def Let_def)

lemma timeouts_rto_max:
  assumes "rtt_ok ptr" and "2 \<le> n"
  shows "rtt_rto (timeouts n ptr) = RTT_RXTMAX"
proof -
  have two: "rtt_rto (timeouts (Suc (Suc m)) p) = RTT_RXTMAX" if "rtt_ok p" for m p
  proof (induction m)
    case 0
    from that show ?case
      by (auto simp: rtt_timeout_def Let_def rtt_ok_def rtt_minmax_def rtt_const_defs)
  next
    case (Suc m)
    then show ?case
      by (auto simp: rtt_timeout_def Let_def rtt_minmax_def rtt_const_defs)
  qed
  from \<open>2 \<le> n\<close> obtain m where "n = Suc (Suc m)" by (metis add_2_eq_Suc le_Suc_ex)
  with two [OF assms(1)] show ?thesis by simp
qed

datatype rtt_event = NewPack | TimeOut | Measured u32 | Restart timeval

fun rtt_step :: "rtt_info \<Rightarrow> rtt_event \<Rightarrow> unit + rtt_info" where
  "rtt_step p NewPack = Inr (rtt_newpack p)"
| "rtt_step p TimeOut = Inr (fst (rtt_timeout p))"
| "rtt_step p (Measured ms) = Inr (rtt_stop p ms)"
| "rtt_step p (Restart tv) = Inr (rtt_init tv p)"

interpretation timer: step_system rtt_step "\<lambda>_. True" rtt_ok
proof unfold_locales
  fix s t i
  assume "rtt_ok s" and "rtt_step s i = Inr t"
  then show "rtt_ok t"
    by (cases i) (auto intro: rtt_newpack_ok rtt_timeout_ok rtt_stop_ok rtt_init_ok)
qed

lemma rtt_step_total: "\<exists>q. rtt_step p e = Inr q"
  by (cases e) auto

lemma run_rtt_total: "\<exists>q. run rtt_step p es = Inr q"
proof (induction es arbitrary: p)
  case (Cons e es)
  obtain q where "rtt_step p e = Inr q" using rtt_step_total by blast
  with Cons show ?case by simp
qed simp

lemma c_trunc_divide: "0 < b \<Longrightarrow> c_trunc (of_int a / of_int b) = a sdiv b"
  by (auto simp: c_trunc_def signed_divide_int_def sgn_if ceiling_def floor_divide_of_int_eq
      zero_le_divide_iff minus_divide_left simp flip: of_int_minus)

section \<open>Claims\<close>

text \<open>
  C17. The retransmission timer stays well formed: started by \<open>rtt_init\<close> and driven by any
  sequence of new packets, measurements and timeouts, its timeout is between 1 and 3 seconds
  and no estimator leaves the range in which the \<^verbatim>\<open>int\<close> arithmetic of
  \<open>rtt_stop\<close> is exact.
\<close>

theorem timer_stays_ok:
  "\<exists>q. run rtt_step (rtt_init tv p) es = Inr q \<and> rtt_ok q"
proof -
  obtain q where "run rtt_step (rtt_init tv p) es = Inr q" using run_rtt_total by blast
  then show ?thesis using timer.run_inv [OF rtt_init_ok] by (auto simp: list_all_def)
qed

text \<open>
  The sender gives up on a packet after exactly twelve retransmissions: counted from
  \<open>rtt_newpack\<close>, the first twelve timeouts return 0 and the thirteenth returns -1.
\<close>

theorem timer_gives_up:
  "snd (rtt_timeout (timeouts n (rtt_newpack p))) = (if n < 12 then 0 else -1)"
  by (simp add: rtt_timeout_def Let_def timeouts_fields rtt_newpack_def rtt_const_defs)

text \<open>
  The integer estimators are the truncated values of Jacobson's formulas: with gain 1/8
  for the mean and 1/4 for the deviation, computed on reals and truncated towards zero.
\<close>

theorem rtt_stop_real:
  fixes p :: rtt_info and ms :: u32
  defines "rtt \<equiv> real_of_int (uint (ms * 8 div 1000))"
    and "srtt \<equiv> real_of_int (rtt_srtt p)" and "var \<equiv> real_of_int (rtt_rttvar p)"
  shows "rtt_srtt (rtt_stop p ms) = c_trunc (srtt + (rtt - srtt) / 8)
    \<and> rtt_rttvar (rtt_stop p ms) = c_trunc (var + (\<bar>rtt - srtt\<bar> - var) / 4)"
proof
  let ?r = "uint (ms * 8 div 1000 :: u32)"
  have "srtt + (rtt - srtt) / 8 = of_int (8 * rtt_srtt p + (?r - rtt_srtt p)) / of_int 8"
    by (simp add: rtt_def srtt_def field_simps)
  then show "rtt_srtt (rtt_stop p ms) = c_trunc (srtt + (rtt - srtt) / 8)"
    by (simp only: c_trunc_divide) (simp add: rtt_stop_def Let_def)
  have "var + (\<bar>rtt - srtt\<bar> - var) / 4
      = of_int (4 * rtt_rttvar p + (\<bar>?r - rtt_srtt p\<bar> - rtt_rttvar p)) / of_int 4"
    by (simp add: rtt_def srtt_def var_def field_simps)
  then show "rtt_rttvar (rtt_stop p ms) = c_trunc (var + (\<bar>rtt - srtt\<bar> - var) / 4)"
    by (simp only: c_trunc_divide) (simp add: rtt_stop_def Let_def abs_if)
qed

text \<open>
  Two timestamps of one timer measure the time between them: their difference in 32-bit
  arithmetic is the number of milliseconds elapsed between the two readings of the clock,
  even when the millisecond counter has wrapped around in between.
\<close>

theorem rtt_ts_elapsed:
  "rtt_ts now p - rtt_ts sent p =
     word_of_int ((tv_sec now * 1000 + tv_usec now sdiv 1000)
       - (tv_sec sent * 1000 + tv_usec sent sdiv 1000))"
  by (simp add: rtt_ts_def wi_hom_sub algebra_simps)

end
