(* ===== verification/CirQueue.thy ===== *)
theory CirQueue
  imports Prelude
begin

text \<open>
  \<^verbatim>\<open>Assignment 2/Code/CirQueue.c\<close> and \<^verbatim>\<open>CirQueue.h\<close>: the circular queue in which
  the file server keeps the datagrams that are sent and not yet acknowledged. The array is a
  list (\<open>None\<close> for a null pointer); an index outside it and a division by zero are
  undefined. The contract a client of the queue relies on is the locale \<open>bounded_queue\<close>,
  interpreted on the four operations of the source.
\<close>

section \<open>Definitions\<close>

record data =
  d_seq :: u32
  d_ts :: u32
  d_sendline :: string
  d_ack :: int

record cirqueue =
  base :: "data list option"
  front :: int
  rear :: int
  MAX_QSIZE :: int

text \<open>
  \<open>mem\<close> is what \<^verbatim>\<open>malloc\<close> returns: \<open>None\<close>, or a block whose contents the C
  library leaves unspecified.
\<close>

definition InitCirQueue :: "data list option \<Rightarrow> cirqueue \<Rightarrow> int \<Rightarrow> cirqueue outcome" where
  "InitCirQueue mem Q qsize =
     (let Q = Q\<lparr>MAX_QSIZE := qsize, base := mem\<rparr>
      in bindr (exit_if (base Q = None) 1 '''' Q) (\<lambda>Q. Inr (Q\<lparr>front := 0, rear := 0\<rparr>)))"

definition DestroyCirQueue :: "cirqueue \<Rightarrow> cirqueue" where
  "DestroyCirQueue Q = Q\<lparr>base := None, front := 0, rear := 0\<rparr>"

definition ClearCirQueue :: "cirqueue \<Rightarrow> cirqueue" where
  "ClearCirQueue Q = Q\<lparr>front := 0, rear := 0\<rparr>"

definition IsEmptyCirQueue :: "cirqueue \<Rightarrow> int" where
  "IsEmptyCirQueue Q = (if front Q = rear Q then 1 else 0)"

text \<open>\<open>None\<close>: the modulus is zero.\<close>

definition CirQueueLength :: "cirqueue \<Rightarrow> int option" where
  "CirQueueLength Q =
     (if MAX_QSIZE Q = 0 then None
      else Some ((rear Q - front Q + MAX_QSIZE Q) smod MAX_QSIZE Q))"

text \<open>\<^verbatim>\<open>Q->base[i]\<close> as a value and as the target of an assignment.\<close>

definition base_at :: "cirqueue \<Rightarrow> int \<Rightarrow> data option" where
  "base_at Q i =
     (case base Q of None \<Rightarrow> None
      | Some b \<Rightarrow> if 0 \<le> i \<and> i < int (length b) then Some (b ! nat i) else None)"

definition set_base :: "cirqueue \<Rightarrow> int \<Rightarrow> data \<Rightarrow> cirqueue outcome" where
  "set_base Q i d =
     (case base_at Q i of None \<Rightarrow> Inl (Undefined ''base'', Q)
      | Some _ \<Rightarrow> Inr (Q\<lparr>base := map_option (\<lambda>b. b[nat i := d]) (base Q)\<rparr>))"

definition EnCirQueue :: "cirqueue \<Rightarrow> data \<Rightarrow> cirqueue outcome" where
  "EnCirQueue Q input =
     bindr (set_base Q (rear Q) input) (\<lambda>Q.
     bindr (undef_if (MAX_QSIZE Q = 0) ''modulus'' Q) (\<lambda>Q.
     Inr (Q\<lparr>rear := (rear Q + 1) smod MAX_QSIZE Q\<rparr>)))"

definition DeCirQueue :: "cirqueue \<Rightarrow> cirqueue outcome" where
  "DeCirQueue Q =
     bindr (undef_if (MAX_QSIZE Q = 0) ''modulus'' Q) (\<lambda>Q.
     Inr (Q\<lparr>front := (front Q + 1) smod MAX_QSIZE Q\<rparr>))"

text \<open>
  What the queue holds: the slots from \<open>front\<close> up to \<open>rear\<close>, going round the end of
  the array; and when it is well formed.
\<close>

definition slot :: "cirqueue \<Rightarrow> nat \<Rightarrow> nat" where
  "slot Q i = nat ((front Q + int i) mod MAX_QSIZE Q)"

definition used :: "cirqueue \<Rightarrow> nat" where
  "used Q = nat ((rear Q - front Q) mod MAX_QSIZE Q)"

definition contents :: "cirqueue \<Rightarrow> data list" where
  "contents Q = map (\<lambda>i. the (base Q) ! slot Q i) [0..<used Q]"

definition cq_ok :: "cirqueue \<Rightarrow> bool" where
  "cq_ok Q \<longleftrightarrow> 0 < MAX_QSIZE Q \<and> base Q \<noteq> None \<and> length (the (base Q)) = nat (MAX_QSIZE Q)
     \<and> 0 \<le> front Q \<and> front Q < MAX_QSIZE Q \<and> 0 \<le> rear Q \<and> rear Q < MAX_QSIZE Q"

section \<open>The contract\<close>

text \<open>
  A bounded queue: a first-in first-out list that may hold one element less than its capacity.
  The client has to keep to the bound: the operations do not check it.
\<close>

locale bounded_queue =
  fixes enq :: "'q \<Rightarrow> 'a \<Rightarrow> 'e + 'q" and deq :: "'q \<Rightarrow> 'e + 'q"
    and items :: "'q \<Rightarrow> 'a list" and capacity :: "'q \<Rightarrow> int" and ok :: "'q \<Rightarrow> bool"
  assumes enq_items: "ok q \<Longrightarrow> int (length (items q)) + 1 < capacity q \<Longrightarrow>
      \<exists>r. enq q x = Inr r \<and> ok r \<and> items r = items q @ [x] \<and> capacity r = capacity q"
    and deq_items: "ok q \<Longrightarrow> items q \<noteq> [] \<Longrightarrow>
      \<exists>r. deq q = Inr r \<and> ok r \<and> items r = tl (items q) \<and> capacity r = capacity q"
begin

lemma enq_list:
  "ok q \<Longrightarrow> int (length (items q) + length xs) < capacity q \<Longrightarrow>
     \<exists>r. run_list (\<lambda>x q. enq q x) xs q = Inr r \<and> ok r \<and> items r = items q @ xs
       \<and> capacity r = capacity q"
proof (induction xs arbitrary: q)
  case Nil
  then show ?case by simp
next
  case (Cons x xs)
  then obtain r where r: "enq q x = Inr r" "ok r" "items r = items q @ [x]"
    "capacity r = capacity q"
    using enq_items [of q x] by auto
  with Cons show ?case using Cons.IH [of r] by auto
qed

lemma deq_list:
  "ok q \<Longrightarrow> n \<le> length (items q) \<Longrightarrow>
     \<exists>r. run_list (\<lambda>_. deq) (replicate n ()) q = Inr r \<and> ok r \<and> items r = drop n (items q)
       \<and> capacity r = capacity q"
proof (induction n arbitrary: q)
  case 0
  then show ?case by simp
next
  case (Suc n)
  then have "items q \<noteq> []" by auto
  with Suc obtain r where r: "deq q = Inr r" "ok r" "items r = tl (items q)"
    "capacity r = capacity q"
    using deq_items [of q] by blast
  with Suc show ?case using Suc.IH [of r] by (auto simp: drop_Suc)
qed

end

section \<open>Properties\<close>

lemma smod_nonneg: "0 \<le> a \<Longrightarrow> 0 < b \<Longrightarrow> a smod b = a mod b" for a b :: int
  by (auto simp: signed_modulo_int_def signed_divide_int_def sgn_if minus_div_mult_eq_mod)

lemma contents_length [simp]: "length (contents Q) = used Q"
  by (simp add: contents_def)

lemma contents_Nil_iff: "contents Q = [] \<longleftrightarrow> used Q = 0"
  by (simp add: contents_def)

lemma cq_ok_rear: "cq_ok Q \<Longrightarrow> rear Q = (front Q + int (used Q)) mod MAX_QSIZE Q"
  by (simp add: cq_ok_def used_def mod_simps)

lemma used_less: "cq_ok Q \<Longrightarrow> int (used Q) < MAX_QSIZE Q"
  by (simp add: cq_ok_def used_def)

lemma CirQueueLength_used:
  assumes "cq_ok Q"
  shows "CirQueueLength Q = Some (int (used Q))"
proof -
  have "(rear Q - front Q + MAX_QSIZE Q) smod MAX_QSIZE Q = (rear Q - front Q) mod MAX_QSIZE Q"
    using assms by (simp add: cq_ok_def smod_nonneg)
  with assms show ?thesis by (simp add: CirQueueLength_def used_def cq_ok_def)
qed

lemma IsEmpty_used:
  assumes "cq_ok Q"
  shows "IsEmptyCirQueue Q = 1 \<longleftrightarrow> used Q = 0"
proof -
  have "front Q = rear Q" if "(rear Q - front Q) mod MAX_QSIZE Q = 0"
  proof (rule ccontr)
    assume "front Q \<noteq> rear Q"
    with that have "\<bar>MAX_QSIZE Q\<bar> \<le> \<bar>rear Q - front Q\<bar>"
      by (intro dvd_imp_le_int) auto
    with assms show False by (auto simp: cq_ok_def)
  qed
  moreover have "0 \<le> (rear Q - front Q) mod MAX_QSIZE Q"
    using assms by (simp add: cq_ok_def)
  ultimately show ?thesis
    by (auto simp: IsEmptyCirQueue_def used_def)
qed

lemma slot_less: "cq_ok Q \<Longrightarrow> slot Q i < nat (MAX_QSIZE Q)"
  by (simp add: slot_def cq_ok_def)

lemma slot_inj:
  assumes "cq_ok Q" and "int i < MAX_QSIZE Q" and "int j < MAX_QSIZE Q" and "slot Q i = slot Q j"
  shows "i = j"
proof -
  from assms(1,4) have "(front Q + int i) mod MAX_QSIZE Q = (front Q + int j) mod MAX_QSIZE Q"
    by (simp add: slot_def cq_ok_def eq_nat_nat_iff)
  then have "int i mod MAX_QSIZE Q = int j mod MAX_QSIZE Q"
    by (metis add_diff_cancel_left' mod_diff_left_eq)
  with assms(2,3) show ?thesis by simp
qed

lemma rear_slot:
  assumes "cq_ok Q"
  shows "rear Q = int (slot Q (used Q))"
proof -
  have "0 \<le> rear Q" using assms by (simp add: cq_ok_def)
  then show ?thesis by (simp only: slot_def cq_ok_rear [OF assms, symmetric] int_nat_eq if_True)
qed

lemma EnCirQueue_eq:
  assumes "cq_ok Q"
  shows "EnCirQueue Q x =
    Inr (Q\<lparr>base := Some ((the (base Q))[nat (rear Q) := x]),
           rear := (rear Q + 1) mod MAX_QSIZE Q\<rparr>)"
proof -
  from assms obtain b where "base Q = Some b" "length b = nat (MAX_QSIZE Q)"
    by (auto simp: cq_ok_def)
  with assms show ?thesis
    by (simp add: EnCirQueue_def set_base_def base_at_def cq_ok_def smod_nonneg)
qed

lemma DeCirQueue_eq:
  "cq_ok Q \<Longrightarrow> DeCirQueue Q = Inr (Q\<lparr>front := (front Q + 1) mod MAX_QSIZE Q\<rparr>)"
  by (simp add: DeCirQueue_def cq_ok_def smod_nonneg)

lemma EnCirQueue_ok: "cq_ok Q \<Longrightarrow> EnCirQueue Q x = Inr R \<Longrightarrow> cq_ok R"
  by (auto simp: EnCirQueue_eq) (simp add: cq_ok_def)

lemma DeCirQueue_ok: "cq_ok Q \<Longrightarrow> DeCirQueue Q = Inr R \<Longrightarrow> cq_ok R"
  by (auto simp: DeCirQueue_eq) (simp add: cq_ok_def)

lemma nat_int_add_one: "nat (int n + 1) = Suc n"
  by simp

lemma EnCirQueue_contents:
  assumes "cq_ok Q" and "int (used Q) + 1 < MAX_QSIZE Q" and "EnCirQueue Q x = Inr R"
  shows "contents R = contents Q @ [x]"
proof -
  let ?n = "used Q"
  have R: "R = Q\<lparr>base := Some ((the (base Q))[nat (rear Q) := x]),
      rear := (rear Q + 1) mod MAX_QSIZE Q\<rparr>"
    using assms by (simp add: EnCirQueue_eq)
  have used: "used R = Suc ?n"
  proof -
    have "((rear Q + 1) mod MAX_QSIZE Q - front Q) mod MAX_QSIZE Q
        = ((rear Q - front Q) mod MAX_QSIZE Q + 1) mod MAX_QSIZE Q"
      by (simp add: mod_simps algebra_simps)
    also have "\<dots> = (int ?n + 1) mod MAX_QSIZE Q"
      using assms(1) by (simp add: used_def cq_ok_def)
    also have "\<dots> = int ?n + 1" using assms(2) by simp
    finally have "nat (((rear Q + 1) mod MAX_QSIZE Q - front Q) mod MAX_QSIZE Q) = Suc ?n"
      by (simp only: nat_int_add_one)
    then show ?thesis by (simp add: R used_def)
  qed
  have slot: "slot R i = slot Q i" for i by (simp add: R slot_def)
  have len: "length (the (base Q)) = nat (MAX_QSIZE Q)" using assms(1) by (simp add: cq_ok_def)
  have "(the (base Q))[slot Q ?n := x] ! slot Q i = the (base Q) ! slot Q i" if "i < ?n" for i
    using that assms slot_inj [OF assms(1), of i ?n] by (intro nth_list_update_neq) auto
  moreover have "(the (base Q))[slot Q ?n := x] ! slot Q ?n = x"
    using slot_less [OF assms(1)] len by simp
  moreover have "base R = Some ((the (base Q))[slot Q ?n := x])"
    using rear_slot [OF assms(1)] by (simp add: R)
  ultimately show ?thesis
    by (simp add: contents_def used slot)
qed

lemma DeCirQueue_contents:
  assumes "cq_ok Q" and "0 < used Q" and "DeCirQueue Q = Inr R"
  shows "contents R = tl (contents Q)"
proof -
  have R: "R = Q\<lparr>front := (front Q + 1) mod MAX_QSIZE Q\<rparr>"
    using assms by (simp add: DeCirQueue_eq)
  have "(rear Q - (front Q + 1) mod MAX_QSIZE Q) mod MAX_QSIZE Q
      = ((rear Q - front Q) mod MAX_QSIZE Q - 1) mod MAX_QSIZE Q"
    by (simp add: mod_simps algebra_simps)
  also have "\<dots> = (int (used Q) - 1) mod MAX_QSIZE Q"
    using assms(1) by (simp add: used_def cq_ok_def)
  also have "\<dots> = int (used Q) - 1" using assms(2) used_less [OF assms(1)] by simp
  finally have used: "used R = used Q - 1" using assms(2) by (simp add: R used_def)
  have slot: "slot R i = slot Q (Suc i)" for i
    by (simp add: R slot_def mod_simps algebra_simps)
  obtain n where n: "used Q = Suc n" using assms(2) by (cases "used Q") auto
  have "tl (map f [0..<Suc n]) = map (\<lambda>i. f (Suc i)) [0..<n]" for f :: "nat \<Rightarrow> data"
    by (simp add: map_Suc_upt [symmetric] upt_conv_Cons del: upt_Suc)
  moreover have "base R = base Q" by (simp add: R)
  ultimately show ?thesis by (simp add: contents_def used slot n del: upt_Suc)
qed

interpretation sendq: bounded_queue EnCirQueue DeCirQueue contents MAX_QSIZE cq_ok
proof unfold_locales
  fix Q x
  assume *: "cq_ok Q" "int (length (contents Q)) + 1 < MAX_QSIZE Q"
  then obtain R where "EnCirQueue Q x = Inr R" and "MAX_QSIZE R = MAX_QSIZE Q"
    by (simp add: EnCirQueue_eq)
  with * show "\<exists>R. EnCirQueue Q x = Inr R \<and> cq_ok R \<and> contents R = contents Q @ [x]
      \<and> MAX_QSIZE R = MAX_QSIZE Q"
    by (auto intro: EnCirQueue_ok EnCirQueue_contents)
next
  fix Q
  assume *: "cq_ok Q" "contents Q \<noteq> []"
  then obtain R where "DeCirQueue Q = Inr R" and "MAX_QSIZE R = MAX_QSIZE Q"
    by (simp add: DeCirQueue_eq)
  moreover from *(2) have "0 < used Q" by (simp add: contents_Nil_iff)
  ultimately show "\<exists>R. DeCirQueue Q = Inr R \<and> cq_ok R \<and> contents R = tl (contents Q)
      \<and> MAX_QSIZE R = MAX_QSIZE Q"
    using * by (auto intro: DeCirQueue_ok DeCirQueue_contents)
qed

lemma front_contents:
  assumes "cq_ok Q" and "0 < used Q"
  shows "base_at Q (front Q) = Some (hd (contents Q))"
proof -
  have "slot Q 0 = nat (front Q)" using assms(1) by (simp add: slot_def cq_ok_def)
  with assms show ?thesis
    by (auto simp: base_at_def cq_ok_def contents_def upt_conv_Cons)
qed

lemma InitCirQueue_ok:
  assumes "0 < n" and "length b = nat n" and "InitCirQueue (Some b) Q n = Inr R"
  shows "cq_ok R \<and> contents R = []"
  using assms by (auto simp: InitCirQueue_def Let_def cq_ok_def contents_def used_def)

section \<open>Claims\<close>

text \<open>
  C9. The send buffer is a first-in first-out queue while the client keeps to its bound: from a
  well-formed queue, storing datagrams that leave one slot free and then removing \<open>n\<close> of
  what is there leaves exactly the old and new datagrams in order without the first \<open>n\<close>,
  and neither operation stops the process.
\<close>

theorem send_buffer_fifo:
  assumes "cq_ok Q" and "int (used Q + length xs) < MAX_QSIZE Q" and "n \<le> used Q + length xs"
  shows "\<exists>R S. run_list (\<lambda>x Q. EnCirQueue Q x) xs Q = Inr R
    \<and> run_list (\<lambda>_. DeCirQueue) (replicate n ()) R = Inr S
    \<and> cq_ok S \<and> contents S = drop n (contents Q @ xs)
    \<and> CirQueueLength S = Some (int (used Q + length xs - n))"
proof -
  obtain R where R: "run_list (\<lambda>x Q. EnCirQueue Q x) xs Q = Inr R" "cq_ok R"
    "contents R = contents Q @ xs"
    using sendq.enq_list [of Q xs] assms by auto
  moreover obtain S where S: "run_list (\<lambda>_. DeCirQueue) (replicate n ()) R = Inr S" "cq_ok S"
    "contents S = drop n (contents R)"
    using sendq.deq_list [of R n] R assms(3) by auto
  moreover have "used S = used Q + length xs - n"
    using S(3) R(3) contents_length [of S] by simp
  ultimately show ?thesis by (auto simp: CirQueueLength_used)
qed

text \<open>
  A datagram stored in the last free slot empties the queue: \<open>EnCirQueue\<close> does not test
  whether the queue is full, and \<open>front = rear\<close> means empty, so after it the queue reports
  itself empty and every unacknowledged datagram in it is lost to the server.
\<close>

theorem full_queue_reads_empty:
  assumes "cq_ok Q" and "int (used Q) + 1 = MAX_QSIZE Q"
  shows "\<exists>R. EnCirQueue Q x = Inr R \<and> IsEmptyCirQueue R = 1 \<and> CirQueueLength R = Some 0
    \<and> contents R = []"
proof -
  define R where "R = Q\<lparr>base := Some ((the (base Q))[nat (rear Q) := x]),
    rear := (rear Q + 1) mod MAX_QSIZE Q\<rparr>"
  have enq: "EnCirQueue Q x = Inr R" using EnCirQueue_eq [OF assms(1)] by (simp add: R_def)
  then have ok: "cq_ok R" using EnCirQueue_ok assms(1) by blast
  have "((rear Q + 1) mod MAX_QSIZE Q - front Q) mod MAX_QSIZE Q
      = ((rear Q - front Q) mod MAX_QSIZE Q + 1) mod MAX_QSIZE Q"
    by (simp add: mod_simps algebra_simps)
  also have "\<dots> = (int (used Q) + 1) mod MAX_QSIZE Q"
    using assms(1) by (simp add: used_def cq_ok_def)
  also have "\<dots> = 0" using assms(2) by simp
  finally have "used R = 0" by (simp add: R_def used_def)
  with enq ok show ?thesis
    using IsEmpty_used [OF ok] CirQueueLength_used [OF ok] by (auto simp: contents_def)
qed

text \<open>A queue of three slots with two datagrams, for the witnesses.\<close>

definition ex_data :: "u32 \<Rightarrow> data" where
  "ex_data n = \<lparr>d_seq = n, d_ts = 0, d_sendline = ''x'', d_ack = 0\<rparr>"

definition ex_queue :: cirqueue where
  "ex_queue = \<lparr>base = Some [ex_data 3, ex_data 1, ex_data 2], front = 1, rear = 0,
     MAX_QSIZE = 3\<rparr>"

lemma ex_queue_facts: "cq_ok ex_queue" "used ex_queue = 2" "MAX_QSIZE ex_queue = 3"
  by (simp_all add: cq_ok_def used_def ex_queue_def)

theorem send_buffer_fifo_witness:
  "\<exists>R S. run_list (\<lambda>x Q. EnCirQueue Q x) [] ex_queue = Inr R
    \<and> run_list (\<lambda>_. DeCirQueue) (replicate 1 ()) R = Inr S
    \<and> cq_ok S \<and> contents S = [ex_data 2] \<and> CirQueueLength S = Some 1"
proof -
  have "contents ex_queue = [ex_data 1, ex_data 2]"
    by (simp add: contents_def ex_queue_facts) (simp add: ex_queue_def slot_def upt_rec)
  then show ?thesis
    using send_buffer_fifo [of ex_queue "[]" 1] by (simp add: ex_queue_facts)
qed

theorem full_queue_reads_empty_witness:
  "\<exists>R. EnCirQueue ex_queue (ex_data 4) = Inr R \<and> IsEmptyCirQueue R = 1
    \<and> CirQueueLength R = Some 0 \<and> contents R = []"
  by (rule full_queue_reads_empty) (simp_all add: ex_queue_facts)

end
