(* ===== verification/LinkList.thy ===== *)
theory LinkList
  imports Prelude
begin

text \<open>
  \<^verbatim>\<open>Assignment 2/Code/LinkList.c\<close> and \<^verbatim>\<open>LinkList.h\<close>: the singly linked list in
  which the file client keeps the datagrams it has received and not yet printed, ordered by
  sequence number, and in which the server keeps the clients whose handshake is going on.
  Nodes live in an explicit heap, since \<open>InsertLinkList\<close> leaves the \<open>next\<close> field of a
  node it appends as \<^verbatim>\<open>malloc\<close> returned it. A loop over a list that has become
  circular does not end: each loop is a partial function whose value \<open>None\<close> is not
  returning. The lemmas relate the heap to the list of pairs of sequence number and text it
  represents, and the locale \<open>datagram_store\<close> states what the client relies on.
\<close>

section \<open>Definitions\<close>

record node =
  n_seq :: u32
  n_recvline :: string
  n_next :: "nat option"

type_synonym heap = "nat \<Rightarrow> node option"

text \<open>
  \<^verbatim>\<open>malloc\<close> returns the address of a block with unspecified contents, or
  \<open>None\<close>. The result is never tested, so a null pointer is dereferenced.
\<close>

type_synonym block = "(nat \<times> node) option"

definition fill_node :: "block \<Rightarrow> u32 \<Rightarrow> string \<Rightarrow> heap \<Rightarrow> (stop \<times> heap) + (nat \<times> node)" where
  "fill_node mem seq recvline h =
     (case mem of None \<Rightarrow> Inl (Undefined ''new_node'', h)
      | Some (a, n) \<Rightarrow>
          if length (cstr recvline) < MAXLINE + 3
          then Inr (a, n\<lparr>n_seq := seq, n_recvline := cstr recvline\<rparr>)
          else Inl (Undefined ''strcpy'', h))"

definition set_next :: "heap \<Rightarrow> nat \<Rightarrow> nat option \<Rightarrow> heap" where
  "set_next h a p = h(a := map_option (\<lambda>n. n\<lparr>n_next := p\<rparr>) (h a))"

text \<open>
  \<^verbatim>\<open>while(head->next!=NULL && head->next->seq<seq) head=head->next;\<close>: the loop ends at
  \<open>head\<close>, or reads through a dangling pointer (\<open>Inl\<close>).
\<close>

partial_function (option) walk :: "heap \<Rightarrow> nat \<Rightarrow> u32 \<Rightarrow> (string + nat) option" where
  "walk h head seq =
     (case h head of None \<Rightarrow> Some (Inl ''head'')
      | Some n \<Rightarrow>
         (case n_next n of None \<Rightarrow> Some (Inr head)
          | Some q \<Rightarrow>
             (case h q of None \<Rightarrow> Some (Inl ''head->next'')
              | Some m \<Rightarrow> if n_seq m < seq then walk h q seq else Some (Inr head))))"

definition loop_end :: "(string + 'a) option \<Rightarrow> heap \<Rightarrow> (stop \<times> heap) + 'a" where
  "loop_end r h =
     (case r of None \<Rightarrow> Inl (Hang ''loop'', h)
      | Some (Inl m) \<Rightarrow> Inl (Undefined m, h)
      | Some (Inr x) \<Rightarrow> Inr x)"

definition InsertLinkList :: "block \<Rightarrow> heap \<Rightarrow> nat \<Rightarrow> u32 \<Rightarrow> string \<Rightarrow> heap outcome" where
  "InsertLinkList mem h L seq recvline =
     (case h L of None \<Rightarrow> Inl (Undefined ''L'', h)
      | Some l \<Rightarrow>
        (if n_next l = None then
           bindr (fill_node mem seq recvline h) (\<lambda>(a, n).
           Inr (set_next (h(a := Some (n\<lparr>n_next := None\<rparr>))) L (Some a)))
         else
           bindr (loop_end (walk h L seq) h) (\<lambda>head.
           case n_next (the (h head)) of
             None \<Rightarrow>
               bindr (fill_node mem seq recvline h) (\<lambda>(a, n).
               Inr (set_next (h(a := Some n)) head (Some a)))
           | Some temp \<Rightarrow>
               (if n_seq (the (h temp)) \<noteq> seq then
                  bindr (fill_node mem seq recvline h) (\<lambda>(a, n).
                  Inr (set_next (set_next (h(a := Some n)) head (Some a)) a (Some temp)))
                else Inr h))))"

definition DeleteLinkList :: "heap \<Rightarrow> nat \<Rightarrow> heap outcome" where
  "DeleteLinkList h L =
     (case h L of None \<Rightarrow> Inl (Undefined ''L'', h)
      | Some l \<Rightarrow>
        (case n_next l of None \<Rightarrow> Inl (Undefined ''L->next'', h)
         | Some temp \<Rightarrow>
            (case h temp of None \<Rightarrow> Inl (Undefined ''L->next'', h)
             | Some t \<Rightarrow> Inr ((set_next h L (n_next t))(temp := None)))))"

text \<open>
  The loop shared by \<open>DeleteSelectedNode\<close> and \<open>DuplicateNode\<close>, from \<open>front\<close> and
  \<open>rear\<close>: it ends with the two pointers.
\<close>

partial_function (option) find_pair ::
  "heap \<Rightarrow> nat \<Rightarrow> nat option \<Rightarrow> u32 \<Rightarrow> string \<Rightarrow> (string + nat \<times> nat option) option" where
  "find_pair h fr re port ip_addr =
     (case re of None \<Rightarrow> Some (Inr (fr, None))
      | Some r \<Rightarrow>
         (case h r of None \<Rightarrow> Some (Inl ''rear'')
          | Some n \<Rightarrow>
              if n_seq n \<noteq> port \<or> cstr (n_recvline n) \<noteq> cstr ip_addr
              then find_pair h r (n_next n) port ip_addr
              else Some (Inr (fr, Some r))))"

definition DeleteSelectedNode :: "heap \<Rightarrow> nat \<Rightarrow> u32 \<Rightarrow> string \<Rightarrow> heap outcome" where
  "DeleteSelectedNode h L port ip_addr =
     (case h L of None \<Rightarrow> Inl (Undefined ''L'', h)
      | Some l \<Rightarrow>
          bindr (loop_end (find_pair h L (n_next l) port ip_addr) h) (\<lambda>(fr, re).
          case re of None \<Rightarrow> Inr h
          | Some r \<Rightarrow> Inr ((set_next h fr (n_next (the (h r))))(r := None))))"

definition DuplicateNode :: "heap \<Rightarrow> nat \<Rightarrow> u32 \<Rightarrow> string \<Rightarrow> (stop \<times> heap) + int" where
  "DuplicateNode h L port ip_addr =
     (case h L of None \<Rightarrow> Inl (Undefined ''L'', h)
      | Some l \<Rightarrow>
          bindr (loop_end (find_pair h L (n_next l) port ip_addr) h) (\<lambda>(fr, re).
          Inr (if re \<noteq> None then 1 else 0)))"

partial_function (option) count_nodes :: "heap \<Rightarrow> nat option \<Rightarrow> nat \<Rightarrow> (string + nat) option" where
  "count_nodes h temp len =
     (case temp of None \<Rightarrow> Some (Inr len)
      | Some t \<Rightarrow>
         (case h t of None \<Rightarrow> Some (Inl ''temp'')
          | Some n \<Rightarrow> count_nodes h (n_next n) (Suc len)))"

definition LinkListLength :: "heap \<Rightarrow> nat \<Rightarrow> (stop \<times> heap) + nat" where
  "LinkListLength h L =
     (case h L of None \<Rightarrow> Inl (Undefined ''L'', h)
      | Some l \<Rightarrow> loop_end (count_nodes h (n_next l) 0) h)"

text \<open>
  The comparison of the \<^verbatim>\<open>uint32_t\<close> \<open>seq\<close> with the \<^verbatim>\<open>int\<close>
  \<open>Ack+1\<close> is unsigned, so \<open>Ack\<close> is a word.
\<close>

partial_function (option) ack_run :: "heap \<Rightarrow> nat option \<Rightarrow> u32 \<Rightarrow> (string + u32) option" where
  "ack_run h temp Ack =
     (case temp of None \<Rightarrow> Some (Inr (Ack + 1))
      | Some t \<Rightarrow>
         (case h t of None \<Rightarrow> Some (Inl ''temp'')
          | Some n \<Rightarrow> if n_seq n = Ack + 1 then ack_run h (n_next n) (n_seq n)
                      else Some (Inr (Ack + 1))))"

definition NextAck :: "heap \<Rightarrow> nat \<Rightarrow> u32 \<Rightarrow> (stop \<times> heap) + u32" where
  "NextAck h L start =
     (case h L of None \<Rightarrow> Inl (Undefined ''L'', h)
      | Some l \<Rightarrow> loop_end (ack_run h (n_next l) start) h)"

section \<open>What a list in the heap represents\<close>

text \<open>
  \<open>path h p xs q\<close>: following \<open>next\<close> from \<open>p\<close> visits the nodes \<open>xs\<close> (address,
  sequence number, text) and ends at \<open>q\<close>.
\<close>

type_synonym cell = "nat \<times> u32 \<times> string"

fun path :: "heap \<Rightarrow> nat option \<Rightarrow> cell list \<Rightarrow> nat option \<Rightarrow> bool" where
  "path h p [] q = (p = q)"
| "path h p ((a, s, t) # xs) q =
     (p = Some a \<and> (case h a of None \<Rightarrow> False
        | Some n \<Rightarrow> n_seq n = s \<and> n_recvline n = t \<and> path h (n_next n) xs q))"

definition llist :: "heap \<Rightarrow> nat \<Rightarrow> cell list \<Rightarrow> bool" where
  "llist h L xs \<longleftrightarrow> (\<exists>n. h L = Some n \<and> path h (n_next n) xs None)"

abbreviation addrs :: "cell list \<Rightarrow> nat list" where
  "addrs xs \<equiv> map fst xs"

text \<open>The list operations the heap operations stand for.\<close>

fun ins :: "u32 \<Rightarrow> string \<Rightarrow> (u32 \<times> string) list \<Rightarrow> (u32 \<times> string) list" where
  "ins k v [] = [(k, v)]"
| "ins k v ((a, b) # ps) =
     (if a < k then (a, b) # ins k v ps else if a = k then (a, b) # ps else (k, v) # (a, b) # ps)"

fun next_ack :: "u32 \<Rightarrow> (u32 \<times> string) list \<Rightarrow> u32" where
  "next_ack start [] = start + 1"
| "next_ack start ((k, v) # ps) = (if k = start + 1 then next_ack k ps else start + 1)"

abbreviation sorted_seq :: "(u32 \<times> string) list \<Rightarrow> bool" where
  "sorted_seq ps \<equiv> sorted_wrt (<) (map fst ps)"

section \<open>Properties of the representation\<close>

lemma path_append:
  "path h p (xs @ ys) q \<longleftrightarrow> (\<exists>r. path h p xs r \<and> path h r ys q)"
  by (induction xs arbitrary: p) (auto split: option.splits)

lemma path_upd [simp]: "a \<notin> set (addrs xs) \<Longrightarrow> path (h(a := v)) p xs q = path h p xs q"
  by (induction xs arbitrary: p) (auto split: option.splits)

lemma path_set_next [simp]:
  "a \<notin> set (addrs xs) \<Longrightarrow> path (set_next h a r) p xs q = path h p xs q"
  by (simp add: set_next_def)

lemma path_unique:
  "path h p xs None \<Longrightarrow> path h p ys None \<Longrightarrow> xs = ys"
proof (induction xs arbitrary: p ys)
  case Nil
  then show ?case by (cases ys) auto
next
  case (Cons x xs)
  then show ?case by (cases x; cases ys) (auto split: option.splits)
qed

lemma path_distinct: "path h p xs None \<Longrightarrow> distinct (addrs xs)"
proof (induction xs arbitrary: p)
  case Nil
  then show ?case by simp
next
  case (Cons x xs)
  obtain a s t where x: "x = (a, s, t)" by (cases x)
  with Cons.prems obtain n where n: "h a = Some n" "path h (n_next n) xs None" and p: "p = Some a"
    by (auto split: option.splits)
  have "a \<notin> set (addrs xs)"
  proof
    assume "a \<in> set (addrs xs)"
    then obtain ys zs s' t' where xs: "xs = ys @ (a, s', t') # zs"
      by (auto dest!: split_list)
    with n(2) obtain r where "path h r ((a, s', t') # zs) None"
      by (auto simp: path_append)
    then have "path h (Some a) ((a, s', t') # zs) None" by auto
    moreover have "path h (Some a) (x # xs) None" using Cons.prems p by simp
    ultimately have "(a, s', t') # zs = x # xs" by (rule path_unique)
    then show False using xs by (auto dest: arg_cong [where f = length])
  qed
  with Cons.IH [OF n(2)] x show ?case by simp
qed

lemma path_tl:
  "path h (Some L) ((L, s, t) # xs) q \<Longrightarrow> \<exists>l. h L = Some l \<and> path h (n_next l) xs q"
  by (auto split: option.splits)

lemma path_allocated: "path h p xs q \<Longrightarrow> a \<in> set (addrs xs) \<Longrightarrow> h a \<noteq> None"
proof (induction xs arbitrary: p)
  case (Cons x xs)
  then show ?case by (cases x) (auto split: option.splits)
qed simp

text \<open>The list seen from its header: the header is the first node of the path.\<close>

lemma llist_path:
  "llist h L xs \<longleftrightarrow> (\<exists>s t. path h (Some L) ((L, s, t) # xs) None)"
  by (auto simp: llist_def split: option.splits)

lemma llist_distinct: "llist h L xs \<Longrightarrow> distinct (L # addrs xs)"
proof -
  assume "llist h L xs"
  then obtain s t where "path h (Some L) ((L, s, t) # xs) None" by (auto simp: llist_path)
  then have "distinct (addrs ((L, s, t) # xs))" by (rule path_distinct)
  then show ?thesis by simp
qed

lemma path_relink:
  assumes "path h p (ys @ [(b, s, t)]) r" and "path h (n_next n) zs q"
    and "distinct (addrs (ys @ (b, s, t) # zs))" and "a \<notin> set (addrs (ys @ (b, s, t) # zs))"
  shows "path (set_next (h(a := Some n)) b (Some a)) p
           (ys @ (b, s, t) # (a, n_seq n, n_recvline n) # zs) q"
  using assms
  by (auto simp: path_append set_next_def split: option.splits)

section \<open>Correctness of the operations\<close>

lemma walk_path:
  assumes "h a = Some n" and "path h (n_next n) xs None"
  shows "walk h a k = Some (Inr (last (a # addrs (takeWhile (\<lambda>x. fst (snd x) < k) xs))))"
  using assms
proof (induction xs arbitrary: a n)
  case Nil
  then show ?case by (simp add: walk.simps)
next
  case (Cons x xs)
  then show ?case
    by (cases x) (subst walk.simps, auto split: option.splits)
qed

lemma count_nodes_path:
  "path h p xs None \<Longrightarrow> count_nodes h p m = Some (Inr (m + length xs))"
proof (induction xs arbitrary: p m)
  case Nil
  then show ?case by (simp add: count_nodes.simps)
next
  case (Cons x xs)
  then show ?case by (cases x) (subst count_nodes.simps, auto split: option.splits)
qed

lemma count_nodes_dangling:
  "path h p xs (Some b) \<Longrightarrow> h b = None \<Longrightarrow> count_nodes h p m = Some (Inl ''temp'')"
proof (induction xs arbitrary: p m)
  case Nil
  then show ?case by (simp add: count_nodes.simps)
next
  case (Cons x xs)
  then show ?case by (cases x) (subst count_nodes.simps, auto split: option.splits)
qed

lemma ack_run_path:
  "path h p xs None \<Longrightarrow> ack_run h p k = Some (Inr (next_ack k (map snd xs)))"
proof (induction xs arbitrary: p k)
  case Nil
  then show ?case by (simp add: ack_run.simps)
next
  case (Cons x xs)
  then show ?case by (cases x) (subst ack_run.simps, auto split: option.splits)
qed

definition other :: "u32 \<Rightarrow> string \<Rightarrow> cell \<Rightarrow> bool" where
  "other port ip x \<longleftrightarrow> fst (snd x) \<noteq> port \<or> cstr (snd (snd x)) \<noteq> cstr ip"

lemma other_cell: "other port ip (a, s, t) \<longleftrightarrow> s \<noteq> port \<or> cstr t \<noteq> cstr ip"
  by (simp add: other_def)

lemma find_pair_path:
  "path h p xs None \<Longrightarrow>
     find_pair h f p port ip =
       Some (Inr (last (f # addrs (takeWhile (other port ip) xs)),
         (case dropWhile (other port ip) xs of [] \<Rightarrow> None | x # _ \<Rightarrow> Some (fst x))))"
proof (induction xs arbitrary: p f)
  case Nil
  then show ?case by (simp add: find_pair.simps)
next
  case (Cons x xs)
  then show ?case
    by (cases x) (subst find_pair.simps, auto simp: other_cell split: option.splits)
qed

lemma LinkListLength_llist: "llist h L xs \<Longrightarrow> LinkListLength h L = Inr (length xs)"
  by (auto simp: llist_def LinkListLength_def loop_end_def count_nodes_path)

lemma NextAck_llist: "llist h L xs \<Longrightarrow> NextAck h L k = Inr (next_ack k (map snd xs))"
  by (auto simp: llist_def NextAck_def loop_end_def ack_run_path)

lemma DuplicateNode_llist:
  assumes "llist h L xs"
  shows "DuplicateNode h L port ip =
    Inr (if \<exists>x \<in> set xs. \<not> other port ip x then 1 else 0)"
proof -
  from assms obtain l where l: "h L = Some l" "path h (n_next l) xs None"
    by (auto simp: llist_def)
  have "dropWhile (other port ip) xs = [] \<longleftrightarrow> \<not> (\<exists>x \<in> set xs. \<not> other port ip x)"
    unfolding dropWhile_eq_Nil_conv by blast
  then show ?thesis
    unfolding DuplicateNode_def
    by (cases "dropWhile (other port ip) xs")
      (simp_all add: l loop_end_def find_pair_path [OF l(2)] del: dropWhile_eq_Nil_conv)
qed

lemma DeleteLinkList_llist:
  assumes "llist h L (x # xs)"
  shows "\<exists>g. DeleteLinkList h L = Inr g \<and> llist g L xs"
proof -
  obtain a s t where x: "x = (a, s, t)" by (cases x)
  from llist_distinct [OF assms] x have "L \<noteq> a" "L \<notin> set (addrs xs)" "a \<notin> set (addrs xs)" by auto
  with assms x show ?thesis
    by (auto simp: llist_def DeleteLinkList_def set_next_def split: option.splits)
qed

text \<open>
  Insertion. The nodes with a smaller sequence number come before the new one; a sequence
  number that is already there is not inserted again.
\<close>

lemma ins_split:
  "ins k v ps =
    (case dropWhile (\<lambda>p. fst p < k) ps of [] \<Rightarrow> ps @ [(k, v)]
     | q # qs \<Rightarrow> if fst q = k then ps else takeWhile (\<lambda>p. fst p < k) ps @ (k, v) # q # qs)"
  by (induction ps) (auto simp del: dropWhile_eq_Nil_conv split: list.splits)

lemma split_cells:
  fixes P :: "u32 \<Rightarrow> bool"
  shows "map snd (takeWhile (\<lambda>x. P (fst (snd x))) xs) = takeWhile (\<lambda>p. P (fst p)) (map snd xs)"
    and "map snd (dropWhile (\<lambda>x. P (fst (snd x))) xs) = dropWhile (\<lambda>p. P (fst p)) (map snd xs)"
  by (simp_all add: takeWhile_map dropWhile_map comp_def)

lemma path_insert:
  assumes "path h (Some L) ((L, s, t) # ys) r" and "path h (n_next n) zs q"
    and "distinct (L # addrs (ys @ zs))" and "a \<notin> set (L # addrs (ys @ zs))"
  shows "path (set_next (h(a := Some n)) (last (L # addrs ys)) (Some a)) (Some L)
           ((L, s, t) # ys @ (a, n_seq n, n_recvline n) # zs) q"
proof -
  obtain us b s' t' where us: "(L, s, t) # ys = us @ [(b, s', t')]"
    by (cases "(L, s, t) # ys" rule: rev_cases) auto
  have "addrs ((L, s, t) # ys) = addrs (us @ [(b, s', t')])" by (simp only: us)
  then have "L # addrs ys = addrs us @ [b]" by simp
  then have b: "b = last (L # addrs ys)" by (simp only: last_snoc)
  have eq: "(L, s, t) # ys @ vs = us @ (b, s', t') # vs" for vs
    using us by (metis append.assoc append_Cons append_Nil)
  have "distinct (addrs ((L, s, t) # ys @ zs))" "a \<notin> set (addrs ((L, s, t) # ys @ zs))"
    using assms(3,4) by auto
  then show ?thesis
    using path_relink [OF assms(1) [unfolded us] assms(2)] unfolding eq b by blast
qed

abbreviation first_addr :: "cell list \<Rightarrow> nat option" where
  "first_addr zs \<equiv> (case zs of [] \<Rightarrow> None | z # _ \<Rightarrow> Some (fst z))"

lemma path_first: "path h p zs None \<Longrightarrow> p = first_addr zs"
  by (cases zs) auto

lemma last_next:
  assumes "llist h L (ys @ zs)"
  shows "n_next (the (h (last (L # addrs ys)))) = first_addr zs"
proof -
  from assms obtain s t where "path h (Some L) (((L, s, t) # ys) @ zs) None"
    by (auto simp: llist_path)
  then obtain r where r: "path h (Some L) ((L, s, t) # ys) r" "path h r zs None"
    unfolding path_append by blast
  obtain us b s' t' where us: "(L, s, t) # ys = us @ [(b, s', t')]"
    by (cases "(L, s, t) # ys" rule: rev_cases) auto
  have "addrs ((L, s, t) # ys) = addrs (us @ [(b, s', t')])" by (simp only: us)
  then have "L # addrs ys = addrs us @ [b]" by simp
  then have "b = last (L # addrs ys)" by (simp only: last_snoc)
  moreover from r(1) us have "n_next (the (h b)) = r"
    by (auto simp: path_append split: option.splits)
  ultimately show ?thesis using path_first [OF r(2)] by simp
qed

text \<open>A list whose last node may have any \<open>next\<close>.\<close>

definition list_from :: "heap \<Rightarrow> nat \<Rightarrow> cell list \<Rightarrow> nat option \<Rightarrow> bool" where
  "list_from h L xs q \<longleftrightarrow> (\<exists>n. h L = Some n \<and> path h (n_next n) xs q)"

lemma list_from_llist: "list_from h L xs None = llist h L xs"
  by (simp add: list_from_def llist_def)

lemma list_from_path: "list_from h L xs q \<longleftrightarrow> (\<exists>s t. path h (Some L) ((L, s, t) # xs) q)"
  by (auto simp: list_from_def split: option.splits)

lemma insert_between:
  assumes "llist h L (ys @ zs)" and "a \<notin> set (L # addrs (ys @ zs))"
    and "zs \<noteq> [] \<Longrightarrow> n_next n = first_addr zs"
  shows "list_from (set_next (h(a := Some n)) (last (L # addrs ys)) (Some a)) L
           (ys @ (a, n_seq n, n_recvline n) # zs) (if zs = [] then n_next n else None)"
proof -
  from assms(1) obtain s t where full: "path h (Some L) (((L, s, t) # ys) @ zs) None"
    by (auto simp: llist_path)
  then obtain r where r: "path h (Some L) ((L, s, t) # ys) r" "path h r zs None"
    unfolding path_append by blast
  have "path h (n_next n) zs (if zs = [] then n_next n else None)"
    using r(2) assms(3) path_first [OF r(2)] by auto
  with r(1) show ?thesis
    using path_insert llist_distinct [OF assms(1)] assms(2) unfolding list_from_path by blast
qed

text \<open>
  The one branch that does not set the \<open>next\<close> field of the new node: the list is not empty and
  the search ended at its last node.
\<close>

definition behind_last :: "heap \<Rightarrow> nat \<Rightarrow> u32 \<Rightarrow> bool" where
  "behind_last h L k \<longleftrightarrow>
     (case h L of None \<Rightarrow> False
      | Some l \<Rightarrow> n_next l \<noteq> None \<and>
          (case walk h L k of
             Some (Inr head) \<Rightarrow> n_next (the (h head)) = None
           | _ \<Rightarrow> False))"

lemma behind_last_llist:
  assumes "llist h L xs"
  shows "behind_last h L k \<longleftrightarrow> xs \<noteq> [] \<and> (\<forall>x \<in> set xs. fst (snd x) < k)"
proof -
  let ?pre = "takeWhile (\<lambda>x. fst (snd x) < k) xs" and ?post = "dropWhile (\<lambda>x. fst (snd x) < k) xs"
  from assms obtain l where l: "h L = Some l" "path h (n_next l) xs None"
    by (auto simp: llist_def)
  have "n_next (the (h (last (L # addrs ?pre)))) = first_addr ?post"
    using last_next [of h L ?pre ?post] assms by simp
  then have post: "n_next (the (h (last (L # addrs ?pre)))) = None \<longleftrightarrow> ?post = []"
    by (cases ?post) simp_all
  have empty: "n_next l = None \<longleftrightarrow> xs = []" using path_first [OF l(2)] by (auto split: list.splits)
  show ?thesis
    unfolding behind_last_def l(1) walk_path [OF l] option.case sum.case post empty dropWhile_eq_Nil_conv ..
qed

lemma InsertLinkList_list:
  assumes "llist h L xs" and fresh: "a \<notin> set (L # addrs xs)"
    and fits: "length (cstr line) < MAXLINE + 3"
  shows "\<exists>g ys. InsertLinkList (Some (a, n)) h L k line = Inr g
    \<and> list_from g L ys (if behind_last h L k then n_next n else None)
    \<and> map snd ys = ins k (cstr line) (map snd xs) \<and> set (addrs ys) \<subseteq> insert a (set (addrs xs))"
proof -
  define pre post where "pre = takeWhile (\<lambda>x. fst (snd x) < k) xs"
    and "post = dropWhile (\<lambda>x. fst (snd x) < k) xs"
  have xs: "xs = pre @ post" by (simp add: pre_def post_def)
  let ?n = "n\<lparr>n_seq := k, n_recvline := cstr line\<rparr>"
  let ?head = "last (L # addrs pre)"
  have map: "takeWhile (\<lambda>p. fst p < k) (map snd xs) = map snd pre"
    "dropWhile (\<lambda>p. fst p < k) (map snd xs) = map snd post"
    by (simp_all add: pre_def post_def split_cells [where P = "\<lambda>s. s < k"])
  from assms(1) obtain l where l: "h L = Some l" "path h (n_next l) xs None"
    by (auto simp: llist_def)
  have walk: "walk h L k = Some (Inr ?head)" using walk_path [OF l] by (simp add: pre_def)
  have nxt: "n_next (the (h ?head)) = first_addr post"
    using last_next assms(1) xs by simp
  have insert: "list_from (set_next (h(a := Some m)) ?head (Some a)) L
      (pre @ (a, n_seq m, n_recvline m) # post) (if post = [] then n_next m else None)"
    if "post \<noteq> [] \<Longrightarrow> n_next m = first_addr post" for m
    using insert_between [of h L pre post a m] assms(1) fresh xs that by simp
  have empty: "n_next l = None \<longleftrightarrow> xs = []" using path_first [OF l(2)] by (auto split: list.splits)
  have behind: "behind_last h L k \<longleftrightarrow> xs \<noteq> [] \<and> post = []"
    unfolding behind_last_llist [OF assms(1)] post_def dropWhile_eq_Nil_conv by simp
  show ?thesis
  proof (cases post)
    case Nil
    let ?m = "if xs = [] then ?n\<lparr>n_next := None\<rparr> else ?n"
    have "InsertLinkList (Some (a, n)) h L k line = Inr (set_next (h(a := Some ?m)) ?head (Some a))"
      using nxt walk l empty xs fits Nil
      by (auto simp: InsertLinkList_def fill_node_def loop_end_def)
    moreover have "ins k (cstr line) (map snd xs) = map snd (pre @ [(a, k, cstr line)])"
      unfolding ins_split map using Nil xs by simp
    moreover have "n_next ?m = (if behind_last h L k then n_next n else None)"
      using Nil behind by simp
    ultimately show ?thesis
      using insert [of ?m] Nil xs
      by (intro exI [of _ "pre @ [(a, k, cstr line)]"] exI conjI) auto
  next
    case (Cons z zs)
    have z: "h (fst z) \<noteq> None \<and> n_seq (the (h (fst z))) = fst (snd z)"
      using l(2) xs Cons by (cases z) (auto simp: path_append split: option.splits)
    have ne: "n_next l \<noteq> None" using empty xs Cons by simp
    have "?head \<in> set (L # addrs pre)" by (rule last_in_set) simp
    moreover have "a \<notin> set (L # addrs pre)" using fresh xs by auto
    ultimately have a: "a \<noteq> ?head" by metis
    show ?thesis
    proof (cases "fst (snd z) = k")
      case True
      then have "InsertLinkList (Some (a, n)) h L k line = Inr h"
        using nxt walk l ne z Cons by (auto simp: InsertLinkList_def loop_end_def)
      moreover have "ins k (cstr line) (map snd xs) = map snd xs"
        using True Cons map by (simp add: ins_split)
      ultimately show ?thesis using assms(1) behind Cons
        by (intro exI [of _ h] exI [of _ xs]) (auto simp: list_from_llist)
    next
      case False
      have "InsertLinkList (Some (a, n)) h L k line
          = Inr (set_next (set_next (h(a := Some ?n)) ?head (Some a)) a (Some (fst z)))"
        using nxt walk l ne z Cons False fits
        by (auto simp: InsertLinkList_def fill_node_def loop_end_def)
      also have "set_next (set_next (h(a := Some ?n)) ?head (Some a)) a (Some (fst z))
          = set_next (h(a := Some (?n\<lparr>n_next := Some (fst z)\<rparr>))) ?head (Some a)"
        using a by (auto simp: set_next_def fun_eq_iff)
      finally show ?thesis
        using insert [of "?n\<lparr>n_next := Some (fst z)\<rparr>"] Cons xs map False behind
        by (intro exI [of _ "pre @ (a, k, cstr line) # post"] exI conjI) (auto simp: ins_split)
    qed
  qed
qed

lemma ins_keys: "fst ` set (ins k v ps) = insert k (fst ` set ps)"
  by (induction k v ps rule: ins.induct) (simp_all add: insert_commute)

lemma ins_old: "p \<in> set ps \<Longrightarrow> p \<in> set (ins k v ps)"
  by (induction ps) auto

lemma ins_new: "p \<in> set (ins k v ps) \<Longrightarrow> p = (k, v) \<or> p \<in> set ps"
  by (induction ps) (auto split: if_splits)

lemma ins_sorted: "sorted_seq ps \<Longrightarrow> sorted_seq (ins k v ps)"
proof (induction ps)
  case (Cons p ps)
  moreover have "fst ` set (ins k v ps) = insert k (fst ` set ps)" by (rule ins_keys)
  ultimately show ?case by (cases p) (auto simp: less_trans)
qed simp

lemma ins_length:
  assumes "sorted_seq ps"
  shows "length (ins k v ps) = (if k \<in> fst ` set ps then length ps else Suc (length ps))"
proof -
  have "length qs = card (fst ` set qs)" if "sorted_seq qs" for qs :: "(u32 \<times> string) list"
    using that by (metis distinct_card length_map set_map strict_sorted_iff)
  then have "length (ins k v ps) = card (insert k (fst ` set ps))" and "length ps = card (fst ` set ps)"
    using ins_sorted [OF assms] assms ins_keys by metis+
  then show ?thesis by (auto simp: insert_absorb)
qed

lemma DeleteSelectedNode_llist:
  assumes "llist h L xs"
  shows "\<exists>g. DeleteSelectedNode h L port ip = Inr g
    \<and> llist g L (takeWhile (other port ip) xs @ tl (dropWhile (other port ip) xs))"
proof -
  define pre post where "pre = takeWhile (other port ip) xs" and "post = dropWhile (other port ip) xs"
  have xs: "xs = pre @ post" by (simp add: pre_def post_def)
  from assms obtain s t where full: "path h (Some L) (((L, s, t) # pre) @ post) None"
    by (auto simp: llist_path xs)
  from assms obtain l where l: "h L = Some l" "path h (n_next l) xs None" by (auto simp: llist_def)
  have find: "find_pair h L (n_next l) port ip
      = Some (Inr (last (L # addrs pre), first_addr post))"
    using find_pair_path [OF l(2)] by (simp add: pre_def post_def)
  show ?thesis
  proof (cases post)
    case Nil
    then have "DeleteSelectedNode h L port ip = Inr h"
      using find l by (simp add: DeleteSelectedNode_def loop_end_def)
    moreover have "takeWhile (other port ip) xs @ tl (dropWhile (other port ip) xs) = xs"
      unfolding pre_def [symmetric] post_def [symmetric] using xs Nil by simp
    ultimately show ?thesis using assms by simp
  next
    case (Cons z zs)
    obtain r sz tz where z: "z = (r, sz, tz)" by (cases z)
    obtain us b s' t' where us: "(L, s, t) # pre = us @ [(b, s', t')]"
      by (cases "(L, s, t) # pre" rule: rev_cases) auto
    have "addrs ((L, s, t) # pre) = addrs (us @ [(b, s', t')])" by (simp only: us)
    then have "L # addrs pre = addrs us @ [b]" by simp
    then have b: "last (L # addrs pre) = b" by (simp only: last_snoc)
    have dist: "distinct (addrs ((us @ [(b, s', t')]) @ (r, sz, tz) # zs))"
      using path_distinct [OF full] unfolding us Cons z .
    have path: "path h (Some L) ((us @ [(b, s', t')]) @ (r, sz, tz) # zs) None"
      using full unfolding us Cons z .
    let ?g = "(set_next h b (n_next (the (h r))))(r := None)"
    have "path ?g (Some L) ((us @ [(b, s', t')]) @ zs) None"
      using path dist by (auto simp: path_append set_next_def split: option.splits)
    then have "path ?g (Some L) ((L, s, t) # pre @ zs) None" unfolding us [symmetric] append_Cons .
    then have "llist ?g L (pre @ zs)" unfolding llist_path by blast
    moreover have "DeleteSelectedNode h L port ip = Inr ?g"
      using find l Cons z b by (simp add: DeleteSelectedNode_def loop_end_def)
    ultimately show ?thesis using Cons by (simp flip: pre_def post_def)
  qed
qed

lemma word_less_inc: "x < y \<Longrightarrow> x < x + 1" for x y :: u32
  using uint_lt2p [of y] uint_ge_0 [of x] by (auto simp: word_less_alt uint_word_ariths)

lemma next_ack_least:
  assumes "sorted_seq ps" and "\<And>p. p \<in> set ps \<Longrightarrow> start < fst p \<and> fst p < - 1" and "start < - 1"
  shows "start < next_ack start ps \<and> next_ack start ps \<notin> fst ` set ps
    \<and> (\<forall>j. start < j \<and> j < next_ack start ps \<longrightarrow> j \<in> fst ` set ps)"
  using assms
proof (induction ps arbitrary: start)
  case Nil
  then show ?case using word_less_inc [of start "- 1"] by (auto dest: inc_le)
next
  case (Cons p ps)
  obtain k v where p: "p = (k, v)" by (cases p)
  from Cons.prems(2) [of p] p have k: "start < k" "k < - 1" by simp_all
  from Cons.prems p have tail: "sorted_seq ps" "\<And>q. q \<in> set ps \<Longrightarrow> k < fst q \<and> fst q < - 1"
    by force+
  show ?case
  proof (cases "k = start + 1")
    case True
    from Cons.IH [OF tail k(2)] have IH: "k < next_ack k ps" "next_ack k ps \<notin> fst ` set ps"
      "\<And>j. k < j \<Longrightarrow> j < next_ack k ps \<Longrightarrow> j \<in> fst ` set ps" by auto
    have "j \<in> fst ` set (p # ps)" if "start < j" "j < next_ack k ps" for j
    proof (cases "j = k")
      case False
      have "k \<le> j" using True that(1) by (simp add: inc_le)
      with False IH(3) that(2) show ?thesis by auto
    qed (use p in auto)
    with True IH p k show ?thesis by auto
  next
    case False
    have "start + 1 \<le> k" "start < start + 1" using inc_le [OF k(1)] word_less_inc [OF k(1)] by auto
    with False have "start + 1 < k" by auto
    moreover have "start + 1 \<noteq> fst q" if "q \<in> set ps" for q
      using tail(2) [OF that] \<open>start + 1 < k\<close> by auto
    moreover have "\<not> (start < j \<and> j < start + 1)" for j using inc_le [of start j] by auto
    ultimately show ?thesis using False p \<open>start < start + 1\<close> by auto
  qed
qed

section \<open>The contract of the store\<close>

text \<open>
  What the receiver relies on: putting a datagram into the store inserts it at the place its
  sequence number gives it, and the acknowledgement number and the number of datagrams are
  those of the stored list.
\<close>

locale datagram_store =
  fixes put :: "'m \<Rightarrow> 'h \<Rightarrow> u32 \<Rightarrow> string \<Rightarrow> 'e + 'h"
    and ack :: "'h \<Rightarrow> u32 \<Rightarrow> 'e + u32"
    and count :: "'h \<Rightarrow> 'e + nat"
    and holds :: "'h \<Rightarrow> (u32 \<times> string) list \<Rightarrow> bool"
    and usable :: "u32 \<Rightarrow> 'm \<Rightarrow> 'h \<Rightarrow> bool"
    and fits :: "string \<Rightarrow> bool"
  assumes put_ins: "holds h ps \<Longrightarrow> usable k m h \<Longrightarrow> fits t \<Longrightarrow>
      \<exists>g. put m h k t = Inr g \<and> holds g (ins k (cstr t) ps)"
    and ack_holds: "holds h ps \<Longrightarrow> ack h k = Inr (next_ack k ps)"
    and count_holds: "holds h ps \<Longrightarrow> count h = Inr (length ps)"
begin

lemma put_sorted:
  assumes "holds h ps" and "sorted_seq ps" and "usable k m h" and "fits t"
  shows "\<exists>g qs. put m h k t = Inr g \<and> holds g qs \<and> sorted_seq qs
    \<and> fst ` set qs = insert k (fst ` set ps) \<and> set ps \<subseteq> set qs
    \<and> count g = Inr (if k \<in> fst ` set ps then length ps else Suc (length ps))"
proof -
  obtain g where "put m h k t = Inr g" "holds g (ins k (cstr t) ps)"
    using put_ins assms by blast
  moreover have "set ps \<subseteq> set (ins k (cstr t) ps)" using ins_old by blast
  ultimately show ?thesis
    using count_holds [of g] ins_sorted [OF assms(2)] ins_keys ins_length [OF assms(2)]
    by (intro exI [of _ g] exI [of _ "ins k (cstr t) ps"]) auto
qed

lemma put_ack_mono:
  assumes "holds h ps" and "sorted_seq ps" and "usable k m h" and "fits t"
    and "\<And>p. p \<in> set ps \<Longrightarrow> start < fst p \<and> fst p < - 1" and "start < k" and "k < - 1"
    and "put m h k t = Inr g" and "ack h start = Inr a" and "ack g start = Inr b"
  shows "a \<le> b"
proof (rule ccontr)
  assume "\<not> a \<le> b"
  have g: "holds g (ins k (cstr t) ps)" using put_ins [OF assms(1,3,4)] assms(8) by auto
  have a: "a = next_ack start ps" and b: "b = next_ack start (ins k (cstr t) ps)"
    using ack_holds [OF assms(1), of start] ack_holds [OF g, of start] assms(9,10) by auto
  have "start < - 1" using assms(6,7) by simp
  then have la: "\<forall>j. start < j \<and> j < a \<longrightarrow> j \<in> fst ` set ps"
    using next_ack_least assms(2,5) a by blast
  have bounds: "start < fst p \<and> fst p < - 1" if "p \<in> set (ins k (cstr t) ps)" for p
    using ins_new [OF that] assms(5) [of p] assms(6,7) by auto
  have "start < b \<and> b \<notin> fst ` set (ins k (cstr t) ps)"
    using next_ack_least [OF ins_sorted [OF assms(2)] bounds \<open>start < - 1\<close>] unfolding b by simp
  with la \<open>\<not> a \<le> b\<close> show False by (auto simp: ins_keys)
qed

end

definition holds :: "nat \<Rightarrow> heap \<Rightarrow> (u32 \<times> string) list \<Rightarrow> bool" where
  "holds L h ps \<longleftrightarrow> (\<exists>xs. llist h L xs \<and> map snd xs = ps)"

text \<open>
  A block of memory that is not in use, and whose unspecified \<open>next\<close> field happens to be null where
  nothing sets it: when the datagram is appended behind the last node.
\<close>

definition ready_block :: "nat \<Rightarrow> u32 \<Rightarrow> block \<Rightarrow> heap \<Rightarrow> bool" where
  "ready_block L k mem h \<longleftrightarrow>
     (case mem of None \<Rightarrow> False
      | Some (a, n) \<Rightarrow> h a = None \<and> (behind_last h L k \<longrightarrow> n_next n = None))"

lemma ready_block_null: "h a = None \<Longrightarrow> n_next n = None \<Longrightarrow> ready_block L k (Some (a, n)) h"
  by (simp add: ready_block_def)

lemma llist_fresh: "llist h L xs \<Longrightarrow> h a = None \<Longrightarrow> a \<notin> set (L # addrs xs)"
proof -
  assume "llist h L xs" and "h a = None"
  then obtain s t where "path h (Some L) ((L, s, t) # xs) None" by (auto simp: llist_path)
  then have "a \<notin> set (addrs ((L, s, t) # xs))" using \<open>h a = None\<close> path_allocated by blast
  then show ?thesis by simp
qed

interpretation recv_store: datagram_store "\<lambda>m h. InsertLinkList m h L" "\<lambda>h. NextAck h L"
  "\<lambda>h. LinkListLength h L" "holds L" "ready_block L" "\<lambda>t. length (cstr t) < MAXLINE + 3" for L
proof unfold_locales
  fix h ps m t k
  assume "holds L h ps" and "ready_block L k m h" and fits: "length (cstr t) < MAXLINE + 3"
  then obtain xs a n where xs: "llist h L xs" "map snd xs = ps"
    and m: "m = Some (a, n)" "h a = None" "behind_last h L k \<longrightarrow> n_next n = None"
    by (auto simp: holds_def ready_block_def split: option.splits)
  then have "(if behind_last h L k then n_next n else None) = None" by simp
  then show "\<exists>g. InsertLinkList m h L k t = Inr g \<and> holds L g (ins k (cstr t) ps)"
    using InsertLinkList_list [OF xs(1) llist_fresh [OF xs(1) m(2)] fits, of n k]
    unfolding holds_def m(1) xs(2) by (metis list_from_llist)
next
  fix h ps k
  assume "holds L h ps"
  then show "NextAck h L k = Inr (next_ack k ps)" "LinkListLength h L = Inr (length ps)"
    by (auto simp: holds_def NextAck_llist LinkListLength_llist)
qed

section \<open>Claims\<close>

text \<open>
  C8. The client's receive list is an ordered set of datagrams: inserting a datagram into fresh
  memory keeps the nodes linked from the header strictly ordered by sequence number, adds its
  number, keeps every datagram that was there and its text, and drops a duplicate. The list
  ends with a null pointer, and then the new length is exact, except when the datagram
  is appended behind the last node of a list that is not empty: then the last \<open>next\<close> is what
  \<^verbatim>\<open>malloc\<close> happened to leave in the block.
\<close>

theorem insert_ordered_set:
  assumes "holds L h ps" and "sorted_seq ps" and "h a = None"
    and "length (cstr line) < MAXLINE + 3"
  shows "\<exists>g xs. InsertLinkList (Some (a, n)) h L k line = Inr g
    \<and> list_from g L xs (if ps \<noteq> [] \<and> (\<forall>p \<in> set ps. fst p < k) then n_next n else None)
    \<and> sorted_seq (map snd xs) \<and> fst ` set (map snd xs) = insert k (fst ` set ps)
    \<and> set ps \<subseteq> set (map snd xs)
    \<and> (list_from g L xs None \<longrightarrow>
        LinkListLength g L = Inr (if k \<in> fst ` set ps then length ps else Suc (length ps)))"
proof -
  from assms(1) obtain ys where ys: "llist h L ys" "map snd ys = ps" by (auto simp: holds_def)
  from InsertLinkList_list [OF ys(1) llist_fresh [OF ys(1) assms(3)] assms(4), of n k]
  obtain g xs where g: "InsertLinkList (Some (a, n)) h L k line = Inr g"
    "list_from g L xs (if behind_last h L k then n_next n else None)"
    "map snd xs = ins k (cstr line) ps" unfolding ys(2) by blast
  have "behind_last h L k \<longleftrightarrow> ps \<noteq> [] \<and> (\<forall>p \<in> set ps. fst p < k)"
    unfolding behind_last_llist [OF ys(1)] ys(2) [symmetric] by auto
  moreover have "LinkListLength g L = Inr (length (ins k (cstr line) ps))" if "list_from g L xs None"
    using LinkListLength_llist [of g L xs] that g(3) by (simp add: list_from_llist) (metis length_map)
  moreover have "length (ins k (cstr line) ps) = (if k \<in> fst ` set ps then length ps else Suc (length ps))"
    by (rule ins_length [OF assms(2)])
  ultimately show ?thesis
    using g ins_sorted [OF assms(2)] ins_keys ins_old by (intro exI [of _ g] exI [of _ xs]) auto
qed

text \<open>
  C21. The acknowledgement is cumulative: \<open>NextAck\<close> returns the smallest sequence number
  above the last one printed that has not been received.
\<close>

theorem NextAck_first_missing:
  assumes "holds L h ps" and "sorted_seq ps" and "start < - 1"
    and "\<And>p. p \<in> set ps \<Longrightarrow> start < fst p \<and> fst p < - 1"
  shows "\<exists>r. NextAck h L start = Inr r \<and> start < r \<and> r \<notin> fst ` set ps
    \<and> (\<forall>j. start < j \<and> j < r \<longrightarrow> j \<in> fst ` set ps)"
  using recv_store.ack_holds [OF assms(1)] next_ack_least [OF assms(2,4,3)] by auto

text \<open>
  A datagram appended behind the last node leaves the list without an end: the \<open>next\<close>
  field of the new node keeps the unspecified value \<^verbatim>\<open>malloc\<close> returned, and when that
  is not null but points to memory that is not a node, the next traversal of the list is
  undefined.
\<close>

theorem append_dangling:
  assumes "llist h L xs" and "xs \<noteq> []" and "\<And>x. x \<in> set xs \<Longrightarrow> fst (snd x) < k"
    and "h a = None" and "n_next n = Some b" and "h b = None" and "a \<noteq> b"
    and "length (cstr line) < MAXLINE + 3"
  shows "\<exists>g m. InsertLinkList (Some (a, n)) h L k line = Inr g
    \<and> LinkListLength g L = Inl (Undefined m, g)"
proof -
  let ?n = "n\<lparr>n_seq := k, n_recvline := cstr line\<rparr>"
  let ?head = "last (L # addrs xs)"
  let ?g = "set_next (h(a := Some ?n)) ?head (Some a)"
  from assms(1) obtain l where l: "h L = Some l" "path h (n_next l) xs None"
    by (auto simp: llist_def)
  have fresh: "a \<notin> set (L # addrs xs)" "b \<notin> set (L # addrs xs)"
    using llist_fresh assms(1,4,6) by blast+
  have "takeWhile (\<lambda>x. fst (snd x) < k) xs = xs"
    using assms(3) by (simp add: takeWhile_eq_all_conv)
  then have "walk h L k = Some (Inr ?head)" using walk_path [OF l] by (simp only:)
  moreover have "n_next (the (h ?head)) = None" using last_next [of h L xs "[]"] assms(1) by simp
  moreover have "n_next l \<noteq> None" using path_first [OF l(2)] assms(2) by (cases xs) auto
  ultimately have "InsertLinkList (Some (a, n)) h L k line = Inr ?g"
    using l assms(8) by (auto simp: InsertLinkList_def fill_node_def loop_end_def)
  moreover obtain s t where "path h (Some L) ((L, s, t) # xs) None"
    using assms(1) by (auto simp: llist_path)
  then have path: "path ?g (Some L) ((L, s, t) # xs @ [(a, k, cstr line)]) (Some b)"
    using path_insert [of h L s t xs None ?n "[]" "Some b" a] llist_distinct [OF assms(1)]
      fresh(1) assms(5) by simp
  have "?g b = None"
  proof -
    have "?head \<in> set (L # addrs xs)" by (rule last_in_set) simp
    then have "?head \<noteq> b" using fresh(2) by metis
    then show ?thesis using assms(6,7) by (simp add: set_next_def)
  qed
  with path have "\<exists>g'. ?g L = Some g' \<and> count_nodes ?g (n_next g') 0 = Some (Inl ''temp'')"
    using path_tl count_nodes_dangling by blast
  ultimately show ?thesis by (auto simp: LinkListLength_def loop_end_def)
qed

text \<open>
  The server's list of clients in handshake is keyed by port alone: when a client is in the
  list, a request from the same port of another host is not recorded, so that a repetition of
  that request is not recognised as a duplicate.
\<close>

theorem same_port_not_recorded:
  assumes "llist h L xs" and "sorted_seq (map snd xs)" and "h a = None"
    and "port \<in> fst ` set (map snd xs)"
    and "\<forall>x \<in> set xs. cstr (snd (snd x)) \<noteq> cstr ip"
    and "length (cstr ip) < MAXLINE + 3"
  shows "\<exists>g. InsertLinkList (Some (a, n)) h L port ip = Inr g \<and> DuplicateNode g L port ip = Inr 0"
proof -
  have "holds L h (map snd xs)" using assms(1) by (auto simp: holds_def)
  moreover have "\<not> behind_last h L port"
    unfolding behind_last_llist [OF assms(1)] using assms(4) by fastforce
  then have "ready_block L port (Some (a, n)) h" using assms(3) by (simp add: ready_block_def)
  ultimately obtain g where g: "InsertLinkList (Some (a, n)) h L port ip = Inr g"
    "holds L g (ins port (cstr ip) (map snd xs))"
    using recv_store.put_ins assms(6) by blast
  have "ins k v ps = ps" if "sorted_seq ps" "k \<in> fst ` set ps" for k v ps
    using that by (induction ps) (auto, force+)
  with g(2) assms(2,4) obtain ys where ys: "llist g L ys" "map snd ys = map snd xs"
    by (auto simp: holds_def)
  have "cstr (snd (snd y)) \<noteq> cstr ip" if "y \<in> set ys" for y
  proof -
    from that have "snd y \<in> set (map snd ys)" by simp
    then have "snd y \<in> set (map snd xs)" by (simp only: ys(2))
    then obtain x where "x \<in> set xs" and "snd y = snd x" by auto
    with assms(5) show ?thesis by simp
  qed
  then have "\<not> (\<exists>y \<in> set ys. \<not> other port ip y)" by (auto simp: other_def)
  with g(1) DuplicateNode_llist [OF ys(1)] show ?thesis by simp
qed

section \<open>Witnesses\<close>

definition ex_heap :: heap where
  "ex_heap = (\<lambda>_. None)
     (0 := Some \<lparr>n_seq = 0, n_recvline = [], n_next = Some 1\<rparr>,
      1 := Some \<lparr>n_seq = 5, n_recvline = ''five'', n_next = None\<rparr>)"

definition ex_node :: "nat option \<Rightarrow> node" where
  "ex_node p = \<lparr>n_seq = 77, n_recvline = ''old'', n_next = p\<rparr>"

lemma ex_heap_llist: "llist ex_heap 0 [(1, 5, ''five'')]"
  by (simp add: llist_def ex_heap_def)

lemma ex_heap_holds: "holds 0 ex_heap [(5, ''five'')]"
  using ex_heap_llist by (force simp: holds_def)

lemma ex_fresh: "ex_heap 2 = None"
  by (simp add: ex_heap_def)

theorem insert_ordered_set_witness:
  "\<exists>g xs. InsertLinkList (Some (2, ex_node (Some 9))) ex_heap 0 3 ''three'' = Inr g
    \<and> list_from g 0 xs None \<and> sorted_seq (map snd xs) \<and> fst ` set (map snd xs) = {3, 5}
    \<and> LinkListLength g 0 = Inr 2"
  using insert_ordered_set [OF ex_heap_holds _ ex_fresh, of "''three''" "ex_node (Some 9)" 3]
  by (auto simp: cstr_def MAXLINE_def)

theorem NextAck_first_missing_witness:
  "\<exists>r. NextAck ex_heap 0 4 = Inr r \<and> 4 < r \<and> r \<noteq> 5 \<and> (\<forall>j. 4 < j \<and> j < r \<longrightarrow> j = 5)"
  using NextAck_first_missing [OF ex_heap_holds, of 4] by auto

theorem append_dangling_witness:
  "\<exists>g m. InsertLinkList (Some (2, ex_node (Some 9))) ex_heap 0 6 ''six'' = Inr g
    \<and> LinkListLength g 0 = Inl (Undefined m, g)"
  by (rule append_dangling [OF ex_heap_llist, where b = 9])
    (simp_all add: ex_heap_def ex_node_def cstr_def MAXLINE_def)

theorem same_port_not_recorded_witness:
  "\<exists>g. InsertLinkList (Some (2, ex_node None)) ex_heap 0 5 ''other'' = Inr g
    \<and> DuplicateNode g 0 5 ''other'' = Inr 0"
  by (rule same_port_not_recorded [OF ex_heap_llist _ ex_fresh])
    (simp_all add: cstr_def MAXLINE_def)

end
