(* ===== verification/FileServer.thy ===== *)
theory FileServer
  imports Rtt CirQueue LinkList
begin

text \<open>
  \<^verbatim>\<open>Assignment 2/Code/server.c\<close>, the child process that sends a file: slow start,
  congestion avoidance, retransmission on timeout and on three duplicate acknowledgements, and
  the probing of a client whose receive window is closed. The code between two blocking calls
  is one function; \<open>pc\<close> says in which blocking call the process waits, and
  \<open>srv_step\<close> is what it does when that call returns or the alarm interrupts it.
  \<open>env\<close> says which system calls fail in a step and what the clock shows.
\<close>

section \<open>Data\<close>

text \<open>
  What goes out on the child's socket. A header is two words in network byte order; the line is
  the whole array \<^verbatim>\<open>sendline\<close>.
\<close>

datatype dgram = DHdr u32 u32 | DLine string | DEnd int

record hdr =
  h_seq :: u32
  h_ts :: u32
  h_recv_window :: u32

datatype origin = FromTop | FromTimeout | FromFast

datatype pc = WaitAck | Probe origin | Finished

record env =
  e_send :: "nat \<Rightarrow> bool"
  e_clock :: "nat \<Rightarrow> timeval"
  e_sigemptyset :: bool
  e_sigaddset :: bool
  e_sigprocmask :: bool
  e_signal :: bool
  e_close :: bool

record srv =
  send_window :: int
  recv_window :: int
  sending_window :: int
  cwnd :: int
  ssh :: int
  congestion_avoid_count :: int
  received :: int
  sequence_number :: u32
  head :: u32
  measure_rtt :: u32
  rttinit :: bool
  rttinfo :: rtt_info
  send_buffer :: cirqueue
  localcopy :: data
  filedata :: string
  eof :: bool
  alrm_blocked :: bool
  sock_no :: int
  readings :: nat
  wire :: "dgram list"
  pc :: pc

definition packet_capacity :: nat where
  "packet_capacity = 512 - 2 * 4 - 4"

definition three_min :: "int \<Rightarrow> int \<Rightarrow> int \<Rightarrow> int" where
  "three_min first second third =
     (let first = (if first < second then first else second);
          first = (if first < third then first else third)
      in first)"

section \<open>Sending\<close>

definition send_failed :: string where
  "send_failed = ''SERVER: Can't send data to client using send() function''"

definition send :: "env \<Rightarrow> dgram \<Rightarrow> srv \<Rightarrow> srv outcome" where
  "send E d s =
     (if e_send E (length (wire s)) then Inr (s\<lparr>wire := wire s @ [d]\<rparr>)
      else Inl (Exit 1 send_failed, s))"

definition send_datagram :: "env \<Rightarrow> data \<Rightarrow> srv \<Rightarrow> srv outcome" where
  "send_datagram E d s =
     bindr (send E (DHdr (htonl (d_seq d)) (htonl (d_ts d))) s)
       (\<lambda>s. send E (DLine (d_sendline d)) s)"

text \<open>Sending again what \<^verbatim>\<open>send_buffer->base[i]\<close> holds.\<close>

definition resend :: "env \<Rightarrow> int \<Rightarrow> srv \<Rightarrow> srv outcome" where
  "resend E i s =
     (case base_at (send_buffer s) i of
        None \<Rightarrow> Inl (Undefined ''send_buffer->base'', s)
      | Some d \<Rightarrow> send_datagram E d s)"

text \<open>\<^verbatim>\<open>for(j=0; j<n; j++)\<close> over the slots \<^verbatim>\<open>front+j\<close>.\<close>

definition resend_window :: "env \<Rightarrow> int \<Rightarrow> srv \<Rightarrow> srv outcome" where
  "resend_window E n s =
     run_list (\<lambda>j s. resend E (front (send_buffer s) + int j) s) [0..<nat n] s"

definition read_clock :: "env \<Rightarrow> srv \<Rightarrow> u32 \<times> srv" where
  "read_clock E s = (rtt_ts (e_clock E (readings s)) (rttinfo s), s\<lparr>readings := Suc (readings s)\<rparr>)"

text \<open>
  One pass of the loop that reads from the file and sends new data. \<^verbatim>\<open>fread\<close> fills the
  first bytes of \<^verbatim>\<open>sendline\<close> and sets the end-of-file flag when it reads less than it
  was asked for.
\<close>

definition send_new :: "env \<Rightarrow> srv \<Rightarrow> srv outcome" where
  "send_new E s =
     (let s = s\<lparr>sequence_number := sequence_number s + 1\<rparr>;
          s = s\<lparr>localcopy := (localcopy s)\<lparr>d_seq := sequence_number s,
                 d_sendline := overwrite (d_sendline (localcopy s)) (take packet_capacity (filedata s))\<rparr>,
               eof := (eof s \<or> length (filedata s) < packet_capacity),
               filedata := drop packet_capacity (filedata s)\<rparr>;
          (ts, s) = (if \<not> eof s then read_clock E s else (0, s));
          s = s\<lparr>localcopy := (localcopy s)\<lparr>d_ts := ts\<rparr>\<rparr>
      in case EnCirQueue (send_buffer s) (localcopy s) of
           Inl (e, q) \<Rightarrow> Inl (e, s)
         | Inr q \<Rightarrow>
             bindr (send_datagram E (localcopy s) (s\<lparr>send_buffer := q\<rparr>)) (\<lambda>s.
             Inr (s\<lparr>localcopy := (localcopy s)\<lparr>d_sendline := replicate MAXLINE NUL\<rparr>\<rparr>)))"

fun send_more :: "env \<Rightarrow> nat \<Rightarrow> srv \<Rightarrow> srv outcome" where
  "send_more E 0 s = Inr s"
| "send_more E (Suc n) s =
     bindr (send_new E s) (\<lambda>s. if eof s then Inr s else send_more E n s)"

section \<open>Waiting\<close>

text \<open>
  The label \<open>DataAlarmAgain\<close>: the alarm is armed, the counters of the round are reset, and the
  process waits for acknowledgements.
\<close>

definition data_alarm_again :: "env \<Rightarrow> srv \<Rightarrow> srv outcome" where
  "data_alarm_again E s =
     bindr (exit_if (\<not> e_signal E) 1 ''SERVER: Unable to catch SIGALRM signal'' s) (\<lambda>s.
     Inr (s\<lparr>measure_rtt := 0, received := 0, pc := WaitAck\<rparr>))"

text \<open>
  The client's receive window is closed: SIGALRM is blocked, and the process waits for a new
  window size in \<^verbatim>\<open>pselect\<close>. Nothing unblocks the signal again.
\<close>

definition enter_probe :: "env \<Rightarrow> origin \<Rightarrow> srv \<Rightarrow> srv outcome" where
  "enter_probe E k s =
     bindr (exit_if (\<not> e_sigemptyset E) 1 ''SERVER: Unable to empty signal set'' s) (\<lambda>s.
     bindr (exit_if (\<not> e_sigaddset E) 1 ''SERVER: Unable to put SIGALRM to alarm signal set'' s) (\<lambda>s.
     bindr (exit_if (\<not> e_sigprocmask E) 1 ''SERVER: Unable to mask alarm signal set'' s) (\<lambda>s.
     let s = s\<lparr>alrm_blocked := True\<rparr> in
     bindr (exit_if (\<not> e_signal E) 1 ''SERVER: Unable to catch SIGALRM signal'' s) (\<lambda>s.
     Inr (s\<lparr>pc := Probe k\<rparr>)))))"

section \<open>The rounds\<close>

text \<open>The loop body from the computation of the sending window to the wait.\<close>

definition send_round :: "env \<Rightarrow> srv \<Rightarrow> srv outcome" where
  "send_round E s =
     (let s = s\<lparr>sending_window := three_min (cwnd s) (send_window s) (recv_window s)\<rparr>;
          s = s\<lparr>rttinfo := rtt_newpack (rttinfo s)\<rparr>
      in case CirQueueLength (send_buffer s) of
           None \<Rightarrow> Inl (Undefined ''modulus'', s)
         | Some len \<Rightarrow>
             bindr (if IsEmptyCirQueue (send_buffer s) = 0 then
                      (if sending_window s \<le> len then resend_window E (sending_window s) s
                       else resend_window E len s)
                    else Inr s) (\<lambda>s.
             bindr (send_more E (nat (sending_window s - len)) s) (\<lambda>s.
             data_alarm_again E s)))"

definition loop_top :: "env \<Rightarrow> srv \<Rightarrow> srv outcome" where
  "loop_top E s =
     (let s = (if \<not> rttinit s
               then s\<lparr>rttinfo := rtt_init (e_clock E (readings s)) (rttinfo s),
                      readings := Suc (readings s), rttinit := True\<rparr>
               else s)
      in if recv_window s = 0 then enter_probe E FromTop s else send_round E s)"

text \<open>After a timeout, once the client's window is open.\<close>

definition timeout_resend :: "env \<Rightarrow> srv \<Rightarrow> srv outcome" where
  "timeout_resend E s =
     (let s = s\<lparr>ssh := (if cwnd s sdiv 2 > 1 then cwnd s sdiv 2 else 1)\<rparr>;
          s = s\<lparr>cwnd := 1\<rparr>;
          s = s\<lparr>sending_window := cwnd s\<rparr>
      in bindr (resend E (front (send_buffer s)) s) (\<lambda>s. data_alarm_again E s))"

text \<open>After three duplicate acknowledgements, once the client's window is open.\<close>

definition fast_recovery :: "env \<Rightarrow> srv \<Rightarrow> srv outcome" where
  "fast_recovery E s =
     (let s = s\<lparr>cwnd := (if cwnd s sdiv 2 > 1 then cwnd s sdiv 2 else 1)\<rparr>;
          s = s\<lparr>ssh := cwnd s\<rparr>
      in bindr (resend E (front (send_buffer s)) s) (\<lambda>s.
         bindr (if \<not> eof s then
                  (let s = s\<lparr>sending_window :=
                              three_min (cwnd s) (send_window s) (recv_window s) * 2\<rparr>
                   in send_more E (nat (sending_window s sdiv 2 - 1)) s)
                else Inr s) (\<lambda>s.
         data_alarm_again E s)))"

definition probed :: "env \<Rightarrow> origin \<Rightarrow> srv \<Rightarrow> srv outcome" where
  "probed E k s =
     (case k of FromTop \<Rightarrow> send_round E s
      | FromTimeout \<Rightarrow> timeout_resend E s
      | FromFast \<Rightarrow> fast_recovery E s)"

definition give_up :: string where
  "give_up = ''SERVER: No response from client, giving up''"

text \<open>\<^verbatim>\<open>rtt_timeout(&rttinfo)<0\<close> ends the process.\<close>

definition count_timeout :: "srv \<Rightarrow> srv outcome" where
  "count_timeout s =
     (let (r, ret) = rtt_timeout (rttinfo s);
          s = s\<lparr>rttinfo := r\<rparr>
      in if ret < 0 then Inl (Exit 1 give_up, s\<lparr>rttinit := False\<rparr>) else Inr s)"

definition on_alarm :: "env \<Rightarrow> srv \<Rightarrow> srv outcome" where
  "on_alarm E s =
     bindr (count_timeout s) (\<lambda>s.
     if recv_window s = 0 then enter_probe E FromTimeout s else timeout_resend E s)"

section \<open>Acknowledgements\<close>

definition grow :: "srv \<Rightarrow> srv" where
  "grow s =
     (if cwnd s < ssh s then s\<lparr>cwnd := cwnd s + 1\<rparr>
      else let s = s\<lparr>congestion_avoid_count := congestion_avoid_count s + 1\<rparr>
           in if congestion_avoid_count s = cwnd s
              then s\<lparr>cwnd := cwnd s + 1, congestion_avoid_count := 0\<rparr> else s)"

text \<open>\<^verbatim>\<open>for( ; head!=recv_hdr.seq; head++) DeCirQueue(send_buffer);\<close>\<close>

fun dequeue_to :: "nat \<Rightarrow> srv \<Rightarrow> srv outcome" where
  "dequeue_to 0 s = Inr s"
| "dequeue_to (Suc n) s =
     (case DeCirQueue (send_buffer s) of
        Inl (e, q) \<Rightarrow> Inl (e, s)
      | Inr q \<Rightarrow> dequeue_to n (s\<lparr>send_buffer := q, head := head s + 1\<rparr>))"

definition release_acked :: "u32 \<Rightarrow> srv \<Rightarrow> srv outcome" where
  "release_acked seq s =
     (if seq > head s then dequeue_to (unat seq - unat (head s)) s else Inr s)"

text \<open>\<^verbatim>\<open>send_buffer->base[send_buffer->front].ack=n\<close>\<close>

definition set_ack :: "int \<Rightarrow> srv \<Rightarrow> srv outcome" where
  "set_ack n s =
     (case base_at (send_buffer s) (front (send_buffer s)) of
        None \<Rightarrow> Inl (Undefined ''send_buffer->base'', s)
      | Some d \<Rightarrow>
         (case set_base (send_buffer s) (front (send_buffer s)) (d\<lparr>d_ack := n\<rparr>) of
            Inl (e, q) \<Rightarrow> Inl (e, s)
          | Inr q \<Rightarrow> Inr (s\<lparr>send_buffer := q\<rparr>)))"

definition front_ack :: "srv \<Rightarrow> int" where
  "front_ack s = (case base_at (send_buffer s) (front (send_buffer s)) of None \<Rightarrow> 0 | Some d \<Rightarrow> d_ack d)"

definition low16 :: "u32 \<Rightarrow> u16" where
  "low16 w = ucast w"

definition finish :: "env \<Rightarrow> srv \<Rightarrow> srv outcome" where
  "finish E s =
     bindr (send E (DEnd (sock_no s)) s) (\<lambda>s.
     bindr (exit_if (\<not> e_close E) 1 ''SERVER: Socket close error'' s) (\<lambda>s.
     Inr (s\<lparr>pc := Finished\<rparr>)))"

text \<open>The end of a round: either the next acknowledgement or the next round.\<close>

definition ack_loop_end :: "env \<Rightarrow> srv \<Rightarrow> srv outcome" where
  "ack_loop_end E s =
     (if received s \<noteq> sending_window s \<and> IsEmptyCirQueue (send_buffer s) = 0
      then Inr s
      else loop_top E (s\<lparr>rttinfo := rtt_stop (rttinfo s) (measure_rtt s)\<rparr>))"

text \<open>
  A header has come in: the congestion window grows, the acknowledgement counts for the round,
  and the first one of a round measures the round trip.
\<close>

definition note_ack :: "env \<Rightarrow> hdr \<Rightarrow> srv \<Rightarrow> srv" where
  "note_ack E r s =
     (let s = grow s;
          s = s\<lparr>received := received s + 1\<rparr>
      in if measure_rtt s = 0
         then (let (now, s) = read_clock E s in s\<lparr>measure_rtt := now - ntohl (h_ts r)\<rparr>)
         else s)"

definition on_ack :: "env \<Rightarrow> hdr \<Rightarrow> srv \<Rightarrow> srv outcome" where
  "on_ack E r s =
     (let s = note_ack E r s;
          seq = ntohl (h_seq r)
      in if seq = 0 then finish E s
         else
           bindr (release_acked seq s) (\<lambda>s.
           let s = s\<lparr>recv_window := uint (ntohs (low16 (h_recv_window r)))\<rparr>
           in bindr (set_ack (front_ack s + 1) s) (\<lambda>s.
              if front_ack s = 3 then
                bindr (set_ack 0 s) (\<lambda>s.
                bindr (count_timeout s) (\<lambda>s.
                if recv_window s = 0 then enter_probe E FromFast s else fast_recovery E s))
              else ack_loop_end E s)))"

section \<open>The step function\<close>

text \<open>
  What a blocking call returns: a header received, the alarm, a failed \<^verbatim>\<open>recv\<close> or
  \<^verbatim>\<open>pselect\<close>. The alarm interrupts the wait for an acknowledgement only when SIGALRM
  is not blocked; in \<^verbatim>\<open>pselect\<close> it always does.
\<close>

datatype event = Hdr hdr | Alarm | RecvError | SelectError

fun srv_step :: "srv \<Rightarrow> env \<times> event \<Rightarrow> srv outcome" where
  "srv_step s (E, ev) =
     (case pc s of
        Finished \<Rightarrow> Inr s
      | WaitAck \<Rightarrow>
         (case ev of
            Hdr r \<Rightarrow> on_ack E r s
          | Alarm \<Rightarrow> if alrm_blocked s then Inr s else on_alarm E s
          | RecvError \<Rightarrow>
              Inl (Exit 1 ''SERVER: Can't read data from client using recv() function'', s)
          | SelectError \<Rightarrow> Inr s)
      | Probe k \<Rightarrow>
         (case ev of
            Alarm \<Rightarrow> send E (DHdr (htonl 0) (htonl 0)) s
          | SelectError \<Rightarrow> Inl (Exit 1 ''SERVER: Function pselect() error'', s)
          | RecvError \<Rightarrow>
              Inl (Exit 1 ''SERVER: Can't read data from client using recv() function'', s)
          | Hdr r \<Rightarrow>
              let s = s\<lparr>recv_window := uint (ntohs (low16 (h_recv_window r)))\<rparr>
              in if recv_window s > 0 then probed E k s else Inr s))"

text \<open>
  The state in which the transfer starts: the window the client advertised, a fresh send buffer
  of \<open>send_window\<close> slots, and a \<open>localcopy\<close> and a timer whose contents nothing has
  initialised.
\<close>

definition start_transfer ::
  "data list option \<Rightarrow> data \<Rightarrow> rtt_info \<Rightarrow> int \<Rightarrow> int \<Rightarrow> int \<Rightarrow> string \<Rightarrow> cirqueue \<Rightarrow> srv outcome" where
  "start_transfer mem lc rtt i sendw recvw f q0 =
     (let s = \<lparr>send_window = sendw, recv_window = recvw, sending_window = 0, cwnd = 1, ssh = 65535,
                congestion_avoid_count = 0, received = 0, sequence_number = 0, head = 1,
                measure_rtt = 0, rttinit = False, rttinfo = rtt, send_buffer = q0, localcopy = lc,
                filedata = f, eof = False, alrm_blocked = False, sock_no = i, readings = 0, wire = [],
                pc = WaitAck\<rparr>
      in case InitCirQueue mem q0 sendw of
           Inl (e, q) \<Rightarrow> Inl (e, s)
         | Inr q \<Rightarrow> Inr (s\<lparr>send_buffer := q\<rparr>))"

definition begin_transfer ::
  "env \<Rightarrow> data list option \<Rightarrow> data \<Rightarrow> rtt_info \<Rightarrow> int \<Rightarrow> int \<Rightarrow> int \<Rightarrow> string \<Rightarrow> cirqueue \<Rightarrow> srv outcome" where
  "begin_transfer E mem lc rtt i sendw recvw f q0 =
     bindr (start_transfer mem lc rtt i sendw recvw f q0) (loop_top E)"

section \<open>What each function changes\<close>

abbreviation packet :: "data \<Rightarrow> dgram list" where
  "packet d \<equiv> [DHdr (htonl (d_seq d)) (htonl (d_ts d)), DLine (d_sendline d)]"

lemma send_Inr: "send E d s = Inr t \<Longrightarrow> t = s\<lparr>wire := wire s @ [d]\<rparr>"
  by (auto simp: send_def split: if_splits)

lemma send_datagram_Inr: "send_datagram E d s = Inr t \<Longrightarrow> t = s\<lparr>wire := wire s @ packet d\<rparr>"
  by (auto simp: send_datagram_def bind_iff dest!: send_Inr)

lemma resend_Inr:
  "resend E i s = Inr t \<Longrightarrow>
     \<exists>d. base_at (send_buffer s) i = Some d \<and> t = s\<lparr>wire := wire s @ packet d\<rparr>"
  by (auto simp: resend_def split: option.splits dest: send_datagram_Inr)

lemma resend_window_Inr:
  assumes "resend_window E n s = Inr t"
  shows "\<exists>ds. t = s\<lparr>wire := wire s @ concat (map packet ds)\<rparr>
    \<and> map Some ds = map (\<lambda>j. base_at (send_buffer s) (front (send_buffer s) + int j)) [0..<nat n]"
proof -
  have "\<exists>ds. t = s\<lparr>wire := wire s @ concat (map packet ds)\<rparr>
      \<and> map Some ds = map (\<lambda>j. base_at (send_buffer s) (front (send_buffer s) + int j)) js"
    if "run_list (\<lambda>j s. resend E (front (send_buffer s) + int j) s) js s = Inr t" for js
    using that
  proof (induction js arbitrary: s)
    case Nil
    then show ?case by (intro exI [of _ "[]"]) simp
  next
    case (Cons j js)
    then obtain u where u: "resend E (front (send_buffer s) + int j) s = Inr u"
      and rest: "run_list (\<lambda>j s. resend E (front (send_buffer s) + int j) s) js u = Inr t"
      by (auto simp: bind_iff)
    from resend_Inr [OF u] obtain d where
      d: "base_at (send_buffer s) (front (send_buffer s) + int j) = Some d"
      "u = s\<lparr>wire := wire s @ packet d\<rparr>" by blast
    from Cons.IH [OF rest] obtain ds where
      "t = u\<lparr>wire := wire u @ concat (map packet ds)\<rparr>"
      "map Some ds = map (\<lambda>j. base_at (send_buffer u) (front (send_buffer u) + int j)) js" by blast
    with d show ?case by (intro exI [of _ "d # ds"]) simp
  qed
  with assms show ?thesis by (simp add: resend_window_def)
qed

lemma data_alarm_again_Inr:
  "data_alarm_again E s = Inr t \<Longrightarrow> t = s\<lparr>measure_rtt := 0, received := 0, pc := WaitAck\<rparr>"
  by (auto simp: data_alarm_again_def bind_iff)

lemma enter_probe_Inr: "enter_probe E k s = Inr t \<Longrightarrow> t = s\<lparr>alrm_blocked := True, pc := Probe k\<rparr>"
  by (auto simp: enter_probe_def bind_iff Let_def)

lemma count_timeout_Inr:
  "count_timeout s = Inr t \<Longrightarrow> t = s\<lparr>rttinfo := fst (rtt_timeout (rttinfo s))\<rparr>"
  by (auto simp: count_timeout_def Let_def split: prod.splits if_splits)

lemma finish_Inr:
  "finish E s = Inr t \<Longrightarrow> t = s\<lparr>wire := wire s @ [DEnd (sock_no s)], pc := Finished\<rparr>"
  by (auto simp: finish_def bind_iff dest!: send_Inr)

lemma set_ack_Inr:
  "set_ack n s = Inr t \<Longrightarrow>
     \<exists>d q. base_at (send_buffer s) (front (send_buffer s)) = Some d
       \<and> set_base (send_buffer s) (front (send_buffer s)) (d\<lparr>d_ack := n\<rparr>) = Inr q
       \<and> t = s\<lparr>send_buffer := q\<rparr>"
  by (auto simp: set_ack_def split: option.splits sum.splits)

text \<open>The datagram \<open>send_new\<close> builds.\<close>

definition new_data :: "env \<Rightarrow> srv \<Rightarrow> data" where
  "new_data E s = (localcopy s)\<lparr>d_seq := sequence_number s + 1,
     d_sendline := overwrite (d_sendline (localcopy s)) (take packet_capacity (filedata s)),
     d_ts := (if eof s \<or> length (filedata s) < packet_capacity then 0
              else rtt_ts (e_clock E (readings s)) (rttinfo s))\<rparr>"

lemma send_new_Inr:
  assumes "send_new E s = Inr t"
  shows "\<exists>q. EnCirQueue (send_buffer s) (new_data E s) = Inr q
    \<and> sequence_number t = sequence_number s + 1 \<and> send_buffer t = q
    \<and> localcopy t = (new_data E s)\<lparr>d_sendline := replicate MAXLINE NUL\<rparr>
    \<and> filedata t = drop packet_capacity (filedata s)
    \<and> eof t = (eof s \<or> length (filedata s) < packet_capacity)
    \<and> wire t = wire s @ packet (new_data E s)"
  using assms
  by (auto simp: send_new_def Let_def new_data_def read_clock_def bind_iff
      split: sum.splits prod.splits if_splits dest!: send_datagram_Inr)

text \<open>The fields that sending data leaves alone.\<close>

definition control :: "srv \<Rightarrow> srv" where
  "control s = s\<lparr>sequence_number := 0, send_buffer := undefined, localcopy := undefined,
     filedata := [], eof := False, wire := [], readings := 0\<rparr>"

lemma control_wire [simp]: "control (s\<lparr>wire := w\<rparr>) = control s"
  by (simp add: control_def)

lemma control_eqD:
  assumes "control t = control s"
  shows "send_window t = send_window s" "recv_window t = recv_window s"
    "sending_window t = sending_window s" "cwnd t = cwnd s" "ssh t = ssh s" "head t = head s"
    "rttinit t = rttinit s" "rttinfo t = rttinfo s" "alrm_blocked t = alrm_blocked s"
    "pc t = pc s" "sock_no t = sock_no s"
  using arg_cong [OF assms, of send_window] arg_cong [OF assms, of recv_window]
    arg_cong [OF assms, of sending_window] arg_cong [OF assms, of cwnd]
    arg_cong [OF assms, of ssh] arg_cong [OF assms, of head] arg_cong [OF assms, of rttinit]
    arg_cong [OF assms, of rttinfo] arg_cong [OF assms, of alrm_blocked]
    arg_cong [OF assms, of pc] arg_cong [OF assms, of sock_no]
  by (simp_all add: control_def)

lemma send_new_control: "send_new E s = Inr t \<Longrightarrow> control t = control s"
  by (auto simp: send_new_def Let_def read_clock_def bind_iff control_def
      split: sum.splits prod.splits if_splits dest!: send_datagram_Inr)

lemma send_more_control: "send_more E n s = Inr t \<Longrightarrow> control t = control s"
proof (induction n arbitrary: s)
  case (Suc n)
  then show ?case by (auto simp: bind_iff split: if_splits dest: send_new_control)
qed simp

text \<open>
  An invariant of the sent data, the buffer and the position in the file that holds before a
  loop of new datagrams and is kept by each of them holds after it.
\<close>

lemma send_more_inv:
  assumes "send_more E n s = Inr t" and "P 0 s"
    and "\<And>i s t. i < n \<Longrightarrow> P i s \<Longrightarrow> send_new E s = Inr t \<Longrightarrow> P (Suc i) t"
  shows "\<exists>i \<le> n. P i t"
proof -
  have "\<exists>i \<le> n. P i t" if "send_more E m s = Inr t" "P (n - m) s" "m \<le> n" for m
    using that
  proof (induction m arbitrary: s)
    case 0
    then show ?case by auto
  next
    case (Suc m)
    then obtain u where u: "send_new E s = Inr u" and
      rest: "u = t \<or> send_more E m u = Inr t"
      by (auto simp: bind_iff split: if_splits)
    from assms(3) [OF _ Suc.prems(2) u] Suc.prems(3) have "P (n - m) u"
      by (simp add: Suc_diff_Suc)
    with rest Suc.IH Suc.prems(3) show ?case
      by (metis Suc_leD diff_le_self)
  qed
  from this [of n] assms(1,2) show ?thesis by simp
qed

end
