(* ===== verification/CStrings.thy ===== *)
theory CStrings
  imports Prelude
begin

text \<open>
  The conversions of the C library's formatted input and output that the programs use: decimal
  numbers (\<^verbatim>\<open>%d\<close>), words (\<^verbatim>\<open>%s\<close>), dotted addresses (\<^verbatim>\<open>inet_ntop\<close>)
  and the scanning of the same, with their round trips.
\<close>

section \<open>Printing\<close>

definition digit :: "nat \<Rightarrow> char" where
  "digit d = char_of (48 + d)"

fun show_nat :: "nat \<Rightarrow> string" where
  "show_nat n = (if n < 10 then [digit n] else show_nat (n div 10) @ [digit (n mod 10)])"

declare show_nat.simps [simp del]

definition show_int :: "int \<Rightarrow> string" where
  "show_int i = (if i < 0 then CHR ''-'' # show_nat (nat (- i)) else show_nat (nat i))"

definition space :: char where "space = CHR '' ''"

text \<open>The address \<open>a\<close> in host byte order, as \<^verbatim>\<open>inet_ntop\<close> prints it.\<close>

definition dotted :: "u32 \<Rightarrow> string" where
  "dotted a =
     show_nat (unat (drop_bit 24 a)) @ ''.'' @ show_nat (unat (take_bit 8 (drop_bit 16 a))) @ ''.''
     @ show_nat (unat (take_bit 8 (drop_bit 8 a))) @ ''.'' @ show_nat (unat (take_bit 8 a))"

section \<open>Scanning\<close>

text \<open>\<^verbatim>\<open>isspace\<close>\<close>

definition is_space :: "char \<Rightarrow> bool" where
  "is_space c \<longleftrightarrow> of_char c \<in> {9, 10, 11, 12, 13, 32 :: nat}"

definition is_digit :: "char \<Rightarrow> bool" where
  "is_digit c \<longleftrightarrow> (48 :: nat) \<le> of_char c \<and> of_char c \<le> (57 :: nat)"

definition skip_space :: "string \<Rightarrow> string" where
  "skip_space s = dropWhile is_space s"

definition read_nat :: "string \<Rightarrow> nat" where
  "read_nat ds = foldl (\<lambda>n c. n * 10 + (of_char c - 48)) 0 ds"

text \<open>
  \<^verbatim>\<open>%s\<close>: a word without white space, \<open>None\<close> at the end of the input.
  \<^verbatim>\<open>%d\<close>: an optional sign and digits, \<open>None\<close> if there are none.
\<close>

definition scan_word :: "string \<Rightarrow> (string \<times> string) option" where
  "scan_word s =
     (let s = skip_space s
      in if s = [] then None else Some (takeWhile (\<lambda>c. \<not> is_space c) s, dropWhile (\<lambda>c. \<not> is_space c) s))"

definition scan_int :: "string \<Rightarrow> (int \<times> string) option" where
  "scan_int s =
     (let s = skip_space s;
          neg = (s \<noteq> [] \<and> hd s = CHR ''-'');
          s = (if s \<noteq> [] \<and> (hd s = CHR ''-'' \<or> hd s = CHR ''+'') then tl s else s);
          ds = takeWhile is_digit s
      in if ds = [] then None
         else Some (if neg then - int (read_nat ds) else int (read_nat ds), dropWhile is_digit s))"

text \<open>\<^verbatim>\<open>atoi\<close>\<close>

definition atoi :: "string \<Rightarrow> int" where
  "atoi s = (case scan_int s of None \<Rightarrow> 0 | Some (n, rest) \<Rightarrow> n)"

section \<open>Round trips\<close>

lemma of_char_digit: "d < 10 \<Longrightarrow> of_char (digit d) = 48 + d"
  by (simp add: digit_def)

lemma is_digit_digit: "d < 10 \<Longrightarrow> is_digit (digit d)"
  by (simp add: is_digit_def of_char_digit)

lemma digit_not_space: "is_digit c \<Longrightarrow> \<not> is_space c"
  by (auto simp: is_digit_def is_space_def)

lemma digit_not_nul: "is_digit c \<Longrightarrow> c \<noteq> NUL"
  by (auto simp: is_digit_def)

lemma show_nat_digits: "\<forall>c \<in> set (show_nat n). is_digit c"
proof (induction n rule: show_nat.induct)
  case (1 n)
  then show ?case by (subst show_nat.simps) (auto simp: is_digit_digit)
qed

lemma show_nat_nonempty [simp]: "show_nat n \<noteq> []"
  by (subst show_nat.simps) simp

lemma read_nat_snoc: "read_nat (ds @ [c]) = read_nat ds * 10 + (of_char c - 48)"
  by (simp add: read_nat_def)

lemma read_show_nat: "read_nat (show_nat n) = n"
proof (induction n rule: show_nat.induct)
  case (1 n)
  show ?case
  proof (cases "n < 10")
    case True
    then have "show_nat n = [digit n]" by (subst show_nat.simps) simp
    then show ?thesis using True read_nat_snoc [of "[]" "digit n"]
      by (simp add: of_char_digit) (simp add: read_nat_def)
  next
    case False
    then have "show_nat n = show_nat (n div 10) @ [digit (n mod 10)]" by (subst show_nat.simps) simp
    with 1 False show ?thesis by (simp add: read_nat_snoc of_char_digit)
  qed
qed

lemma show_nat_hd: "is_digit (hd (show_nat n))"
  using show_nat_digits [of n] list.set_sel(1) [OF show_nat_nonempty [of n]] by blast

lemma scan_show_nat:
  assumes "rest = [] \<or> \<not> is_digit (hd rest)"
  shows "takeWhile is_digit (show_nat n @ rest) = show_nat n"
    and "dropWhile is_digit (show_nat n @ rest) = rest"
proof -
  have "takeWhile is_digit rest = [] \<and> dropWhile is_digit rest = rest"
    using assms by (cases rest) auto
  with show_nat_digits [of n]
  show "takeWhile is_digit (show_nat n @ rest) = show_nat n"
    and "dropWhile is_digit (show_nat n @ rest) = rest"
    by (simp_all add: takeWhile_append2 dropWhile_append2)
qed

lemma skip_space_digit: "s \<noteq> [] \<Longrightarrow> \<not> is_space (hd s) \<Longrightarrow> skip_space s = s"
  by (cases s) (simp_all add: skip_space_def)

lemma skip_space_cons: "skip_space (space # s) = skip_space s"
  by (simp add: skip_space_def space_def is_space_def)

lemma scan_show_int:
  assumes "rest = [] \<or> \<not> is_digit (hd rest)"
  shows "scan_int (show_int i @ rest) = Some (i, rest)"
proof (cases "i < 0")
  case True
  then show ?thesis
    using scan_show_nat [OF assms, of "nat (- i)"]
    by (simp add: show_int_def scan_int_def Let_def skip_space_def is_space_def read_show_nat)
next
  case False
  let ?s = "show_nat (nat i) @ rest"
  have "is_digit (hd ?s)" by (simp add: show_nat_hd)
  then have "skip_space ?s = ?s" "hd ?s \<noteq> CHR ''-''" "hd ?s \<noteq> CHR ''+''"
    using digit_not_space by (auto simp: is_digit_def intro!: skip_space_digit)
  with False show ?thesis
    using scan_show_nat [OF assms, of "nat i"]
    by (simp add: show_int_def scan_int_def Let_def read_show_nat)
qed

lemma scan_int_space: "scan_int (space # s) = scan_int s"
  by (simp add: scan_int_def skip_space_cons)

lemma scan_word_space: "scan_word (space # s) = scan_word s"
  by (simp add: scan_word_def skip_space_cons)

lemma scan_word_word:
  assumes "w \<noteq> []" and "\<forall>c \<in> set w. \<not> is_space c" and "rest = [] \<or> is_space (hd rest)"
  shows "scan_word (w @ rest) = Some (w, rest)"
proof -
  have "takeWhile (\<lambda>c. \<not> is_space c) rest = [] \<and> dropWhile (\<lambda>c. \<not> is_space c) rest = rest"
    using assms(3) by (cases rest) auto
  moreover have "skip_space (w @ rest) = w @ rest"
    using assms(1,2) by (intro skip_space_digit) auto
  ultimately show ?thesis
    using assms(1,2) by (simp add: scan_word_def takeWhile_append2 dropWhile_append2)
qed

end
