(* ===== verification/InetAddr.thy ===== *)
theory InetAddr
  imports CStrings
begin

text \<open>
  \<^verbatim>\<open>unpv13e/libfree/inet_pton.c\<close> and \<^verbatim>\<open>inet_ntop.c\<close>: addresses between their printed form and
  their bytes, for IPv4 and IPv6. Both are in the archive every program of the repository is linked
  with, before the C library, so these are the functions the programs call.

  A string argument is a character buffer that is read up to its NUL. An array is the list of the
  bytes stored into it; a store behind its end or a read of a byte not yet stored is undefined
  behaviour.
\<close>

section \<open>From the printed form\<close>

definition INADDRSZ :: nat where "INADDRSZ = 4"
definition IN6ADDRSZ :: nat where "IN6ADDRSZ = 16"
definition INT16SZ :: nat where "INT16SZ = 2"

text \<open>The address families the programs tell apart; any other is its number.\<close>

datatype family = AF_INET | AF_INET6 | AF_UNIX | AF_OTHER int

text \<open>
  The variables of \<^verbatim>\<open>inet_pton4\<close>: the bytes of \<^verbatim>\<open>tmp\<close> up to the one \<^verbatim>\<open>tp\<close> points at.
\<close>

record pton4 =
  p4_tmp :: "u8 list"
  saw_digit :: bool
  octets :: nat

text \<open>The loop; \<open>Inr None\<close> is \<^verbatim>\<open>return (0)\<close>.\<close>

fun pton4_loop :: "string \<Rightarrow> pton4 \<Rightarrow> stop + pton4 option" where
  "pton4_loop [] s = Inr (Some s)"
| "pton4_loop (ch # src) s =
     (if is_digit ch then
        let new = unat (last (p4_tmp s)) * 10 + (of_char ch - 48);
            t = s\<lparr>p4_tmp := butlast (p4_tmp s) @ [of_nat new]\<rparr> in
        if new > 255 then Inr None
        else if \<not> saw_digit s then
          if octets s + 1 > 4 then Inr None
          else pton4_loop src (t\<lparr>octets := octets s + 1, saw_digit := True\<rparr>)
        else pton4_loop src t
      else if ch = CHR ''.'' \<and> saw_digit s then
        if octets s = 4 then Inr None
        else if length (p4_tmp s) \<ge> INADDRSZ then Inl (Undefined ''tmp'')
        else pton4_loop src (s\<lparr>p4_tmp := p4_tmp s @ [0], saw_digit := False\<rparr>)
      else Inr None)"

text \<open>The four bytes stored at \<^verbatim>\<open>dst\<close>, or \<open>None\<close> where 0 is returned and nothing is stored.\<close>

definition inet_pton4 :: "string \<Rightarrow> stop + u8 list option" where
  "inet_pton4 src =
     (case pton4_loop (cstr src) \<lparr>p4_tmp = [0], saw_digit = False, octets = 0\<rparr> of
        Inl e \<Rightarrow> Inl e
      | Inr None \<Rightarrow> Inr None
      | Inr (Some s) \<Rightarrow>
          if octets s < 4 then Inr None
          else if length (p4_tmp s) < INADDRSZ then Inl (Undefined ''tmp'')
          else Inr (Some (take INADDRSZ (p4_tmp s))))"

text \<open>A hexadecimal digit, the lower case ones looked up first.\<close>

definition xdigit :: "char \<Rightarrow> nat option" where
  "xdigit ch =
     (if is_digit ch then Some (of_char ch - 48)
      else if 97 \<le> (of_char ch :: nat) \<and> of_char ch \<le> (102 :: nat) then Some (of_char ch - 87)
      else if 65 \<le> (of_char ch :: nat) \<and> of_char ch \<le> (70 :: nat) then Some (of_char ch - 55)
      else None)"

text \<open>
  The variables of \<^verbatim>\<open>inet_pton6\<close>; pointers into \<^verbatim>\<open>tmp\<close> are indexes.
\<close>

record pton6 =
  p6_tmp :: "u8 list"
  tp :: nat
  colonp :: "nat option"
  curtok :: string
  saw_xdigit :: bool
  xval :: nat

text \<open>\<^verbatim>\<open>*tp++ = (u_char) (val >> 8) & 0xff; *tp++ = (u_char) val & 0xff;\<close>\<close>

definition put_word :: "pton6 \<Rightarrow> pton6" where
  "put_word s = s\<lparr>p6_tmp := (p6_tmp s)[tp s := of_nat (xval s div 256), tp s + 1 := of_nat (xval s)], tp := tp s + 2\<rparr>"

fun pton6_loop :: "string \<Rightarrow> pton6 \<Rightarrow> stop + pton6 option" where
  "pton6_loop [] s = Inr (Some s)"
| "pton6_loop (ch # src) s =
     (case xdigit ch of
        Some d \<Rightarrow>
          let v = xval s * 16 + d in
          if v > 0xffff then Inr None else pton6_loop src (s\<lparr>xval := v, saw_xdigit := True\<rparr>)
      | None \<Rightarrow>
          if ch = CHR '':'' then
            let s = s\<lparr>curtok := src\<rparr> in
            if \<not> saw_xdigit s then
              if colonp s \<noteq> None then Inr None else pton6_loop src (s\<lparr>colonp := Some (tp s)\<rparr>)
            else if tp s + INT16SZ > IN6ADDRSZ then Inr None
            else pton6_loop src ((put_word s)\<lparr>saw_xdigit := False, xval := 0\<rparr>)
          else if ch = CHR ''.'' \<and> tp s + INADDRSZ \<le> IN6ADDRSZ then
            (case inet_pton4 (curtok s) of
               Inl e \<Rightarrow> Inl e
             | Inr None \<Rightarrow> Inr None
             | Inr (Some a) \<Rightarrow>
                 Inr (Some (s\<lparr>p6_tmp := take (tp s) (p6_tmp s) @ a @ drop (tp s + INADDRSZ) (p6_tmp s),
                              tp := tp s + INADDRSZ, saw_xdigit := False\<rparr>)))
          else Inr None)"

text \<open>
  The loop that moves the \<open>n\<close> bytes from \<open>c\<close> on to the end of the array, from the last one on, and
  clears where they were: \<open>i\<close> runs from 1 to \<open>n\<close>.
\<close>

fun shift_loop :: "nat \<Rightarrow> nat \<Rightarrow> nat \<Rightarrow> u8 list \<Rightarrow> u8 list" where
  "shift_loop 0 c i tmp = tmp"
| "shift_loop (Suc k) c i tmp =
     shift_loop k c (i + 1) (let n = i + k in tmp[IN6ADDRSZ - i := tmp ! (c + n - i), c + n - i := 0])"

text \<open>What follows the loop.\<close>

definition pton6_end :: "pton6 \<Rightarrow> u8 list option" where
  "pton6_end s =
     (if saw_xdigit s \<and> tp s + INT16SZ > IN6ADDRSZ then None
      else
        let s = (if saw_xdigit s then put_word s else s) in
        case colonp s of
          None \<Rightarrow> if tp s \<noteq> IN6ADDRSZ then None else Some (p6_tmp s)
        | Some c \<Rightarrow> Some (shift_loop (tp s - c) c 1 (p6_tmp s)))"

definition inet_pton6 :: "string \<Rightarrow> stop + u8 list option" where
  "inet_pton6 src =
     (let src = cstr src in
      if src \<noteq> [] \<and> hd src = CHR '':'' \<and> (tl src = [] \<or> hd (tl src) \<noteq> CHR '':'') then Inr None
      else
        let src = (if src \<noteq> [] \<and> hd src = CHR '':'' then tl src else src);
            s = \<lparr>p6_tmp = replicate IN6ADDRSZ 0, tp = 0, colonp = None, curtok = src, saw_xdigit = False, xval = 0\<rparr> in
        case pton6_loop src s of
          Inl e \<Rightarrow> Inl e
        | Inr None \<Rightarrow> Inr None
        | Inr (Some s) \<Rightarrow> Inr (pton6_end s))"

text \<open>The value returned and what is at \<^verbatim>\<open>dst\<close> afterwards.\<close>

definition inet_pton :: "family \<Rightarrow> string \<Rightarrow> u8 list \<Rightarrow> stop + int \<times> u8 list" where
  "inet_pton af src dst =
     (case (case af of AF_INET \<Rightarrow> Some (inet_pton4 src) | AF_INET6 \<Rightarrow> Some (inet_pton6 src) | _ \<Rightarrow> None) of
        None \<Rightarrow> Inr (- 1, dst)
      | Some (Inl e) \<Rightarrow> Inl e
      | Some (Inr None) \<Rightarrow> Inr (0, dst)
      | Some (Inr (Some a)) \<Rightarrow> Inr (1, overwrite dst a))"

text \<open>The wrapper ends the process unless 1 is returned; the result is what is at \<^verbatim>\<open>addrptr\<close>.\<close>

definition Inet_pton :: "family \<Rightarrow> string \<Rightarrow> u8 list \<Rightarrow> stop + u8 list" where
  "Inet_pton af strptr addrptr =
     bindr (inet_pton af strptr addrptr) (\<lambda>(n, a).
     if n \<le> 0 then Inl (Exit 1 (''inet_pton error for '' @ strptr)) else Inr a)"

section \<open>To the printed form\<close>

text \<open>
  \<open>bound\<close> is the size given for \<^verbatim>\<open>dst\<close>, which is taken to be its size. The test compares it with
  the length of the string without its NUL.
\<close>

definition show4 :: "u8 list \<Rightarrow> string" where
  "show4 b = show_nat (unat (b ! 0)) @ ''.'' @ show_nat (unat (b ! 1)) @ ''.''
     @ show_nat (unat (b ! 2)) @ ''.'' @ show_nat (unat (b ! 3))"

definition inet_ntop4 :: "u8 list \<Rightarrow> nat \<Rightarrow> stop + string option" where
  "inet_ntop4 src bound =
     (let tmp = show4 src in
      if length tmp > bound then Inr None
      else if length tmp + 1 > bound then Inl (Undefined ''dst'')
      else Inr (Some tmp))"

text \<open>\<^verbatim>\<open>%x\<close>\<close>

definition hexdigit :: "nat \<Rightarrow> char" where
  "hexdigit d = char_of (if d < 10 then 48 + d else 87 + d)"

fun show_hex :: "nat \<Rightarrow> string" where
  "show_hex n = (if n < 16 then [hexdigit n] else show_hex (n div 16) @ [hexdigit (n mod 16)])"

declare show_hex.simps [simp del]

text \<open>The array \<^verbatim>\<open>words\<close>.\<close>

definition addr_words :: "u8 list \<Rightarrow> nat list" where
  "addr_words src = map (\<lambda>i. unat (src ! (2 * i)) * 256 + unat (src ! (2 * i + 1))) [0..<IN6ADDRSZ div INT16SZ]"

text \<open>
  The longest run of zeros: \<open>best\<close> and \<open>cur\<close> are pairs of \<^verbatim>\<open>base\<close> and \<^verbatim>\<open>len\<close>, \<open>None\<close> where
  \<^verbatim>\<open>base\<close> is -1.
\<close>

type_synonym zrun = "(nat \<times> nat) option"

definition better_run :: "zrun \<Rightarrow> zrun \<Rightarrow> zrun" where
  "better_run best cur =
     (case cur of
        None \<Rightarrow> best
      | Some (b, l) \<Rightarrow>
         (case best of None \<Rightarrow> cur | Some (b', l') \<Rightarrow> if l > l' then cur else best))"

fun zero_runs :: "nat \<Rightarrow> nat list \<Rightarrow> zrun \<Rightarrow> zrun \<Rightarrow> zrun" where
  "zero_runs i [] best cur = better_run best cur"
| "zero_runs i (w # ws) best cur =
     (if w = 0 then zero_runs (i + 1) ws best (case cur of None \<Rightarrow> Some (i, 1) | Some (b, l) \<Rightarrow> Some (b, l + 1))
      else zero_runs (i + 1) ws (better_run best cur) None)"

definition best_run :: "nat list \<Rightarrow> zrun" where
  "best_run ws = (case zero_runs 0 ws None None of Some (b, l) \<Rightarrow> if l < 2 then None else Some (b, l) | None \<Rightarrow> None)"

text \<open>
  The formatting loop from word \<open>i\<close> on, of which \<open>ws\<close> are left; \<open>w5\<close> is \<^verbatim>\<open>words[5]\<close>, \<open>v4\<close> the last
  four bytes.
\<close>

fun ntop6_loop :: "zrun \<Rightarrow> nat \<Rightarrow> u8 list \<Rightarrow> nat \<Rightarrow> nat list \<Rightarrow> string" where
  "ntop6_loop best w5 v4 i [] = []"
| "ntop6_loop best w5 v4 i (w # ws) =
     (case best of
        None \<Rightarrow> (if i \<noteq> 0 then '':'' else []) @ show_hex w @ ntop6_loop best w5 v4 (i + 1) ws
      | Some (b, l) \<Rightarrow>
          if b \<le> i \<and> i < b + l then (if i = b then '':'' else []) @ ntop6_loop best w5 v4 (i + 1) ws
          else (if i \<noteq> 0 then '':'' else []) @
            (if i = 6 \<and> b = 0 \<and> (l = 6 \<or> l = 5 \<and> w5 = 0xffff) then show4 v4
             else show_hex w @ ntop6_loop best w5 v4 (i + 1) ws))"

definition show6 :: "u8 list \<Rightarrow> string" where
  "show6 src =
     (let words = addr_words src; best = best_run words in
      ntop6_loop best (words ! 5) (drop 12 src) 0 words
      @ (case best of Some (b, l) \<Rightarrow> if b + l = IN6ADDRSZ div INT16SZ then '':'' else [] | None \<Rightarrow> []))"

text \<open>The array \<^verbatim>\<open>tmp\<close> has 46 bytes. Here the NUL is counted.\<close>

definition inet_ntop6 :: "u8 list \<Rightarrow> nat \<Rightarrow> stop + string option" where
  "inet_ntop6 src bound =
     (let tmp = show6 src in
      if length tmp + 1 > 46 then Inl (Undefined ''tmp'')
      else if length tmp + 1 > bound then Inr None
      else Inr (Some tmp))"

definition inet_ntop :: "family \<Rightarrow> u8 list \<Rightarrow> nat \<Rightarrow> stop + string option" where
  "inet_ntop af src bound =
     (case af of AF_INET \<Rightarrow> inet_ntop4 src bound | AF_INET6 \<Rightarrow> inet_ntop6 src bound | _ \<Rightarrow> Inr None)"

end
