(* ===== verification/SockAddr.thy ===== *)
theory SockAddr
  imports InetAddr
begin

text \<open>
  Socket addresses of the book library (\<^verbatim>\<open>unpv13e/lib/sock_*.c\<close>): printing, comparing, and
  reading and setting the parts of an address whatever its family.
\<close>

section \<open>Socket addresses\<close>

text \<open>
  \<^verbatim>\<open>struct sockaddr\<close> by family: port and address as they are in memory, the port and an IPv4
  address in network byte order, or the buffer of a path.
\<close>

datatype sockaddr =
    Sockaddr_in u16 u32
  | Sockaddr_in6 u16 "u8 list"
  | Sockaddr_un string
  | Sockaddr_other int

fun sa_family :: "sockaddr \<Rightarrow> family" where
  "sa_family (Sockaddr_in p a) = AF_INET"
| "sa_family (Sockaddr_in6 p a) = AF_INET6"
| "sa_family (Sockaddr_un s) = AF_UNIX"
| "sa_family (Sockaddr_other f) = AF_OTHER f"

text \<open>
  The IPv4 address behind a pointer that is cast to \<^verbatim>\<open>struct sockaddr_in *\<close>, and reading it:
  through a null pointer, or where the address is another one, this is undefined.
\<close>

definition ipv4 :: "sockaddr option \<Rightarrow> u32 option" where
  "ipv4 sa = (case sa of Some (Sockaddr_in p a) \<Rightarrow> Some a | _ \<Rightarrow> None)"

definition sin_addr :: "string \<Rightarrow> sockaddr option \<Rightarrow> 's \<Rightarrow> (stop \<times> 's) + u32" where
  "sin_addr ptr sa s = (case ipv4 sa of None \<Rightarrow> Inl (Undefined ptr, s) | Some a \<Rightarrow> Inr a)"

text \<open>The four bytes of a word, as a little-endian host has them in memory.\<close>

definition addr_bytes :: "u32 \<Rightarrow> u8 list" where
  "addr_bytes a = [ucast a, ucast (drop_bit 8 a), ucast (drop_bit 16 a), ucast (drop_bit 24 a)]"

lemma sin_addr_Inr_iff [bind_iff]: "sin_addr ptr sa s = Inr a \<longleftrightarrow> ipv4 sa = Some a"
  by (auto simp: sin_addr_def split: option.splits)

section \<open>Printing\<close>

text \<open>\<^verbatim>\<open>snprintf\<close> into a buffer of \<open>n\<close> bytes.\<close>

definition snprintf :: "nat \<Rightarrow> string \<Rightarrow> string" where
  "snprintf n s = take (n - 1) s"

text \<open>\<^verbatim>\<open>strcat(str, portstr)\<close> into the 128 bytes of \<^verbatim>\<open>str\<close>, of which \<open>used\<close> lie before \<open>s\<close>.\<close>

definition strcat_str :: "nat \<Rightarrow> string \<Rightarrow> string \<Rightarrow> stop + string" where
  "strcat_str used s t = (if used + length s + length t + 1 > 128 then Inl (Undefined ''str'') else Inr (s @ t))"

definition sock_ntop :: "sockaddr \<Rightarrow> nat \<Rightarrow> stop + string option" where
  "sock_ntop sa salen =
     (case sa of
        Sockaddr_in port addr \<Rightarrow>
          bindr (inet_ntop AF_INET (addr_bytes addr) 128) (\<lambda>r.
          case r of
            None \<Rightarrow> Inr None
          | Some str \<Rightarrow>
              if ntohs port \<noteq> 0
              then bindr (strcat_str 0 str (snprintf 8 ('':'' @ show_nat (unat (ntohs port))))) (\<lambda>s. Inr (Some s))
              else Inr (Some str))
      | Sockaddr_in6 port addr \<Rightarrow>
          bindr (inet_ntop AF_INET6 addr 127) (\<lambda>r.
          case r of
            None \<Rightarrow> Inr None
          | Some str \<Rightarrow>
              if ntohs port \<noteq> 0
              then bindr (strcat_str 1 str (snprintf 8 ('']:'' @ show_nat (unat (ntohs port))))) (\<lambda>s. Inr (Some (''['' @ s)))
              else Inr (Some str))
      | Sockaddr_un path \<Rightarrow>
          Inr (Some (if cstr path = [] then ''(no pathname bound)'' else snprintf 128 (cstr path)))
      | Sockaddr_other f \<Rightarrow>
          Inr (Some (snprintf 128 (''sock_ntop: unknown AF_xxx: '' @ show_int f @ '', len '' @ show_nat salen))))"

definition Sock_ntop :: "sockaddr \<Rightarrow> nat \<Rightarrow> stop + string" where
  "Sock_ntop sa salen =
     bindr (sock_ntop sa salen) (\<lambda>r. case r of None \<Rightarrow> Inl (Exit 1 ''sock_ntop error'') | Some s \<Rightarrow> Inr s)"

definition sock_ntop_host :: "sockaddr \<Rightarrow> nat \<Rightarrow> stop + string option" where
  "sock_ntop_host sa salen =
     (case sa of
        Sockaddr_in port addr \<Rightarrow> inet_ntop AF_INET (addr_bytes addr) 128
      | Sockaddr_in6 port addr \<Rightarrow> inet_ntop AF_INET6 addr 128
      | Sockaddr_un path \<Rightarrow>
          Inr (Some (if cstr path = [] then ''(no pathname bound)'' else snprintf 128 (cstr path)))
      | Sockaddr_other f \<Rightarrow>
          Inr (Some (snprintf 128 (''sock_ntop_host: unknown AF_xxx: '' @ show_int f @ '', len '' @ show_nat salen))))"

definition Sock_ntop_host :: "sockaddr \<Rightarrow> nat \<Rightarrow> stop + string" where
  "Sock_ntop_host sa salen =
     bindr (sock_ntop_host sa salen) (\<lambda>r. case r of None \<Rightarrow> Inl (Exit 1 ''sock_ntop_host error'') | Some s \<Rightarrow> Inr s)"

section \<open>Comparing\<close>

text \<open>\<^verbatim>\<open>memcmp\<close> of arrays of one length; only the sign of the result means anything.\<close>

fun memcmp :: "u8 list \<Rightarrow> u8 list \<Rightarrow> int" where
  "memcmp (x # xs) (y # ys) = (if x = y then memcmp xs ys else if x < y then - 1 else 1)"
| "memcmp _ _ = 0"

definition byte_of :: "char \<Rightarrow> u8" where
  "byte_of c = word_of_nat (of_char c)"

definition strcmp :: "string \<Rightarrow> string \<Rightarrow> int" where
  "strcmp s t = memcmp (map byte_of (cstr s @ [NUL])) (map byte_of (cstr t @ [NUL]))"

definition sock_cmp_addr :: "sockaddr \<Rightarrow> sockaddr \<Rightarrow> int" where
  "sock_cmp_addr sa1 sa2 =
     (if sa_family sa1 \<noteq> sa_family sa2 then - 1
      else
        (case (sa1, sa2) of
           (Sockaddr_in _ a, Sockaddr_in _ b) \<Rightarrow> memcmp (addr_bytes a) (addr_bytes b)
         | (Sockaddr_in6 _ a, Sockaddr_in6 _ b) \<Rightarrow> memcmp a b
         | (Sockaddr_un s, Sockaddr_un t) \<Rightarrow> strcmp s t
         | _ \<Rightarrow> - 1))"

text \<open>The value of \<^verbatim>\<open>==\<close> is 1 for equal ports.\<close>

definition sock_cmp_port :: "sockaddr \<Rightarrow> sockaddr \<Rightarrow> int" where
  "sock_cmp_port sa1 sa2 =
     (if sa_family sa1 \<noteq> sa_family sa2 then - 1
      else
        (case (sa1, sa2) of
           (Sockaddr_in p _, Sockaddr_in q _) \<Rightarrow> of_bool (p = q)
         | (Sockaddr_in6 p _, Sockaddr_in6 q _) \<Rightarrow> of_bool (p = q)
         | _ \<Rightarrow> - 1))"

section \<open>Parts of an address\<close>

definition sock_get_port :: "sockaddr \<Rightarrow> int" where
  "sock_get_port sa = (case sa of Sockaddr_in p _ \<Rightarrow> uint p | Sockaddr_in6 p _ \<Rightarrow> uint p | _ \<Rightarrow> - 1)"

definition sock_set_port :: "int \<Rightarrow> sockaddr \<Rightarrow> sockaddr" where
  "sock_set_port port sa =
     (case sa of
        Sockaddr_in _ a \<Rightarrow> Sockaddr_in (word_of_int port) a
      | Sockaddr_in6 _ a \<Rightarrow> Sockaddr_in6 (word_of_int port) a
      | _ \<Rightarrow> sa)"

text \<open>The word that four bytes in memory are.\<close>

definition bytes_addr :: "u8 list \<Rightarrow> u32" where
  "bytes_addr b = ucast (b ! 0) OR push_bit 8 (ucast (b ! 1)) OR push_bit 16 (ucast (b ! 2)) OR push_bit 24 (ucast (b ! 3))"

text \<open>\<^verbatim>\<open>memcpy\<close> from \<open>addr\<close>, which must have as many bytes as an address of the family.\<close>

definition sock_set_addr :: "u8 list \<Rightarrow> sockaddr \<Rightarrow> stop + sockaddr" where
  "sock_set_addr addr sa =
     (case sa of
        Sockaddr_in p _ \<Rightarrow>
          if length addr < INADDRSZ then Inl (Undefined ''addr'') else Inr (Sockaddr_in p (bytes_addr addr))
      | Sockaddr_in6 p _ \<Rightarrow>
          if length addr < IN6ADDRSZ then Inl (Undefined ''addr'') else Inr (Sockaddr_in6 p (take IN6ADDRSZ addr))
      | _ \<Rightarrow> Inr sa)"

definition sock_set_wild :: "sockaddr \<Rightarrow> stop + sockaddr" where
  "sock_set_wild sa =
     (case sa_family sa of
        AF_INET \<Rightarrow> sock_set_addr (addr_bytes (htonl 0)) sa
      | AF_INET6 \<Rightarrow> sock_set_addr (replicate IN6ADDRSZ 0) sa
      | _ \<Rightarrow> Inr sa)"

text \<open>
  \<^verbatim>\<open>bind\<close> says whether the kernel binds the socket to an address, \<^verbatim>\<open>getsockname\<close> what the socket
  is then bound to; the port stands at the same place in both kinds of address.
\<close>

definition sock_bind_wild :: "(sockaddr \<Rightarrow> bool) \<Rightarrow> sockaddr option \<Rightarrow> family \<Rightarrow> stop + int" where
  "sock_bind_wild bind getsockname family =
     (let named = (\<lambda>wild.
            if \<not> bind wild then Inr (- 1)
            else
              (case getsockname of
                 None \<Rightarrow> Inr (- 1)
               | Some (Sockaddr_in p _) \<Rightarrow> Inr (uint p)
               | Some (Sockaddr_in6 p _) \<Rightarrow> Inr (uint p)
               | Some _ \<Rightarrow> Inl (Undefined ''sin'')))
      in case family of
           AF_INET \<Rightarrow> named (Sockaddr_in (htons 0) (htonl 0))
         | AF_INET6 \<Rightarrow> named (Sockaddr_in6 (htons 0) (replicate IN6ADDRSZ 0))
         | _ \<Rightarrow> Inr (- 1))"

definition Sock_bind_wild :: "(sockaddr \<Rightarrow> bool) \<Rightarrow> sockaddr option \<Rightarrow> family \<Rightarrow> stop + int" where
  "Sock_bind_wild bind getsockname family =
     bindr (sock_bind_wild bind getsockname family) (\<lambda>port.
     if port < 0 then Inl (Exit 1 ''sock_bind_wild error'') else Inr port)"

end
