(* ===== verification/Inet6Props.thy ===== *)
theory Inet6Props
  imports InetAddrProps
begin

text \<open>
  IPv6 addresses: what \<^verbatim>\<open>inet_ntop6\<close> prints, with the longest run of zeros left out and an
  embedded IPv4 address in dots, \<^verbatim>\<open>inet_pton6\<close> reads back.
\<close>

section \<open>Reading\<close>

text \<open>The state of \<^verbatim>\<open>inet_pton6\<close> at the beginning of a token, when the bytes \<open>out\<close> have been stored.\<close>

definition at_token :: "u8 list \<Rightarrow> nat option \<Rightarrow> string \<Rightarrow> pton6" where
  "at_token out c tok = \<lparr>p6_tmp = out @ replicate (16 - length out) 0, tp = length out, colonp = c, curtok = tok,
     saw_xdigit = False, xval = 0\<rparr>"

definition word_bytes :: "nat \<Rightarrow> u8 list" where
  "word_bytes n = [of_nat (n div 256), of_nat n]"

definition bytes_of :: "nat list \<Rightarrow> u8 list" where
  "bytes_of ws = concat (map word_bytes ws)"

lemma bytes_of_simps [simp]:
  "bytes_of [] = []" "bytes_of (w # ws) = word_bytes w @ bytes_of ws" "bytes_of (us @ ws) = bytes_of us @ bytes_of ws"
  by (simp_all add: bytes_of_def)

lemma length_word_bytes [simp]: "length (word_bytes w) = 2"
  by (simp add: word_bytes_def)

lemma length_bytes_of [simp]: "length (bytes_of ws) = 2 * length ws"
  by (induction ws) auto

lemma bytes_of_zeros: "bytes_of (replicate n 0) = replicate (2 * n) 0"
  by (induction n) (auto simp: word_bytes_def)

text \<open>Words that are followed by colons, and words with colons between them.\<close>

definition words_then :: "nat list \<Rightarrow> string" where
  "words_then ws = concat (map (\<lambda>w. show_hex w @ '':'') ws)"

definition colon_words :: "nat list \<Rightarrow> string" where
  "colon_words ws = concat (map (\<lambda>w. CHR '':'' # show_hex w) ws)"

fun join_words :: "nat list \<Rightarrow> string" where
  "join_words [] = []"
| "join_words (w # ws) = show_hex w @ colon_words ws"

lemma xdigit_hexdigit: "d < 16 \<Longrightarrow> xdigit (hexdigit d) = Some d"
  by (auto simp: xdigit_def hexdigit_def is_digit_def)

lemma xdigit_colon [simp]: "xdigit CHR '':'' = None" "xdigit CHR ''.'' = None"
  by (simp_all add: xdigit_def is_digit_def)

lemma loop_hex:
  assumes "n < 0x10000" and "xval s = 0"
  shows "pton6_loop (show_hex n @ rest) s = pton6_loop rest (s\<lparr>xval := n, saw_xdigit := True\<rparr>)"
  using assms
proof (induction n arbitrary: rest rule: show_hex.induct)
  case (1 n)
  show ?case
  proof (cases "n < 16")
    case True
    then show ?thesis using 1(3) by (subst show_hex.simps) (simp add: xdigit_hexdigit Let_def)
  next
    case False
    then have "pton6_loop (show_hex n @ rest) s = pton6_loop (show_hex (n div 16) @ hexdigit (n mod 16) # rest) s"
      by (subst show_hex.simps) simp
    also have "\<dots> = pton6_loop (hexdigit (n mod 16) # rest) (s\<lparr>xval := n div 16, saw_xdigit := True\<rparr>)"
      using 1 False by simp
    also have "\<dots> = pton6_loop rest (s\<lparr>xval := n, saw_xdigit := True\<rparr>)"
      using 1(2) by (simp add: xdigit_hexdigit Let_def)
    finally show ?thesis .
  qed
qed

lemma store_two:
  assumes "length out + 2 \<le> 16"
  shows "(out @ replicate (16 - length out) 0)[length out := a, length out + 1 := b]
    = (out @ [a, b]) @ replicate (16 - length (out @ [a, b])) (0 :: u8)"
proof -
  have "16 - length out = Suc (Suc (14 - length out))" using assms by simp
  then show ?thesis by (simp add: list_update_append)
qed

lemma put_word_token:
  assumes "length out + 2 \<le> 16"
  shows "(put_word ((at_token out c tok)\<lparr>xval := n, saw_xdigit := x, curtok := tok'\<rparr>))\<lparr>saw_xdigit := False, xval := 0\<rparr>
    = at_token (out @ word_bytes n) c tok'"
  using store_two [OF assms] by (simp add: put_word_def at_token_def word_bytes_def)

lemma loop_word_colon:
  assumes "n < 0x10000" and "length out + 2 \<le> 16"
  shows "pton6_loop (show_hex n @ CHR '':'' # rest) (at_token out c tok) = pton6_loop rest (at_token (out @ word_bytes n) c rest)"
proof -
  have "pton6_loop (show_hex n @ CHR '':'' # rest) (at_token out c tok)
      = pton6_loop (CHR '':'' # rest) ((at_token out c tok)\<lparr>xval := n, saw_xdigit := True\<rparr>)"
    using assms(1) by (intro loop_hex) (simp_all add: at_token_def)
  also have "\<dots> = pton6_loop rest
      ((put_word ((at_token out c tok)\<lparr>xval := n, saw_xdigit := True, curtok := rest\<rparr>))\<lparr>saw_xdigit := False, xval := 0\<rparr>)"
    using assms(2) by (simp add: at_token_def INT16SZ_def IN6ADDRSZ_def)
  finally show ?thesis by (simp only: put_word_token [OF assms(2)])
qed

lemma loop_words_then:
  assumes "\<forall>w \<in> set ws. w < 0x10000" and "length out + 2 * length ws \<le> 16"
  shows "pton6_loop (words_then ws @ rest) (at_token out c tok)
    = pton6_loop rest (at_token (out @ bytes_of ws) c (if ws = [] then tok else rest))"
  using assms
proof (induction ws arbitrary: out tok)
  case Nil
  then show ?case by (simp add: words_then_def)
next
  case (Cons w ws)
  have "words_then (w # ws) @ rest = show_hex w @ CHR '':'' # (words_then ws @ rest)" by (simp add: words_then_def)
  moreover have "pton6_loop (words_then ws @ rest) (at_token (out @ word_bytes w) c (words_then ws @ rest))
      = pton6_loop rest (at_token ((out @ word_bytes w) @ bytes_of ws) c (if ws = [] then words_then ws @ rest else rest))"
    using Cons.prems by (intro Cons.IH) auto
  moreover have "words_then [] = []" by (simp add: words_then_def)
  ultimately show ?case using Cons.prems loop_word_colon [of w out "words_then ws @ rest" c tok] by (cases ws) simp_all
qed

lemma loop_gap: "pton6_loop (CHR '':'' # rest) (at_token out None tok) = pton6_loop rest (at_token out (Some (length out)) rest)"
  by (simp add: at_token_def)

text \<open>
  What the end of the function makes of the bytes stored and the place of the gap. When all sixteen
  bytes have been stored, the loop that moves bytes moves each onto itself and clears it.
\<close>

definition close_gap :: "u8 list \<Rightarrow> nat option \<Rightarrow> u8 list option" where
  "close_gap out c =
     (case c of None \<Rightarrow> if length out = 16 then Some out else None
      | Some k \<Rightarrow> Some (take k out @ (if length out = 16 then replicate (16 - k) 0
                              else replicate (16 - length out) 0 @ drop k out)))"

lemma shift_loop_moves:
  assumes "length out < 16" and "c + k \<le> length out" and "i + k = length out - c + 1" and "1 \<le> i"
  shows "shift_loop k c i (take (c + k) out @ replicate (16 - length out) 0 @ drop (c + k) out)
    = take c out @ replicate (16 - length out) 0 @ drop c out"
  using assms
proof (induction k arbitrary: i)
  case 0
  then show ?case by simp
next
  case (Suc k)
  let ?g = "15 - length out" and ?x = "out ! (c + k)"
  have n: "c + (i + k) - i = c + k" by simp
  have g: "16 - length out = Suc ?g" using Suc.prems(1) by simp
  have hi: "16 - i = c + k + Suc ?g" using Suc.prems by simp
  have t: "take (Suc (c + k)) out = take (c + k) out @ [?x]" using Suc.prems by (simp add: take_Suc_conv_app_nth)
  have d: "drop (c + k) out = ?x # drop (Suc (c + k)) out" using Suc.prems by (simp add: Cons_nth_drop_Suc)
  have len: "length (take (c + k) out) = c + k" using Suc.prems by simp
  let ?tmp = "take (c + k) out @ ?x # replicate ?g 0 @ 0 # drop (Suc (c + k)) out"
  have r: "replicate (Suc ?g) (0 :: u8) = replicate ?g 0 @ [0]" by (simp add: replicate_append_same)
  have before: "take (c + Suc k) out @ replicate (16 - length out) 0 @ drop (c + Suc k) out = ?tmp"
    by (simp add: g t r del: replicate_Suc)
  have "?tmp[IN6ADDRSZ - i := ?tmp ! (c + k), c + k := 0]
      = take (c + k) out @ 0 # replicate ?g 0 @ ?x # drop (Suc (c + k)) out"
    using hi len by (simp add: IN6ADDRSZ_def list_update_append nth_append)
  also have "\<dots> = take (c + k) out @ replicate (16 - length out) 0 @ drop (c + k) out"
    by (simp add: g d)
  finally have step: "shift_loop (Suc k) c i ?tmp
      = shift_loop k c (i + 1) (take (c + k) out @ replicate (16 - length out) 0 @ drop (c + k) out)"
    by (simp add: Let_def n)
  have "shift_loop k c (i + 1) (take (c + k) out @ replicate (16 - length out) 0 @ drop (c + k) out)
      = take c out @ replicate (16 - length out) 0 @ drop c out"
    using Suc.prems by (intro Suc.IH) auto
  with step show ?case unfolding before by (rule trans)
qed

lemma shift_loop_clears:
  assumes "length out = 16" and "c + k \<le> 16" and "i + k + c = 17" and "1 \<le> i"
  shows "shift_loop k c i (take (c + k) out @ replicate (16 - (c + k)) 0) = take c out @ replicate (16 - c) 0"
  using assms
proof (induction k arbitrary: i)
  case 0
  then show ?case by simp
next
  case (Suc k)
  have len: "length (take (c + k) out) = c + k" using Suc.prems by simp
  have t: "take (c + Suc k) out = take (c + k) out @ [out ! (c + k)]" using Suc.prems by (simp add: take_Suc_conv_app_nth)
  have i: "IN6ADDRSZ - i = c + k" "c + (i + k) - i = c + k" using Suc.prems by (auto simp: IN6ADDRSZ_def)
  have r: "0 # replicate (16 - (c + Suc k)) (0 :: u8) = replicate (16 - (c + k)) 0"
    using Suc.prems by (simp flip: replicate_Suc add: Suc_diff_Suc)
  have "shift_loop (Suc k) c i (take (c + Suc k) out @ replicate (16 - (c + Suc k)) 0)
      = shift_loop k c (i + 1) (take (c + k) out @ 0 # replicate (16 - (c + Suc k)) 0)"
    using len unfolding shift_loop.simps Let_def i t by (simp add: list_update_append nth_append)
  also have "\<dots> = take c out @ replicate (16 - c) 0" unfolding r using Suc.prems by (intro Suc.IH) auto
  finally show ?case .
qed

lemma pton6_end_token:
  assumes "length out \<le> 16" and "\<forall>k. c = Some k \<longrightarrow> k \<le> length out"
  shows "pton6_end (at_token out c tok) = close_gap out c"
proof (cases c)
  case None
  then show ?thesis by (simp add: pton6_end_def at_token_def close_gap_def IN6ADDRSZ_def)
next
  case (Some k)
  then have "k \<le> length out" using assms(2) by auto
  then show ?thesis
    using shift_loop_moves [of out k "length out - k" 1] shift_loop_clears [of out k "16 - k" 1] Some assms(1)
    by (cases "length out = 16") (simp_all add: pton6_end_def at_token_def close_gap_def)
qed

text \<open>The result of the loop at the end of the string.\<close>

definition loop_result :: "stop + pton6 option \<Rightarrow> stop + u8 list option" where
  "loop_result r = (case r of Inl e \<Rightarrow> Inl e | Inr None \<Rightarrow> Inr None | Inr (Some s) \<Rightarrow> Inr (pton6_end s))"

lemma end_word:
  assumes "n < 0x10000" and "length out + 2 \<le> 16" and "\<forall>k. c = Some k \<longrightarrow> k \<le> length out"
  shows "loop_result (pton6_loop (show_hex n) (at_token out c tok)) = Inr (close_gap (out @ word_bytes n) c)"
proof -
  have "pton6_loop (show_hex n) (at_token out c tok) = Inr (Some ((at_token out c tok)\<lparr>xval := n, saw_xdigit := True\<rparr>))"
    using loop_hex [of n "at_token out c tok" "[]"] assms(1) by (simp add: at_token_def)
  moreover have "pton6_end ((at_token out c tok)\<lparr>xval := n, saw_xdigit := True\<rparr>) = pton6_end (at_token (out @ word_bytes n) c tok)"
    using assms(2) store_two [OF assms(2)]
    by (cases c) (simp_all add: pton6_end_def at_token_def put_word_def word_bytes_def INT16SZ_def IN6ADDRSZ_def Let_def)
  moreover have "pton6_end (at_token (out @ word_bytes n) c tok) = close_gap (out @ word_bytes n) c"
    using assms(2,3) by (intro pton6_end_token) fastforce+
  ultimately show ?thesis by (simp add: loop_result_def)
qed

lemma colon_words_join: "colon_words us = (if us = [] then [] else CHR '':'' # join_words us)"
  by (cases us) (simp_all add: colon_words_def)

lemma join_words_then: "ws \<noteq> [] \<Longrightarrow> join_words ws = words_then (butlast ws) @ show_hex (last ws)"
proof (induction ws)
  case (Cons w ws)
  then show ?case by (cases "ws = []") (simp_all add: words_then_def colon_words_join [of ws] colon_words_def [of "[]"])
qed simp

lemma end_words:
  assumes "\<forall>w \<in> set ws. w < 0x10000" and "length out + 2 * length ws \<le> 16"
    and "\<forall>k. c = Some k \<longrightarrow> k \<le> length out"
  shows "loop_result (pton6_loop (join_words ws) (at_token out c tok)) = Inr (close_gap (out @ bytes_of ws) c)"
proof (cases "ws = []")
  case True
  then show ?thesis using assms by (simp add: loop_result_def pton6_end_token)
next
  case False
  let ?us = "butlast ws" and ?w = "last ws"
  have ws: "ws = ?us @ [?w]" using False by simp
  have len: "length ws = length ?us + 1" using False by (cases ws) auto
  have us: "\<forall>w \<in> set ?us. w < 0x10000" "length out + 2 * length ?us + 2 \<le> 16" "?w < 0x10000"
    using assms(1) False assms(2) len by (auto dest: in_set_butlastD simp del: length_butlast)
  have "pton6_loop (join_words ws) (at_token out c tok)
      = pton6_loop (show_hex ?w) (at_token (out @ bytes_of ?us) c (if ?us = [] then tok else show_hex ?w))"
    unfolding join_words_then [OF False] using us by (intro loop_words_then) auto
  moreover have "loop_result (pton6_loop (show_hex ?w) (at_token (out @ bytes_of ?us) c tok'))
      = Inr (close_gap ((out @ bytes_of ?us) @ word_bytes ?w) c)" for tok'
    using us assms(3) len by (intro end_word) (fastforce simp del: length_butlast)+
  moreover have "bytes_of ws = bytes_of ?us @ word_bytes ?w" by (subst ws) simp
  ultimately show ?thesis by simp
qed

lemma loop_digits:
  assumes "list_all is_digit ds" and "xval s * 16 ^ length ds + 16 ^ length ds \<le> 0x10000" and "ds \<noteq> []"
  shows "\<exists>v. pton6_loop (ds @ rest) s = pton6_loop rest (s\<lparr>xval := v, saw_xdigit := True\<rparr>)"
  using assms
proof (induction ds arbitrary: s)
  case (Cons d ds)
  let ?v = "xval s * 16 + (of_char d - 48)" and ?P = "16 ^ length ds :: nat"
  have x: "xdigit d = Some (of_char d - 48)" "of_char d - 48 \<le> (9 :: nat)"
    using Cons.prems(1) by (auto simp: xdigit_def is_digit_def)
  have "?v * ?P + ?P \<le> (xval s * 16 + 16) * ?P" using mult_right_mono [of "?v + 1" "xval s * 16 + 16" ?P] x(2) by simp
  also have "\<dots> \<le> 0x10000" using Cons.prems(2) by (simp add: algebra_simps)
  finally have le: "?v * ?P + ?P \<le> 0x10000" .
  have "?v * 1 + 1 \<le> ?v * ?P + ?P" by (intro add_mono mult_left_mono) auto
  from this le have "?v * 1 + 1 \<le> 0x10000" by (rule le_trans)
  then have "?v \<le> 0xffff" by simp
  then have "pton6_loop ((d # ds) @ rest) s = pton6_loop (ds @ rest) (s\<lparr>xval := ?v, saw_xdigit := True\<rparr>)"
    by (simp add: x Let_def)
  with Cons.IH [of "s\<lparr>xval := ?v, saw_xdigit := True\<rparr>"] Cons.prems(1) le show ?case by (cases "ds = []") auto
qed simp

lemma end_quad:
  assumes "length v = 4" and "length out + 4 \<le> 16" and "\<forall>k. c = Some k \<longrightarrow> k \<le> length out"
  shows "loop_result (pton6_loop (show4 v) (at_token out c (show4 v))) = Inr (close_gap (out @ v) c)"
proof -
  let ?a = "show_nat (unat (v ! 0))" and ?s = "at_token out c (show4 v)"
  obtain rest where rest: "show4 v = ?a @ CHR ''.'' # rest" by (simp add: show4_def)
  have "length ?a \<le> 3" using show_nat_short [of "unat (v ! 0)" 2] unat_u8 [of "v ! 0"] by simp
  then have "(16 :: nat) ^ length ?a \<le> 16 ^ 3" by (intro power_increasing) auto
  then obtain n where n: "pton6_loop (show4 v) ?s = pton6_loop (CHR ''.'' # rest) (?s\<lparr>xval := n, saw_xdigit := True\<rparr>)"
    using loop_digits [of ?a ?s "CHR ''.'' # rest"] show_nat_digits [of "unat (v ! 0)"] rest
    by (auto simp: at_token_def list_all_iff)
  have q: "inet_pton4 (show4 v) = Inr (Some v)"
    using show4_quad [OF assms(1)] by (simp add: inet_pton4_eq cstr_no_nul [OF show4_no_nul])
  have "drop (length out + 4) (out @ replicate (16 - length out) (0 :: u8)) = replicate (16 - length (out @ v)) 0"
    using assms(1) by simp
  then have "pton6_loop (CHR ''.'' # rest) (?s\<lparr>xval := n, saw_xdigit := True\<rparr>)
      = Inr (Some ((at_token (out @ v) c (show4 v))\<lparr>xval := n\<rparr>))"
    using assms(1,2) q by (simp add: at_token_def INADDRSZ_def IN6ADDRSZ_def)
  moreover have "pton6_end ((at_token (out @ v) c (show4 v))\<lparr>xval := n\<rparr>) = pton6_end (at_token (out @ v) c (show4 v))"
    by (cases c) (simp_all add: pton6_end_def at_token_def)
  moreover have "pton6_end (at_token (out @ v) c (show4 v)) = close_gap (out @ v) c"
    using assms by (intro pton6_end_token) fastforce+
  ultimately show ?thesis by (simp add: n loop_result_def)
qed

section \<open>Printing\<close>

text \<open>A run of zeros in an array of words.\<close>

definition run_in :: "nat list \<Rightarrow> zrun \<Rightarrow> bool" where
  "run_in ws r \<longleftrightarrow> (\<forall>b l. r = Some (b, l) \<longrightarrow> b + l \<le> length ws \<and> (\<forall>i. b \<le> i \<and> i < b + l \<longrightarrow> ws ! i = 0))"

lemma run_in_None [simp]: "run_in ws None"
  by (simp add: run_in_def)

lemma better_run_in: "run_in ws r \<Longrightarrow> run_in ws c \<Longrightarrow> run_in ws (better_run r c)"
  by (auto simp: better_run_def split: option.splits)

lemma zero_runs_in:
  assumes "drop i ws = us" and "i \<le> length ws" and "run_in ws best" and "run_in ws cur" and "\<forall>b l. cur = Some (b, l) \<longrightarrow> b + l = i"
  shows "run_in ws (zero_runs i us best cur)"
  using assms
proof (induction i us best cur rule: zero_runs.induct)
  case (1 i best cur)
  then show ?case by (simp add: better_run_in)
next
  case (2 i w us best cur)
  have i: "i < length ws" "ws ! i = w" "drop (i + 1) ws = us"
    using 2(3) by (metis drop_all list.distinct(1) not_less, metis drop_all list.distinct(1) not_less nth_via_drop, metis add.commute drop_drop drop_Suc_Cons drop0 One_nat_def plus_1_eq_Suc)
  show ?case
  proof (cases "w = 0")
    case True
    have "run_in ws (case cur of None \<Rightarrow> Some (i, 1) | Some (b, l) \<Rightarrow> Some (b, l + 1))"
      using 2(6,7) i True by (auto simp: run_in_def less_Suc_eq split: option.splits)
    with 2(1) [OF True i(3)] True 2 i show ?thesis by (auto split: option.splits)
  next
    case False
    with 2(2) [OF False i(3)] 2 i show ?thesis by (auto simp: better_run_in)
  qed
qed

lemma best_run_in:
  assumes "best_run ws = Some (b, l)"
  shows "b + l \<le> length ws" "2 \<le> l" "ws = take b ws @ replicate l 0 @ drop (b + l) ws"
proof -
  have "run_in ws (zero_runs 0 ws None None)" by (rule zero_runs_in) auto
  then have r: "b + l \<le> length ws" "\<forall>i. b \<le> i \<and> i < b + l \<longrightarrow> ws ! i = 0" and "2 \<le> l"
    using assms by (auto simp: best_run_def run_in_def split: option.splits if_splits)
  then show "b + l \<le> length ws" "2 \<le> l" by auto
  have "take l (drop b ws) = replicate l 0"
    using r by (intro nth_equalityI) auto
  then show "ws = take b ws @ replicate l 0 @ drop (b + l) ws"
    by (metis add.commute append_take_drop_id drop_drop)
qed

lemma ntop6_loop_None: "i \<noteq> 0 \<Longrightarrow> ntop6_loop None w5 v4 i ws = colon_words ws"
  by (induction ws arbitrary: i) (auto simp: colon_words_def)

lemma ntop6_loop_after:
  "b + l \<le> i \<Longrightarrow> i \<noteq> 0 \<Longrightarrow> i > 6 \<or> \<not> (b = 0 \<and> (l = 6 \<or> l = 5 \<and> w5 = 0xffff)) \<Longrightarrow>
   ntop6_loop (Some (b, l)) w5 v4 i ws = colon_words ws"
  by (induction ws arbitrary: i) (auto simp: colon_words_def)

lemma ntop6_loop_in:
  "b < i \<Longrightarrow> i + k \<le> b + l \<Longrightarrow> ntop6_loop (Some (b, l)) w5 v4 i (replicate k 0 @ ws) = ntop6_loop (Some (b, l)) w5 v4 (i + k) ws"
  by (induction k arbitrary: i) auto

lemma ntop6_loop_run:
  assumes "1 \<le> l"
  shows "ntop6_loop (Some (b, l)) w5 v4 b (replicate l 0 @ ws) = CHR '':'' # ntop6_loop (Some (b, l)) w5 v4 (b + l) ws"
proof -
  obtain k where "l = Suc k" using assms by (cases l) auto
  then show ?thesis using ntop6_loop_in [of b "Suc b" k l w5 v4 ws] by simp
qed

lemma ntop6_loop_before:
  "i \<noteq> 0 \<Longrightarrow> i + length us = b \<Longrightarrow>
   ntop6_loop (Some (b, l)) w5 v4 i (us @ ws) = colon_words us @ ntop6_loop (Some (b, l)) w5 v4 b ws"
  by (induction us arbitrary: i) (auto simp: colon_words_def)

lemma ntop6_loop_first:
  assumes "length us = b"
  shows "ntop6_loop (Some (b, l)) w5 v4 0 (us @ ws) = join_words us @ ntop6_loop (Some (b, l)) w5 v4 b ws"
  using assms ntop6_loop_before [of 1 "tl us" b l w5 v4 ws] by (cases us) auto

lemma words_then_join: "ws \<noteq> [] \<Longrightarrow> words_then ws = join_words ws @ '':''"
proof -
  assume "ws \<noteq> []"
  moreover have "words_then (butlast ws @ [last ws]) = words_then (butlast ws) @ show_hex (last ws) @ '':''"
    by (simp add: words_then_def)
  ultimately show ?thesis by (simp add: join_words_then)
qed

text \<open>What is printed with and without a gap, and with an IPv4 address at the end.\<close>

lemma show6_full:
  assumes "best_run (addr_words src) = None"
  shows "show6 src = join_words (addr_words src)"
  using assms ntop6_loop_None [of 1] by (cases "addr_words src") (auto simp: show6_def Let_def)

lemma length_addr_words [simp]: "length (addr_words src) = 8"
  by (simp add: addr_words_def IN6ADDRSZ_def INT16SZ_def)

lemma show6_gap:
  assumes "addr_words src = us @ replicate l 0 @ ws" and "best_run (addr_words src) = Some (length us, l)" and "1 \<le> l"
    and "\<not> (us = [] \<and> (l = 6 \<or> l = 5 \<and> addr_words src ! 5 = 0xffff))"
  shows "show6 src = (if us = [] then '':'' else words_then us) @ CHR '':'' # join_words ws"
proof -
  have len: "length us + l + length ws = 8" using arg_cong [OF assms(1), of length] by simp
  then have end8: "length us + l = 8 \<longleftrightarrow> ws = []" by auto
  have "show6 src = join_words us @ CHR '':'' # colon_words ws @ (if ws = [] then '':'' else [])"
    using assms(3,4) len ntop6_loop_after [of "length us" l "length us + l" "addr_words src ! 5" "drop 12 src" ws]
      ntop6_loop_first [OF refl, of us l "addr_words src ! 5" "drop 12 src" "replicate l 0 @ ws"]
      ntop6_loop_run [OF assms(3), of "length us" "addr_words src ! 5" "drop 12 src" ws]
    by (simp add: show6_def assms(2) IN6ADDRSZ_def INT16SZ_def end8 assms(1) [symmetric])
  then show ?thesis
    using words_then_join [of us] colon_words_join [of ws] by (auto split: if_splits)
qed

lemma show6_quad:
  assumes "addr_words src = replicate l 0 @ us @ ws" and "best_run (addr_words src) = Some (0, l)" and "length ws = 2"
    and "l = 6 \<and> us = [] \<or> l = 5 \<and> us = [0xffff]"
  shows "show6 src = '':'' @ '':'' @ words_then us @ show4 (drop 12 src)"
proof -
  obtain x y where ws: "ws = [x, y]" using assms(3) by (cases ws; cases "tl ws") auto
  have w5: "addr_words src ! 5 = 0xffff" if "l = 5" using assms(1,4) that by (auto simp: nth_append)
  have "show6 src = CHR '':'' # ntop6_loop (Some (0, l)) (addr_words src ! 5) (drop 12 src) l (us @ ws)"
    using assms(4) ntop6_loop_run [of l 0 "addr_words src ! 5" "drop 12 src" "us @ ws"]
    by (auto simp: show6_def assms(2) IN6ADDRSZ_def INT16SZ_def assms(1) [symmetric])
  then show ?thesis using assms(4) w5 by (auto simp: ws words_then_def)
qed

text \<open>The three shapes of a printed address.\<close>

lemma show6_cases:
  obtains
    (full) "show6 src = join_words (addr_words src)"
  | (gap) us l ws where "addr_words src = us @ replicate l 0 @ ws" "2 \<le> l"
      "show6 src = (if us = [] then '':'' else words_then us) @ CHR '':'' # join_words ws"
  | (quad) us l where "addr_words src = replicate l 0 @ us @ drop 6 (addr_words src)"
      "l = 6 \<and> us = [] \<or> l = 5 \<and> us = [0xffff]" "show6 src = '':'' @ '':'' @ words_then us @ show4 (drop 12 src)"
proof (cases "best_run (addr_words src)")
  case None
  then show thesis using full show6_full by blast
next
  case (Some r)
  let ?w = "addr_words src"
  obtain b l where best: "best_run ?w = Some (b, l)" using Some by (cases r) auto
  note run = best_run_in [OF best, simplified]
  show thesis
  proof (cases "b = 0 \<and> (l = 6 \<or> l = 5 \<and> ?w ! 5 = 0xffff)")
    case False
    have "show6 src = (if take b ?w = [] then '':'' else words_then (take b ?w)) @ CHR '':'' # join_words (drop (b + l) ?w)"
      using run best False by (intro show6_gap [of _ _ l]) auto
    then show thesis using gap run by blast
  next
    case True
    define us where "us = (if l = 6 then [] else [0xffff :: nat])"
    have us: "l = 6 \<and> us = [] \<or> l = 5 \<and> us = [0xffff]" using True by (auto simp: us_def)
    have "drop 5 ?w = ?w ! 5 # drop 6 ?w" using Cons_nth_drop_Suc [of 5 ?w] by simp
    with run(3) True have w: "?w = replicate l 0 @ us @ drop 6 ?w" by (cases "l = 6") (simp_all add: us_def)
    have "show6 src = '':'' @ '':'' @ words_then us @ show4 (drop 12 src)"
      using w
    proof (rule show6_quad)
      show "best_run ?w = Some (0, l)" "length (drop 6 ?w) = 2" "l = 6 \<and> us = [] \<or> l = 5 \<and> us = [0xffff]"
        using best True us by auto
    qed
    then show thesis using quad w us by blast
  qed
qed

section \<open>The round trip\<close>

lemma show_hex_chars: "\<forall>c \<in> set (show_hex n). xdigit c \<noteq> None"
proof (induction n rule: show_hex.induct)
  case (1 n)
  then show ?case by (subst show_hex.simps) (auto simp: xdigit_hexdigit)
qed

lemma show_hex_nonempty [simp]: "show_hex n \<noteq> []"
  by (subst show_hex.simps) simp

text \<open>No character printed is a NUL.\<close>

definition plain :: "string \<Rightarrow> bool" where
  "plain s \<longleftrightarrow> NUL \<notin> set s"

lemma xdigit_nul: "xdigit NUL = None"
  by (simp add: xdigit_def is_digit_def)

lemma plain_simps [simp]:
  "plain []" "plain (c # s) \<longleftrightarrow> c \<noteq> NUL \<and> plain s" "plain (s @ t) \<longleftrightarrow> plain s \<and> plain t" "plain (show_hex n)" "plain (show4 v)"
  using show_hex_chars [of n] xdigit_nul show4_no_nul by (auto simp: plain_def)

lemma plain_words [simp]: "plain (words_then ws)" "plain (colon_words ws)" "plain (join_words ws)"
proof -
  show c: "plain (colon_words us)" for us by (induction us) (auto simp: colon_words_def)
  show "plain (words_then ws)" by (induction ws) (auto simp: words_then_def)
  show "plain (join_words ws)" by (cases ws) (auto simp: c)
qed

lemma inet_pton6_gap_first:
  assumes "plain s"
  shows "inet_pton6 ('':'' @ '':'' @ s) = loop_result (pton6_loop s (at_token [] (Some 0) s))"
proof -
  have "cstr ('':'' @ '':'' @ s) = '':'' @ '':'' @ s" using assms by (intro cstr_no_nul) (auto simp: plain_def)
  then have "inet_pton6 ('':'' @ '':'' @ s) = loop_result (pton6_loop (CHR '':'' # s) (at_token [] None (CHR '':'' # s)))"
    by (simp add: inet_pton6_def loop_result_def at_token_def IN6ADDRSZ_def)
  then show ?thesis using loop_gap [of s "[]" "CHR '':'' # s"] by simp
qed

lemma inet_pton6_plain:
  assumes "plain s" and "s \<noteq> []" and "hd s \<noteq> CHR '':''"
  shows "inet_pton6 s = loop_result (pton6_loop s (at_token [] None s))"
proof -
  have "cstr s = s" using assms(1) by (intro cstr_no_nul) (simp add: plain_def)
  then show ?thesis using assms(2,3) by (simp add: inet_pton6_def loop_result_def at_token_def IN6ADDRSZ_def Let_def)
qed

lemma hd_show_hex: "hd (show_hex n @ s) \<noteq> CHR '':''"
  using show_hex_chars [of n] xdigit_colon(1) by (metis hd_append2 hd_in_set show_hex_nonempty)

lemma addr_words_bound: "\<forall>w \<in> set (addr_words src). w < 0x10000"
proof -
  have "unat (x :: u8) * 256 + unat (y :: u8) < 0x10000" for x y
    using unat_u8 [of x] unat_u8 [of y] by linarith
  then show ?thesis by (auto simp: addr_words_def)
qed

lemma word_bytes_u8: "word_bytes (unat (x :: u8) * 256 + unat (y :: u8)) = [x, y]"
proof -
  have "(unat x * 256 + unat y) div 256 = unat x" using unat_u8 [of y] by simp
  moreover have z: "(256 :: u8) = 0" by code_simp
  have "(of_nat (unat x * 256 + unat y) :: u8) = of_nat (unat x) * 256 + of_nat (unat y)"
    by (simp only: of_nat_add of_nat_mult of_nat_numeral)
  then have "(of_nat (unat x * 256 + unat y) :: u8) = y" unfolding z by simp
  ultimately show ?thesis by (simp add: word_bytes_def del: of_nat_add)
qed

lemma bytes_of_addr_words:
  assumes "length src = 16"
  shows "bytes_of (addr_words src) = src"
proof (rule nth_equalityI)
  have "bytes_of (map (\<lambda>i. unat (f (2 * i) :: u8) * 256 + unat (f (2 * i + 1) :: u8)) [0..<n]) = map f [0..<2 * n]" for f n
    by (induction n) (auto simp: word_bytes_u8)
  from this [of "nth src" 8] have "bytes_of (addr_words src) = map (nth src) [0..<16]"
    by (simp add: addr_words_def IN6ADDRSZ_def INT16SZ_def)
  then show "length (bytes_of (addr_words src)) = length src"
    "\<And>i. i < length (bytes_of (addr_words src)) \<Longrightarrow> bytes_of (addr_words src) ! i = src ! i"
    using assms by auto
qed

lemma read_back_full:
  assumes "length src = 16"
  shows "inet_pton6 (join_words (addr_words src)) = Inr (Some src)"
proof -
  let ?ws = "addr_words src"
  have ws: "?ws \<noteq> []" using length_addr_words [of src] by (metis list.size(3) zero_neq_numeral)
  then have "hd (join_words ?ws) \<noteq> CHR '':''" "join_words ?ws \<noteq> []"
    using hd_show_hex by (cases ?ws; simp)+
  then have "inet_pton6 (join_words ?ws) = loop_result (pton6_loop (join_words ?ws) (at_token [] None (join_words ?ws)))"
    by (simp add: inet_pton6_plain)
  also have "\<dots> = Inr (close_gap ([] @ bytes_of ?ws) None)"
    using addr_words_bound by (intro end_words) auto
  finally show ?thesis by (simp add: bytes_of_addr_words [OF assms] close_gap_def assms)
qed

lemma read_back_gap:
  assumes "\<forall>w \<in> set (us @ ws). w < 0x10000" and "length us + length ws \<le> 8"
  shows "inet_pton6 ((if us = [] then '':'' else words_then us) @ CHR '':'' # join_words ws)
    = Inr (close_gap (bytes_of us @ bytes_of ws) (Some (2 * length us)))"
proof -
  let ?out = "bytes_of us" and ?gap = "CHR '':'' # join_words ws"
  have "inet_pton6 ((if us = [] then '':'' else words_then us) @ ?gap)
      = loop_result (pton6_loop (join_words ws) (at_token ?out (Some (length ?out)) (join_words ws)))"
  proof (cases us)
    case Nil
    then show ?thesis using inet_pton6_gap_first [of "join_words ws"] by simp
  next
    case (Cons u us')
    then have "hd (words_then us @ ?gap) \<noteq> CHR '':''" using hd_show_hex by (simp add: words_then_def)
    then have "inet_pton6 (words_then us @ ?gap) = loop_result (pton6_loop (words_then us @ ?gap) (at_token [] None (words_then us @ ?gap)))"
      by (intro inet_pton6_plain) auto
    also have "\<dots> = loop_result (pton6_loop ?gap (at_token ([] @ ?out) None (if us = [] then words_then us @ ?gap else ?gap)))"
      using assms by (subst loop_words_then) auto
    finally show ?thesis using Cons loop_gap by simp
  qed
  also have "\<dots> = Inr (close_gap (?out @ bytes_of ws) (Some (length ?out)))"
    using assms by (intro end_words) auto
  finally show ?thesis by simp
qed

lemma read_back_quad:
  assumes "\<forall>w \<in> set us. w < 0x10000" and "length us \<le> 1" and "length v = 4"
  shows "inet_pton6 ('':'' @ '':'' @ words_then us @ show4 v)
    = Inr (Some (replicate (12 - 2 * length us) 0 @ bytes_of us @ v))"
proof -
  have "inet_pton6 ('':'' @ '':'' @ words_then us @ show4 v)
      = loop_result (pton6_loop (words_then us @ show4 v) (at_token [] (Some 0) (words_then us @ show4 v)))"
    by (rule inet_pton6_gap_first) simp
  also have "\<dots> = loop_result (pton6_loop (show4 v) (at_token (bytes_of us) (Some 0) (show4 v)))"
    using assms(1,2) loop_words_then [of us "[]" "show4 v" "Some 0" "words_then us @ show4 v"]
    by (cases us) (auto simp: words_then_def)
  also have "\<dots> = Inr (close_gap (bytes_of us @ v) (Some 0))"
    using assms by (intro end_quad) auto
  finally show ?thesis using assms(2,3) by (simp add: close_gap_def)
qed

lemma read_back:
  assumes "length src = 16"
  shows "inet_pton6 (show6 src) = Inr (Some src)"
proof (cases src rule: show6_cases)
  case full
  then show ?thesis using read_back_full [OF assms] by simp
next
  case (gap us l ws)
  have len: "length us + l + length ws = 8" using arg_cong [OF gap(1), of length] by simp
  have src: "bytes_of us @ replicate (2 * l) 0 @ bytes_of ws = src"
    using bytes_of_addr_words [OF assms] by (simp add: gap(1) bytes_of_zeros)
  have "\<forall>w \<in> set (us @ ws). w < 0x10000" using addr_words_bound [of src] by (auto simp: gap(1))
  moreover have "2 * length us + 2 * length ws \<noteq> 16" "16 - (2 * length us + 2 * length ws) = 2 * l" using len gap(2) by auto
  ultimately show ?thesis using read_back_gap [of us ws] len src by (simp add: gap(3) close_gap_def)
next
  case (quad us l)
  let ?v = "bytes_of (drop 6 (addr_words src))"
  have l: "2 * l = 12 - 2 * length us" "length us \<le> 1" using quad(2) by auto
  have src: "src = replicate (12 - 2 * length us) 0 @ bytes_of us @ ?v"
    using bytes_of_addr_words [OF assms] arg_cong [OF quad(1), of bytes_of] by (simp add: bytes_of_zeros l)
  have "drop 12 src = ?v" using l(2) by (subst src) (cases us; auto)
  then show ?thesis
    using read_back_quad [of us "drop 12 src"] quad(2) l(2) assms src by (auto simp: quad(3))
qed

text \<open>The printed form fits the array of 46 bytes it is made in.\<close>

lemma show_hex_short: "n < 16 ^ Suc k \<Longrightarrow> length (show_hex n) \<le> Suc k"
proof (induction k arbitrary: n)
  case 0
  then show ?case by (subst show_hex.simps) simp
next
  case (Suc k)
  then have "n div 16 < 16 ^ Suc k" by (simp add: div_less_iff_less_mult)
  with Suc.IH show ?case by (subst show_hex.simps) auto
qed

lemma colon_words_length: "\<forall>w \<in> set ws. w < 0x10000 \<Longrightarrow> length (colon_words ws) \<le> 5 * length ws"
proof (induction ws)
  case (Cons w ws)
  then have "length (show_hex w) \<le> 4" using show_hex_short [of w 3] by simp
  with Cons show ?case by (simp add: colon_words_def)
qed (simp add: colon_words_def)

lemma join_words_length: "\<forall>w \<in> set ws. w < 0x10000 \<Longrightarrow> length (join_words ws) \<le> 5 * length ws"
  using colon_words_length [of ws] by (cases ws) (auto simp: colon_words_def)

lemma words_then_length: "\<forall>w \<in> set ws. w < 0x10000 \<Longrightarrow> length (words_then ws) \<le> 5 * length ws"
  using colon_words_length [of ws] colon_words_join [of ws] words_then_join [of ws] by (cases "ws = []") (auto simp: words_then_def)

lemma show6_length: "length (show6 src) \<le> 40"
proof (cases src rule: show6_cases)
  case full
  then show ?thesis using join_words_length [OF addr_words_bound, of src] by simp
next
  case (gap us l ws)
  have b: "\<forall>w \<in> set us. w < 0x10000" "\<forall>w \<in> set ws. w < 0x10000" using addr_words_bound [of src] by (auto simp: gap(1))
  have "length us + l + length ws = 8" using arg_cong [OF gap(1), of length] by simp
  with gap(2,3) words_then_length [OF b(1)] join_words_length [OF b(2)] show ?thesis by auto
next
  case (quad us l)
  have "length (words_then us) \<le> 5" using words_then_length [of us] quad(2) by (auto simp: words_then_def)
  with quad(3) show4_length [of "drop 12 src"] show ?thesis by simp
qed

section \<open>Claims\<close>

text \<open>
  C26. Addresses survive printing and parsing: with room for the longest address of its family,
  every address is printed, with its NUL inside the buffer, and the printed form is accepted and
  gives the same bytes.
\<close>
theorem address_round_trip:
  assumes "af = AF_INET \<and> length b = 4 \<and> 16 \<le> bound \<or> af = AF_INET6 \<and> length b = 16 \<and> 46 \<le> bound"
  shows "\<exists>t. inet_ntop af b bound = Inr (Some t) \<and> length t < bound \<and> inet_pton af t dst = Inr (1, overwrite dst b)"
  using assms
proof
  assume a: "af = AF_INET \<and> length b = 4 \<and> 16 \<le> bound"
  then have "inet_pton4 (show4 b) = Inr (Some b)"
    using show4_quad [of b] by (simp add: inet_pton4_eq cstr_no_nul [OF show4_no_nul])
  then show ?thesis using a show4_length [of b] by (simp add: inet_ntop_def inet_ntop4_def inet_pton_def Let_def)
next
  assume a: "af = AF_INET6 \<and> length b = 16 \<and> 46 \<le> bound"
  then show ?thesis
    using read_back [of b] show6_length [of b] by (simp add: inet_ntop_def inet_ntop6_def inet_pton_def Let_def)
qed

theorem address_round_trip_witness:
  "(\<exists>t. inet_ntop AF_INET [192, 168, 0, 1] 16 = Inr (Some t) \<and> inet_pton AF_INET t [] = Inr (1, [192, 168, 0, 1]))
   \<and> (\<exists>t. inet_ntop AF_INET6 (replicate 10 0 @ [255, 255, 10, 0, 0, 1]) 46 = Inr (Some t)
        \<and> inet_pton AF_INET6 t [] = Inr (1, replicate 10 0 @ [255, 255, 10, 0, 0, 1]))"
  using address_round_trip [of AF_INET "[192, 168, 0, 1]" 16 "[]"]
    address_round_trip [of AF_INET6 "replicate 10 0 @ [255, 255, 10, 0, 0, 1]" 46 "[]"]
  by (auto simp: overwrite_def)

text \<open>
  C34. For IPv4 the parser accepts exactly the dotted quads, four numbers below 256 with dots between
  them, and stores their values; it never writes outside its array, and whatever it does not accept
  leaves the destination as it was.
\<close>
theorem pton_accepts_quads:
  "inet_pton AF_INET src dst = Inr (case dotted_quad (cstr src) of None \<Rightarrow> (0, dst) | Some a \<Rightarrow> (1, overwrite dst a))"
  by (simp add: inet_pton_def inet_pton4_eq split: option.splits)

text \<open>
  The comment says that a gap in a full address is silently ignored; instead the words behind the
  gap are lost: each is moved onto itself and then cleared, and the address is accepted.
\<close>
theorem full_address_cleared:
  assumes "us \<noteq> []" and "length us + length ws = 8" and "\<forall>w \<in> set (us @ ws). w < 0x10000"
  shows "inet_pton AF_INET6 (words_then us @ CHR '':'' # join_words ws) dst
    = Inr (1, overwrite dst (bytes_of us @ replicate (2 * length ws) 0))"
proof -
  have "2 * length us + 2 * length ws = 16" "16 - 2 * length us = 2 * length ws" using assms(2) by auto
  then have "inet_pton6 (words_then us @ CHR '':'' # join_words ws) = Inr (Some (bytes_of us @ replicate (2 * length ws) 0))"
    using read_back_gap [of us ws] assms by (simp add: close_gap_def)
  then show ?thesis by (simp add: inet_pton_def)
qed

theorem full_address_cleared_witness:
  "inet_pton AF_INET6 ''1::2:3:4:5:6:7:8'' [] = Inr (1, [0, 1] @ replicate 14 0)"
proof -
  have s: "words_then [1] @ CHR '':'' # join_words [2, 3, 4, 5, 6, 7, 8] = ''1::2:3:4:5:6:7:8''" by code_simp
  have b: "bytes_of [1] = [0, 1]" by code_simp
  show ?thesis using full_address_cleared [of "[1]" "[2, 3, 4, 5, 6, 7, 8]" "[]"] unfolding s b by (simp add: overwrite_def)
qed

text \<open>
  The printer for IPv4 compares the size of the destination with the length of the text without
  its NUL: a destination with room for the text alone is overrun by one byte.
\<close>
theorem ntop_overruns_by_one:
  "inet_ntop AF_INET b (length (show4 b)) = Inl (Undefined ''dst'')"
  by (simp add: inet_ntop_def inet_ntop4_def Let_def)

text \<open>A colon behind the last word of a full address is accepted.\<close>

theorem trailing_colon_accepted:
  assumes "length ws = 8" and "\<forall>w \<in> set ws. w < 0x10000"
  shows "inet_pton AF_INET6 (words_then ws) dst = Inr (1, overwrite dst (bytes_of ws))"
proof -
  obtain w us where ws: "ws = w # us" using assms(1) by (cases ws) auto
  then have "hd (words_then ws) \<noteq> CHR '':''" "words_then ws \<noteq> []" using hd_show_hex by (auto simp: words_then_def)
  then have "inet_pton6 (words_then ws) = loop_result (pton6_loop (words_then ws) (at_token [] None (words_then ws)))"
    by (simp add: inet_pton6_plain)
  also have "\<dots> = loop_result (pton6_loop [] (at_token (bytes_of ws) None []))"
    using loop_words_then [of ws "[]" "[]" None "words_then ws"] assms ws by simp
  finally show ?thesis using assms(1) by (simp add: loop_result_def pton6_end_token close_gap_def inet_pton_def)
qed

end
