(* ===== verification/SockAddrProps.thy ===== *)
theory SockAddrProps
  imports SockAddr Inet6Props
begin

text \<open>
  Properties of the socket addresses: their printed forms tell them apart, comparing them is
  equality, and the parts are set and read independently of each other.
\<close>

section \<open>Words and their bytes\<close>

lemma length_addr_bytes [simp]: "length (addr_bytes a) = 4"
  by (simp add: addr_bytes_def)

lemma bytes_addr_bytes [simp]: "bytes_addr (addr_bytes a) = a"
proof (rule bit_eqI)
  fix n
  assume "possible_bit TYPE(u32) n"
  then consider "n < 8" | "8 \<le> n" "n < 16" | "16 \<le> n" "n < 24" | "24 \<le> n" "n < 32" by fastforce
  then show "bit (bytes_addr (addr_bytes a)) n \<longleftrightarrow> bit a n"
    by cases (auto simp: bytes_addr_def addr_bytes_def bit_simps)
qed

lemma addr_bytes_inj: "addr_bytes a = addr_bytes b \<longleftrightarrow> a = b"
  using bytes_addr_bytes by metis

lemma high_bits: "8 \<le> k \<Longrightarrow> \<not> bit (x :: u8) (k + n)" "24 \<le> k \<Longrightarrow> bit (w :: u32) (k + n) \<Longrightarrow> n < 8"
  using bit_imp_le_length [of x "k + n"] bit_imp_le_length [of w "k + n"] by auto

lemma addr_bytes_of [simp]: "length b = 4 \<Longrightarrow> addr_bytes (bytes_addr b) = b"
proof -
  have "ucast (bytes_addr b) = b ! 0" "ucast (drop_bit 8 (bytes_addr b)) = b ! 1"
    "ucast (drop_bit 16 (bytes_addr b)) = b ! 2" "ucast (drop_bit 24 (bytes_addr b)) = b ! 3"
    by (auto intro!: bit_eqI simp: bytes_addr_def bit_simps high_bits)
  then show "length b = 4 \<Longrightarrow> addr_bytes (bytes_addr b) = b" using four_bytes by (simp add: addr_bytes_def)
qed

lemma show4_dotted: "show4 (addr_bytes (htonl a)) = dotted a"
proof -
  have byte: "unat (ucast w :: u8) = unat (take_bit 8 w)" for w :: u32
    by (simp add: unsigned_ucast_eq unsigned_take_bit_eq)
  have "ucast (bswap32 a) = (ucast (drop_bit 24 a) :: u8)" "ucast (drop_bit 8 (bswap32 a)) = (ucast (drop_bit 16 a) :: u8)"
    "ucast (drop_bit 16 (bswap32 a)) = (ucast (drop_bit 8 a) :: u8)" "ucast (drop_bit 24 (bswap32 a)) = (ucast a :: u8)"
    by (auto intro!: bit_eqI simp: bit_simps bit_bswap32 add.commute)
  moreover have "take_bit 8 (drop_bit 24 a) = drop_bit 24 a"
    by (auto intro!: bit_eqI simp: bit_simps dest: high_bits(2) [rotated])
  ultimately show ?thesis by (simp add: show4_def addr_bytes_def dotted_def byte)
qed

section \<open>What is printed\<close>

fun wf_sockaddr :: "sockaddr \<Rightarrow> bool" where
  "wf_sockaddr (Sockaddr_in6 p a) \<longleftrightarrow> length a = 16"
| "wf_sockaddr _ \<longleftrightarrow> True"

definition internet :: "sockaddr \<Rightarrow> bool" where
  "internet sa \<longleftrightarrow> sa_family sa \<in> {AF_INET, AF_INET6} \<and> wf_sockaddr sa"

definition port_text :: "string \<Rightarrow> u16 \<Rightarrow> string" where
  "port_text s p = (if p = 0 then [] else s @ show_nat (unat p))"

fun printed :: "sockaddr \<Rightarrow> string" where
  "printed (Sockaddr_in p a) = show4 (addr_bytes a) @ port_text '':'' (ntohs p)"
| "printed (Sockaddr_in6 p a) = (if ntohs p = 0 then show6 a else ''['' @ show6 a @ port_text '']:'' (ntohs p))"
| "printed _ = []"

lemma show_port_length: "length (show_nat (unat (p :: u16))) \<le> 5"
proof -
  have "unat p < 2 ^ LENGTH(16)" by (rule unsigned_less)
  then show ?thesis using show_nat_short [of "unat p" 4] by simp
qed

lemma sock_ntop_printed:
  assumes "internet sa"
  shows "sock_ntop sa n = Inr (Some (printed sa))"
proof (cases sa)
  case (Sockaddr_in p a)
  then show ?thesis
    using show_port_length [of "ntohs p"] show4_length [of "addr_bytes a"]
    by (auto simp: sock_ntop_def inet_ntop_def inet_ntop4_def port_text_def snprintf_def strcat_str_def Let_def)
next
  case (Sockaddr_in6 p a)
  then show ?thesis
    using show_port_length [of "ntohs p"] show6_length [of a]
    by (auto simp: sock_ntop_def inet_ntop_def inet_ntop6_def port_text_def snprintf_def strcat_str_def Let_def)
qed (use assms in \<open>auto simp: internet_def\<close>)

text \<open>The characters of a printed IPv6 address, and what stands before its first colon.\<close>

lemma words_chars:
  "c \<in> set (words_then ws) \<union> set (colon_words ws) \<union> set (join_words ws) \<Longrightarrow> xdigit c \<noteq> None \<or> c = CHR '':''"
  using show_hex_chars by (cases ws) (auto simp: words_then_def colon_words_def split: if_splits)

lemma show6_chars: "c \<in> set (show6 a) \<Longrightarrow> xdigit c \<noteq> None \<or> c = CHR '':'' \<or> c = CHR ''.''"
proof -
  have digit: "is_digit c \<Longrightarrow> xdigit c \<noteq> None" by (simp add: xdigit_def)
  assume "c \<in> set (show6 a)"
  then show ?thesis
    using words_chars show4_chars [of c "drop 12 a"] digit
    by (cases a rule: show6_cases) (fastforce split: if_splits)+
qed

lemma show6_first: "\<exists>w rest. show6 a = w @ CHR '':'' # rest \<and> CHR ''.'' \<notin> set w"
proof -
  have hex: "CHR ''.'' \<notin> set (show_hex w)" for w using show_hex_chars [of w] by fastforce
  show ?thesis
  proof (cases a rule: show6_cases)
    case full
    obtain w x ws where "addr_words a = w # x # ws"
      using length_addr_words [of a] by (cases "addr_words a"; cases "tl (addr_words a)") auto
    then have "show6 a = show_hex w @ CHR '':'' # show_hex x @ colon_words ws" by (simp add: full colon_words_def)
    with hex show ?thesis by blast
  next
    case (gap us l ws)
    then have "us \<noteq> [] \<Longrightarrow> show6 a = show_hex (hd us) @ CHR '':'' # words_then (tl us) @ CHR '':'' # join_words ws"
      by (cases us) (auto simp: words_then_def)
    with gap hex show ?thesis by (cases "us = []") fastforce+
  qed fastforce
qed

section \<open>Printed forms are unambiguous\<close>

lemma takeWhile_first: "c \<notin> set w \<Longrightarrow> takeWhile (\<lambda>x. x \<noteq> c) (w @ c # s) = w" "c \<notin> set w \<Longrightarrow> takeWhile (\<lambda>x. x \<noteq> c) w = w"
  by (induction w) auto

lemma before_colon: "takeWhile (\<lambda>c. c \<noteq> CHR '':'') (show4 b @ port_text '':'' p) = show4 b"
proof -
  have "CHR '':'' \<notin> set (show4 b)" using show4_chars [of "CHR '':''" b] by (auto simp: is_digit_def)
  then show ?thesis using takeWhile_first by (auto simp: port_text_def)
qed

lemma port_text_inj: "port_text s p = port_text s q \<longleftrightarrow> p = q"
proof -
  have "port_text s p = port_text s q \<Longrightarrow> p = q"
    using read_show_nat by (auto simp: port_text_def split: if_splits) (metis unsigned_word_eqI)
  then show ?thesis by blast
qed

lemma show4_inj: "show4 (addr_bytes a) = show4 (addr_bytes b) \<longleftrightarrow> a = b"
  using show4_quad [OF length_addr_bytes] addr_bytes_inj by (metis option.inject)

lemma show6_inj: "length a = 16 \<Longrightarrow> length b = 16 \<Longrightarrow> show6 a = show6 b \<longleftrightarrow> a = b"
  using read_back by (metis option.inject sum.inject(2))

lemma printed_in: "printed (Sockaddr_in p a) = printed (Sockaddr_in q b) \<longleftrightarrow> p = q \<and> a = b"
proof
  assume e: "printed (Sockaddr_in p a) = printed (Sockaddr_in q b)"
  then have "show4 (addr_bytes a) = show4 (addr_bytes b)" using before_colon by (metis printed.simps(1))
  with e show "p = q \<and> a = b" by (simp add: show4_inj port_text_inj net16.enc_inj)
qed simp

lemma show6_not_bracket: "CHR ''['' \<notin> set (show6 a)" "CHR '']'' \<notin> set (show6 a)"
  using show6_chars [of "CHR ''[''" a] show6_chars [of "CHR '']''" a] by (auto simp: xdigit_def is_digit_def)

lemma printed_in6:
  assumes "length a = 16" and "length b = 16"
  shows "printed (Sockaddr_in6 p a) = printed (Sockaddr_in6 q b) \<longleftrightarrow> p = q \<and> a = b"
proof
  assume e: "printed (Sockaddr_in6 p a) = printed (Sockaddr_in6 q b)"
  have zero: "ntohs p = 0 \<longleftrightarrow> ntohs q = 0"
    using arg_cong [OF e, of set] show6_not_bracket [of a] show6_not_bracket [of b] by (auto split: if_splits)
  show "p = q \<and> a = b"
  proof (cases "ntohs p = 0")
    case True
    with e zero assms show ?thesis by (simp add: show6_inj) (metis bswap16_bswap16)
  next
    case False
    have "takeWhile (\<lambda>c. c \<noteq> CHR '']'') (show6 x @ port_text '']:'' r) = show6 x" for x r
      using takeWhile_first show6_not_bracket(2) [of x] by (auto simp: port_text_def)
    then have "show6 a = show6 b" using e zero False by simp (metis)
    with e zero False assms show ?thesis by (simp add: show6_inj port_text_inj net16.enc_inj)
  qed
qed simp

lemma printed_in_in6: "printed (Sockaddr_in p a) \<noteq> printed (Sockaddr_in6 q b)"
proof
  assume e: "printed (Sockaddr_in p a) = printed (Sockaddr_in6 q b)"
  let ?t = "takeWhile (\<lambda>c. c \<noteq> CHR '':'')"
  have v4: "?t (printed (Sockaddr_in p a)) = show4 (addr_bytes a)" by (simp add: before_colon)
  have "hd (show4 (addr_bytes a)) \<noteq> CHR ''[''"
    using show_nat_hd [of "unat (addr_bytes a ! 0)"] by (auto simp: show4_def is_digit_def)
  then have "ntohs q = 0" using arg_cong [OF e, of hd] by (auto simp: show4_def split: if_splits)
  moreover obtain w rest where "show6 b = w @ CHR '':'' # rest" "CHR ''.'' \<notin> set w" using show6_first by blast
  ultimately have "CHR ''.'' \<notin> set (?t (printed (Sockaddr_in6 q b)))"
    by (auto dest: set_takeWhileD simp: takeWhile_append split: if_splits)
  with v4 e show False by (simp add: show4_def)
qed

lemma printed_length: "internet sa \<Longrightarrow> length (printed sa) < 128"
proof (cases sa)
  case (Sockaddr_in p a)
  then show ?thesis using show4_length [of "addr_bytes a"] show_port_length [of "ntohs p"] by (auto simp: port_text_def)
next
  case (Sockaddr_in6 p a)
  then show ?thesis using show6_length [of a] show_port_length [of "ntohs p"] by (auto simp: port_text_def)
qed (auto simp: internet_def)

section \<open>Claims\<close>

text \<open>
  The printed form of a socket address identifies it: every IPv4 or IPv6 socket address is
  printed inside the static buffer, and two of them have the same printed form only if they have the
  same family, address and port.
\<close>
theorem printed_form_identifies:
  assumes "internet sa" and "internet sb"
  shows "\<exists>s. sock_ntop sa n = Inr (Some s) \<and> length s < 128 \<and> (sock_ntop sb m = Inr (Some s) \<longleftrightarrow> sa = sb)"
proof -
  have "printed sa = printed sb \<longleftrightarrow> sa = sb"
    using assms printed_in printed_in6 printed_in_in6
    by (cases sa; cases sb) (auto simp: internet_def simp del: printed.simps, metis+)
  moreover have "length (printed sa) < 128" using assms(1) by (rule printed_length)
  ultimately show ?thesis using sock_ntop_printed [OF assms(1)] sock_ntop_printed [OF assms(2)] by auto
qed

theorem printed_form_identifies_witness:
  "\<exists>s. sock_ntop (Sockaddr_in (htons 80) (htonl 0x0A000001)) 16 = Inr (Some s)
    \<and> sock_ntop (Sockaddr_in6 (htons 80) (replicate 15 0 @ [1])) 28 \<noteq> Inr (Some s)"
  using printed_form_identifies [of "Sockaddr_in (htons 80) (htonl 0x0A000001)"
      "Sockaddr_in6 (htons 80) (replicate 15 0 @ [1])" 16 28]
  by (auto simp: internet_def)

text \<open>Comparing arrays of one length gives 0 for equal ones only.\<close>

lemma memcmp_zero: "length xs = length ys \<Longrightarrow> memcmp xs ys = 0 \<longleftrightarrow> xs = ys"
  by (induction xs ys rule: list_induct2) auto

lemma byte_of_inj: "byte_of c = byte_of d \<longleftrightarrow> c = d"
proof -
  have "unat (byte_of c) = of_char c" for c by (simp add: byte_of_def unsigned_of_nat take_bit_eq_mod)
  then show ?thesis by (metis of_char_eq_iff)
qed

lemma strcmp_prefix: "NUL \<notin> set s \<Longrightarrow> NUL \<notin> set t \<Longrightarrow> memcmp (map byte_of (s @ [NUL])) (map byte_of (t @ [NUL])) = 0 \<longleftrightarrow> s = t"
proof (induction s arbitrary: t)
  case Nil
  then show ?case by (cases t) (auto simp: byte_of_inj)
next
  case (Cons c s)
  then show ?case by (cases t) (auto simp: byte_of_inj)
qed

lemma strcmp_zero: "strcmp s t = 0 \<longleftrightarrow> cstr s = cstr t"
  unfolding strcmp_def by (rule strcmp_prefix) (auto simp: cstr_def dest: set_takeWhileD)

text \<open>The address of a socket address without its port.\<close>

fun sa_addr :: "sockaddr \<Rightarrow> u8 list + string" where
  "sa_addr (Sockaddr_in p a) = Inl (addr_bytes a)"
| "sa_addr (Sockaddr_in6 p a) = Inl a"
| "sa_addr (Sockaddr_un s) = Inr (cstr s)"
| "sa_addr (Sockaddr_other f) = Inr []"

text \<open>
  Comparing addresses tells exactly the equal ones: for internet and Unix domain addresses
  \<^verbatim>\<open>sock_cmp_addr\<close> gives 0 if and only if the families and the addresses, or the paths, are equal;
  ports do not matter.
\<close>
theorem cmp_addr_is_equality:
  assumes "wf_sockaddr sa" and "wf_sockaddr sb" and "\<forall>f. sa_family sa \<noteq> AF_OTHER f"
  shows "sock_cmp_addr sa sb = 0 \<longleftrightarrow> sa_family sa = sa_family sb \<and> sa_addr sa = sa_addr sb"
  using assms
  by (cases sa; cases sb) (auto simp: sock_cmp_addr_def memcmp_zero strcmp_zero)

theorem cmp_addr_is_equality_witness:
  "sock_cmp_addr (Sockaddr_in 1 5) (Sockaddr_in 2 5) = 0 \<and> sock_cmp_addr (Sockaddr_in 1 5) (Sockaddr_in 1 6) \<noteq> 0"
  using cmp_addr_is_equality [of "Sockaddr_in 1 5" "Sockaddr_in 2 5"] cmp_addr_is_equality [of "Sockaddr_in 1 5" "Sockaddr_in 1 6"]
  by (simp add: addr_bytes_inj)

lemma uint_port: "uint (word_of_int p :: u16) = p mod 65536"
  by (simp add: unsigned_of_int take_bit_eq_mod)

text \<open>
  The parts of a socket address are set and read independently of each other, whatever the
  family: the port set is the port read, up to the 16 bits of the field; setting it keeps the address;
  setting the address keeps the port and gives that address; and the wildcard address is all zeros.
\<close>
theorem parts_are_independent:
  assumes "internet sa" and "length b = (if sa_family sa = AF_INET then 4 else 16)"
  shows "sock_get_port (sock_set_port p sa) = p mod 65536
    \<and> sa_family (sock_set_port p sa) = sa_family sa \<and> sa_addr (sock_set_port p sa) = sa_addr sa
    \<and> (\<exists>t. sock_set_addr b sa = Inr t \<and> sa_family t = sa_family sa \<and> sock_get_port t = sock_get_port sa \<and> sa_addr t = Inl b)
    \<and> (\<exists>t. sock_set_wild sa = Inr t \<and> sa_family t = sa_family sa \<and> sock_get_port t = sock_get_port sa
        \<and> sa_addr t = Inl (replicate (length b) 0))"
proof -
  have zero: "addr_bytes 0 = replicate 4 0" "bswap32 0 = 0" by (simp_all add: addr_bytes_def bswap32_def numeral_eq_Suc)
  note defs = sock_get_port_def sock_set_port_def sock_set_addr_def sock_set_wild_def internet_def INADDRSZ_def IN6ADDRSZ_def
  show ?thesis
  proof (cases sa)
    case (Sockaddr_in q a)
    then show ?thesis using assms by (simp add: defs uint_port zero)
  next
    case (Sockaddr_in6 q a)
    then show ?thesis using assms by (simp add: defs uint_port)
  qed (use assms in \<open>auto simp: internet_def\<close>)
qed

theorem parts_are_independent_witness:
  "sock_get_port (sock_set_port 70000 (Sockaddr_in 1 5)) = 4464
    \<and> (\<exists>t. sock_set_addr [10, 0, 0, 1] (Sockaddr_in 1 5) = Inr t \<and> sock_get_port t = 1 \<and> sa_addr t = Inl [10, 0, 0, 1])"
proof -
  have "internet (Sockaddr_in 1 5)" "length [10, 0, 0, 1 :: u8] = (if sa_family (Sockaddr_in 1 5) = AF_INET then 4 else 16)"
    by (simp_all add: internet_def)
  from parts_are_independent [OF this, of 70000] show ?thesis by (auto simp: sock_get_port_def)
qed

text \<open>
  The two comparisons of the library answer in opposite ways: for the same address and the same port
  one gives 0 and the other 1, and 0 for different ports.
\<close>

theorem comparisons_disagree:
  assumes "internet sa"
  shows "sock_cmp_addr sa sa = 0" and "sock_cmp_port sa sa = 1"
    and "sock_cmp_port sa (sock_set_port p sa) = 0 \<longleftrightarrow> sock_get_port sa \<noteq> p mod 65536"
proof -
  have port: "uint q \<noteq> p mod 65536 \<longleftrightarrow> q \<noteq> word_of_int p" for q :: u16
    using uint_port [of p] unsigned_word_eqI [of q "word_of_int p"] by metis
  show "sock_cmp_addr sa sa = 0" "sock_cmp_port sa sa = 1"
    "sock_cmp_port sa (sock_set_port p sa) = 0 \<longleftrightarrow> sock_get_port sa \<noteq> p mod 65536"
    using assms by (cases sa; simp add: internet_def sock_cmp_addr_def sock_cmp_port_def sock_set_port_def sock_get_port_def memcmp_zero port)+
qed

end
