(* ===== verification/FileServerSetup.thy ===== *)
theory FileServerSetup
  imports FileServer SockAddrProps
begin

text \<open>
  \<^verbatim>\<open>Assignment 2/Code/server.c\<close> up to the transfer: the configuration, one socket per
  interface, the parent that forks a child for every new client, and the child's handshake.
\<close>

section \<open>Configuration and sockets\<close>

definition MAXIMUM_SOCKET :: nat where "MAXIMUM_SOCKET = 10"

record socket_info =
  sockfd :: int
  ip_addr :: u32
  mask :: u32
  subnet :: u32

text \<open>
  \<^verbatim>\<open>server.in\<close>: whether it can be opened, what \<^verbatim>\<open>fscanf\<close> returns and what the two
  variables then hold.
\<close>

definition read_config :: "bool \<Rightarrow> int \<Rightarrow> int \<Rightarrow> int \<Rightarrow> (stop \<times> unit) + (int \<times> int)" where
  "read_config opened scanned port_number sendw =
     bindr (exit_if (\<not> opened) 1 ''SERVER: Can't open file: server.in'' ()) (\<lambda>u.
     bindr (exit_if (scanned < 0) 1 ''SERVER: Can't read data from file: server.in'' u) (\<lambda>u.
     Inr (port_number, sendw)))"

text \<open>
  An interface as \<^verbatim>\<open>get_ifi_info_plus\<close> lists it, with the outcome of the system calls for
  it; addresses are in network byte order.
\<close>

record interface =
  if_addr :: "sockaddr option"
  if_netmask :: "sockaddr option"
  if_socket :: "int option"
  if_setsockopt :: bool
  if_bind :: bool

definition bind_socket :: "interface \<Rightarrow> socket_info list \<Rightarrow> socket_info list outcome" where
  "bind_socket ifi sockets =
     (case if_socket ifi of
        None \<Rightarrow> Inl (Exit 1 ''SERVER: Socket open error'', sockets)
      | Some fd \<Rightarrow>
          bindr (undef_if (length sockets \<ge> MAXIMUM_SOCKET) ''sockets'' sockets) (\<lambda>sockets.
          bindr (exit_if (\<not> if_setsockopt ifi) 1 ''SERVER: Set socket option SO_REUSEADDR failed'' sockets)
            (\<lambda>sockets.
          bindr (sin_addr ''ifi_addr'' (if_addr ifi) sockets) (\<lambda>addr.
          bindr (exit_if (\<not> if_bind ifi) 1 ''SERVER: Socket bind error'' sockets) (\<lambda>sockets.
          bindr (sin_addr ''ifi_ntmaddr'' (if_netmask ifi) sockets) (\<lambda>netmask.
          let ip = ntohl addr; m = ntohl netmask
          in Inr (sockets @ [\<lparr>sockfd = fd, ip_addr = ip, mask = m, subnet = m AND ip\<rparr>])))))))"

definition open_sockets :: "interface list option \<Rightarrow> socket_info list outcome" where
  "open_sockets ifis =
     (case ifis of
        None \<Rightarrow> Inl (Exit 1 ''SERVER: GET_IFI_INFO_PLUS error'', [])
      | Some is \<Rightarrow> run_list bind_socket is [])"

section \<open>The parent\<close>

text \<open>
  A client is known by the port in its address, as \<^verbatim>\<open>sock_get_port\<close> returns it, and by the
  dotted form of its address (host byte order here).
\<close>

record client_addr =
  cl_ip :: u32
  cl_port :: u16

record parent =
  p_sockets :: "socket_info list"
  p_heap :: heap
  p_connected :: "nat list"
  p_filename :: string
  p_children :: "(nat \<times> client_addr \<times> string) list"

text \<open>What the library's \<^verbatim>\<open>sock_get_port\<close> and \<^verbatim>\<open>Sock_ntop_host\<close> give for the address of a client.\<close>

definition cl_sockaddr :: "client_addr \<Rightarrow> sockaddr" where
  "cl_sockaddr c = Sockaddr_in (cl_port c) (htonl (cl_ip c))"

definition client_port :: "client_addr \<Rightarrow> u32" where
  "client_port c = word_of_int (sock_get_port (cl_sockaddr c))"

definition client_host :: "client_addr \<Rightarrow> string" where
  "client_host c = (case Sock_ntop_host (cl_sockaddr c) 16 of Inl e \<Rightarrow> [] | Inr s \<Rightarrow> s)"

lemma client_host_dotted: "client_host c = dotted (cl_ip c)"
  using show4_length [of "addr_bytes (htonl (cl_ip c))"]
  by (simp add: client_host_def Sock_ntop_host_def sock_ntop_host_def cl_sockaddr_def inet_ntop_def inet_ntop4_def
      Let_def show4_dotted)

definition lift_parent :: "(stop \<times> heap) + 'a \<Rightarrow> parent \<Rightarrow> (stop \<times> parent) + 'a" where
  "lift_parent m s = (case m of Inl (e, h) \<Rightarrow> Inl (e, s\<lparr>p_heap := h\<rparr>) | Inr x \<Rightarrow> Inr x)"

text \<open>
  A datagram on socket \<open>i\<close>: \<open>None\<close> when \<^verbatim>\<open>recvfrom\<close> fails, else the sender and the
  bytes, which overwrite the beginning of \<open>filename\<close>. \<open>mem\<close> is the memory for a new node
  and \<open>forked\<close> the outcome of \<^verbatim>\<open>fork\<close> in the parent.
\<close>

definition on_request ::
  "nat \<Rightarrow> (client_addr \<times> string) option \<Rightarrow> block \<Rightarrow> bool \<Rightarrow> parent \<Rightarrow> parent outcome" where
  "on_request i req mem forked s =
     (case req of
        None \<Rightarrow> Inl (Exit 1 ''SERVER: Read error from client'', s)
      | Some (c, bytes) \<Rightarrow>
          let s = s\<lparr>p_filename := overwrite (p_filename s) bytes\<rparr>; L = p_connected s ! i;
              port = client_port c; host = client_host c in
          bindr (lift_parent (DuplicateNode (p_heap s) L port host) s) (\<lambda>dup.
          if dup = 1 then Inr s
          else
            bindr (lift_parent (InsertLinkList mem (p_heap s) L port host) s) (\<lambda>h.
            let s = s\<lparr>p_heap := h\<rparr> in
            bindr (exit_if (\<not> forked) 1 ''SERVER: fork failed'' s) (\<lambda>s.
            Inr (s\<lparr>p_children := p_children s @ [(i, c, cstr (p_filename s))]\<rparr>)))))"

text \<open>
  One pass of the loop: \<^verbatim>\<open>select\<close> fails (\<open>Some eintr\<close>) or reports the sockets that
  are ready, each with what the calls for it return.
\<close>

fun parent_pass ::
  "bool option \<Rightarrow> (nat \<times> (client_addr \<times> string) option \<times> block \<times> bool) list \<Rightarrow> parent \<Rightarrow> parent outcome" where
  "parent_pass (Some eintr) ready s =
     (if eintr then Inr s else Inl (Exit 1 ''SERVER: Read error from client'', s))"
| "parent_pass None ready s =
     run_list (\<lambda>(i, req, mem, forked) s. on_request i req mem forked s) ready s"

section \<open>The child\<close>

definition client_is_local :: "nat \<Rightarrow> socket_info \<Rightarrow> client_addr \<Rightarrow> bool" where
  "client_is_local i k c \<longleftrightarrow> i = 0 \<or> (mask k AND cl_ip c) = subnet k"

text \<open>The outcomes of the child's system calls, and what \<^verbatim>\<open>getsockname\<close> gives as its port.\<close>

record child_env =
  ch_close :: bool
  ch_dontroute :: bool
  ch_socket :: bool
  ch_child_dontroute :: bool
  ch_bind :: bool
  ch_getsockname :: bool
  ch_connect :: bool
  ch_signal :: bool
  ch_sendto :: "nat \<Rightarrow> bool"
  ch_send :: "nat \<Rightarrow> bool"
  ch_clock :: timeval
  ch_port :: u16

datatype child_pc = AwaitWindow | Sending int

record child =
  ch_dontroute_set :: bool
  ch_rtt :: rtt_info
  ch_ports :: "u32 list"
  ch_heap :: heap
  ch_pc :: child_pc

definition child_sockets :: "child_env \<Rightarrow> nat \<Rightarrow> socket_info \<Rightarrow> client_addr \<Rightarrow> child \<Rightarrow> child outcome" where
  "child_sockets E i k c s =
     bindr (exit_if (\<not> ch_close E) 1 ''SERVER: Socket close error'' s) (\<lambda>s.
     bindr (if client_is_local i k c
            then bindr (exit_if (\<not> ch_dontroute E) 1 ''SERVER: Set socket option SO_DONTROUTE failed'' s) (\<lambda>s.
                 bindr (exit_if (\<not> ch_socket E) 1 ''SERVER: Child socket open error'' s) (\<lambda>s.
                 bindr (exit_if (\<not> ch_child_dontroute E) 1
                         ''SERVER: Set child socket option SO_DONTROUTE failed'' s) (\<lambda>s.
                 Inr (s\<lparr>ch_dontroute_set := True\<rparr>))))
            else exit_if (\<not> ch_socket E) 1 ''SERVER: Child socket open error'' s) (\<lambda>s.
     bindr (exit_if (\<not> ch_bind E) 1 ''SERVER: Child socket bind error'' s) (\<lambda>s.
     bindr (exit_if (\<not> ch_getsockname E) 1 ''SERVER: Function getsockname() error'' s) (\<lambda>s.
     exit_if (\<not> ch_connect E) 1 ''SERVER: Child socket connection error'' s))))"

text \<open>The port goes out as a word in host byte order.\<close>

definition child_port :: "child_env \<Rightarrow> u32" where
  "child_port E = ucast (htons (ch_port E))"

definition port_failed :: string where
  "port_failed = ''SERVER: Unable to send ephemeral port number to client''"

definition offer_port :: "child_env \<Rightarrow> child \<Rightarrow> child outcome" where
  "offer_port E s =
     (let s = s\<lparr>ch_rtt := rtt_init (ch_clock E) (ch_rtt s)\<rparr> in
      bindr (exit_if (\<not> ch_signal E) 1 ''SERVER: Unable to catch SIGALRM signal'' s) (\<lambda>s.
      let s = s\<lparr>ch_rtt := rtt_newpack (ch_rtt s)\<rparr> in
      bindr (exit_if (\<not> ch_sendto E (length (ch_ports s))) 1 port_failed s) (\<lambda>s.
      Inr (s\<lparr>ch_ports := ch_ports s @ [child_port E], ch_pc := AwaitWindow\<rparr>))))"

text \<open>The alarm before the client's window has arrived: the port goes out on both sockets.\<close>

definition handshake_alarm :: "child_env \<Rightarrow> child \<Rightarrow> child outcome" where
  "handshake_alarm E s =
     (let (r, ret) = rtt_timeout (ch_rtt s); s = s\<lparr>ch_rtt := r\<rparr> in
      bindr (exit_if (ret < 0) 1 give_up s) (\<lambda>s.
      bindr (exit_if (\<not> ch_sendto E (length (ch_ports s))) 1 port_failed s) (\<lambda>s.
      bindr (exit_if (\<not> ch_send E (length (ch_ports s))) 1 port_failed
               (s\<lparr>ch_ports := ch_ports s @ [child_port E]\<rparr>)) (\<lambda>s.
      Inr (s\<lparr>ch_ports := ch_ports s @ [child_port E]\<rparr>)))))"

text \<open>
  The client's window (\<open>None\<close>: \<^verbatim>\<open>recv\<close> fails). The client's entry is deleted from the
  list of connected clients, in the child's copy of the parent's memory.
\<close>

definition handshake_window ::
  "nat \<Rightarrow> client_addr \<Rightarrow> u32 option \<Rightarrow> bool \<Rightarrow> bool \<Rightarrow> child \<Rightarrow> child outcome" where
  "handshake_window L c w did_close did_open s =
     (case w of
        None \<Rightarrow> Inl (Exit 1 ''SERVER: Unable to receive advertised window size from client'', s)
      | Some w \<Rightarrow>
         (case DeleteSelectedNode (ch_heap s) L (client_port c) (client_host c) of
            Inl (e, h) \<Rightarrow> Inl (e, s\<lparr>ch_heap := h\<rparr>)
          | Inr h \<Rightarrow>
             let s = s\<lparr>ch_heap := h\<rparr> in
             bindr (exit_if (\<not> did_close) 1 ''SERVER: Socket close error'' s) (\<lambda>s.
             bindr (exit_if (\<not> did_open) 1 ''SERVER: Can't open request file'' s) (\<lambda>s.
             Inr (s\<lparr>ch_pc := Sending (uint (ntohs (low16 w)))\<rparr>)))))"

definition child_alarms :: "child_env \<Rightarrow> nat \<Rightarrow> child \<Rightarrow> child outcome" where
  "child_alarms E n s = run_list (\<lambda>_ s. handshake_alarm E s) (replicate n ()) s"

section \<open>Properties\<close>

lemma bind_socket_Inr:
  "bind_socket ifi ks = Inr ks' \<Longrightarrow> \<exists>fd. if_socket ifi = Some fd \<and> length ks < 10
     \<and> (\<exists>a m. ipv4 (if_addr ifi) = Some a \<and> ipv4 (if_netmask ifi) = Some m
       \<and> ks' = ks @ [\<lparr>sockfd = fd, ip_addr = ntohl a, mask = ntohl m, subnet = ntohl m AND ntohl a\<rparr>])"
  by (auto simp: bind_socket_def Let_def bind_iff MAXIMUM_SOCKET_def split: option.splits)

lemma bind_sockets_Inr:
  assumes "run_list bind_socket is ks = Inr ks'" and "length ks \<le> 10"
  shows "length ks' = length ks + length is \<and> length ks' \<le> 10 \<and> take (length ks) ks' = ks
    \<and> map ip_addr (drop (length ks) ks') = map (\<lambda>f. ntohl (the (ipv4 (if_addr f)))) is
    \<and> (\<forall>k \<in> set (drop (length ks) ks'). subnet k = (mask k AND ip_addr k))"
  using assms
proof (induction "is" arbitrary: ks)
  case Nil
  then show ?case by simp
next
  case (Cons f "is")
  then obtain us where u: "bind_socket f ks = Inr us" and rest: "run_list bind_socket is us = Inr ks'"
    by (auto simp: bind_iff)
  from bind_socket_Inr [OF u] obtain k where us: "us = ks @ [k]" "length ks < 10"
    "ip_addr k = ntohl (the (ipv4 (if_addr f)))" "subnet k = (mask k AND ip_addr k)" by auto
  from Cons.IH [OF rest] us have IH: "length ks' = length us + length is" "length ks' \<le> 10"
    "take (Suc (length ks)) ks' = ks @ [k]"
    "map ip_addr (drop (Suc (length ks)) ks') = map (\<lambda>f. ntohl (the (ipv4 (if_addr f)))) is"
    "\<forall>k \<in> set (drop (Suc (length ks)) ks'). subnet k = (mask k AND ip_addr k)" by auto
  from IH(3) have "take (length ks) ks' = ks" "drop (length ks) ks' = k # drop (Suc (length ks)) ks'"
    by (metis append_eq_conv_conj append_take_drop_id take_Suc_conv_app_nth append_Cons append_Nil
        append.assoc)+
  with IH us show ?case by simp
qed

text \<open>The handshake's alarms, as long as the port can be sent.\<close>

lemma handshake_alarm_eq:
  assumes "\<forall>n. ch_sendto E n" and "\<forall>n. ch_send E n"
  shows "handshake_alarm E s =
    (if rtt_nrexmt (ch_rtt s) + 1 > 12 then Inl (Exit 1 give_up, s\<lparr>ch_rtt := fst (rtt_timeout (ch_rtt s))\<rparr>)
     else Inr (s\<lparr>ch_rtt := fst (rtt_timeout (ch_rtt s)),
       ch_ports := ch_ports s @ [child_port E, child_port E]\<rparr>))"
  using assms by (simp add: handshake_alarm_def Let_def rtt_timeout_def rtt_const_defs)

lemma child_alarms_ports:
  assumes "\<forall>n. ch_sendto E n" and "\<forall>n. ch_send E n" and "rtt_nrexmt (ch_rtt s) + int n \<le> 12"
  shows "\<exists>t. child_alarms E n s = Inr t \<and> rtt_nrexmt (ch_rtt t) = rtt_nrexmt (ch_rtt s) + int n
    \<and> ch_ports t = ch_ports s @ replicate (2 * n) (child_port E)"
  using assms(3)
proof (induction n arbitrary: s)
  case 0
  then show ?case by (simp add: child_alarms_def)
next
  case (Suc n)
  let ?u = "s\<lparr>ch_rtt := fst (rtt_timeout (ch_rtt s)), ch_ports := ch_ports s @ [child_port E, child_port E]\<rparr>"
  have u: "rtt_nrexmt (ch_rtt ?u) = rtt_nrexmt (ch_rtt s) + 1"
    by (simp add: rtt_timeout_def Let_def)
  then obtain t where "child_alarms E n ?u = Inr t"
    "rtt_nrexmt (ch_rtt t) = rtt_nrexmt (ch_rtt ?u) + int n"
    "ch_ports t = ch_ports ?u @ replicate (2 * n) (child_port E)"
    using Suc.IH [of ?u] Suc.prems by auto
  with u show ?case using Suc.prems
    by (simp add: child_alarms_def handshake_alarm_eq [OF assms(1,2)])
qed

lemma dotted_chars: "\<forall>c \<in> set (dotted a). is_digit c \<or> c = CHR ''.''"
  using show_nat_digits by (auto simp: dotted_def)

lemma cstr_dotted: "cstr (dotted a) = dotted a"
  using dotted_chars digit_not_nul by (intro cstr_no_nul) force

lemma show_nat_length: "n < 1000 \<Longrightarrow> length (show_nat n) \<le> 3"
  by (subst show_nat.simps, subst show_nat.simps, subst show_nat.simps) auto

lemma dotted_length: "length (dotted a) \<le> 15"
proof -
  have byte: "unat (take_bit 8 w) < 1000" for w :: u32
  proof -
    have "unat w mod 256 < 256" by simp
    then have "unat w mod 256 < 1000" by linarith
    then show ?thesis by (simp add: take_bit_eq_mod unat_mod)
  qed
  have "unat (drop_bit 24 a) < 1000"
  proof -
    have "unat a div 16777216 < 256"
      using unsigned_less [of a, where 'a = nat] by (intro less_mult_imp_div_less) simp
    then have "unat a div 16777216 < 1000" by linarith
    then show ?thesis by (simp add: drop_bit_eq_div unat_div)
  qed
  then have "length (show_nat (unat (drop_bit 24 a))) \<le> 3" by (rule show_nat_length)
  moreover have "length (show_nat (unat (take_bit 8 w))) \<le> 3" for w :: u32
    using byte by (rule show_nat_length)
  note this [of "drop_bit 16 a"] this [of "drop_bit 8 a"] this [of a]
  ultimately show ?thesis unfolding dotted_def length_append by simp
qed

section \<open>Claims\<close>

text \<open>
  The server listens on every interface: when the sockets have been opened there are at most
  ten, one for each interface in the order of the list, bound to its address, and the subnet of
  each is its address under its mask.
\<close>

theorem sockets_match_interfaces:
  assumes "open_sockets (Some is) = Inr ks"
  shows "length ks = length is \<and> length ks \<le> 10
    \<and> map ip_addr ks = map (\<lambda>f. ntohl (the (ipv4 (if_addr f)))) is
    \<and> (\<forall>k \<in> set ks. subnet k = (mask k AND ip_addr k))"
  using bind_sockets_Inr [of "is" "[]" ks] assms by (simp add: open_sockets_def)

theorem sockets_match_interfaces_witness:
  "\<exists>ks. open_sockets (Some [\<lparr>if_addr = Some (Sockaddr_in 0 0x0100007F), if_netmask = Some (Sockaddr_in 0 0x000000FF), if_socket = Some 3,
       if_setsockopt = True, if_bind = True\<rparr>]) = Inr ks \<and> length ks = 1 \<and> map ip_addr ks = [0x7F000001]"
proof -
  let ?is = "[\<lparr>if_addr = Some (Sockaddr_in 0 0x0100007F), if_netmask = Some (Sockaddr_in 0 0x000000FF), if_socket = Some 3,
       if_setsockopt = True, if_bind = True\<rparr>]"
  obtain ks where "open_sockets (Some ?is) = Inr ks"
    by (simp add: open_sockets_def bind_socket_def MAXIMUM_SOCKET_def Let_def sin_addr_def ipv4_def)
  with sockets_match_interfaces [OF this] show ?thesis by (simp add: bswap32_def ipv4_def)
qed

text \<open>
  The child waits for the client's window at most until the thirteenth alarm: from the offer
  of its port, with nothing heard from the client, it sends the port on both sockets after each
  of twelve alarms and then gives up.
\<close>

theorem handshake_gives_up:
  assumes "\<forall>n. ch_sendto E n" and "\<forall>n. ch_send E n" and "offer_port E s = Inr t"
  shows "\<exists>u. child_alarms E 13 t = Inl (Exit 1 give_up, u)
    \<and> ch_ports u = ch_ports s @ replicate 25 (child_port E)"
proof -
  have t: "rtt_nrexmt (ch_rtt t) = 0" "ch_ports t = ch_ports s @ [child_port E]"
    using assms(3) by (auto simp: offer_port_def Let_def bind_iff rtt_newpack_def)
  then obtain v where v: "child_alarms E 12 t = Inr v" "rtt_nrexmt (ch_rtt v) = 12"
    "ch_ports v = ch_ports t @ replicate 24 (child_port E)"
    using child_alarms_ports [OF assms(1,2), of t 12] by auto
  have "replicate 13 () = replicate 12 () @ [()]" by (simp add: numeral_eq_Suc)
  then have "child_alarms E 13 t = bindr (child_alarms E 12 t) (run_list (\<lambda>_. handshake_alarm E) [()])"
    by (simp only: child_alarms_def run_list_append)
  also have "\<dots> = Inl (Exit 1 give_up, v\<lparr>ch_rtt := fst (rtt_timeout (ch_rtt v))\<rparr>)"
    using v by (simp add: handshake_alarm_eq [OF assms(1,2)])
  finally show ?thesis using v(3) t(2) by (simp add: replicate_append_same [symmetric] numeral_eq_Suc)
qed

definition demo_child_env :: child_env where
  "demo_child_env = \<lparr>ch_close = True, ch_dontroute = True, ch_socket = True, ch_child_dontroute = True,
     ch_bind = True, ch_getsockname = True, ch_connect = True, ch_signal = True,
     ch_sendto = (\<lambda>_. True), ch_send = (\<lambda>_. True), ch_clock = \<lparr>tv_sec = 7, tv_usec = 0\<rparr>, ch_port = 0x3412\<rparr>"

definition demo_child :: child where
  "demo_child = \<lparr>ch_dontroute_set = False,
     ch_rtt = \<lparr>rtt_rtt = 0, rtt_srtt = 0, rtt_rttvar = 0, rtt_rto = 0, rtt_nrexmt = 5, rtt_base = 0\<rparr>,
     ch_ports = [], ch_heap = Map.empty, ch_pc = AwaitWindow\<rparr>"

theorem handshake_gives_up_witness:
  "\<exists>t u. offer_port demo_child_env demo_child = Inr t
     \<and> child_alarms demo_child_env 13 t = Inl (Exit 1 give_up, u) \<and> length (ch_ports u) = 25"
proof -
  obtain t where t: "offer_port demo_child_env demo_child = Inr t"
    by (simp add: offer_port_def demo_child_env_def Let_def)
  have "\<forall>n. ch_sendto demo_child_env n" "\<forall>n. ch_send demo_child_env n"
    by (simp_all add: demo_child_env_def)
  from handshake_gives_up [OF this t] t show ?thesis by (auto simp: demo_child_def)
qed

text \<open>
  A client that asks twice gets one child: once its request has been recorded, the same
  request again, whatever file it names, starts no process and leaves the list alone. The entry is
  deleted only in the child's copy of the list, so this holds for ever after.
\<close>

theorem repeated_request_ignored:
  assumes "llist (p_heap s) (p_connected s ! i) xs"
    and "ready_block (p_connected s ! i) (client_port c) mem (p_heap s)"
    and "client_port c \<notin> fst ` set (map snd xs)"
    and "on_request i (Some (c, f)) mem forked s = Inr t"
  shows "p_children t = p_children s @ [(i, c, cstr (overwrite (p_filename s) f))]
    \<and> (\<exists>u. on_request i (Some (c, f')) mem' forked' t = Inr u \<and> p_children u = p_children t
        \<and> p_heap u = p_heap t)"
proof -
  let ?L = "p_connected s ! i" and ?p = "client_port c" and ?h = "client_host c"
  have host: "cstr ?h = ?h" by (simp add: client_host_dotted cstr_dotted)
  have "length (cstr ?h) < MAXLINE + 3"
    using dotted_length [of "cl_ip c"] by (simp add: host MAXLINE_def) (simp add: client_host_dotted)
  moreover have "holds ?L (p_heap s) (map snd xs)" using assms(1) by (auto simp: holds_def)
  ultimately obtain g where g: "InsertLinkList mem (p_heap s) ?L ?p ?h = Inr g"
    "holds ?L g (ins ?p ?h (map snd xs))"
    using recv_store.put_ins [OF _ assms(2), of "map snd xs" ?h] host by auto
  have "\<forall>x \<in> set xs. other ?p ?h x" using assms(3) by (force simp: other_def)
  then have "DuplicateNode (p_heap s) ?L ?p ?h = Inr 0"
    using DuplicateNode_llist [OF assms(1)] by simp
  with assms(4) g(1) have t: "t = s\<lparr>p_filename := overwrite (p_filename s) f, p_heap := g,
      p_children := p_children s @ [(i, c, cstr (overwrite (p_filename s) f))]\<rparr>"
    by (auto simp: on_request_def lift_parent_def Let_def bind_iff)
  from g(2) obtain ys where ys: "llist g ?L ys" "map snd ys = ins ?p ?h (map snd xs)"
    by (auto simp: holds_def)
  have new: "(?p, ?h) \<in> set (ins ?p ?h (map snd xs))"
  proof -
    have "?p \<in> fst ` set (ins ?p ?h (map snd xs))" unfolding ins_keys by (rule insertI1)
    then obtain v where v: "(?p, v) \<in> set (ins ?p ?h (map snd xs))" by (auto simp del: set_map)
    with ins_new [OF v] assms(3) show ?thesis by (force simp del: set_map)
  qed
  then obtain y where "y \<in> set ys" "snd y = (?p, ?h)" unfolding ys(2) [symmetric] by auto
  then have "\<exists>y \<in> set ys. \<not> other ?p ?h y" by (intro bexI [of _ y]) (simp_all add: other_def)
  then have "DuplicateNode g ?L ?p ?h = Inr 1" using DuplicateNode_llist [OF ys(1)] by simp
  then show ?thesis by (simp add: t on_request_def lift_parent_def Let_def)
qed

definition demo_parent :: parent where
  "demo_parent = \<lparr>p_sockets = [\<lparr>sockfd = 3, ip_addr = 0x7F000001, mask = 0xFF000000, subnet = 0x7F000000\<rparr>],
     p_heap = (\<lambda>_. None)(0 := Some \<lparr>n_seq = 0, n_recvline = [], n_next = None\<rparr>), p_connected = [0],
     p_filename = [], p_children = []\<rparr>"

theorem repeated_request_ignored_witness:
  "\<exists>t u. on_request 0 (Some (\<lparr>cl_ip = 0x7F000001, cl_port = 77\<rparr>, ''f''))
       (Some (1, \<lparr>n_seq = 0, n_recvline = [], n_next = None\<rparr>)) True demo_parent = Inr t
     \<and> on_request 0 (Some (\<lparr>cl_ip = 0x7F000001, cl_port = 77\<rparr>, ''g'')) None True t = Inr u
     \<and> p_children u = [(0, \<lparr>cl_ip = 0x7F000001, cl_port = 77\<rparr>, ''f'')]"
proof -
  let ?c = "\<lparr>cl_ip = 0x7F000001, cl_port = 77\<rparr>" and ?m = "Some (1, \<lparr>n_seq = 0, n_recvline = [], n_next = None\<rparr>)"
  have L: "llist (p_heap demo_parent) (p_connected demo_parent ! 0) []"
    "ready_block (p_connected demo_parent ! 0) (client_port ?c) ?m (p_heap demo_parent)"
    by (simp_all add: demo_parent_def llist_def ready_block_def)
  have "length (cstr (client_host ?c)) < MAXLINE + 3"
    using dotted_length [where a = "0x7F000001"] by (simp add: client_host_dotted cstr_dotted MAXLINE_def)
  then obtain t where t: "on_request 0 (Some (?c, ''f'')) ?m True demo_parent = Inr t"
    by (simp add: on_request_def Let_def lift_parent_def demo_parent_def DuplicateNode_def
        find_pair.simps loop_end_def InsertLinkList_def fill_node_def)
  show ?thesis
    using repeated_request_ignored [OF L _ t, where f' = "''g''" and mem' = None and forked' = True] t
    by (auto simp: demo_parent_def overwrite_def cstr_def)
qed

end
