(* ===== verification/IfiInfo.thy ===== *)
theory IfiInfo
  imports SockAddr
begin

text \<open>
  \<^verbatim>\<open>Assignment 2/Code/get_ifi_info_plus.c\<close>: the list of a host's interfaces with their addresses
  and network masks, which the file server and the file client read at their start, and the version
  of the book library it was made from (\<^verbatim>\<open>unpv13e/lib/get_ifi_info.c\<close>). They differ in one
  statement: the version of the library cuts the name of an interface at a colon. What is compiled
  for link-layer addresses (\<^verbatim>\<open>HAVE_SOCKADDR_DL_STRUCT\<close>) is not part of the programs on Linux, so the
  index and the hardware address of an element stay 0.
\<close>

section \<open>What the kernel answers\<close>

text \<open>
  An entry of the buffer of \<^verbatim>\<open>SIOCGIFCONF\<close>, with the answers to the calls made for it
  (\<open>None\<close>: the call fails, and \<^verbatim>\<open>Ioctl\<close> ends the process).
\<close>

record if_entry =
  e_name :: string
  e_addr :: sockaddr
  e_flags :: "u16 option"
  e_mtu :: "int option"
  e_brdaddr :: "sockaddr option"
  e_dstaddr :: "sockaddr option"
  e_ntmaddr :: "sockaddr option"

abbreviation e_family :: "if_entry \<Rightarrow> family" where
  "e_family e \<equiv> sa_family (e_addr e)"

definition IFNAMSIZ :: nat where "IFNAMSIZ = 16"

text \<open>The bits of the flags the function looks at.\<close>

definition IFF_UP :: u16 where "IFF_UP = 0x1"
definition IFF_BROADCAST :: u16 where "IFF_BROADCAST = 0x2"
definition IFF_POINTOPOINT :: u16 where "IFF_POINTOPOINT = 0x10"

text \<open>
  The loop that finds a large enough buffer: \<open>conf len\<close> is the number of bytes the kernel fills
  in a buffer of \<open>len\<close> (\<open>Inl b\<close>: it fails, with \<^verbatim>\<open>EINVAL\<close> if \<open>b\<close>); \<open>isize\<close> is
  \<^verbatim>\<open>sizeof(struct ifreq)\<close>.
\<close>

fun ifi_buffer :: "nat \<Rightarrow> nat \<Rightarrow> (nat \<Rightarrow> bool + nat) \<Rightarrow> nat \<Rightarrow> nat \<Rightarrow> (stop + nat) option" where
  "ifi_buffer 0 isize conf len lastlen = None"
| "ifi_buffer (Suc fuel) isize conf len lastlen =
     (case conf len of
        Inl einval \<Rightarrow>
          if \<not> einval \<or> lastlen \<noteq> 0 then Some (Inl (Exit 1 ''ioctl error''))
          else ifi_buffer fuel isize conf (len + 10 * isize) lastlen
      | Inr n \<Rightarrow>
          if n = lastlen then Some (Inr n) else ifi_buffer fuel isize conf (len + 10 * isize) n)"

section \<open>The list\<close>

text \<open>An element of the list; \<open>None\<close> is a null pointer.\<close>

record ifi_info =
  ifi_name :: string
  ifi_flags :: u16
  ifi_alias :: bool
  ifi_mtu :: u16
  ifi_addr :: "sockaddr option"
  ifi_brdaddr :: "sockaddr option"
  ifi_dstaddr :: "sockaddr option"
  ifi_ntmaddr :: "sockaddr option"

text \<open>\<^verbatim>\<open>Ioctl\<close> of the book.\<close>

definition ioctl :: "'a option \<Rightarrow> 'b \<Rightarrow> (stop \<times> 'b) + 'a" where
  "ioctl r s = (case r of None \<Rightarrow> Inl (Exit 1 ''ioctl error'', s) | Some x \<Rightarrow> Inr x)"

definition ioctl_if :: "bool \<Rightarrow> 'a option \<Rightarrow> 'b \<Rightarrow> (stop \<times> 'b) + 'a option" where
  "ioctl_if c r s = (if c then bindr (ioctl r s) (\<lambda>x. Inr (Some x)) else Inr None)"

definition sockaddr_len :: "family \<Rightarrow> nat" where
  "sockaddr_len f = (case f of AF_INET6 \<Rightarrow> 28 | _ \<Rightarrow> 16)"

text \<open>
  The addresses of an interface that is up. For IPv6 the address of the other end is copied from
  \<^verbatim>\<open>ifrcopy\<close>, a structure of \<open>isize\<close> bytes, which has no room for it behind the name.
\<close>

definition fill_addrs :: "nat \<Rightarrow> if_entry \<Rightarrow> u16 \<Rightarrow> ifi_info list \<Rightarrow> ifi_info \<Rightarrow> (stop \<times> ifi_info list) + ifi_info" where
  "fill_addrs isize e flags acc i =
     (case e_family e of
        AF_INET \<Rightarrow>
          bindr (ioctl_if (flags AND IFF_BROADCAST \<noteq> 0) (e_brdaddr e) acc) (\<lambda>brd.
          bindr (ioctl_if (flags AND IFF_POINTOPOINT \<noteq> 0) (e_dstaddr e) acc) (\<lambda>dst.
          bindr (ioctl (e_ntmaddr e) acc) (\<lambda>mask.
          Inr (i\<lparr>ifi_addr := Some (e_addr e), ifi_brdaddr := brd, ifi_dstaddr := dst, ifi_ntmaddr := Some mask\<rparr>))))
      | AF_INET6 \<Rightarrow>
          bindr (ioctl_if (flags AND IFF_POINTOPOINT \<noteq> 0) (e_dstaddr e) acc) (\<lambda>dst.
          bindr (undef_if (dst \<noteq> None \<and> IFNAMSIZ + sockaddr_len AF_INET6 > isize) ''ifrcopy'' acc) (\<lambda>acc.
          Inr (i\<lparr>ifi_addr := Some (e_addr e), ifi_dstaddr := dst\<rparr>)))
      | _ \<Rightarrow> Inr i)"

definition make_ifi :: "nat \<Rightarrow> if_entry \<Rightarrow> string \<Rightarrow> bool \<Rightarrow> u16 \<Rightarrow> ifi_info list \<Rightarrow> ifi_info list outcome" where
  "make_ifi isize e name alias flags acc =
     bindr (ioctl (e_mtu e) acc) (\<lambda>mtu.
     bindr (fill_addrs isize e flags acc
       \<lparr>ifi_name = take (IFNAMSIZ - 1) name, ifi_flags = flags, ifi_alias = alias, ifi_mtu = word_of_int mtu,
        ifi_addr = None, ifi_brdaddr = None, ifi_dstaddr = None, ifi_ntmaddr = None\<rparr>) (\<lambda>i.
     Inr (acc @ [i])))"

text \<open>
  One entry: another family is skipped, a name like the one before is an alias, an interface that
  is down is skipped (its name is remembered). \<open>colon\<close> says whether the name is cut at a colon.
\<close>

definition entry_name :: "bool \<Rightarrow> if_entry \<Rightarrow> string" where
  "entry_name colon e =
     (let name = cstr (take IFNAMSIZ (e_name e)) in if colon then takeWhile (\<lambda>c. c \<noteq> CHR '':'') name else name)"

record if_call =
  ic_family :: family
  ic_doaliases :: bool
  ic_cut :: bool
  ic_isize :: nat

definition if_item :: "if_call \<Rightarrow> if_entry \<Rightarrow> string \<times> ifi_info list \<Rightarrow> (string \<times> ifi_info list) outcome" where
  "if_item C e s =
     (case s of (lastname, acc) \<Rightarrow>
        let name = entry_name (ic_cut C) e; alias = (lastname = name) in
        if e_family e \<noteq> ic_family C \<or> (alias \<and> \<not> ic_doaliases C) then Inr s
        else
          (case e_flags e of
             None \<Rightarrow> Inl (Exit 1 ''ioctl error'', (name, acc))
           | Some flags \<Rightarrow>
               if flags AND IFF_UP = 0 then Inr (name, acc)
               else
                 (case make_ifi (ic_isize C) e name alias flags acc of
                    Inl (x, a) \<Rightarrow> Inl (x, (name, a))
                  | Inr acc \<Rightarrow> Inr (name, acc))))"

text \<open>
  The walk through the buffer of \<open>n\<close> bytes: \<open>mem ptr\<close> is what the bytes at \<open>ptr\<close> mean as a
  \<^verbatim>\<open>struct ifreq\<close>. The next one is taken to begin behind the name and the address, whatever the
  size of the structure is.
\<close>

function if_walk ::
  "if_call \<Rightarrow> (nat \<Rightarrow> if_entry) \<Rightarrow> nat \<Rightarrow> nat \<Rightarrow> string \<times> ifi_info list \<Rightarrow> (string \<times> ifi_info list) outcome" where
  "if_walk C mem n ptr s =
     (if ptr < n
      then bindr (if_item C (mem ptr) s) (if_walk C mem n (ptr + IFNAMSIZ + sockaddr_len (e_family (mem ptr))))
      else Inr s)"
  by pat_completeness auto
termination
  by (relation "measure (\<lambda>(_, _, n, ptr, _). n - ptr)") (auto simp: IFNAMSIZ_def)

declare if_walk.simps [simp del]

text \<open>The whole function in both versions: the buffer, then the walk.\<close>

definition list_ifs ::
  "nat \<Rightarrow> if_call \<Rightarrow> (nat \<Rightarrow> bool + nat) \<Rightarrow> (nat \<Rightarrow> if_entry) \<Rightarrow> (string \<times> ifi_info list) outcome option" where
  "list_ifs fuel C conf mem =
     (case ifi_buffer fuel (ic_isize C) conf (100 * ic_isize C) 0 of
        None \<Rightarrow> None
      | Some (Inl e) \<Rightarrow> Some (Inl (e, ([], [])))
      | Some (Inr n) \<Rightarrow> Some (if_walk C mem n 0 ([], [])))"

definition get_ifi_info_plus ::
  "nat \<Rightarrow> nat \<Rightarrow> (nat \<Rightarrow> bool + nat) \<Rightarrow> family \<Rightarrow> bool \<Rightarrow> (nat \<Rightarrow> if_entry) \<Rightarrow> (string \<times> ifi_info list) outcome option" where
  "get_ifi_info_plus fuel isize conf family doaliases mem =
     list_ifs fuel \<lparr>ic_family = family, ic_doaliases = doaliases, ic_cut = False, ic_isize = isize\<rparr> conf mem"

definition get_ifi_info ::
  "nat \<Rightarrow> nat \<Rightarrow> (nat \<Rightarrow> bool + nat) \<Rightarrow> family \<Rightarrow> bool \<Rightarrow> (nat \<Rightarrow> if_entry) \<Rightarrow> (string \<times> ifi_info list) outcome option" where
  "get_ifi_info fuel isize conf family doaliases mem =
     list_ifs fuel \<lparr>ic_family = family, ic_doaliases = doaliases, ic_cut = True, ic_isize = isize\<rparr> conf mem"

text \<open>The wrappers end the process when the list is empty.\<close>

definition or_quit ::
  "string \<Rightarrow> (string \<times> ifi_info list) outcome option \<Rightarrow> (string \<times> ifi_info list) outcome option" where
  "or_quit msg r = (case r of None \<Rightarrow> None | Some m \<Rightarrow> Some (bindr m (\<lambda>s. exit_if (snd s = []) 1 msg s)))"

definition Get_ifi_info_plus ::
  "nat \<Rightarrow> nat \<Rightarrow> (nat \<Rightarrow> bool + nat) \<Rightarrow> family \<Rightarrow> bool \<Rightarrow> (nat \<Rightarrow> if_entry) \<Rightarrow> (string \<times> ifi_info list) outcome option" where
  "Get_ifi_info_plus fuel isize conf family doaliases mem =
     or_quit ''get_ifi_info_plus error'' (get_ifi_info_plus fuel isize conf family doaliases mem)"

definition Get_ifi_info ::
  "nat \<Rightarrow> nat \<Rightarrow> (nat \<Rightarrow> bool + nat) \<Rightarrow> family \<Rightarrow> bool \<Rightarrow> (nat \<Rightarrow> if_entry) \<Rightarrow> (string \<times> ifi_info list) outcome option" where
  "Get_ifi_info fuel isize conf family doaliases mem =
     or_quit ''get_ifi_info error'' (get_ifi_info fuel isize conf family doaliases mem)"

section \<open>Which interfaces are found\<close>

text \<open>The entries of the kernel lie \<open>isize\<close> bytes apart.\<close>

definition laid_out :: "nat \<Rightarrow> if_entry list \<Rightarrow> (nat \<Rightarrow> if_entry) \<Rightarrow> bool" where
  "laid_out isize es mem \<longleftrightarrow> (\<forall>i < length es. mem (i * isize) = es ! i)"

text \<open>The kernel fills in \<open>n\<close> bytes whenever the buffer has room for the first guess.\<close>

definition fits :: "nat \<Rightarrow> (nat \<Rightarrow> bool + nat) \<Rightarrow> nat \<Rightarrow> bool" where
  "fits isize conf n \<longleftrightarrow> (\<forall>len \<ge> 100 * isize. conf len = Inr n)"

text \<open>Then two rounds of the loop are enough.\<close>

lemma list_ifs_fits:
  assumes "fits (ic_isize C) conf n" and "2 \<le> fuel"
  shows "list_ifs fuel C conf mem = Some (if_walk C mem n 0 ([], []))"
proof -
  obtain k where "fuel = Suc (Suc k)" using assms(2) by (metis add_2_eq_Suc le_Suc_ex)
  then show ?thesis using assms(1) by (simp add: fits_def list_ifs_def)
qed

lemma if_walk_run_list:
  assumes "laid_out 32 es mem" and "\<forall>e \<in> set es. e_family e \<noteq> AF_INET6" and "i \<le> length es"
  shows "if_walk C mem (length es * 32) (i * 32) s = run_list (if_item C) (drop i es) s"
  using assms(3)
proof (induction "length es - i" arbitrary: i s)
  case 0
  then show ?case by (simp add: if_walk.simps)
next
  case (Suc k)
  then have i: "i < length es" by simp
  have m: "mem (i * 32) = es ! i" using assms(1) i by (simp add: laid_out_def)
  have "es ! i \<in> set es" using i by simp
  then have len: "i * 32 + IFNAMSIZ + sockaddr_len (e_family (es ! i)) = Suc i * 32"
    using assms(2) by (cases "e_family (es ! i)") (auto simp: IFNAMSIZ_def sockaddr_len_def)
  have "if_walk C mem (length es * 32) (Suc i * 32) = run_list (if_item C) (drop (Suc i) es)"
    by (rule ext, rule Suc.hyps(1)) (use Suc.hyps(2) i in auto)
  then show ?case
    using i by (subst if_walk.simps) (simp only: m len Cons_nth_drop_Suc [OF i, symmetric] run_list.simps mult_less_cancel2, simp)
qed

definition answers :: "if_entry \<Rightarrow> bool" where
  "answers e \<longleftrightarrow> e_flags e \<noteq> None \<and> e_mtu e \<noteq> None \<and> e_brdaddr e \<noteq> None \<and> e_dstaddr e \<noteq> None \<and> e_ntmaddr e \<noteq> None"

definition up :: "if_entry \<Rightarrow> bool" where
  "up e \<longleftrightarrow> e_family e = AF_INET \<and> the (e_flags e) AND IFF_UP \<noteq> 0"

lemma if_item_all:
  assumes "answers e" and "ic_family C = AF_INET" and "ic_doaliases C"
  shows "\<exists>name x. if_item C e (l, acc) = Inr (name, acc @ x)
    \<and> map ifi_addr x = (if up e then [Some (e_addr e)] else []) \<and> map ifi_ntmaddr x = (if up e then [e_ntmaddr e] else [])"
proof -
  obtain fl mtu brd dst m where "e_flags e = Some fl" "e_mtu e = Some mtu" "e_brdaddr e = Some brd"
      "e_dstaddr e = Some dst" "e_ntmaddr e = Some m"
    using assms by (auto simp: answers_def)
  with assms(2,3) show ?thesis
    by (simp add: if_item_def make_ifi_def fill_addrs_def ioctl_def ioctl_if_def up_def Let_def)
qed

lemma run_items_all:
  assumes "\<forall>e \<in> set es. answers e" and "ic_family C = AF_INET" and "ic_doaliases C"
  shows "\<exists>l' x. run_list (if_item C) es (l, acc) = Inr (l', acc @ x)
    \<and> map ifi_addr x = map (Some \<circ> e_addr) (filter up es) \<and> map ifi_ntmaddr x = map e_ntmaddr (filter up es)"
  using assms(1)
proof (induction es arbitrary: l acc)
  case Nil
  then show ?case by simp
next
  case (Cons e es)
  then obtain n x where x: "if_item C e (l, acc) = Inr (n, acc @ x)"
    "map ifi_addr x = (if up e then [Some (e_addr e)] else [])" "map ifi_ntmaddr x = (if up e then [e_ntmaddr e] else [])"
    using if_item_all [OF _ assms(2,3)] by (metis list.set_intros(1))
  from Cons.IH [of n "acc @ x"] Cons.prems obtain n' y where
    "run_list (if_item C) es (n, acc @ x) = Inr (n', (acc @ x) @ y)"
    "map ifi_addr y = map (Some \<circ> e_addr) (filter up es)" "map ifi_ntmaddr y = map e_ntmaddr (filter up es)" by auto
  with x show ?case by (intro exI [of _ n'] exI [of _ "x @ y"]) simp
qed

lemma list_ifs_all:
  assumes "laid_out 32 es mem" and "\<forall>e \<in> set es. e_family e \<noteq> AF_INET6" and "\<forall>e \<in> set es. answers e"
    and "fits 32 conf (length es * 32)" and "2 \<le> fuel"
    and "ic_family C = AF_INET" and "ic_doaliases C" and "ic_isize C = 32"
  shows "\<exists>l ifis. list_ifs fuel C conf mem = Some (Inr (l, ifis))
    \<and> map ifi_addr ifis = map (Some \<circ> e_addr) (filter up es) \<and> map ifi_ntmaddr ifis = map e_ntmaddr (filter up es)"
  using run_items_all [OF assms(3,6,7), of "[]" "[]"] if_walk_run_list [OF assms(1,2), of 0 C "([], [])"]
    list_ifs_fits [of C conf "length es * 32" fuel mem] assms(4,5,8) by auto

text \<open>
  Where \<^verbatim>\<open>struct ifreq\<close> has 32 bytes, every IPv4 interface that is up is listed with its address
  and its mask, in the order of the kernel, aliases included, by both versions.
\<close>
theorem interfaces_up_listed:
  assumes "laid_out 32 es mem" and "\<forall>e \<in> set es. e_family e \<noteq> AF_INET6" and "\<forall>e \<in> set es. answers e"
    and "fits 32 conf (length es * 32)" and "2 \<le> fuel"
    and "get \<in> {get_ifi_info_plus, get_ifi_info}"
  shows "\<exists>l ifis. get fuel 32 conf AF_INET True mem = Some (Inr (l, ifis))
    \<and> map ifi_addr ifis = map (Some \<circ> e_addr) (filter up es) \<and> map ifi_ntmaddr ifis = map e_ntmaddr (filter up es)"
  using assms(6) list_ifs_all [OF assms(1-5)] by (auto simp: get_ifi_info_plus_def get_ifi_info_def)

text \<open>
  Where it has 40 bytes, as on 64-bit hosts, the second entry read lies eight bytes before the
  second interface: what is listed there is not an interface of the kernel's list.
\<close>
theorem second_interface_misread:
  assumes "laid_out 40 es mem" and "2 \<le> length es" and "e_family (es ! 0) = AF_INET"
    and "C = \<lparr>ic_family = family, ic_doaliases = doaliases, ic_cut = False, ic_isize = 40\<rparr>"
    and "if_item C (es ! 0) ([], []) = Inr s"
    and "fits 40 conf (length es * 40)" and "2 \<le> fuel"
  shows "get_ifi_info_plus fuel 40 conf family doaliases mem
    = Some (bindr (if_item C (mem 32) s)
        (if_walk C mem (length es * 40) (32 + IFNAMSIZ + sockaddr_len (e_family (mem 32)))))"
proof -
  have m: "mem 0 = es ! 0" using assms(1,2) unfolding laid_out_def by (metis mult_0 less_le_trans zero_less_numeral)
  have n: "0 < length es * 40" "32 < length es * 40" using assms(2) by auto
  have "IFNAMSIZ + sockaddr_len (e_family (es ! 0)) = 32" using assms(3) by (simp add: IFNAMSIZ_def sockaddr_len_def)
  then have "if_walk C mem (length es * 40) 0 ([], []) = if_walk C mem (length es * 40) 32 s"
    using n(1) m assms(5) by (subst if_walk.simps) simp
  also have "\<dots> = bindr (if_item C (mem 32) s)
        (if_walk C mem (length es * 40) (32 + IFNAMSIZ + sockaddr_len (e_family (mem 32))))"
    using n(2) by (subst if_walk.simps) simp
  finally show ?thesis
    using list_ifs_fits [of C conf "length es * 40" fuel mem] assms(4,6,7) by (simp add: get_ifi_info_plus_def)
qed

text \<open>
  Asked for IPv6 addresses, both versions read behind \<^verbatim>\<open>ifrcopy\<close> at an interface to another host,
  on every host.
\<close>
theorem ipv6_peer_overread:
  assumes "e_family e = AF_INET6" and "ic_family C = AF_INET6" and "ic_isize C \<in> {32, 40}"
    and "answers e" and "the (e_flags e) AND IFF_UP \<noteq> 0" and "the (e_flags e) AND IFF_POINTOPOINT \<noteq> 0"
    and "lastname \<noteq> entry_name (ic_cut C) e"
  shows "\<exists>t. if_item C e (lastname, acc) = Inl (Undefined ''ifrcopy'', t)"
  using assms
  by (auto simp: if_item_def make_ifi_def fill_addrs_def answers_def ioctl_def ioctl_if_def Let_def IFNAMSIZ_def
      sockaddr_len_def undef_if_def)

text \<open>
  The names of aliases: with the colon kept, \<^verbatim>\<open>eth0:1\<close> is an interface of its own, so it is listed
  whether aliases are asked for or not; with the colon cut it is an alias of the interface before it.
\<close>
theorem alias_by_colon:
  assumes "e_name e = ''eth0:1''" and "e_family e = AF_INET" and "ic_family C = AF_INET" and "\<not> ic_doaliases C"
    and "answers e" and "the (e_flags e) AND IFF_UP \<noteq> 0"
  shows "ic_cut C \<Longrightarrow> if_item C e (''eth0'', acc) = Inr (''eth0'', acc)"
    and "\<not> ic_cut C \<Longrightarrow> \<exists>i. if_item C e (''eth0'', acc) = Inr (''eth0:1'', acc @ [i]) \<and> ifi_addr i = Some (e_addr e)"
proof -
  have names: "entry_name True e = ''eth0''" "entry_name False e = ''eth0:1''"
    by (simp_all add: entry_name_def assms(1) IFNAMSIZ_def cstr_def Let_def)
  obtain fl mtu brd dst m where "e_flags e = Some fl" "e_mtu e = Some mtu" "e_brdaddr e = Some brd"
      "e_dstaddr e = Some dst" "e_ntmaddr e = Some m"
    using assms(5) by (auto simp: answers_def)
  note defs = if_item_def make_ifi_def fill_addrs_def ioctl_def ioctl_if_def names this assms(2-4)
  show "ic_cut C \<Longrightarrow> if_item C e (''eth0'', acc) = Inr (''eth0'', acc)" by (simp add: defs)
  show "\<not> ic_cut C \<Longrightarrow> \<exists>i. if_item C e (''eth0'', acc) = Inr (''eth0:1'', acc @ [i]) \<and> ifi_addr i = Some (e_addr e)"
    using assms(6) by (simp add: defs Let_def)
qed

end
