(* ===== verification/FileClient.thy ===== *)
theory FileClient
  imports FileServer
begin

text \<open>
  \<^verbatim>\<open>Assignment 2/Code/client.c\<close>: the choice of the addresses, the handshake that asks
  for a file, the loop of the main thread that receives datagrams and acknowledges them, and the
  thread that prints what has arrived in order. The two threads share \<open>header\<close>,
  \<open>printed\<close> and \<open>data_flag\<close> without any lock. A step of the model is what one thread does from
  one blocking call to the next, so the interleavings are those at the blocking calls: between the
  header of a datagram and its line the other thread may run, but the two threads do not work
  on the list at the same moment. What happens when they do is \<open>walk_meets_free\<close> in
  \<open>FileClientInv\<close>.
\<close>

section \<open>The addresses\<close>

record client_socket =
  c_ip_addr :: u32
  c_mask :: u32

definition loopback :: string where "loopback = ''127.0.0.1''"

datatype locality = SameHost | Subnet nat | Remote

text \<open>
  The loop over the interfaces: it stops at the first one whose address is the server's or
  whose subnet the server is in (\<open>max_mask - 1\<close>).
\<close>

fun find_interface :: "u32 \<Rightarrow> client_socket list \<Rightarrow> nat \<Rightarrow> locality" where
  "find_interface srv [] i = Remote"
| "find_interface srv (k # ks) i =
     (if c_ip_addr k = srv then SameHost
      else if (srv AND c_mask k) = (c_ip_addr k AND c_mask k) then Subnet i
      else find_interface srv ks (Suc i))"

text \<open>
  The server address the client connects to, the address it binds, and whether it sets
  \<^verbatim>\<open>SO_DONTROUTE\<close>. \<open>named_loopback\<close> says that \<^verbatim>\<open>client.in\<close> gave
  127.0.0.1 itself, in which case the bound address is the wildcard of the cleared
  \<open>cliaddr\<close> unless an interface matched first. A remote server makes the client bind the
  second interface, whether there is one or not.
\<close>

definition loopback_addr :: u32 where "loopback_addr = 0x7F000001"

definition choose_addresses ::
  "u32 \<Rightarrow> bool \<Rightarrow> client_socket list \<Rightarrow> (stop \<times> unit) + (u32 \<times> u32 \<times> bool)" where
  "choose_addresses srv named_loopback ks =
     (case find_interface srv ks 0 of
        SameHost \<Rightarrow> Inr (loopback_addr, loopback_addr, True)
      | Subnet i \<Rightarrow> if named_loopback then Inr (srv, 0, True) else Inr (srv, c_ip_addr (ks ! i), True)
      | Remote \<Rightarrow>
          if named_loopback then Inr (srv, 0, True)
          else if length ks \<le> 1 then Inl (Undefined ''sockets[1]'', ())
          else Inr (srv, c_ip_addr (ks ! 1), False))"

section \<open>The handshake\<close>

text \<open>
  One pass of the loop that sends the file name until the server answers with its new port:
  what the loss simulation drew, whether the system calls succeed and what \<^verbatim>\<open>select\<close>
  reports.
\<close>

datatype select_result = SelectFailed bool | SelectTimeout | SelectReady

record ask =
  a_passed :: bool
  a_send :: bool
  a_select :: select_result
  a_recv :: "u32 option"

record handshake =
  hs_requests :: nat
  hs_port :: "u32 option"

definition ask_file :: "ask \<Rightarrow> handshake \<Rightarrow> handshake outcome" where
  "ask_file A s =
     bindr (if a_passed A
            then bindr (exit_if (\<not> a_send A) 1 ''SERVER: Unable to send file name to server'' s)
                   (\<lambda>s. Inr (s\<lparr>hs_requests := Suc (hs_requests s)\<rparr>))
            else Inr s) (\<lambda>s.
     case a_select A of
       SelectFailed eintr \<Rightarrow>
         if eintr then Inr s else Inl (Exit 1 ''CLIENT: Read error from client'', s)
     | SelectTimeout \<Rightarrow> Inr s
     | SelectReady \<Rightarrow>
        (case a_recv A of
           None \<Rightarrow> Inl (Exit 1 ''CLIENT: Unable to receive new port number from server'', s)
         | Some p \<Rightarrow> Inr (s\<lparr>hs_port := Some p\<rparr>)))"

fun ask_until :: "ask list \<Rightarrow> handshake \<Rightarrow> handshake outcome" where
  "ask_until [] s = Inr s"
| "ask_until (A # As) s =
     bindr (ask_file A s) (\<lambda>s. if hs_port s \<noteq> None then Inr s else ask_until As s)"

text \<open>
  The port the client reconnects to: the server sends its new port, which
  \<^verbatim>\<open>getsockname\<close> gives in network byte order, as a word in host byte order, and the client
  puts it back.
\<close>

definition reconnect_port :: "u32 \<Rightarrow> u16" where
  "reconnect_port port_number = htons (low16 port_number)"

definition ephemeral_port :: "u16 \<Rightarrow> u32" where
  "ephemeral_port sin_port = ucast (htons sin_port)"

text \<open>\<^verbatim>\<open>recv_window=htons(recv_window)\<close>, and what the server reads from it.\<close>

definition advertise :: "int \<Rightarrow> u32" where
  "advertise w = ucast (htons (word_of_int w))"

definition read_window :: "u32 \<Rightarrow> int" where
  "read_window w = uint (ntohs (low16 w))"

section \<open>Receiving\<close>

datatype main_pc = Receiving | GotHeader hdr | WaitEnd | WaitPrint | MainDone

datatype print_pc = Asleep | Checking | PrintDone

record cli =
  c_heap :: heap
  c_header :: nat
  c_printed :: u32
  c_window :: u32
  c_data_flag :: bool
  c_process_flag :: bool
  c_out :: "hdr list"
  c_screen :: string
  c_main :: main_pc
  c_print :: print_pc

text \<open>
  What the calls of one pass of the receive loop return besides what is received: the two draws
  of the loss simulation, the memory \<^verbatim>\<open>malloc\<close> provides, and whether \<^verbatim>\<open>send\<close>
  succeeds.
\<close>

record receive =
  i_arrives :: bool
  i_leaves :: bool
  i_mem :: block
  i_send :: bool

definition lift_heap :: "(stop \<times> heap) + 'a \<Rightarrow> cli \<Rightarrow> (stop \<times> cli) + 'a" where
  "lift_heap m s = (case m of Inl (e, h) \<Rightarrow> Inl (e, s\<lparr>c_heap := h\<rparr>) | Inr x \<Rightarrow> Inr x)"

definition recv_failed :: string where
  "recv_failed = ''CLIENT: Can't read data from server using recv() function''"

definition window_left :: "nat \<Rightarrow> cli \<Rightarrow> u32" where
  "window_left len s = c_window s - ucast (htons (of_nat len))"

definition send_hdr :: "receive \<Rightarrow> string \<Rightarrow> u32 \<Rightarrow> u32 \<Rightarrow> cli \<Rightarrow> cli outcome" where
  "send_hdr I msg seq ts s =
     bindr (lift_heap (LinkListLength (c_heap s) (c_header s)) s) (\<lambda>len.
     bindr (exit_if (\<not> i_send I) 1 msg s) (\<lambda>s.
     Inr (s\<lparr>c_out := c_out s @ [\<lparr>h_seq = seq, h_ts = ts, h_recv_window = window_left len s\<rparr>]\<rparr>)))"

text \<open>A header whose sequence number is 0 asks for the size of the receive window.\<close>

definition on_probe :: "receive \<Rightarrow> cli \<Rightarrow> cli outcome" where
  "on_probe I s =
     (if i_arrives I \<and> i_leaves I
      then send_hdr I ''CLIENT: Unable to send advertised window size to server'' (htonl 1) (htonl 0) s
      else Inr s)"

text \<open>
  A datagram that the loss simulation lets through: it is stored unless it has been printed, and
  the acknowledgement is 0 when it carries the end of the file and nothing before it is missing.
\<close>

definition store_data :: "receive \<Rightarrow> u32 \<Rightarrow> string \<Rightarrow> cli \<Rightarrow> cli outcome" where
  "store_data I seq recv_data s =
     (if seq > c_printed s
      then bindr (lift_heap (InsertLinkList (i_mem I) (c_heap s) (c_header s) seq recv_data) s)
             (\<lambda>h. Inr (s\<lparr>c_heap := h\<rparr>))
      else Inr s)"

definition on_data :: "receive \<Rightarrow> hdr \<Rightarrow> string \<Rightarrow> cli \<Rightarrow> cli outcome" where
  "on_data I r recv_data s =
     (let seq = ntohl (h_seq r) in
      bindr (store_data I seq recv_data s) (\<lambda>s.
      bindr (lift_heap (NextAck (c_heap s) (c_header s) (c_printed s)) s) (\<lambda>next.
      let (s, ack) = (if ntohl (h_ts r) = 0 \<and> next = seq + 1
                      then (s\<lparr>c_data_flag := True\<rparr>, htonl 0) else (s, htonl next)) in
      if i_leaves I
      then bindr (send_hdr I ''CLIENT: Unable to send ACK to server'' ack (h_ts r) s) (\<lambda>s.
           Inr (if c_data_flag s then s\<lparr>c_main := WaitEnd\<rparr> else s))
      else Inr s)))"

text \<open>
  The two calls of \<^verbatim>\<open>recv\<close>: the first is taken for a header, and unless its sequence number
  is 0 the next datagram, whatever it is, is taken for its line. \<open>None\<close>: the call fails.
\<close>

definition on_header :: "receive \<Rightarrow> hdr option \<Rightarrow> cli \<Rightarrow> cli outcome" where
  "on_header I r s =
     (case r of
        None \<Rightarrow> Inl (Exit 1 recv_failed, s)
      | Some r \<Rightarrow> if ntohl (h_seq r) = 0 then on_probe I s else Inr (s\<lparr>c_main := GotHeader r\<rparr>))"

definition on_line :: "receive \<Rightarrow> hdr \<Rightarrow> string option \<Rightarrow> cli \<Rightarrow> cli outcome" where
  "on_line I r d s =
     (case d of
        None \<Rightarrow> Inl (Exit 1 recv_failed, s)
      | Some d \<Rightarrow>
          bindr (undef_if (length d > MAXLINE) ''recv_data'' s) (\<lambda>s.
          let s = s\<lparr>c_main := Receiving\<rparr> in
          if i_arrives I then on_data I r d s else Inr s))"

section \<open>Printing\<close>

text \<open>
  The inner loop of \<^verbatim>\<open>print_out\<close>: the head of the list is printed and freed as long as it
  is the next datagram.
\<close>

partial_function (option) print_loop ::
  "heap \<Rightarrow> nat \<Rightarrow> u32 \<Rightarrow> string \<Rightarrow> (string + heap \<times> u32 \<times> string) option" where
  "print_loop h L printed screen =
     (case h L of None \<Rightarrow> Some (Inl ''header'')
      | Some l \<Rightarrow>
         (case n_next l of None \<Rightarrow> Some (Inr (h, printed, screen))
          | Some temp \<Rightarrow>
             (case h temp of None \<Rightarrow> Some (Inl ''header->next'')
              | Some n \<Rightarrow>
                  if n_seq n = printed + 1
                  then print_loop ((set_next h L (n_next n))(temp := None)) L (printed + 1)
                         (screen @ cstr (n_recvline n))
                  else Some (Inr (h, printed, screen)))))"

text \<open>The thread wakes up (\<open>ok\<close>: \<^verbatim>\<open>select\<close> returned 0) and prints what is ready.\<close>

definition print_pass :: "bool \<Rightarrow> cli \<Rightarrow> cli outcome" where
  "print_pass ok s =
     (if ok
      then bindr (lift_heap (loop_end (print_loop (c_heap s) (c_header s) (c_printed s) (c_screen s))
                    (c_heap s)) s)
             (\<lambda>(h, p, scr). Inr (s\<lparr>c_heap := h, c_printed := p, c_screen := scr, c_print := Checking\<rparr>))
      else Inr (s\<lparr>c_print := Checking\<rparr>))"

text \<open>The test of \<open>data_flag\<close> behind it.\<close>

definition print_check :: "cli \<Rightarrow> cli" where
  "print_check s =
     (if c_data_flag s then s\<lparr>c_process_flag := True, c_print := PrintDone\<rparr>
      else s\<lparr>c_print := Asleep\<rparr>)"

datatype cli_event =
    RecvHdr "hdr option" receive
  | RecvLine "string option" receive
  | ReceiveEnd bool
  | Tick
  | Wake bool
  | Check

fun cli_step :: "cli \<Rightarrow> cli_event \<Rightarrow> cli outcome" where
  "cli_step s (RecvHdr r I) = (if c_main s = Receiving then on_header I r s else Inr s)"
| "cli_step s (RecvLine d I) = (case c_main s of GotHeader r \<Rightarrow> on_line I r d s | _ \<Rightarrow> Inr s)"
| "cli_step s (ReceiveEnd ok) =
     (if c_main s = WaitEnd
      then bindr (exit_if (\<not> ok) 1 ''Receive error'' s) (\<lambda>s. Inr (s\<lparr>c_main := WaitPrint\<rparr>))
      else Inr s)"
| "cli_step s Tick =
     Inr (if c_main s = WaitPrint \<and> c_process_flag s then s\<lparr>c_main := MainDone\<rparr> else s)"
| "cli_step s (Wake ok) = (if c_print s = Asleep then print_pass ok s else Inr s)"
| "cli_step s Check = Inr (if c_print s = Checking then print_check s else s)"

text \<open>
  The client when the transfer starts; \<open>h\<close> and \<open>L\<close> are the heap after
  \<^verbatim>\<open>header=malloc(...)\<close>, whose \<open>next\<close> nothing initialises.
\<close>

definition cli_start :: "heap \<Rightarrow> nat \<Rightarrow> int \<Rightarrow> cli" where
  "cli_start h L w = \<lparr>c_heap = h, c_header = L, c_printed = 0, c_window = advertise w,
     c_data_flag = False, c_process_flag = False, c_out = [], c_screen = [],
     c_main = Receiving, c_print = Asleep\<rparr>"

end
