(* ===== verification/FileStartup.thy ===== *)
theory FileStartup
  imports IfiInfo FileServerSetup FileClient
begin

text \<open>
  The start of the two programs of assignment 2 on the interfaces of their hosts: how the server
  comes to its sockets and the client (\<^verbatim>\<open>client.c\<close>) to the addresses it binds and connects to.
\<close>

section \<open>The server\<close>

text \<open>
  The list of \<^verbatim>\<open>get_ifi_info_plus\<close> as \<open>open_sockets\<close> takes it, with the outcome of
  \<^verbatim>\<open>socket\<close>, \<^verbatim>\<open>setsockopt\<close> and \<^verbatim>\<open>bind\<close> for each of its elements; an empty list is
  the null pointer.
\<close>

definition server_interfaces :: "(ifi_info \<Rightarrow> int option \<times> bool \<times> bool) \<Rightarrow> ifi_info list \<Rightarrow> interface list option" where
  "server_interfaces calls ifis =
     (if ifis = [] then None
      else Some (map (\<lambda>i. case calls i of (fd, so, b) \<Rightarrow>
             \<lparr>if_addr = ifi_addr i, if_netmask = ifi_ntmaddr i, if_socket = fd, if_setsockopt = so, if_bind = b\<rparr>) ifis))"

text \<open>
  The start of the server's \<^verbatim>\<open>main\<close>: \<^verbatim>\<open>server.in\<close>, the sockets and the signal handler, up
  to the loop of the parent. The result is the size of the send window and the sockets.
\<close>

definition start_server ::
  "bool \<Rightarrow> int \<Rightarrow> int \<Rightarrow> int \<Rightarrow> bool \<Rightarrow> (ifi_info \<Rightarrow> int option \<times> bool \<times> bool) \<Rightarrow> ifi_info list \<Rightarrow> (stop \<times> unit) + int \<times> socket_info list" where
  "start_server opened scanned port_number sendw sig calls ifis =
     bindr (read_config opened scanned port_number sendw) (\<lambda>(port, window).
     case open_sockets (server_interfaces calls ifis) of
       Inl (e, ks) \<Rightarrow> Inl (e, ())
     | Inr ks \<Rightarrow>
         bindr (exit_if (\<not> sig) 1 ''SERVER: unable to catch SIGCHLD signal'' ()) (\<lambda>u. Inr (window, ks)))"

section \<open>The client\<close>

text \<open>
  What the calls at the start of the client give: the variables that \<^verbatim>\<open>fscanf\<close> fills and its
  value, \<^verbatim>\<open>inet_addr\<close> of the server's address in network byte order, and whether the calls
  on the socket succeed.
\<close>

record client_start =
  cs_opened :: bool
  cs_scanned :: int
  cs_srv_ipaddr :: string
  cs_filename :: string
  cs_inet_addr :: u32
  cs_socket :: bool
  cs_setsockopt :: bool
  cs_bind :: bool
  cs_getsockname :: bool
  cs_connect :: bool
  cs_getpeername :: bool

text \<open>\<^verbatim>\<open>client.in\<close>: the two words are read without a bound into \<^verbatim>\<open>srv_ipaddr\<close> and \<^verbatim>\<open>filename\<close>.\<close>

definition read_client_in :: "client_start \<Rightarrow> (stop \<times> unit) + unit" where
  "read_client_in C =
     bindr (exit_if (\<not> cs_opened C) 1 ''SERVER: Can't open file: client.in'' ()) (\<lambda>u.
     bindr (undef_if (length (cs_srv_ipaddr C) \<ge> 50) ''srv_ipaddr'' u) (\<lambda>u.
     bindr (undef_if (length (cs_filename C) \<ge> MAXLINE) ''filename'' u) (\<lambda>u.
     exit_if (cs_scanned C < 0) 1 ''SERVER: Can't read data from file: client.in'' u)))"

text \<open>The table of the client's interfaces, an array of ten.\<close>

definition note_interface :: "ifi_info \<Rightarrow> client_socket list \<Rightarrow> client_socket list outcome" where
  "note_interface i ks =
     bindr (undef_if (length ks \<ge> MAXIMUM_SOCKET) ''sockets'' ks) (\<lambda>ks.
     bindr (sin_addr ''ifi_addr'' (ifi_addr i) ks) (\<lambda>addr.
     bindr (sin_addr ''ifi_ntmaddr'' (ifi_ntmaddr i) ks) (\<lambda>netmask.
     Inr (ks @ [\<lparr>c_ip_addr = ntohl addr, c_mask = ntohl netmask\<rparr>]))))"

definition list_interfaces :: "ifi_info list \<Rightarrow> client_socket list outcome" where
  "list_interfaces ifis =
     (if ifis = [] then Inl (Exit 1 ''CLIENT: GET_IFI_INFO_PLUS error'', [])
      else run_list note_interface ifis [])"

text \<open>
  The start of \<^verbatim>\<open>main\<close> up to the connected socket: the address of the server it is connected
  to, the address it is bound to, and whether \<^verbatim>\<open>SO_DONTROUTE\<close> is set.
\<close>

definition open_client :: "client_start \<Rightarrow> ifi_info list \<Rightarrow> (stop \<times> unit) + (u32 \<times> u32 \<times> bool)" where
  "open_client C ifis =
     bindr (read_client_in C) (\<lambda>u.
     case list_interfaces ifis of
       Inl (e, ks) \<Rightarrow> Inl (e, u)
     | Inr ks \<Rightarrow>
         bindr (exit_if (\<not> cs_socket C) 1 ''CLIENT: Socket open error'' u) (\<lambda>u.
         bindr (choose_addresses (ntohl (cs_inet_addr C)) (cs_srv_ipaddr C = loopback) ks) (\<lambda>(srv, cli, dontroute).
         bindr (exit_if (dontroute \<and> \<not> cs_setsockopt C) 1 ''SERVER: Set socket option SO_DONTROUTE failed'' u) (\<lambda>u.
         bindr (exit_if (\<not> cs_bind C) 1 ''CLIENT: socket bind error'' u) (\<lambda>u.
         bindr (exit_if (\<not> cs_getsockname C) 1 ''CLIENT: Function getsockname error'' u) (\<lambda>u.
         bindr (exit_if (\<not> cs_connect C) 1 ''CLIENT: Server connection failed'' u) (\<lambda>u.
         bindr (exit_if (\<not> cs_getpeername C) 1 ''CLIENT: Function getpeername() error'' u) (\<lambda>u.
         Inr (srv, cli, dontroute)))))))))"

section \<open>What they do with the kernel's list\<close>

definition table_entry :: "sockaddr option \<Rightarrow> sockaddr option \<Rightarrow> client_socket" where
  "table_entry addr netmask = \<lparr>c_ip_addr = ntohl (the (ipv4 addr)), c_mask = ntohl (the (ipv4 netmask))\<rparr>"

lemma note_interfaces:
  "run_list note_interface ifis ks = Inr ks'
     \<Longrightarrow> ks' = ks @ map (\<lambda>i. table_entry (ifi_addr i) (ifi_ntmaddr i)) ifis \<and> (length ks \<le> MAXIMUM_SOCKET \<longrightarrow> length ks' \<le> MAXIMUM_SOCKET)"
  by (induction ifis arbitrary: ks) (force simp: note_interface_def table_entry_def bind_iff)+

lemma find_interface_Subnet: "find_interface srv ks i = Subnet j \<Longrightarrow> i \<le> j \<and> j < i + length ks"
  by (induction ks arbitrary: i) (fastforce split: if_splits)+

lemma choose_addresses_own:
  assumes "choose_addresses srv lb ks = Inr (s, c, d)"
  shows "c \<in> c_ip_addr ` set ks \<union> {loopback_addr, 0}"
  using assms find_interface_Subnet [of srv ks 0]
  by (auto simp: choose_addresses_def split: locality.splits if_splits)

lemma find_interface_Remote:
  "find_interface srv ks i = Remote \<longleftrightarrow>
     (\<forall>k \<in> set ks. c_ip_addr k \<noteq> srv \<and> (srv AND c_mask k) \<noteq> (c_ip_addr k AND c_mask k))"
  by (induction ks arbitrary: i) auto

lemma choose_addresses_local:
  assumes "choose_addresses srv lb ks = Inr (s, c, d)"
  shows "d \<longleftrightarrow> lb \<or> (\<exists>k \<in> set ks. c_ip_addr k = srv \<or> (srv AND c_mask k) = (c_ip_addr k AND c_mask k))"
  using assms find_interface_Remote [of srv ks 0]
  by (auto simp: choose_addresses_def split: locality.splits if_splits)

lemma open_client_Inr:
  assumes "open_client C ifis = Inr (s, c, d)"
  shows "choose_addresses (ntohl (cs_inet_addr C)) (cs_srv_ipaddr C = loopback)
      (map (\<lambda>i. table_entry (ifi_addr i) (ifi_ntmaddr i)) ifis) = Inr (s, c, d)
    \<and> length ifis \<le> MAXIMUM_SOCKET"
proof -
  obtain ks where "run_list note_interface ifis [] = Inr ks"
    "choose_addresses (ntohl (cs_inet_addr C)) (cs_srv_ipaddr C = loopback) ks = Inr (s, c, d)"
    using assms by (cases "run_list note_interface ifis []")
      (auto simp: open_client_def list_interfaces_def bind_iff split: if_splits)
  then show ?thesis using note_interfaces [of ifis "[]" ks] by auto
qed

text \<open>An interface of the kernel's list that is up and whose address or subnet is that of the server.\<close>

definition reaches_server :: "u32 \<Rightarrow> if_entry \<Rightarrow> bool" where
  "reaches_server srv e \<longleftrightarrow>
     (let a = ntohl (the (ipv4 (Some (e_addr e)))); m = ntohl (the (ipv4 (e_ntmaddr e))) in up e \<and> (a = srv \<or> (srv AND m) = (a AND m)))"

text \<open>
  C23. The client uses its host's own interfaces: on a kernel whose entries have 32 bytes, it binds the
  address of an interface that is up, the loopback address, or none; and it sets
  \<^verbatim>\<open>SO_DONTROUTE\<close> exactly when the server is named by the loopback address or is on this host
  or in the subnet of an interface that is up.
\<close>
theorem client_uses_interfaces_up:
  assumes "laid_out 32 es mem" and "\<forall>e \<in> set es. e_family e \<noteq> AF_INET6" and "\<forall>e \<in> set es. answers e"
    and "fits 32 conf (length es * 32)"
    and "get_ifi_info_plus 2 32 conf AF_INET True mem = Some (Inr (l, ifis))"
    and "open_client C ifis = Inr (srv, cli, dontroute)"
  shows "cli \<in> {ntohl (the (ipv4 (Some (e_addr e)))) |e. e \<in> set es \<and> up e} \<union> {loopback_addr, 0}
    \<and> (dontroute \<longleftrightarrow> cs_srv_ipaddr C = loopback \<or> (\<exists>e \<in> set es. reaches_server (ntohl (cs_inet_addr C)) e))"
proof -
  have ifis: "map ifi_addr ifis = map (Some \<circ> e_addr) (filter up es)" "map ifi_ntmaddr ifis = map e_ntmaddr (filter up es)"
    using interfaces_up_listed [OF assms(1-4), of 2 get_ifi_info_plus] assms(5) by auto
  have "map (\<lambda>i. table_entry (ifi_addr i) (ifi_ntmaddr i)) ifis
      = map (\<lambda>(a, m). table_entry a m) (zip (map ifi_addr ifis) (map ifi_ntmaddr ifis))"
    by (simp add: zip_map_map zip_same_conv_map)
  also have "\<dots> = map (\<lambda>e. table_entry (Some (e_addr e)) (e_ntmaddr e)) (filter up es)"
    by (simp add: ifis zip_map_map zip_same_conv_map)
  finally have c: "choose_addresses (ntohl (cs_inet_addr C)) (cs_srv_ipaddr C = loopback)
      (map (\<lambda>e. table_entry (Some (e_addr e)) (e_ntmaddr e)) (filter up es)) = Inr (srv, cli, dontroute)"
    using open_client_Inr [OF assms(6)] by simp
  from choose_addresses_own [OF this] choose_addresses_local [OF this] show ?thesis
    by (auto simp: reaches_server_def table_entry_def Let_def image_iff)
qed

definition example_entry :: if_entry where
  "example_entry = \<lparr>e_name = ''eth0'', e_addr = Sockaddr_in 0 0x0100000A, e_flags = Some 3, e_mtu = Some 1500,
     e_brdaddr = Some (Sockaddr_in 0 0xFF00000A), e_dstaddr = Some (Sockaddr_in 0 0),
     e_ntmaddr = Some (Sockaddr_in 0 0x00FFFFFF)\<rparr>"

definition example_start :: client_start where
  "example_start = \<lparr>cs_opened = True, cs_scanned = 7, cs_srv_ipaddr = ''10.0.0.2'', cs_filename = ''f'',
     cs_inet_addr = 0x0200000A, cs_socket = True, cs_setsockopt = True, cs_bind = True, cs_getsockname = True,
     cs_connect = True, cs_getpeername = True\<rparr>"

theorem client_uses_interfaces_up_witness:
  "\<exists>l ifis srv cli. get_ifi_info_plus 2 32 (\<lambda>_. Inr 32) AF_INET True (\<lambda>_. example_entry) = Some (Inr (l, ifis))
     \<and> open_client example_start ifis = Inr (srv, cli, True)
     \<and> cli \<in> {0x0A000001, loopback_addr, 0} \<and> reaches_server 0x0A000002 example_entry"
proof -
  let ?get = "get_ifi_info_plus 2 32 (\<lambda>_. Inr 32) AF_INET True (\<lambda>_. example_entry)"
  let ?i = "\<lparr>ifi_name = ''eth0'', ifi_flags = 3, ifi_alias = False, ifi_mtu = 1500, 
     ifi_addr = Some (Sockaddr_in 0 0x0100000A), ifi_brdaddr = Some (Sockaddr_in 0 0xFF00000A), ifi_dstaddr = None,
     ifi_ntmaddr = Some (Sockaddr_in 0 0x00FFFFFF)\<rparr>"
  have get: "?get = Some (Inr (''eth0'', [?i]))" by code_simp
  have opened: "open_client example_start [?i] = Inr (0x0A000002, 0x0A000001, True)" by code_simp
  have "laid_out 32 [example_entry] (\<lambda>_. example_entry)" "fits 32 (\<lambda>_. Inr 32) 32" by (auto simp: laid_out_def fits_def)
  from client_uses_interfaces_up [OF this(1) _ _ _ get opened] this(2)
  have "cli \<in> {ntohl (the (ipv4 (Some (e_addr e)))) |e. e \<in> set [example_entry] \<and> up e} \<union> {loopback_addr, 0}
      \<and> (\<exists>e \<in> set [example_entry]. reaches_server (ntohl (cs_inet_addr example_start)) e)" if "cli = 0x0A000001" for cli
    using that by (auto simp: example_entry_def answers_def example_start_def loopback_def)
  from this [OF refl] have "(0x0A000001 :: u32) \<in> {0x0A000001, loopback_addr, 0}" "reaches_server 0x0A000002 example_entry"
    by (auto simp: example_start_def example_entry_def ipv4_def bswap32_def)
  with get opened show ?thesis by blast
qed

text \<open>
  The server listens on its host's interfaces: its sockets are bound to the addresses of the
  interfaces that are up, in the order of the kernel, there are at most ten, and the window it sends
  with is that of \<^verbatim>\<open>server.in\<close>.
\<close>
theorem server_listens_on_interfaces_up:
  assumes "laid_out 32 es mem" and "\<forall>e \<in> set es. e_family e \<noteq> AF_INET6" and "\<forall>e \<in> set es. answers e"
    and "fits 32 conf (length es * 32)"
    and "get_ifi_info_plus 2 32 conf AF_INET True mem = Some (Inr (l, ifis))"
    and "start_server opened scanned port_number sendw sig calls ifis = Inr (window, ks)"
  shows "window = sendw \<and> map ip_addr ks = map (\<lambda>e. ntohl (the (ipv4 (Some (e_addr e))))) (filter up es) \<and> length ks \<le> 10"
proof -
  have ifis: "map ifi_addr ifis = map (Some \<circ> e_addr) (filter up es)"
    using interfaces_up_listed [OF assms(1-4), of 2 get_ifi_info_plus] assms(5) by auto
  have w: "window = sendw" and s: "open_sockets (server_interfaces calls ifis) = Inr ks"
    using assms(6) by (auto simp: start_server_def read_config_def bind_iff split: sum.splits)
  obtain is' where is': "server_interfaces calls ifis = Some is'" "map if_addr is' = map ifi_addr ifis"
    using s by (auto simp: server_interfaces_def open_sockets_def split: if_splits prod.splits)
  from is'(1) have "length ks \<le> 10" "map ip_addr ks = map (\<lambda>a. ntohl (the (ipv4 a))) (map if_addr is')"
    using bind_sockets_Inr [of is' "[]" ks] s by (auto simp: open_sockets_def comp_def)
  then show ?thesis by (simp add: w is' ifis)
qed

end
