(* ===== verification/FileServerInv.thy ===== *)
theory FileServerInv
  imports FileServer
begin

text \<open>
  The invariant of the sending process: windows and timer stay in range, the send buffer stays
  well formed, and every datagram that goes out carries the piece of the file its sequence
  number names, however often it is sent again.
\<close>

section \<open>The data of the transfer\<close>

text \<open>
  The \<open>k\<close>-th piece of the file, and the array in which it is sent: the first datagram goes
  out with what the uninitialised \<^verbatim>\<open>localcopy.sendline\<close> held behind the data, the
  others with NULs.
\<close>

definition chunk :: "string \<Rightarrow> nat \<Rightarrow> string" where
  "chunk F k = take packet_capacity (drop (packet_capacity * (k - 1)) F)"

definition line :: "string \<Rightarrow> string \<Rightarrow> nat \<Rightarrow> string" where
  "line F g k = overwrite (if k = 1 then g else replicate MAXLINE NUL) (chunk F k)"

definition genuine :: "string \<Rightarrow> string \<Rightarrow> nat \<Rightarrow> u32 \<Rightarrow> string \<Rightarrow> bool" where
  "genuine F g n q l \<longleftrightarrow> q \<noteq> 0 \<and> unat q \<le> n \<and> l = line F g (unat q)"

lemma genuine_mono: "genuine F g m q l \<Longrightarrow> m \<le> n \<Longrightarrow> genuine F g n q l"
  by (simp add: genuine_def)

text \<open>The datagrams on the wire: a header and the line that follows it.\<close>

fun pairs :: "dgram list \<Rightarrow> (u32 \<times> string) list" where
  "pairs (DHdr q t # DLine l # w) = (ntohl q, l) # pairs w"
| "pairs (_ # w) = pairs w"
| "pairs [] = []"

lemma pairs_packet: "pairs (w @ packet d) = pairs w @ [(d_seq d, d_sendline d)]"
  by (induction w rule: pairs.induct) auto

lemma pairs_packets:
  "pairs (w @ concat (map packet ds)) = pairs w @ map (\<lambda>d. (d_seq d, d_sendline d)) ds"
proof (induction ds arbitrary: w)
  case (Cons d ds)
  have "w @ concat (map packet (d # ds)) = (w @ packet d) @ concat (map packet ds)" by simp
  then show ?case by (simp only: Cons.IH pairs_packet) simp
qed simp

lemma pairs_other: "pairs (w @ [DHdr q t]) = pairs w" "pairs (w @ [DEnd i]) = pairs w"
  by (induction w rule: pairs.induct) auto

section \<open>The invariant\<close>

abbreviation sent :: "srv \<Rightarrow> nat" where "sent s \<equiv> unat (sequence_number s)"
abbreviation acked :: "srv \<Rightarrow> nat" where "acked s \<equiv> unat (head s) - 1"
abbreviation slots :: "srv \<Rightarrow> nat" where "slots s \<equiv> nat (MAX_QSIZE (send_buffer s))"
abbreviation slot_at :: "srv \<Rightarrow> nat \<Rightarrow> data" where "slot_at s i \<equiv> the (base (send_buffer s)) ! i"

text \<open>The slot at \<open>front\<close> has been written.\<close>

definition front_written :: "srv \<Rightarrow> bool" where
  "front_written s \<longleftrightarrow> acked s < sent s \<or> slots s \<le> sent s"

definition control_ok :: "srv \<Rightarrow> bool" where
  "control_ok s \<longleftrightarrow> 1 \<le> cwnd s \<and> 1 \<le> ssh s \<and> 0 \<le> recv_window s \<and> 0 < send_window s"

definition buffer_ok :: "srv \<Rightarrow> bool" where
  "buffer_ok s \<longleftrightarrow> cq_ok (send_buffer s) \<and> MAX_QSIZE (send_buffer s) = send_window s
     \<and> head s \<noteq> 0 \<and> acked s \<le> sent s
     \<and> front (send_buffer s) = int (acked s mod slots s)
     \<and> rear (send_buffer s) = int (sent s mod slots s)"

definition data_ok :: "string \<Rightarrow> string \<Rightarrow> srv \<Rightarrow> bool" where
  "data_ok F g s \<longleftrightarrow> filedata s = drop (packet_capacity * sent s) F
     \<and> d_sendline (localcopy s) = (if sent s = 0 then g else replicate MAXLINE NUL)
     \<and> (\<forall>i < slots s. i < sent s \<longrightarrow>
          genuine F g (sent s) (d_seq (slot_at s i)) (d_sendline (slot_at s i)))
     \<and> (\<forall>(q, l) \<in> set (pairs (wire s)). genuine F g (sent s) q l)"

text \<open>
  A slot that has not been written holds what \<^verbatim>\<open>malloc\<close> returned; its \<open>ack\<close> must not
  happen to be 2, or the first acknowledgement that reaches it looks like a third duplicate.
\<close>

definition stale_ok :: "srv \<Rightarrow> bool" where
  "stale_ok s \<longleftrightarrow> (\<forall>i < slots s. sent s \<le> i \<longrightarrow>
     (i = sent s \<and> \<not> front_written s) \<or> d_ack (slot_at s i) \<noteq> 2)"

text \<open>\<open>m\<close> is a number of datagrams that have been sent before.\<close>

definition core_ok :: "string \<Rightarrow> string \<Rightarrow> nat \<Rightarrow> srv \<Rightarrow> bool" where
  "core_ok F g m s \<longleftrightarrow> control_ok s \<and> buffer_ok s \<and> data_ok F g s \<and> stale_ok s
     \<and> m \<le> sent s"

definition srv_inv :: "string \<Rightarrow> string \<Rightarrow> nat \<Rightarrow> srv \<Rightarrow> bool" where
  "srv_inv F g m s \<longleftrightarrow> core_ok F g m s \<and> rttinit s \<and> rtt_ok (rttinfo s)
     \<and> (case pc s of Probe FromTop \<Rightarrow> True | Finished \<Rightarrow> True | _ \<Rightarrow> front_written s)"

text \<open>Sequence numbers do not wrap around during the next step.\<close>

definition room :: "srv \<Rightarrow> bool" where
  "room s \<longleftrightarrow> Suc (sent s + nat (send_window s)) < 2 ^ 32"

lemmas inv_defs = core_ok_def control_ok_def buffer_ok_def data_ok_def stale_ok_def front_written_def

lemma slots_pos: "buffer_ok s \<Longrightarrow> 0 < slots s"
  by (simp add: buffer_ok_def cq_ok_def)

lemma used_small:
  assumes "buffer_ok s" and "sent s < slots s"
  shows "used (send_buffer s) = sent s - acked s"
proof -
  have le: "acked s \<le> sent s" using assms(1) by (simp add: buffer_ok_def)
  have "front (send_buffer s) = int (acked s mod slots s)"
    "rear (send_buffer s) = int (sent s mod slots s)"
    using assms(1) by (simp_all only: buffer_ok_def)
  then have "front (send_buffer s) = int (acked s)" "rear (send_buffer s) = int (sent s)"
    using le assms(2) by simp_all
  then have eq: "rear (send_buffer s) - front (send_buffer s) = int (sent s - acked s)"
    using le by linarith
  have "int (sent s - acked s) < MAX_QSIZE (send_buffer s)" using assms(2) by linarith
  then show ?thesis unfolding used_def eq by simp
qed

text \<open>A datagram that is sent again is genuine.\<close>

lemma resent_genuine:
  assumes "core_ok F g m s" and "j < used (send_buffer s) \<or> j = 0 \<and> front_written s"
    and "base_at (send_buffer s) (front (send_buffer s) + int j) = Some d"
  shows "genuine F g (sent s) (d_seq d) (d_sendline d)"
proof -
  have b: "buffer_ok s" "data_ok F g s" using assms(1) by (simp_all add: core_ok_def)
  let ?i = "nat (front (send_buffer s) + int j)"
  have i: "?i < slots s" "d = slot_at s ?i"
    using assms(3) b(1)
    by (auto simp: base_at_def buffer_ok_def cq_ok_def split: option.splits if_splits)
  have "?i < sent s"
  proof (cases "slots s \<le> sent s")
    case True
    from i(1) True show ?thesis by (rule less_le_trans)
  next
    case False
    have "acked s \<le> sent s" "front (send_buffer s) = int (acked s mod slots s)"
      using b(1) by (simp_all only: buffer_ok_def)
    then have "?i = acked s + j" using False by simp
    moreover have "j < sent s - acked s"
      using False assms(2) used_small [OF b(1)] by (auto simp: front_written_def not_le)
    ultimately show ?thesis by linarith
  qed
  with i b(2) show ?thesis by (simp add: data_ok_def)
qed

lemma core_ok_wire:
  assumes "core_ok F g m s" and "\<forall>(q, l) \<in> set (pairs w). genuine F g (sent s) q l"
  shows "core_ok F g m (s\<lparr>wire := w\<rparr>)"
  using assms by (simp add: inv_defs)

lemma resend_core:
  assumes "core_ok F g m s" and "front_written s" and "resend E (front (send_buffer s)) s = Inr t"
  shows "core_ok F g m t \<and> front_written t \<and> control t = control s \<and> sent t = sent s"
proof -
  from resend_Inr [OF assms(3)] obtain d where
    d: "base_at (send_buffer s) (front (send_buffer s)) = Some d"
    "t = s\<lparr>wire := wire s @ packet d\<rparr>" by blast
  have "genuine F g (sent s) (d_seq d) (d_sendline d)"
    using resent_genuine [OF assms(1), of 0 d] assms(2) d(1) by simp
  then have "core_ok F g m t"
    unfolding d(2) using assms(1)
    by (intro core_ok_wire) (auto simp: pairs_packet core_ok_def data_ok_def)
  with d(2) assms(2) show ?thesis by (simp add: front_written_def)
qed

lemma resend_window_core:
  assumes "core_ok F g m s" and "n \<le> int (used (send_buffer s))" and "resend_window E n s = Inr t"
  shows "core_ok F g m t \<and> control t = control s \<and> sent t = sent s
    \<and> send_buffer t = send_buffer s"
proof -
  from resend_window_Inr [OF assms(3)] obtain ds where
    ds: "t = s\<lparr>wire := wire s @ concat (map packet ds)\<rparr>"
    "map Some ds = map (\<lambda>j. base_at (send_buffer s) (front (send_buffer s) + int j)) [0..<nat n]"
    by blast
  have "genuine F g (sent s) (d_seq d) (d_sendline d)" if "d \<in> set ds" for d
  proof -
    from that have "Some d \<in> set (map Some ds)" by simp
    then obtain j where "j < nat n"
      "base_at (send_buffer s) (front (send_buffer s) + int j) = Some d"
      unfolding ds(2) by auto
    then show ?thesis using assms(2) by (intro resent_genuine [OF assms(1), of j]) auto
  qed
  then have "core_ok F g m t"
    unfolding ds(1) using assms(1)
    by (intro core_ok_wire) (auto simp: pairs_packets core_ok_def data_ok_def)
  with ds(1) show ?thesis by simp
qed


section \<open>New datagrams\<close>

lemma unat_plus_one: "unat w + 1 < 2 ^ LENGTH('a) \<Longrightarrow> unat (w + 1) = Suc (unat w)" for w :: "'a::len word"
  by (simp add: unat_plus_if_size word_size)

lemma new_data_genuine:
  assumes "data_ok F g s" and "sent s + 1 < 2 ^ 32"
  shows "genuine F g (Suc (sent s)) (d_seq (new_data E s)) (d_sendline (new_data E s))"
proof -
  have "unat (sequence_number s + 1) = Suc (sent s)"
    using assms(2) unat_plus_one [of "sequence_number s"] by simp
  moreover from this have "sequence_number s + 1 \<noteq> 0" by auto
  ultimately show ?thesis
    using assms(1) by (simp add: genuine_def new_data_def line_def chunk_def data_ok_def)
qed

lemma send_new_core:
  assumes "core_ok F g m s" and "sent s + 1 < 2 ^ 32" and "send_new E s = Inr t"
  shows "core_ok F g m t \<and> sent t = Suc (sent s)"
proof -
  let ?Q = "send_buffer s" and ?d = "new_data E s"
  have ok: "control_ok s" "buffer_ok s" "data_ok F g s" "stale_ok s" "m \<le> sent s"
    using assms(1) by (simp_all add: core_ok_def)
  have cq: "cq_ok ?Q" and le: "acked s \<le> sent s" and fr: "front ?Q = int (acked s mod slots s)"
    and re: "rear ?Q = int (sent s mod slots s)" and mx: "MAX_QSIZE ?Q = send_window s"
    and hd: "head s \<noteq> 0"
    using ok(2) by (simp_all only: buffer_ok_def not_False_eq_True)
  have pos: "0 < slots s" and len: "length (the (base ?Q)) = slots s"
    using cq by (simp_all add: cq_ok_def)
  from send_new_Inr [OF assms(3)] cq
  have q: "send_buffer t = ?Q\<lparr>base := Some ((the (base ?Q))[nat (rear ?Q) := ?d]),
           rear := (rear ?Q + 1) mod MAX_QSIZE ?Q\<rparr>"
    and t: "sequence_number t = sequence_number s + 1"
      "d_sendline (localcopy t) = replicate MAXLINE NUL"
      "filedata t = drop packet_capacity (filedata s)" "wire t = wire s @ packet ?d"
    by (auto simp: EnCirQueue_eq)
  note c = control_eqD [OF send_new_control [OF assms(3)]]
  have n: "sent t = Suc (sent s)"
    using assms(2) unat_plus_one [of "sequence_number s"] by (simp add: t)
  have slot: "slot_at t i = (if i = sent s mod slots s then ?d else slot_at s i)" for i
    using pos len by (simp add: q re nth_list_update)
  have "buffer_ok t"
  proof -
    have "cq_ok (send_buffer t)" using cq by (simp add: q cq_ok_def)
    moreover have "rear (send_buffer t) = int (Suc (sent s) mod slots s)"
      using pos by (simp add: q re zmod_int mod_simps) (simp add: ac_simps)
    ultimately show ?thesis
      unfolding buffer_ok_def using fr mx hd le by (simp add: n c q)
  qed
  moreover have "control_ok t" using ok(1) by (simp add: control_ok_def c)
  moreover have "data_ok F g t"
  proof -
    have "filedata t = drop (packet_capacity * sent t) F"
      using ok(3) unfolding n t(3) by (simp add: data_ok_def add.commute)
    moreover have "genuine F g (sent t) (d_seq (slot_at t i)) (d_sendline (slot_at t i))"
      if "i < slots t" "i < sent t" for i
    proof (cases "i = sent s mod slots s")
      case True
      then show ?thesis using new_data_genuine [OF ok(3) assms(2)] unfolding n by (simp add: slot)
    next
      case False
      have "i < slots s" using that(1) by (simp add: q)
      moreover from this False that(2) have "i < sent s" by (cases "i = sent s") (auto simp: n)
      ultimately have "genuine F g (sent s) (d_seq (slot_at t i)) (d_sendline (slot_at t i))"
        using ok(3) False by (simp add: slot data_ok_def)
      then show ?thesis by (rule genuine_mono) (simp add: n)
    qed
    moreover have "\<forall>(q, l) \<in> set (pairs (wire t)). genuine F g (sent t) q l"
      using ok(3) new_data_genuine [OF ok(3) assms(2), of E] unfolding n
      by (auto simp: t pairs_packet data_ok_def intro: genuine_mono)
    ultimately show ?thesis by (simp add: data_ok_def t(2-) n)
  qed
  moreover have "d_ack (slot_at t i) \<noteq> 2" if "i < slots t" "sent t \<le> i" for i
  proof -
    from that have "i < slots s" "sent s < i" by (simp_all add: q n)
    moreover from this have "i \<noteq> sent s mod slots s" by simp
    ultimately show ?thesis using ok(4) unfolding stale_ok_def slot by force
  qed
  then have "stale_ok t" by (simp add: stale_ok_def)
  ultimately show ?thesis using n ok(5) by (simp add: core_ok_def)
qed

lemma send_more_core:
  assumes "core_ok F g m s" and "sent s + n < 2 ^ 32" and "send_more E n s = Inr t"
  shows "core_ok F g m t \<and> sent s \<le> sent t \<and> (front_written s \<or> 0 < n \<longrightarrow> front_written t)"
  using assms
proof (induction n arbitrary: s)
  case 0
  then show ?case by simp
next
  case (Suc n)
  from Suc.prems(3) obtain u where u: "send_new E s = Inr u"
    and rest: "u = t \<or> send_more E n u = Inr t"
    by (auto simp: bind_iff split: if_splits)
  have cu: "core_ok F g m u" "sent u = Suc (sent s)"
    using send_new_core [OF Suc.prems(1) _ u] Suc.prems(2) by auto
  moreover have "front_written u"
    using cu Suc.prems(1) control_eqD(6) [OF send_new_control [OF u]]
    by (simp add: front_written_def core_ok_def buffer_ok_def)
  ultimately show ?case using rest Suc.IH [of u] Suc.prems(2) by auto
qed

section \<open>Acknowledgements\<close>

text \<open>No slot that was never written could be taken for one acknowledged twice.\<close>

definition fresh_ok :: "srv \<Rightarrow> bool" where
  "fresh_ok s \<longleftrightarrow> (\<forall>i < slots s. sent s \<le> i \<longrightarrow> d_ack (slot_at s i) \<noteq> 2)"

lemma fresh_ok_iff: "fresh_ok s \<longleftrightarrow> stale_ok s" if "front_written s"
  using that by (auto simp: fresh_ok_def stale_ok_def)

lemma dequeue_to_Inr:
  assumes "cq_ok (send_buffer s)" and "dequeue_to n s = Inr t"
  shows "t = s\<lparr>send_buffer := (send_buffer s)\<lparr>front :=
      (front (send_buffer s) + int n) mod MAX_QSIZE (send_buffer s)\<rparr>, head := head s + of_nat n\<rparr>"
  using assms
proof (induction n arbitrary: s)
  case 0
  then show ?case by (simp add: cq_ok_def)
next
  case (Suc n)
  let ?u = "s\<lparr>send_buffer := (send_buffer s)\<lparr>front := (front (send_buffer s) + 1) mod MAX_QSIZE (send_buffer s)\<rparr>,
      head := head s + 1\<rparr>"
  have "cq_ok (send_buffer ?u)" using Suc.prems(1) by (simp add: cq_ok_def)
  moreover have "dequeue_to n ?u = Inr t" using Suc.prems by (simp add: DeCirQueue_eq)
  ultimately have "t = ?u\<lparr>send_buffer := (send_buffer ?u)\<lparr>front :=
      (front (send_buffer ?u) + int n) mod MAX_QSIZE (send_buffer ?u)\<rparr>, head := head ?u + of_nat n\<rparr>"
    by (rule Suc.IH)
  then show ?case by (simp add: mod_simps algebra_simps)
qed

lemma release_acked_core:
  assumes "core_ok F g m s" and "fresh_ok s" and "unat q \<le> Suc (sent s)" and "release_acked q s = Inr t"
  shows "core_ok F g m t \<and> fresh_ok t \<and> sent t = sent s
    \<and> head t = max (head s) q \<and> wire t = wire s \<and> rttinit t = rttinit s \<and> rttinfo t = rttinfo s
    \<and> pc t = pc s \<and> send_window t = send_window s"
proof (cases "q > head s")
  case False
  with assms show ?thesis by (simp add: release_acked_def max_def)
next
  case True
  let ?n = "unat q - unat (head s)" and ?Q = "send_buffer s"
  have ok: "control_ok s" "buffer_ok s" "data_ok F g s" "stale_ok s" "m \<le> sent s"
    using assms(1) by (simp_all add: core_ok_def)
  have cq: "cq_ok ?Q" and fr: "front ?Q = int (acked s mod slots s)"
    and re: "rear ?Q = int (sent s mod slots s)" and mx: "MAX_QSIZE ?Q = send_window s"
    and hd: "head s \<noteq> 0"
    using ok(2) by (simp_all only: buffer_ok_def not_False_eq_True)
  have lt: "unat (head s) < unat q" using True by (simp add: word_less_nat_alt)
  have hp: "0 < unat (head s)" using hd by (simp add: unat_gt_0)
  have "head s + of_nat ?n = q"
    using lt by (simp add: of_nat_diff)
  with dequeue_to_Inr [OF cq, of ?n t] assms(4) True
  have t: "t = s\<lparr>send_buffer := ?Q\<lparr>front := (front ?Q + int ?n) mod MAX_QSIZE ?Q\<rparr>, head := q\<rparr>"
    by (simp add: release_acked_def)
  have "acked t = acked s + ?n" using lt hp by (simp add: t)
  moreover have "(int (acked s mod slots s) + int ?n) mod MAX_QSIZE ?Q
      = int ((acked s + ?n) mod slots s)"
    using cq by (simp add: cq_ok_def zmod_int mod_simps)
  ultimately have fr': "front (send_buffer t) = int (acked t mod slots t)"
    by (simp add: t fr)
  have "cq_ok (send_buffer t)" using cq by (simp add: t cq_ok_def)
  moreover have "acked t \<le> sent t" using assms(3) by (simp add: t)
  moreover have "head t \<noteq> 0" using lt by (auto simp: t)
  ultimately have "buffer_ok t"
    unfolding buffer_ok_def using fr' re mx by (simp add: t)
  moreover have "control_ok t" "data_ok F g t" "fresh_ok t"
    using ok assms(2) by (simp_all add: t control_ok_def data_ok_def fresh_ok_def)
  moreover from this(3) have "stale_ok t" by (simp add: stale_ok_def fresh_ok_def)
  ultimately show ?thesis using less_imp_le [OF True] ok(5) by (simp add: core_ok_def t max_def)
qed

lemma front_index:
  assumes "buffer_ok s"
  shows "nat (front (send_buffer s)) = acked s mod slots s"
    and "base_at (send_buffer s) (front (send_buffer s)) = Some (slot_at s (acked s mod slots s))"
  using assms by (auto simp: buffer_ok_def base_at_def cq_ok_def split: option.splits)

text \<open>The slot at \<open>front\<close> is among the slots never written only if it is not written.\<close>

lemma front_slot_stale:
  assumes "buffer_ok s" and "sent s \<le> acked s mod slots s"
  shows "acked s mod slots s = sent s \<and> \<not> front_written s"
proof -
  have "acked s mod slots s < slots s" using slots_pos [OF assms(1)] by simp
  moreover have "acked s mod slots s \<le> acked s" by simp
  moreover have "acked s \<le> sent s" using assms(1) by (simp only: buffer_ok_def)
  ultimately show ?thesis using assms(2) unfolding front_written_def by linarith
qed

lemma set_ack_core:
  assumes "core_ok F g m s" and "set_ack n s = Inr t"
  shows "core_ok F g m t \<and> front_ack t = n \<and> t = s\<lparr>send_buffer := send_buffer t\<rparr>
    \<and> slots t = slots s \<and> used (send_buffer t) = used (send_buffer s)"
proof -
  let ?i = "acked s mod slots s" and ?Q = "send_buffer s"
  have ok: "control_ok s" "buffer_ok s" "data_ok F g s" "stale_ok s" "m \<le> sent s"
    using assms(1) by (simp_all add: core_ok_def)
  note fi = front_index [OF ok(2)]
  have cq: "cq_ok ?Q" using ok(2) by (simp add: buffer_ok_def)
  then have i: "?i < slots s" and len: "length (the (base ?Q)) = slots s"
    by (simp_all add: cq_ok_def)
  have "map_option f (base ?Q) = Some (f (the (base ?Q)))" for f :: "data list \<Rightarrow> data list"
    using cq by (auto simp: cq_ok_def)
  with set_ack_Inr [OF assms(2)]
  have t: "t = s\<lparr>send_buffer := ?Q\<lparr>base := Some ((the (base ?Q))[?i := (slot_at s ?i)\<lparr>d_ack := n\<rparr>])\<rparr>\<rparr>"
    unfolding set_base_def fi by simp
  have slot: "slot_at t j = (if j = ?i then (slot_at s ?i)\<lparr>d_ack := n\<rparr> else slot_at s j)" for j
    using i len by (simp add: t nth_list_update)
  have same: "slots t = slots s" "sent t = sent s" "front_written t = front_written s"
    by (simp_all add: t front_written_def)
  have "cq_ok (send_buffer t)" using cq by (simp add: t cq_ok_def)
  then have "buffer_ok t" using ok(2) unfolding buffer_ok_def by (simp add: t)
  moreover have "control_ok t" using ok(1) by (simp add: t control_ok_def)
  moreover have "data_ok F g t"
    using ok(3) unfolding data_ok_def slot same by (simp add: t)
  moreover have "stale_ok t"
    using ok(4) front_slot_stale [OF ok(2)] unfolding stale_ok_def slot same by auto
  moreover have "front_ack t = n"
    using fi(1) cq i by (simp add: t front_ack_def base_at_def cq_ok_def)
  ultimately show ?thesis using ok(5) by (simp add: core_ok_def t used_def)
qed

lemma third_duplicate:
  assumes "core_ok F g m s" and "fresh_ok s" and "front_ack s = 2"
  shows "front_written s"
proof (rule ccontr)
  assume "\<not> front_written s"
  then have n: "sent s \<le> acked s" "sent s < slots s" by (simp_all add: front_written_def)
  have b: "buffer_ok s" using assms(1) by (simp add: core_ok_def)
  have "d_ack (slot_at s (acked s mod slots s)) = 2"
    using assms(3) by (simp add: front_ack_def front_index(2) [OF b])
  moreover have "acked s mod slots s = sent s" using n b by (simp add: buffer_ok_def)
  ultimately show False using assms(2) n(2) by (simp add: fresh_ok_def)
qed

section \<open>The rounds\<close>

lemma three_min_bounds:
  "1 \<le> a \<Longrightarrow> 1 \<le> b \<Longrightarrow> 1 \<le> c \<Longrightarrow> 1 \<le> three_min a b c"
  "three_min a b c \<le> a" "three_min a b c \<le> b" "three_min a b c \<le> c"
  by (auto simp: three_min_def Let_def)

lemma sdiv_double: "(a * 2) sdiv 2 = a" for a :: int
  by (simp add: signed_divide_int_def sgn_mult abs_mult sgn_mult_abs)

lemma core_ok_cong:
  assumes "core_ok F g m s" and "1 \<le> cwnd t" "1 \<le> ssh t" "0 \<le> recv_window t"
    and "send_window t = send_window s" "send_buffer t = send_buffer s" "head t = head s"
    "sequence_number t = sequence_number s" "localcopy t = localcopy s" "filedata t = filedata s"
    "wire t = wire s"
  shows "core_ok F g m t"
  using assms unfolding core_ok_def control_ok_def buffer_ok_def data_ok_def stale_ok_def
    front_written_def by simp

lemma data_alarm_again_inv:
  assumes "core_ok F g m s" "rttinit s" "rtt_ok (rttinfo s)" "front_written s"
    and "data_alarm_again E s = Inr t"
  shows "srv_inv F g m t"
proof -
  have t: "t = s\<lparr>measure_rtt := 0, received := 0, pc := WaitAck\<rparr>"
    using assms(5) by (rule data_alarm_again_Inr)
  have "core_ok F g m t"
    using assms(1) by (rule core_ok_cong) (use assms(1) in \<open>simp_all add: t core_ok_def control_ok_def\<close>)
  moreover have "front_written t" using assms(4) by (simp add: t front_written_def)
  ultimately show ?thesis using assms(2,3) by (simp add: srv_inv_def t)
qed

lemma not_front_written:
  assumes "buffer_ok s" and "\<not> front_written s"
  shows "used (send_buffer s) = 0"
proof -
  have "sent s \<le> acked s" "sent s < slots s" using assms(2) by (simp_all add: front_written_def)
  with used_small [OF assms(1)] show ?thesis by simp
qed

lemma send_round_parts:
  fixes s :: srv
  defines "w \<equiv> three_min (cwnd s) (send_window s) (recv_window s)"
    and "n \<equiv> int (used (send_buffer s))"
  assumes "cq_ok (send_buffer s)" and "send_round E s = Inr t"
  shows "\<exists>s1 u v. s1 = s\<lparr>sending_window := w, rttinfo := rtt_newpack (rttinfo s)\<rparr>
    \<and> (u = s1 \<or> resend_window E w s1 = Inr u \<and> w \<le> n \<or> resend_window E n s1 = Inr u)
    \<and> control u = control s1 \<and> sequence_number u = sequence_number s
    \<and> send_more E (nat (w - n)) u = Inr v \<and> data_alarm_again E v = Inr t"
proof -
  let ?s1 = "s\<lparr>sending_window := w, rttinfo := rtt_newpack (rttinfo s)\<rparr>"
  have r: "send_round E s = bindr (if IsEmptyCirQueue (send_buffer s) = 0
        then if w \<le> n then resend_window E w ?s1 else resend_window E n ?s1 else Inr ?s1)
      (\<lambda>s. bindr (send_more E (nat (sending_window s - n)) s) (data_alarm_again E))"
    using assms(3) by (simp add: send_round_def Let_def CirQueueLength_used w_def n_def)
  from assms(4) obtain u v where "(if IsEmptyCirQueue (send_buffer s) = 0
        then if w \<le> n then resend_window E w ?s1 else resend_window E n ?s1 else Inr ?s1) = Inr u"
    and v: "send_more E (nat (sending_window u - n)) u = Inr v"
    and t: "data_alarm_again E v = Inr t"
    unfolding r by (auto simp: bind_iff)
  then have u: "u = ?s1 \<or> resend_window E w ?s1 = Inr u \<and> w \<le> n \<or> resend_window E n ?s1 = Inr u"
    by (auto split: if_splits)
  from u have "\<exists>wr. u = ?s1\<lparr>wire := wr\<rparr>"
    by (auto dest: resend_window_Inr intro: exI [of _ "wire s"])
  then have "control u = control ?s1" "sequence_number u = sequence_number s"
    "sending_window u = w" by auto
  with u v t show ?thesis by auto
qed

lemma send_round_inv:
  assumes "core_ok F g m s" "rttinit s" "rtt_ok (rttinfo s)" "1 \<le> recv_window s" "room s"
    and "send_round E s = Inr t"
  shows "srv_inv F g m t"
proof -
  let ?w = "three_min (cwnd s) (send_window s) (recv_window s)" and ?n = "used (send_buffer s)"
  have c: "control_ok s" and b: "buffer_ok s" using assms(1) by (simp_all add: core_ok_def)
  then have w: "1 \<le> ?w" "?w \<le> send_window s"
    using assms(4) by (auto simp: control_ok_def intro!: three_min_bounds)
  have cq: "cq_ok (send_buffer s)" using b by (simp add: buffer_ok_def)
  from send_round_parts [OF cq assms(6)] obtain s1 u v where
    s1_def: "s1 = s\<lparr>sending_window := ?w, rttinfo := rtt_newpack (rttinfo s)\<rparr>"
    and u: "u = s1 \<or> resend_window E ?w s1 = Inr u \<and> ?w \<le> int ?n \<or> resend_window E (int ?n) s1 = Inr u"
    and v: "send_more E (nat (?w - int ?n)) u = Inr v"
    and t: "data_alarm_again E v = Inr t" by blast
  have c1: "core_ok F g m s1"
    using assms(1) by (rule core_ok_cong) (use c in \<open>simp_all add: s1_def control_ok_def\<close>)
  have s1: "send_buffer s1 = send_buffer s" "sequence_number s1 = sequence_number s"
    "head s1 = head s" "rttinit s1" "rtt_ok (rttinfo s1)"
    using assms(2,3) by (simp_all add: s1_def rtt_newpack_ok)
  have u': "core_ok F g m u \<and> control u = control s1 \<and> sent u = sent s1
      \<and> send_buffer u = send_buffer s1"
    using u c1 resend_window_core [OF c1] s1(1) by fastforce
  then have cu: "core_ok F g m u" and "control u = control s1" and su: "sent u = sent s"
    and "send_buffer u = send_buffer s" by (simp_all add: s1)
  note cs = control_eqD [OF \<open>control u = control s1\<close>]
  have "sent u + nat (?w - int ?n) < 2 ^ 32"
    using assms(5) w unfolding room_def su by linarith
  note sm = send_more_core [OF cu this v]
  have "front_written u \<or> 0 < nat (?w - int ?n)"
  proof (cases "front_written s")
    case True
    then show ?thesis using \<open>send_buffer u = send_buffer s\<close>
      by (simp add: front_written_def su cs s1)
  next
    case False
    with not_front_written [OF b] w(1) show ?thesis by (simp add: cs s1)
  qed
  with sm have "core_ok F g m v" "front_written v" by auto
  moreover have "rttinit v" "rtt_ok (rttinfo v)"
    using control_eqD(7,8) [OF send_more_control [OF v]] cs(7,8) s1 by auto
  ultimately show ?thesis using t by (blast intro: data_alarm_again_inv)
qed

lemma enter_probe_inv:
  assumes "core_ok F g m s" "rttinit s" "rtt_ok (rttinfo s)" "k \<noteq> FromTop \<Longrightarrow> front_written s"
    and "enter_probe E k s = Inr t"
  shows "srv_inv F g m t"
proof -
  have t: "t = s\<lparr>alrm_blocked := True, pc := Probe k\<rparr>"
    using assms(5) by (rule enter_probe_Inr)
  have "core_ok F g m t"
    using assms(1) by (rule core_ok_cong) (use assms(1) in \<open>simp_all add: t core_ok_def control_ok_def\<close>)
  moreover have "front_written t = front_written s" by (simp add: t front_written_def)
  ultimately show ?thesis using assms(2-4) by (cases k) (simp_all add: srv_inv_def t)
qed

lemma loop_top_inv:
  assumes "core_ok F g m s" "rttinit s" "rtt_ok (rttinfo s)" "room s" and "loop_top E s = Inr t"
  shows "srv_inv F g m t"
proof (cases "recv_window s = 0")
  case True
  with assms show ?thesis by (auto simp: loop_top_def intro: enter_probe_inv)
next
  case False
  with assms(1) have "1 \<le> recv_window s" by (simp add: core_ok_def control_ok_def)
  with False assms show ?thesis by (auto simp: loop_top_def intro: send_round_inv)
qed

lemma timeout_resend_inv:
  assumes "core_ok F g m s" "rttinit s" "rtt_ok (rttinfo s)" "front_written s"
    and "timeout_resend E s = Inr t"
  shows "srv_inv F g m t"
proof -
  define s1 where "s1 = s\<lparr>ssh := (if cwnd s sdiv 2 > 1 then cwnd s sdiv 2 else 1), cwnd := 1,
    sending_window := 1\<rparr>"
  from assms(5) obtain u where u: "resend E (front (send_buffer s1)) s1 = Inr u"
    and t: "data_alarm_again E u = Inr t"
    by (auto simp: timeout_resend_def Let_def s1_def bind_iff)
  have "core_ok F g m s1"
    using assms(1) by (rule core_ok_cong)
      (use assms(1) in \<open>simp_all add: s1_def core_ok_def control_ok_def\<close>)
  moreover have "front_written s1" using assms(4) by (simp add: s1_def front_written_def)
  ultimately have "core_ok F g m u \<and> front_written u \<and> control u = control s1"
    using u resend_core by blast
  moreover from this have "rttinit u = rttinit s1" "rttinfo u = rttinfo s1"
    by (simp_all add: control_eqD(7,8) [of u s1])
  ultimately show ?thesis using t assms(2,3)
    by (intro data_alarm_again_inv [of F g m u E t]) (simp_all add: s1_def)
qed

lemma fast_recovery_inv:
  assumes "core_ok F g m s" "rttinit s" "rtt_ok (rttinfo s)" "front_written s" "room s"
    and "fast_recovery E s = Inr t"
  shows "srv_inv F g m t"
proof -
  let ?c = "if cwnd s sdiv 2 > 1 then cwnd s sdiv 2 else 1"
  define s1 where "s1 = s\<lparr>cwnd := ?c, ssh := ?c\<rparr>"
  define more where "more u = (let w = three_min (cwnd u) (send_window u) (recv_window u) * 2
      in if \<not> eof u then send_more E (nat (w sdiv 2 - 1)) (u\<lparr>sending_window := w\<rparr>) else Inr u)" for u
  have "fast_recovery E s = bindr (resend E (front (send_buffer s1)) s1)
      (\<lambda>u. bindr (more u) (data_alarm_again E))"
    unfolding fast_recovery_def more_def Let_def by (simp add: s1_def cong: if_cong)
  with assms(6) obtain u v where u: "resend E (front (send_buffer s1)) s1 = Inr u"
    and v: "more u = Inr v" and t: "data_alarm_again E v = Inr t"
    by (auto simp: bind_iff)
  have "core_ok F g m s1"
    using assms(1) by (rule core_ok_cong)
      (use assms(1) in \<open>simp_all add: s1_def core_ok_def control_ok_def\<close>)
  moreover have "front_written s1" using assms(4) by (simp add: s1_def front_written_def)
  ultimately have u': "core_ok F g m u" "front_written u" "control u = control s1" "sent u = sent s1"
    using u resend_core by blast+
  note cs = control_eqD [OF u'(3)]
  let ?w = "three_min (cwnd u) (send_window u) (recv_window u) * 2"
  let ?u = "u\<lparr>sending_window := ?w\<rparr>"
  have "core_ok F g m ?u" using u'(1) by (rule core_ok_cong)
    (use u'(1) in \<open>simp_all add: core_ok_def control_ok_def\<close>)
  moreover have "sent ?u + nat (?w sdiv 2 - 1) < 2 ^ 32"
  proof -
    have "?w sdiv 2 = three_min (cwnd u) (send_window u) (recv_window u)"
      by (rule sdiv_double)
    moreover have "\<dots> \<le> send_window s" using three_min_bounds(3) cs by (simp add: s1_def)
    moreover have "sent ?u = sent s" using u'(4) by (simp add: s1_def)
    ultimately show ?thesis using assms(5) unfolding room_def by linarith
  qed
  moreover have "front_written ?u" using u'(2) by (simp add: front_written_def)
  ultimately have "core_ok F g m v" "front_written v"
    using v u'(1,2) send_more_core [of F g m ?u] by (auto simp: more_def Let_def split: if_splits)
  moreover have "v = u \<or> control v = control ?u"
    using v by (auto simp: more_def Let_def split: if_splits dest: send_more_control)
  then have "rttinit v = rttinit u \<and> rttinfo v = rttinfo u"
    using control_eqD(7,8) [of v ?u] by auto
  ultimately show ?thesis using t assms(2,3) cs(7,8)
    by (intro data_alarm_again_inv [of F g m v E t]) (simp_all add: s1_def)
qed

section \<open>One step\<close>

text \<open>
  The client acknowledges only what the server has sent (or, for the next datagram, what it
  could have sent), and the sequence numbers do not wrap around.
\<close>

fun honest :: "srv \<Rightarrow> env \<times> event \<Rightarrow> bool" where
  "honest s (E, Hdr r) \<longleftrightarrow> room s \<and> unat (ntohl (h_seq r)) \<le> Suc (sent s)"
| "honest s _ \<longleftrightarrow> room s"

lemma note_ack_core:
  assumes "core_ok F g m s"
  shows "core_ok F g m (note_ack E r s) \<and> send_buffer (note_ack E r s) = send_buffer s
    \<and> head (note_ack E r s) = head s \<and> sequence_number (note_ack E r s) = sequence_number s
    \<and> send_window (note_ack E r s) = send_window s \<and> wire (note_ack E r s) = wire s
    \<and> rttinit (note_ack E r s) = rttinit s \<and> rttinfo (note_ack E r s) = rttinfo s
    \<and> pc (note_ack E r s) = pc s"
proof -
  obtain c a mr rd where g: "note_ack E r s = s\<lparr>cwnd := c, congestion_avoid_count := a,
      received := received s + 1, measure_rtt := mr, readings := rd\<rparr>" "cwnd s \<le> c"
  proof
    show "note_ack E r s = s\<lparr>cwnd := cwnd (note_ack E r s),
        congestion_avoid_count := congestion_avoid_count (note_ack E r s),
        received := received s + 1, measure_rtt := measure_rtt (note_ack E r s),
        readings := readings (note_ack E r s)\<rparr>" "cwnd s \<le> cwnd (note_ack E r s)"
      by (simp_all add: note_ack_def grow_def Let_def read_clock_def)
  qed
  have "core_ok F g m (note_ack E r s)"
    using assms by (rule core_ok_cong)
      (use assms g(2) in \<open>simp_all add: g(1) core_ok_def control_ok_def\<close>)
  then show ?thesis by (simp add: g(1))
qed

lemma ack_loop_end_inv:
  assumes "core_ok F g m s" "rttinit s" "rtt_ok (rttinfo s)" "room s" "pc s = WaitAck"
    and "ack_loop_end E s = Inr t"
  shows "srv_inv F g m t"
proof (cases "received s \<noteq> sending_window s \<and> IsEmptyCirQueue (send_buffer s) = 0")
  case True
  have b: "buffer_ok s" using assms(1) by (simp add: core_ok_def)
  then have "used (send_buffer s) \<noteq> 0" using True IsEmpty_used [of "send_buffer s"]
    by (simp add: buffer_ok_def)
  then have "front_written s" using not_front_written [OF b] by metis
  with True assms show ?thesis by (simp add: ack_loop_end_def srv_inv_def)
next
  case False
  let ?s = "s\<lparr>rttinfo := rtt_stop (rttinfo s) (measure_rtt s)\<rparr>"
  have "core_ok F g m ?s" using assms(1) by (rule core_ok_cong)
    (use assms(1) in \<open>simp_all add: core_ok_def control_ok_def\<close>)
  moreover have "room ?s" using assms(4) by (simp add: room_def)
  moreover have "loop_top E ?s = Inr t" using False assms(6) by (auto simp: ack_loop_end_def)
  ultimately show ?thesis using assms(2,3) by (intro loop_top_inv) (simp_all add: rtt_stop_ok)
qed

lemma duplicate_inv:
  assumes "core_ok F g m s" "rttinit s" "rtt_ok (rttinfo s)" "front_written s" "room s"
    and "bindr (count_timeout s) (\<lambda>s. if recv_window s = 0 then enter_probe E FromFast s
      else fast_recovery E s) = Inr t"
  shows "srv_inv F g m t"
proof -
  let ?u = "s\<lparr>rttinfo := fst (rtt_timeout (rttinfo s))\<rparr>"
  from assms(6) have step: "(if recv_window ?u = 0 then enter_probe E FromFast ?u
      else fast_recovery E ?u) = Inr t"
    by (auto simp: bind_iff dest: count_timeout_Inr)
  have "core_ok F g m ?u" using assms(1) by (rule core_ok_cong)
    (use assms(1) in \<open>simp_all add: core_ok_def control_ok_def\<close>)
  moreover have "front_written ?u" "room ?u" "rttinit ?u"
    using assms(2,4,5) by (simp_all add: front_written_def room_def)
  moreover have "rtt_ok (rttinfo ?u)" using assms(3) by (simp add: rtt_timeout_ok)
  ultimately show ?thesis
    using step enter_probe_inv [of F g m ?u FromFast E t] fast_recovery_inv [of F g m ?u E t]
    by (auto split: if_splits)
qed

lemma on_ack_inv:
  assumes "srv_inv F g m s" and "pc s = WaitAck" and "honest s (E, Hdr r)"
    and "on_ack E r s = Inr t"
  shows "srv_inv F g m t"
proof -
  define s1 where "s1 = note_ack E r s"
  let ?q = "ntohl (h_seq r)" and ?w = "uint (ntohs (low16 (h_recv_window r)))"
  have s: "core_ok F g m s" "rttinit s" "rtt_ok (rttinfo s)" "front_written s"
    using assms(1,2) by (simp_all add: srv_inv_def)
  have n: "core_ok F g m s1" "send_buffer s1 = send_buffer s" "head s1 = head s"
    "sequence_number s1 = sequence_number s" "send_window s1 = send_window s" "wire s1 = wire s"
    "rttinit s1" "rtt_ok (rttinfo s1)" "pc s1 = WaitAck"
    using note_ack_core [OF s(1), of E r] s(2,3) assms(2) by (auto simp: s1_def)
  have fw: "front_written s1" "room s1" "unat ?q \<le> Suc (sent s1)"
    using s(4) assms(3) by (simp_all add: n front_written_def room_def)
  then have fresh: "fresh_ok s1" using n(1) by (simp add: fresh_ok_iff core_ok_def)
  show ?thesis
  proof (cases "?q = 0")
    case True
    with assms(4) have t: "t = s1\<lparr>wire := wire s1 @ [DEnd (sock_no s1)], pc := Finished\<rparr>"
      by (auto simp: on_ack_def s1_def Let_def dest: finish_Inr)
    have "core_ok F g m (s1\<lparr>wire := wire s1 @ [DEnd (sock_no s1)]\<rparr>)"
      using n(1) by (intro core_ok_wire) (auto simp: pairs_other core_ok_def data_ok_def)
    then have "core_ok F g m t"
      by (rule core_ok_cong) (use n(1) in \<open>simp_all add: t core_ok_def control_ok_def\<close>)
    with n show ?thesis by (simp add: t srv_inv_def)
  next
    case False
    with assms(4) obtain u v where u: "release_acked ?q s1 = Inr u"
      and v: "set_ack (front_ack (u\<lparr>recv_window := ?w\<rparr>) + 1) (u\<lparr>recv_window := ?w\<rparr>) = Inr v"
      and t: "(if front_ack v = 3 then bindr (set_ack 0 v) (\<lambda>s. bindr (count_timeout s) (\<lambda>s.
           if recv_window s = 0 then enter_probe E FromFast s else fast_recovery E s))
           else ack_loop_end E v) = Inr t"
      by (auto simp: on_ack_def s1_def Let_def bind_iff)
    let ?u = "u\<lparr>recv_window := ?w\<rparr>"
    note ru = release_acked_core [OF n(1) fresh fw(3) u]
    have cu: "core_ok F g m ?u" by (rule core_ok_cong [of F g m u])
      (use ru in \<open>simp_all add: core_ok_def control_ok_def\<close>)
    have fu: "fresh_ok ?u" using ru by (simp add: fresh_ok_def)
    have iv: "core_ok F g m v" "front_ack v = front_ack ?u + 1"
      "v = ?u\<lparr>send_buffer := send_buffer v\<rparr>" "slots v = slots ?u"
      using set_ack_core [OF cu v] by auto
    have vs: "sent v = sent ?u" "head v = head ?u" "rttinit v" "rtt_ok (rttinfo v)" "pc v = WaitAck"
      "send_window v = send_window s"
      using ru n by (subst iv(3), simp)+
    have rv: "room v" using fw(2) ru n by (simp add: room_def vs)
    show ?thesis
    proof (cases "front_ack v = 3")
      case True
      with t obtain x where x: "set_ack 0 v = Inr x"
        and t': "bindr (count_timeout x) (\<lambda>s. if recv_window s = 0 then enter_probe E FromFast s
           else fast_recovery E s) = Inr t"
        by (auto simp: bind_iff)
      have "front_written ?u" using True iv(2) third_duplicate [OF cu fu] by simp
      then have "front_written v" using iv(4) by (simp add: front_written_def vs)
      moreover have ix: "core_ok F g m x" "x = v\<lparr>send_buffer := send_buffer x\<rparr>" "slots x = slots v"
        using set_ack_core [OF iv(1) x] by auto
      moreover have "sent x = sent v" "head x = head v" "rttinit x" "rtt_ok (rttinfo x)"
        "send_window x = send_window v"
        using vs by (subst ix(2), simp)+
      ultimately show ?thesis using rv t'
        by (intro duplicate_inv [of F g m x E t]) (simp_all add: front_written_def room_def)
    next
      case False
      with t iv(1) vs rv show ?thesis by (intro ack_loop_end_inv) simp_all
    qed
  qed
qed

lemma probe_inv:
  assumes "srv_inv F g m s" and "pc s = Probe k" and "room s" and "srv_step s (E, ev) = Inr t"
  shows "srv_inv F g m t"
proof (cases ev)
  case (Hdr r)
  let ?u = "s\<lparr>recv_window := uint (ntohs (low16 (h_recv_window r)))\<rparr>"
  have s: "core_ok F g m s" "rttinit s" "rtt_ok (rttinfo s)" "k \<noteq> FromTop \<longrightarrow> front_written s"
    using assms(1,2) by (auto simp: srv_inv_def split: origin.splits)
  have u: "core_ok F g m ?u" using s(1) by (rule core_ok_cong)
    (use s(1) in \<open>simp_all add: core_ok_def control_ok_def\<close>)
  have fu: "front_written ?u = front_written s" "room ?u"
    using assms(3) by (simp_all add: front_written_def room_def)
  show ?thesis
  proof (cases "recv_window ?u > 0")
    case False
    then have "t = ?u" using assms(2,4) Hdr by (simp add: Let_def)
    with u s fu assms(2) show ?thesis by (simp add: srv_inv_def split: origin.splits)
  next
    case True
    then have "probed E k ?u = Inr t" using assms(2,4) Hdr by (simp add: Let_def)
    then show ?thesis using u s fu True
      by (auto simp: probed_def split: origin.splits
          intro: send_round_inv timeout_resend_inv fast_recovery_inv)
  qed
next
  case Alarm
  with assms(2,4) have t: "t = s\<lparr>wire := wire s @ [DHdr (htonl 0) (htonl 0)]\<rparr>"
    by (auto dest: send_Inr)
  have "core_ok F g m t" unfolding t using assms(1)
    by (intro core_ok_wire) (auto simp: pairs_other srv_inv_def core_ok_def data_ok_def)
  moreover have "front_written t = front_written s" by (simp add: t front_written_def)
  ultimately show ?thesis using assms(1)
    by (simp add: t srv_inv_def split: pc.splits origin.splits)
next
  case RecvError
  with assms show ?thesis by simp
next
  case SelectError
  with assms show ?thesis by simp
qed

lemma on_alarm_inv:
  assumes "srv_inv F g m s" and "pc s = WaitAck" and "on_alarm E s = Inr t"
  shows "srv_inv F g m t"
proof -
  let ?u = "s\<lparr>rttinfo := fst (rtt_timeout (rttinfo s))\<rparr>"
  have s: "core_ok F g m s" "rttinit s" "rtt_ok (rttinfo s)" "front_written s"
    using assms(1,2) by (simp_all add: srv_inv_def)
  from assms(3) have step: "(if recv_window ?u = 0 then enter_probe E FromTimeout ?u
      else timeout_resend E ?u) = Inr t"
    by (auto simp: on_alarm_def bind_iff dest: count_timeout_Inr)
  have "core_ok F g m ?u" using s(1) by (rule core_ok_cong)
    (use s(1) in \<open>simp_all add: core_ok_def control_ok_def\<close>)
  moreover have "front_written ?u" "rttinit ?u" using s(2,4) by (simp_all add: front_written_def)
  moreover have "rtt_ok (rttinfo ?u)" using s(3) by (simp add: rtt_timeout_ok)
  ultimately show ?thesis
    using step enter_probe_inv [of F g m ?u FromTimeout E t] timeout_resend_inv [of F g m ?u E t]
    by (auto split: if_splits)
qed

lemma honest_room: "honest s i \<Longrightarrow> room s"
  by (induction s i rule: honest.induct) auto

lemma srv_step_inv:
  assumes "srv_inv F g m s" and "honest s i" and "srv_step s i = Inr t"
  shows "srv_inv F g m t"
proof (cases i)
  case (Pair E ev)
  show ?thesis
  proof (cases "pc s")
    case (Probe k)
    with assms Pair show ?thesis by (blast intro: probe_inv honest_room)
  next
    case WaitAck
    have h: "honest s (E, ev)" and step: "srv_step s (E, ev) = Inr t"
      using assms(2,3) unfolding Pair .
    show ?thesis
    proof (cases ev)
      case (Hdr r)
      have "on_ack E r s = Inr t" using step unfolding Hdr by (simp add: WaitAck)
      then show ?thesis by (rule on_ack_inv [OF assms(1) WaitAck h [unfolded Hdr]])
    next
      case Alarm
      have "on_alarm E s = Inr t \<or> t = s"
        using step unfolding Alarm by (simp add: WaitAck split: if_splits)
      then show ?thesis using assms(1) on_alarm_inv [OF assms(1) WaitAck] by blast
    next
      case RecvError
      with step show ?thesis by (simp add: WaitAck)
    next
      case SelectError
      with step assms(1) show ?thesis by (simp add: WaitAck)
    qed
  next
    case Finished
    with assms Pair show ?thesis by simp
  qed
qed

interpretation transfer: guarded_system srv_step honest "srv_inv F g m" for F g m
  by unfold_locales (rule srv_step_inv)

lemma begin_transfer_inv:
  assumes "length b = nat w" and "0 < w" and "0 \<le> r" and "Suc (nat w) < 2 ^ 32" and "\<forall>d \<in> set b. d_ack d \<noteq> 2"
    and "begin_transfer E (Some b) lc rtt i w r f q0 = Inr s"
  shows "srv_inv f (d_sendline lc) 0 s"
proof -
  from assms(6) obtain s0 where s0: "start_transfer (Some b) lc rtt i w r f q0 = Inr s0"
    and s: "loop_top E s0 = Inr s"
    by (auto simp: begin_transfer_def bind_iff)
  let ?q = "q0\<lparr>MAX_QSIZE := w, base := Some b, front := 0, rear := 0\<rparr>"
  have e: "send_window s0 = w" "recv_window s0 = r" "cwnd s0 = 1" "ssh s0 = 65535"
    "sequence_number s0 = 0" "head s0 = 1" "send_buffer s0 = ?q" "localcopy s0 = lc"
    "filedata s0 = f" "wire s0 = []" "rttinit s0 = False"
    using s0 by (auto simp: start_transfer_def InitCirQueue_def Let_def)
  define s1 where "s1 = s0\<lparr>rttinfo := rtt_init (e_clock E (readings s0)) (rttinfo s0),
    readings := Suc (readings s0), rttinit := True\<rparr>"
  have "d_ack (b ! j) \<noteq> 2" if "j < nat w" for j using that assms(1,5) by simp
  then have "core_ok f (d_sendline lc) 0 s0"
    using assms(1-3) unfolding core_ok_def control_ok_def buffer_ok_def data_ok_def stale_ok_def cq_ok_def
    by (simp add: e)
  then have "core_ok f (d_sendline lc) 0 s1"
    by (rule core_ok_cong) (use assms(3) in \<open>simp_all add: s1_def e\<close>)
  moreover have "rttinit s1" "rtt_ok (rttinfo s1)" by (simp_all add: s1_def rtt_init_ok)
  moreover have "room s1" using assms(4) by (simp add: s1_def e room_def)
  moreover have "loop_top E s1 = Inr s"
    using s e(11) by (simp add: loop_top_def s1_def)
  ultimately show ?thesis by (rule loop_top_inv)
qed

end
