(* ===== verification/FileServerStale.thy ===== *)
theory FileServerStale
  imports FileServerInv
begin

text \<open>
  What the sending process puts on the wire when nothing is known of the slots its
  \<^verbatim>\<open>malloc\<close> returned: a slot that was never written may be sent, but it is never anything
  else than a piece of the file or the old contents of a slot.
\<close>

section \<open>The invariant\<close>

definition old_slot :: "data list \<Rightarrow> u32 \<Rightarrow> string \<Rightarrow> bool" where
  "old_slot B q l \<longleftrightarrow> (\<exists>d \<in> set B. q = d_seq d \<and> l = d_sendline d)"

definition known :: "string \<Rightarrow> string \<Rightarrow> data list \<Rightarrow> nat \<Rightarrow> u32 \<Rightarrow> string \<Rightarrow> bool" where
  "known F g B n q l \<longleftrightarrow> genuine F g n q l \<or> old_slot B q l"

definition stale_inv :: "string \<Rightarrow> string \<Rightarrow> data list \<Rightarrow> srv \<Rightarrow> bool" where
  "stale_inv F g B s \<longleftrightarrow> cq_ok (send_buffer s) \<and> MAX_QSIZE (send_buffer s) = send_window s
     \<and> filedata s = drop (packet_capacity * sent s) F
     \<and> d_sendline (localcopy s) = (if sent s = 0 then g else replicate MAXLINE NUL)
     \<and> (\<forall>d \<in> set (the (base (send_buffer s))). known F g B (sent s) (d_seq d) (d_sendline d))
     \<and> (\<forall>(q, l) \<in> set (pairs (wire s)). known F g B (sent s) q l)"

text \<open>The fields the invariant does not look at may change.\<close>

definition payload_part :: "srv \<Rightarrow> srv" where
  "payload_part s = s\<lparr>recv_window := 0, sending_window := 0, cwnd := 0, ssh := 0, congestion_avoid_count := 0,
     received := 0, head := 0, measure_rtt := 0, rttinit := False, rttinfo := undefined, eof := False,
     alrm_blocked := False, sock_no := 0, readings := 0, pc := WaitAck\<rparr>"

lemma payload_part_eqD:
  assumes "payload_part t = payload_part s"
  shows "send_window t = send_window s" "sequence_number t = sequence_number s" "send_buffer t = send_buffer s"
    "localcopy t = localcopy s" "filedata t = filedata s" "wire t = wire s"
  using arg_cong [OF assms, of send_window] arg_cong [OF assms, of sequence_number]
    arg_cong [OF assms, of send_buffer] arg_cong [OF assms, of localcopy] arg_cong [OF assms, of filedata]
    arg_cong [OF assms, of wire]
  by (simp_all add: payload_part_def)

text \<open>A result that keeps the invariant, the size of the buffer and the numbers.\<close>

definition quiet :: "string \<Rightarrow> string \<Rightarrow> data list \<Rightarrow> srv \<Rightarrow> srv \<Rightarrow> bool" where
  "quiet F g B s t \<longleftrightarrow> stale_inv F g B t \<and> send_window t = send_window s \<and> sequence_number t = sequence_number s"

lemma quiet_trans: "quiet F g B s t \<Longrightarrow> quiet F g B t u \<Longrightarrow> quiet F g B s u"
  by (simp add: quiet_def)

lemma quiet_cong: "stale_inv F g B s \<Longrightarrow> payload_part t = payload_part s \<Longrightarrow> quiet F g B s t"
  using payload_part_eqD [of t s] by (simp add: quiet_def stale_inv_def)

lemma quiet_wire:
  "stale_inv F g B s \<Longrightarrow> \<forall>(q, l) \<in> set (pairs w). known F g B (sent s) q l \<Longrightarrow> quiet F g B s (s\<lparr>wire := w\<rparr>)"
  by (simp add: quiet_def stale_inv_def)

lemma quiet_room: "quiet F g B s t \<Longrightarrow> room t = room s"
  by (simp add: quiet_def room_def)

lemma base_at_known:
  "stale_inv F g B s \<Longrightarrow> base_at (send_buffer s) i = Some d \<Longrightarrow> known F g B (sent s) (d_seq d) (d_sendline d)"
  by (auto simp: stale_inv_def base_at_def split: option.splits if_splits)

section \<open>Sending\<close>

lemma resend_quiet:
  assumes "stale_inv F g B s" and "resend E i s = Inr t"
  shows "quiet F g B s t"
proof -
  from resend_Inr [OF assms(2)] obtain d where
    d: "base_at (send_buffer s) i = Some d" "t = s\<lparr>wire := wire s @ packet d\<rparr>" by blast
  show ?thesis unfolding d(2) using base_at_known [OF assms(1) d(1)] assms(1)
    by (intro quiet_wire) (auto simp: pairs_packet stale_inv_def)
qed

lemma resend_window_quiet:
  assumes "stale_inv F g B s" and "resend_window E n s = Inr t"
  shows "quiet F g B s t"
proof -
  from resend_window_Inr [OF assms(2)] obtain ds where
    ds: "t = s\<lparr>wire := wire s @ concat (map packet ds)\<rparr>"
    "map Some ds = map (\<lambda>j. base_at (send_buffer s) (front (send_buffer s) + int j)) [0..<nat n]"
    by blast
  have "known F g B (sent s) (d_seq d) (d_sendline d)" if "d \<in> set ds" for d
  proof -
    from that have "Some d \<in> set (map Some ds)" by simp
    then obtain j where "base_at (send_buffer s) (front (send_buffer s) + int j) = Some d"
      unfolding ds(2) by auto
    then show ?thesis by (rule base_at_known [OF assms(1)])
  qed
  then show ?thesis unfolding ds(1) using assms(1)
    by (intro quiet_wire) (auto simp: pairs_packets stale_inv_def)
qed

lemma known_mono: "known F g B m q l \<Longrightarrow> m \<le> n \<Longrightarrow> known F g B n q l"
  unfolding known_def using genuine_mono by blast

lemma send_new_stale:
  assumes "stale_inv F g B s" and "sent s + 1 < 2 ^ 32" and "send_new E s = Inr t"
  shows "stale_inv F g B t \<and> sent t = Suc (sent s) \<and> send_window t = send_window s"
proof -
  let ?Q = "send_buffer s" and ?d = "new_data E s"
  have cq: "cq_ok ?Q" using assms(1) by (simp add: stale_inv_def)
  from send_new_Inr [OF assms(3)] cq
  have q: "send_buffer t = ?Q\<lparr>base := Some ((the (base ?Q))[nat (rear ?Q) := ?d]),
           rear := (rear ?Q + 1) mod MAX_QSIZE ?Q\<rparr>"
    and t: "sequence_number t = sequence_number s + 1"
      "d_sendline (localcopy t) = replicate MAXLINE NUL"
      "filedata t = drop packet_capacity (filedata s)" "wire t = wire s @ packet ?d"
    by (auto simp: EnCirQueue_eq)
  have n: "sent t = Suc (sent s)"
    using assms(2) unat_plus_one [of "sequence_number s"] by (simp add: t)
  have "genuine F g (Suc (sent s)) (d_seq ?d) (d_sendline ?d)"
  proof -
    have "sequence_number s + 1 \<noteq> 0" using n by (auto simp: t)
    then show ?thesis using assms(1) n
      by (simp add: genuine_def new_data_def line_def chunk_def stale_inv_def t)
  qed
  then have new: "known F g B (sent t) (d_seq ?d) (d_sendline ?d)" by (simp add: known_def n)
  have old: "known F g B (sent t) a l" if "known F g B (sent s) a l" for a l
    using that by (rule known_mono) (simp add: n)
  have "cq_ok (send_buffer t)" using cq by (simp add: q cq_ok_def)
  moreover have "known F g B (sent t) (d_seq d) (d_sendline d)" if "d \<in> set (the (base (send_buffer t)))" for d
  proof -
    have "d = ?d \<or> d \<in> set (the (base ?Q))" using that set_update_subset_insert by (fastforce simp: q)
    then show ?thesis using new old assms(1) by (auto simp: stale_inv_def)
  qed
  moreover have "\<forall>(a, l) \<in> set (pairs (wire t)). known F g B (sent t) a l"
    using new old assms(1) by (auto simp: t pairs_packet stale_inv_def)
  moreover have "MAX_QSIZE (send_buffer t) = send_window t \<and> send_window t = send_window s"
    using assms(1) control_eqD(1) [OF send_new_control [OF assms(3)]] by (simp add: q stale_inv_def)
  moreover have "filedata t = drop (packet_capacity * sent t) F"
    using assms(1) unfolding n t(3) by (simp add: stale_inv_def add.commute)
  ultimately show ?thesis using n by (simp add: stale_inv_def t(2))
qed

lemma send_more_stale:
  assumes "stale_inv F g B s" and "sent s + n < 2 ^ 32" and "send_more E n s = Inr t"
  shows "stale_inv F g B t"
  using assms
proof (induction n arbitrary: s)
  case 0
  then show ?case by simp
next
  case (Suc n)
  from Suc.prems(3) obtain u where u: "send_new E s = Inr u"
    and rest: "u = t \<or> send_more E n u = Inr t"
    by (auto simp: bind_iff split: if_splits)
  have "stale_inv F g B u" "sent u = Suc (sent s)"
    using send_new_stale [OF Suc.prems(1) _ u] Suc.prems(2) by auto
  then show ?case using rest Suc.IH [of u] Suc.prems(2) by auto
qed

section \<open>The rounds\<close>

lemma data_alarm_again_stale: "stale_inv F g B s \<Longrightarrow> data_alarm_again E s = Inr t \<Longrightarrow> stale_inv F g B t"
  using quiet_cong [of F g B s t] by (auto simp: quiet_def payload_part_def dest!: data_alarm_again_Inr)

lemma send_round_stale:
  assumes "stale_inv F g B s" and "room s" and "send_round E s = Inr t"
  shows "stale_inv F g B t"
proof -
  let ?w = "three_min (cwnd s) (send_window s) (recv_window s)" and ?n = "used (send_buffer s)"
  have cq: "cq_ok (send_buffer s)" using assms(1) by (simp add: stale_inv_def)
  from send_round_parts [OF cq assms(3)] obtain s1 u v where
    s1: "s1 = s\<lparr>sending_window := ?w, rttinfo := rtt_newpack (rttinfo s)\<rparr>"
    and u: "u = s1 \<or> resend_window E ?w s1 = Inr u \<and> ?w \<le> int ?n \<or> resend_window E (int ?n) s1 = Inr u"
    and v: "send_more E (nat (?w - int ?n)) u = Inr v"
    and t: "data_alarm_again E v = Inr t" by blast
  have q1: "quiet F g B s s1" using assms(1) by (rule quiet_cong) (simp add: s1 payload_part_def)
  then have "quiet F g B s1 u"
    using u resend_window_quiet [of F g B s1 E] by (auto simp: quiet_def)
  with q1 have q: "quiet F g B s u" by (rule quiet_trans)
  have "?w \<le> send_window s" by (rule three_min_bounds)
  then have "sent u + nat (?w - int ?n) < 2 ^ 32" using assms(2) q by (simp add: room_def quiet_def)
  with q v have "stale_inv F g B v" by (auto simp: quiet_def intro: send_more_stale)
  then show ?thesis using t by (rule data_alarm_again_stale)
qed

lemma enter_probe_quiet: "stale_inv F g B s \<Longrightarrow> enter_probe E k s = Inr t \<Longrightarrow> quiet F g B s t"
  by (rule quiet_cong) (auto simp: payload_part_def dest!: enter_probe_Inr)

lemma loop_top_stale:
  assumes "stale_inv F g B s" and "room s" and "loop_top E s = Inr t"
  shows "stale_inv F g B t"
proof -
  let ?s = "if \<not> rttinit s then s\<lparr>rttinfo := rtt_init (e_clock E (readings s)) (rttinfo s),
      readings := Suc (readings s), rttinit := True\<rparr> else s"
  have q: "quiet F g B s ?s" using assms(1) by (rule quiet_cong) (simp add: payload_part_def)
  have "(if recv_window ?s = 0 then enter_probe E FromTop ?s else send_round E ?s) = Inr t"
    using assms(3) by (simp add: loop_top_def Let_def)
  then show ?thesis using q quiet_room [OF q] assms(2) enter_probe_quiet [of F g B ?s E FromTop t]
    by (auto simp: quiet_def split: if_splits intro: send_round_stale)
qed

lemma timeout_resend_stale:
  assumes "stale_inv F g B s" and "timeout_resend E s = Inr t"
  shows "stale_inv F g B t"
proof -
  define s1 where "s1 = s\<lparr>ssh := (if cwnd s sdiv 2 > 1 then cwnd s sdiv 2 else 1), cwnd := 1,
    sending_window := 1\<rparr>"
  from assms(2) obtain u where u: "resend E (front (send_buffer s1)) s1 = Inr u"
    and t: "data_alarm_again E u = Inr t"
    by (auto simp: timeout_resend_def Let_def s1_def bind_iff)
  have "quiet F g B s s1" using assms(1) by (rule quiet_cong) (simp add: s1_def payload_part_def)
  then have "quiet F g B s1 u" using u by (auto simp: quiet_def intro: resend_quiet [unfolded quiet_def, THEN conjunct1]
      dest: resend_quiet [of F g B s1, unfolded quiet_def])
  then show ?thesis using t by (auto simp: quiet_def intro: data_alarm_again_stale)
qed

lemma fast_recovery_stale:
  assumes "stale_inv F g B s" and "room s" and "fast_recovery E s = Inr t"
  shows "stale_inv F g B t"
proof -
  let ?c = "if cwnd s sdiv 2 > 1 then cwnd s sdiv 2 else 1"
  define s1 where "s1 = s\<lparr>cwnd := ?c, ssh := ?c\<rparr>"
  define more where "more u = (let w = three_min (cwnd u) (send_window u) (recv_window u) * 2
      in if \<not> eof u then send_more E (nat (w sdiv 2 - 1)) (u\<lparr>sending_window := w\<rparr>) else Inr u)" for u
  have "fast_recovery E s = bindr (resend E (front (send_buffer s1)) s1)
      (\<lambda>u. bindr (more u) (data_alarm_again E))"
    unfolding fast_recovery_def more_def Let_def by (simp add: s1_def cong: if_cong)
  with assms(3) obtain u v where u: "resend E (front (send_buffer s1)) s1 = Inr u"
    and v: "more u = Inr v" and t: "data_alarm_again E v = Inr t"
    by (auto simp: bind_iff)
  have q1: "quiet F g B s s1" using assms(1) by (rule quiet_cong) (simp add: s1_def payload_part_def)
  then have "stale_inv F g B s1" by (simp add: quiet_def)
  from q1 resend_quiet [OF this u] have q: "quiet F g B s u" by (rule quiet_trans)
  let ?w = "three_min (cwnd u) (send_window u) (recv_window u) * 2"
  let ?u = "u\<lparr>sending_window := ?w\<rparr>"
  have qu: "quiet F g B u ?u" using q by (intro quiet_cong) (auto simp: quiet_def payload_part_def)
  have "stale_inv F g B v"
  proof (cases "eof u")
    case True
    with v q show ?thesis by (simp add: more_def quiet_def Let_def)
  next
    case False
    have "?w sdiv 2 = three_min (cwnd u) (send_window u) (recv_window u)" by (rule sdiv_double)
    moreover have "\<dots> \<le> send_window u" by (rule three_min_bounds)
    ultimately have "sent ?u + nat (?w sdiv 2 - 1) < 2 ^ 32"
      using assms(2) q unfolding room_def quiet_def by simp
    with False v qu show ?thesis
      unfolding more_def Let_def quiet_def by (auto intro: send_more_stale)
  qed
  then show ?thesis using t by (rule data_alarm_again_stale)
qed

section \<open>One step\<close>

lemma dequeue_stale:
  assumes "stale_inv F g B s" and "release_acked q s = Inr t"
  shows "quiet F g B s t"
proof (cases "q > head s")
  case False
  with assms show ?thesis by (simp add: release_acked_def quiet_def)
next
  case True
  have cq: "cq_ok (send_buffer s)" using assms(1) by (simp add: stale_inv_def)
  from assms(2) True have "dequeue_to (unat q - unat (head s)) s = Inr t" by (simp add: release_acked_def)
  from dequeue_to_Inr [OF cq this] assms(1) show ?thesis
    by (simp add: quiet_def stale_inv_def cq_ok_def)
qed

lemma set_ack_quiet:
  assumes "stale_inv F g B s" and "set_ack n s = Inr t"
  shows "quiet F g B s t"
proof -
  from set_ack_Inr [OF assms(2)] obtain d q where
    d: "base_at (send_buffer s) (front (send_buffer s)) = Some d"
    and q: "set_base (send_buffer s) (front (send_buffer s)) (d\<lparr>d_ack := n\<rparr>) = Inr q"
    and t: "t = s\<lparr>send_buffer := q\<rparr>" by blast
  obtain b where b: "base (send_buffer s) = Some b" using assms(1) by (auto simp: stale_inv_def cq_ok_def)
  have qq: "q = (send_buffer s)\<lparr>base := Some (b[nat (front (send_buffer s)) := d\<lparr>d_ack := n\<rparr>])\<rparr>"
    using q b by (auto simp: set_base_def split: option.splits)
  have "known F g B (sent s) (d_seq x) (d_sendline x)"
    if "x \<in> set (b[nat (front (send_buffer s)) := d\<lparr>d_ack := n\<rparr>])" for x
  proof -
    have "x = d\<lparr>d_ack := n\<rparr> \<or> x \<in> set b" using that set_update_subset_insert by fastforce
    then show ?thesis using assms(1) b base_at_known [OF assms(1) d] by (auto simp: stale_inv_def)
  qed
  then show ?thesis using assms(1) b by (simp add: quiet_def stale_inv_def t qq cq_ok_def)
qed

lemma note_ack_quiet: "stale_inv F g B s \<Longrightarrow> quiet F g B s (note_ack E r s)"
  by (rule quiet_cong) (simp_all add: note_ack_def grow_def Let_def read_clock_def payload_part_def)

lemma on_ack_stale:
  assumes "stale_inv F g B s" and "room s" and "on_ack E r s = Inr t"
  shows "stale_inv F g B t"
proof -
  let ?s = "note_ack E r s" and ?q = "ntohl (h_seq r)" and ?w = "uint (ntohs (low16 (h_recv_window r)))"
  have n: "quiet F g B s ?s" using assms(1) by (rule note_ack_quiet)
  then have ns: "stale_inv F g B ?s" by (simp add: quiet_def)
  show ?thesis
  proof (cases "?q = 0")
    case True
    with assms(3) have t: "t = ?s\<lparr>wire := wire ?s @ [DEnd (sock_no ?s)], pc := Finished\<rparr>"
      by (auto simp: on_ack_def Let_def dest: finish_Inr)
    have "stale_inv F g B (?s\<lparr>wire := wire ?s @ [DEnd (sock_no ?s)]\<rparr>)"
      using ns quiet_wire [OF ns, of "wire ?s @ [DEnd (sock_no ?s)]"]
      by (auto simp: pairs_other stale_inv_def quiet_def)
    then show ?thesis by (simp add: t stale_inv_def)
  next
    case False
    with assms(3) obtain u v where u: "release_acked ?q ?s = Inr u"
      and v: "set_ack (front_ack (u\<lparr>recv_window := ?w\<rparr>) + 1) (u\<lparr>recv_window := ?w\<rparr>) = Inr v"
      and t: "(if front_ack v = 3 then bindr (set_ack 0 v) (\<lambda>s. bindr (count_timeout s) (\<lambda>s.
           if recv_window s = 0 then enter_probe E FromFast s else fast_recovery E s))
           else ack_loop_end E v) = Inr t"
      by (auto simp: on_ack_def Let_def bind_iff)
    let ?u = "u\<lparr>recv_window := ?w\<rparr>"
    have qu: "quiet F g B s u" using n dequeue_stale [OF ns u] by (rule quiet_trans)
    then have "quiet F g B u ?u" by (intro quiet_cong) (simp_all add: quiet_def payload_part_def)
    with qu have q: "quiet F g B s ?u" by (rule quiet_trans)
    then have "stale_inv F g B ?u" by (simp add: quiet_def)
    from q set_ack_quiet [OF this v] have qv: "quiet F g B s v" by (rule quiet_trans)
    then have iv: "stale_inv F g B v" by (simp add: quiet_def)
    show ?thesis
    proof (cases "front_ack v = 3")
      case True
      with t obtain x y where x: "set_ack 0 v = Inr x" and y: "count_timeout x = Inr y"
        and e: "(if recv_window y = 0 then enter_probe E FromFast y else fast_recovery E y) = Inr t"
        by (auto simp: bind_iff)
      have qx: "quiet F g B s x" using qv set_ack_quiet [OF iv x] by (rule quiet_trans)
      then have "quiet F g B x y"
        using y by (intro quiet_cong) (auto simp: quiet_def payload_part_def dest!: count_timeout_Inr)
      with qx have qy: "quiet F g B s y" by (rule quiet_trans)
      show ?thesis using e qy quiet_room [OF qy] assms(2) enter_probe_quiet [of F g B y E FromFast t]
        by (auto simp: quiet_def split: if_splits intro: fast_recovery_stale)
    next
      case False
      let ?v = "v\<lparr>rttinfo := rtt_stop (rttinfo v) (measure_rtt v)\<rparr>"
      have "quiet F g B v ?v" using iv by (rule quiet_cong) (simp add: payload_part_def)
      with qv have q': "quiet F g B s ?v" by (rule quiet_trans)
      show ?thesis using False t iv q' quiet_room [OF q'] assms(2)
        by (auto simp: ack_loop_end_def quiet_def split: if_splits intro: loop_top_stale)
    qed
  qed
qed

lemma srv_step_stale:
  assumes "stale_inv F g B s" and "room s" and "srv_step s i = Inr t"
  shows "stale_inv F g B t"
proof -
  obtain E ev where i: "i = (E, ev)" by (cases i)
  have alarm: "stale_inv F g B t" if "on_alarm E s = Inr t"
  proof -
    from that obtain u where u: "count_timeout s = Inr u"
      and e: "(if recv_window u = 0 then enter_probe E FromTimeout u else timeout_resend E u) = Inr t"
      by (auto simp: on_alarm_def bind_iff)
    have q: "quiet F g B s u"
      using assms(1) u by (intro quiet_cong) (auto simp: payload_part_def dest!: count_timeout_Inr)
    show ?thesis using e q enter_probe_quiet [of F g B u E FromTimeout t]
      by (auto simp: quiet_def split: if_splits intro: timeout_resend_stale)
  qed
  have probe: "stale_inv F g B t" if "send E (DHdr a b) s = Inr t" for a b
  proof -
    have "t = s\<lparr>wire := wire s @ [DHdr a b]\<rparr>" using that by (rule send_Inr)
    then show ?thesis using quiet_wire [OF assms(1), of "wire s @ [DHdr a b]"] assms(1)
      by (auto simp: pairs_other stale_inv_def quiet_def)
  qed
  have opened: "stale_inv F g B t" if "probed E k (s\<lparr>recv_window := w\<rparr>) = Inr t" for k w
  proof -
    have q: "quiet F g B s (s\<lparr>recv_window := w\<rparr>)"
      using assms(1) by (rule quiet_cong) (simp add: payload_part_def)
    show ?thesis using that q quiet_room [OF q] assms(2)
      by (auto simp: probed_def quiet_def split: origin.splits
          intro: send_round_stale timeout_resend_stale fast_recovery_stale)
  qed
  have same: "stale_inv F g B (s\<lparr>recv_window := w\<rparr>)" for w
    using assms(1) by (simp add: stale_inv_def)
  show ?thesis
  proof (cases "pc s")
    case WaitAck
    with assms i show ?thesis
      using on_ack_stale [OF assms(1,2), of E _ t] alarm by (auto split: event.splits if_splits)
  next
    case (Probe k)
    with assms i show ?thesis
      using probe opened same by (auto simp: Let_def split: event.splits if_splits)
  next
    case Finished
    with assms i show ?thesis by simp
  qed
qed

interpretation stale: guarded_system srv_step honest "stale_inv F g B" for F g B
  by unfold_locales (blast intro: srv_step_stale honest_room)

lemma begin_transfer_stale:
  assumes "length b = nat w" and "0 < w" and "Suc (nat w) < 2 ^ 32"
    and "begin_transfer E (Some b) lc rtt i w r f q0 = Inr s"
  shows "stale_inv f (d_sendline lc) b s"
proof -
  from assms(4) obtain s0 where s0: "start_transfer (Some b) lc rtt i w r f q0 = Inr s0"
    and s: "loop_top E s0 = Inr s"
    by (auto simp: begin_transfer_def bind_iff)
  have "stale_inv f (d_sendline lc) b s0 \<and> room s0"
    using s0 assms(1-3)
    by (auto simp: start_transfer_def InitCirQueue_def Let_def stale_inv_def cq_ok_def known_def old_slot_def room_def)
  then show ?thesis using s loop_top_stale by blast
qed

end
