(* ===== verification/FileServerClaims.thy ===== *)
theory FileServerClaims
  imports FileServerStale
begin

text \<open>
  What the sending process promises: the integrity of the data on the wire, its windows and
  timeouts, and two places where the code does not do what it means to.
\<close>

section \<open>Timeouts and windows\<close>

text \<open>An environment in which every system call succeeds.\<close>

definition all_well :: "env \<Rightarrow> bool" where
  "all_well E \<longleftrightarrow> (\<forall>n. e_send E n) \<and> e_sigemptyset E \<and> e_sigaddset E \<and> e_sigprocmask E
     \<and> e_signal E \<and> e_close E"

lemma send_datagram_ok:
  "all_well E \<Longrightarrow> send_datagram E d s = Inr (s\<lparr>wire := wire s @ packet d\<rparr>)"
  by (simp add: send_datagram_def send_def all_well_def)






section \<open>An example\<close>

definition demo_env :: env where
  "demo_env = \<lparr>e_send = (\<lambda>_. True), e_clock = (\<lambda>_. \<lparr>tv_sec = 7, tv_usec = 5000\<rparr>), e_sigemptyset = True,
     e_sigaddset = True, e_sigprocmask = True, e_signal = True, e_close = True\<rparr>"

definition demo_data :: "u32 \<Rightarrow> data" where
  "demo_data q = \<lparr>d_seq = q, d_ts = 0, d_sendline = ''junk'', d_ack = 0\<rparr>"

definition demo_rtt :: rtt_info where
  "demo_rtt = \<lparr>rtt_rtt = 0, rtt_srtt = 0, rtt_rttvar = 6, rtt_rto = 3, rtt_nrexmt = 0, rtt_base = 7\<rparr>"

text \<open>Two datagrams in flight that wrap around the end of a buffer of three slots.\<close>

definition demo_srv :: srv where
  "demo_srv = \<lparr>send_window = 3, recv_window = 5, sending_window = 2, cwnd = 2, ssh = 2,
     congestion_avoid_count = 0, received = 0, sequence_number = 4, head = 3, measure_rtt = 0,
     rttinit = True, rttinfo = demo_rtt,
     send_buffer = \<lparr>base = Some [demo_data 4, demo_data 2, demo_data 3], front = 2, rear = 1, MAX_QSIZE = 3\<rparr>,
     localcopy = demo_data 4, filedata = ''more'', eof = False, alrm_blocked = False, sock_no = 0,
     readings = 0, wire = [], pc = WaitAck\<rparr>"

lemma demo_env_well: "all_well demo_env"
  by (simp add: all_well_def demo_env_def)

lemma demo_srv_ok: "cq_ok (send_buffer demo_srv)" "used (send_buffer demo_srv) = 2"
  by (simp_all add: demo_srv_def cq_ok_def used_def)

section \<open>Claims\<close>









lemma send_more_count:
  "send_more E n s = Inr t \<Longrightarrow> \<exists>k \<le> n. sequence_number t = sequence_number s + of_nat k"
proof (induction n arbitrary: s)
  case (Suc n)
  then obtain u where "send_new E s = Inr u" and rest: "u = t \<or> send_more E n u = Inr t"
    by (auto simp: bind_iff split: if_splits)
  then have u: "sequence_number u = sequence_number s + 1" by (auto dest: send_new_Inr)
  show ?case
  proof (cases "u = t")
    case True
    with u show ?thesis by (intro exI [of _ 1]) simp
  next
    case False
    with rest Suc.IH obtain k where "k \<le> n" "sequence_number t = sequence_number u + of_nat k"
      by blast
    with u show ?thesis by (intro exI [of _ "Suc k"]) (simp add: ac_simps)
  qed
qed simp

text \<open>What has been sent and not acknowledged, and what the queue says it holds.\<close>

definition in_flight :: "srv \<Rightarrow> nat" where
  "in_flight s = sent s - acked s"

lemma mod_diff_nat: "a \<le> b \<Longrightarrow> (int (b mod n) - int (a mod n)) mod int n = int ((b - a) mod n)"
  by (metis mod_diff_eq of_nat_diff zmod_int)

lemma used_in_flight:
  assumes "buffer_ok s"
  shows "used (send_buffer s) = in_flight s mod slots s"
proof -
  have b: "front (send_buffer s) = int (acked s mod slots s)" "rear (send_buffer s) = int (sent s mod slots s)"
    and le: "acked s \<le> sent s" and m: "MAX_QSIZE (send_buffer s) = int (slots s)"
    using assms by (simp_all add: buffer_ok_def cq_ok_def)
  show ?thesis
    unfolding used_def b in_flight_def by (subst m) (simp only: mod_diff_nat [OF le] nat_int)
qed

text \<open>
  C19. Flow and congestion control bound the new data: a round sends no more new datagrams than
  the smallest of the congestion window, the send window and the client's window leaves beside
  what is in flight, and numbers them consecutively. What is in flight is counted right as long as
  it is less than the size of the send buffer; beyond that the circular buffer drops a whole
  buffer from its count, so that a full one counts as empty and a further full window is sent.
\<close>

theorem round_within_windows:
  assumes "buffer_ok s" and "send_round E s = Inr t"
  shows "\<exists>k. int k \<le> max 0 (min (cwnd s) (min (send_window s) (recv_window s))
      - int (if in_flight s < slots s then in_flight s else in_flight s mod slots s))
    \<and> sequence_number t = sequence_number s + of_nat k"
proof -
  let ?w = "three_min (cwnd s) (send_window s) (recv_window s)" and ?n = "used (send_buffer s)"
  have cq: "cq_ok (send_buffer s)" using assms(1) by (simp add: buffer_ok_def)
  from send_round_parts [OF cq assms(2)] obtain u v where
    u: "sequence_number u = sequence_number s" and v: "send_more E (nat (?w - int ?n)) u = Inr v"
    and t: "data_alarm_again E v = Inr t" by blast
  from send_more_count [OF v] obtain k where k: "k \<le> nat (?w - int ?n)"
    "sequence_number v = sequence_number s + of_nat k" by (auto simp: u)
  have w: "?w = min (cwnd s) (min (send_window s) (recv_window s))"
    by (auto simp: three_min_def Let_def)
  have n: "?n = (if in_flight s < slots s then in_flight s else in_flight s mod slots s)"
    using used_in_flight [OF assms(1)] by simp
  have "int k \<le> max 0 (?w - int ?n)" using k(1) by (cases "0 \<le> ?w - int ?n") auto
  moreover have "sequence_number t = sequence_number s + of_nat k"
    using data_alarm_again_Inr [OF t] k(2) by simp
  ultimately show ?thesis unfolding w n by blast
qed

lemma demo_buffer_ok: "buffer_ok demo_srv" "in_flight demo_srv = 2" "slots demo_srv = 3"
  by (simp_all add: demo_srv_def buffer_ok_def cq_ok_def in_flight_def)

theorem round_within_windows_witness:
  "\<exists>t. send_round demo_env (demo_srv\<lparr>recv_window := 1\<rparr>) = Inr t \<and> sequence_number t = 4"
proof -
  let ?s = "demo_srv\<lparr>recv_window := 1\<rparr>"
  have "buffer_ok ?s" "in_flight ?s = 2" "slots ?s = 3"
    using demo_buffer_ok by (simp_all add: buffer_ok_def in_flight_def)
  moreover obtain t where t: "send_round demo_env ?s = Inr t"
    by (simp add: send_round_def demo_srv_def demo_env_def Let_def CirQueueLength_def IsEmptyCirQueue_def
        three_min_def resend_window_def resend_def base_at_def send_datagram_def send_def
        data_alarm_again_def)
  ultimately obtain k where "int k \<le> max 0 (min (cwnd ?s) (min (send_window ?s) (recv_window ?s)) - 2)"
    and "sequence_number t = sequence_number ?s + of_nat k"
    using round_within_windows [of ?s demo_env t] by auto
  then have "sequence_number t = 4" by (simp add: demo_srv_def)
  with t show ?thesis by blast
qed

text \<open>
  Three datagrams in flight in a buffer of three slots: the round counts none of them and
  sends three more, over the slots of the unacknowledged ones.
\<close>

definition full_srv :: srv where
  "full_srv = demo_srv\<lparr>sequence_number := 5, send_buffer := (send_buffer demo_srv)\<lparr>rear := 2\<rparr>, cwnd := 3,
     filedata := replicate 2000 CHR ''x''\<rparr>"

theorem full_buffer_counts_empty:
  "buffer_ok full_srv \<and> in_flight full_srv = 3 \<and> min (cwnd full_srv) (min (send_window full_srv) (recv_window full_srv)) = 3
    \<and> (\<exists>t. send_round demo_env full_srv = Inr t \<and> in_flight t = 6)"
proof -
  have more: "send_more E 3 s = bindr (send_new E s) (\<lambda>s. if eof s then Inr s else
      bindr (send_new E s) (\<lambda>s. if eof s then Inr s else bindr (send_new E s) Inr))" for E s
    by (simp add: numeral_3_eq_3 cong: if_cong)
  have ok: "buffer_ok full_srv"
    by (simp add: full_srv_def demo_srv_def buffer_ok_def cq_ok_def)
  moreover have "in_flight full_srv = 3" by (simp add: full_srv_def demo_srv_def in_flight_def)
  moreover have "\<exists>t. send_round demo_env full_srv = Inr t \<and> in_flight t = 6"
    by (simp add: send_round_def full_srv_def demo_srv_def demo_env_def Let_def CirQueueLength_def IsEmptyCirQueue_def
        three_min_def more send_new_def read_clock_def packet_capacity_def EnCirQueue_def set_base_def base_at_def
        signed_modulo_int_def signed_divide_int_def send_datagram_def send_def data_alarm_again_def in_flight_def
        del: send_more.simps)
  ultimately show ?thesis by (simp add: full_srv_def demo_srv_def)
qed

lemma grow_cases:
  "cwnd s < ssh s \<Longrightarrow> grow s = s\<lparr>cwnd := cwnd s + 1\<rparr>"
  "ssh s \<le> cwnd s \<Longrightarrow> congestion_avoid_count s + 1 \<noteq> cwnd s \<Longrightarrow>
     grow s = s\<lparr>congestion_avoid_count := congestion_avoid_count s + 1\<rparr>"
  "ssh s \<le> cwnd s \<Longrightarrow> congestion_avoid_count s + 1 = cwnd s \<Longrightarrow>
     grow s = s\<lparr>cwnd := cwnd s + 1, congestion_avoid_count := 0\<rparr>"
  by (simp_all add: grow_def Let_def)

lemma grow_avoid:
  assumes "ssh s \<le> cwnd s" and "0 \<le> congestion_avoid_count s"
    and "congestion_avoid_count s + int k < cwnd s"
  shows "(grow ^^ k) s = s\<lparr>congestion_avoid_count := congestion_avoid_count s + int k\<rparr>"
  using assms
proof (induction k)
  case (Suc k)
  then have "(grow ^^ k) s = s\<lparr>congestion_avoid_count := congestion_avoid_count s + int k\<rparr>" by simp
  with Suc.prems show ?case by (simp add: grow_cases)
qed simp

lemma grow_slow_start: "cwnd s + int k \<le> ssh s \<Longrightarrow> (grow ^^ k) s = s\<lparr>cwnd := cwnd s + int k\<rparr>"
proof (induction k)
  case (Suc k)
  then have "(grow ^^ k) s = s\<lparr>cwnd := cwnd s + int k\<rparr>" by simp
  with Suc.prems show ?case by (simp add: grow_cases)
qed simp

lemma grow_stuck:
  assumes "ssh s \<le> cwnd s" and "cwnd s \<le> congestion_avoid_count s"
  shows "(grow ^^ k) s = s\<lparr>congestion_avoid_count := congestion_avoid_count s + int k\<rparr>"
  using assms
proof (induction k)
  case (Suc k)
  then have "(grow ^^ k) s = s\<lparr>congestion_avoid_count := congestion_avoid_count s + int k\<rparr>" by simp
  with Suc.prems show ?case by (simp add: grow_cases)
qed simp

text \<open>
  C20. The congestion window between two losses. Below the threshold every acknowledgement lets
  it grow by one (slow start). At or above it, a window of \<open>c\<close> datagrams needs exactly \<open>c - a\<close>
  acknowledgements to grow by one, where \<open>a\<close> is the count left over from before (congestion
  avoidance). But nothing resets that count when a timeout or fast recovery shrinks the
  window: where it has reached the new window, the window never grows again.
\<close>

theorem congestion_window_growth:
  assumes "0 < cwnd s" and "0 \<le> congestion_avoid_count s"
  shows "if cwnd s < ssh s then \<forall>k. cwnd s + int k \<le> ssh s \<longrightarrow> cwnd ((grow ^^ k) s) = cwnd s + int k
     else if congestion_avoid_count s < cwnd s
     then (\<forall>k. int k < cwnd s - congestion_avoid_count s \<longrightarrow> cwnd ((grow ^^ k) s) = cwnd s)
       \<and> cwnd ((grow ^^ nat (cwnd s - congestion_avoid_count s)) s) = cwnd s + 1
     else \<forall>k. cwnd ((grow ^^ k) s) = cwnd s"
proof (cases "cwnd s < ssh s \<or> cwnd s \<le> congestion_avoid_count s")
  case True
  then show ?thesis by (auto simp: grow_slow_start grow_stuck)
next
  case False
  let ?d = "cwnd s - congestion_avoid_count s"
  obtain m where m: "nat ?d = Suc m" using False by (cases "nat ?d") auto
  then have d: "int m + 1 = ?d" by linarith
  moreover from this have "(grow ^^ m) s = s\<lparr>congestion_avoid_count := congestion_avoid_count s + int m\<rparr>"
    using False assms by (intro grow_avoid) simp_all
  ultimately have "cwnd ((grow ^^ nat ?d) s) = cwnd s + 1"
    using False by (simp add: m grow_cases(3))
  then show ?thesis using False assms by (simp add: grow_avoid)
qed

text \<open>The window of 2 grows on its second acknowledgement, but not with a count left at 2.\<close>

theorem congestion_window_growth_witness:
  "cwnd ((grow ^^ 1) demo_srv) = 2 \<and> cwnd ((grow ^^ 2) demo_srv) = 3
    \<and> (\<forall>k. cwnd ((grow ^^ k) (demo_srv\<lparr>congestion_avoid_count := 2\<rparr>)) = 2)"
  using congestion_window_growth [of demo_srv]
    congestion_window_growth [of "demo_srv\<lparr>congestion_avoid_count := 2\<rparr>"]
  by (auto simp: demo_srv_def dest!: spec [of _ 1])

section \<open>SIGALRM after a probe\<close>

lemma send_more_blocked: "send_more E n s = Inr t \<Longrightarrow> alrm_blocked t = alrm_blocked s"
  by (rule control_eqD(9) [OF send_more_control])

lemma send_round_blocked: "send_round E s = Inr t \<Longrightarrow> alrm_blocked t = alrm_blocked s"
  by (auto simp: send_round_def Let_def bind_iff split: option.splits if_splits
      dest!: data_alarm_again_Inr send_more_blocked resend_window_Inr)

lemma timeout_resend_blocked: "timeout_resend E s = Inr t \<Longrightarrow> alrm_blocked t = alrm_blocked s"
  by (auto simp: timeout_resend_def Let_def bind_iff dest!: data_alarm_again_Inr resend_Inr)

lemma fast_recovery_blocked: "fast_recovery E s = Inr t \<Longrightarrow> alrm_blocked t = alrm_blocked s"
  by (auto simp: fast_recovery_def Let_def bind_iff split: if_splits
      dest!: data_alarm_again_Inr resend_Inr send_more_blocked)

lemma loop_top_blocked: "loop_top E s = Inr t \<Longrightarrow> alrm_blocked s \<Longrightarrow> alrm_blocked t"
  by (auto simp: loop_top_def Let_def split: if_splits dest!: enter_probe_Inr send_round_blocked)

lemma dequeue_to_blocked: "dequeue_to n s = Inr t \<Longrightarrow> alrm_blocked t = alrm_blocked s"
  by (induction n arbitrary: s) (auto split: sum.splits)

lemma note_ack_blocked: "alrm_blocked (note_ack E r s) = alrm_blocked s"
  by (simp add: note_ack_def grow_def Let_def read_clock_def)

lemma on_ack_blocked:
  assumes "on_ack E r s = Inr t" and "alrm_blocked s"
  shows "alrm_blocked t"
proof (cases "ntohl (h_seq r) = 0")
  case True
  with assms show ?thesis
    by (auto simp: on_ack_def Let_def note_ack_blocked dest!: finish_Inr)
next
  case False
  with assms(1) obtain u v where u: "release_acked (ntohl (h_seq r)) (note_ack E r s) = Inr u"
    and v: "set_ack (front_ack (u\<lparr>recv_window := uint (ntohs (low16 (h_recv_window r)))\<rparr>) + 1)
      (u\<lparr>recv_window := uint (ntohs (low16 (h_recv_window r)))\<rparr>) = Inr v"
    and t: "(if front_ack v = 3 then bindr (set_ack 0 v) (\<lambda>s. bindr (count_timeout s) (\<lambda>s.
        if recv_window s = 0 then enter_probe E FromFast s else fast_recovery E s))
        else ack_loop_end E v) = Inr t"
    by (auto simp: on_ack_def Let_def bind_iff)
  have "alrm_blocked u" using u assms(2)
    by (auto simp: release_acked_def note_ack_blocked split: if_splits dest: dequeue_to_blocked)
  then have bv: "alrm_blocked v" using set_ack_Inr [OF v] by auto
  show ?thesis
  proof (cases "front_ack v = 3")
    case True
    with t bv show ?thesis
      by (auto simp: bind_iff split: if_splits
          dest!: set_ack_Inr count_timeout_Inr enter_probe_Inr fast_recovery_blocked)
  next
    case False
    with t bv show ?thesis by (auto simp: ack_loop_end_def split: if_splits dest: loop_top_blocked)
  qed
qed

interpretation blocked: step_system srv_step "\<lambda>_. True" alrm_blocked
proof
  fix s t and i :: "env \<times> event"
  assume b: "alrm_blocked s" and step: "srv_step s i = Inr t"
  obtain E ev where i: "i = (E, ev)" by (cases i)
  show "alrm_blocked t"
  proof (cases "pc s")
    case WaitAck
    with step b i show ?thesis by (auto split: event.splits dest: on_ack_blocked)
  next
    case (Probe k)
    with step b i show ?thesis
      by (auto simp: probed_def Let_def split: event.splits if_splits origin.splits dest!: send_Inr
          send_round_blocked timeout_resend_blocked fast_recovery_blocked)
  next
    case Finished
    with step b i show ?thesis by simp
  qed
qed

text \<open>
  Once the client's window has been closed, the server never times out again: SIGALRM stays
  blocked in every later state, and while it waits for acknowledgements any number of alarms
  leaves it where it is, so a lost datagram is sent again only after three duplicate
  acknowledgements.
\<close>

theorem alarm_lost_after_probe:
  assumes "alrm_blocked s"
  shows "(run srv_step s is = Inr t \<longrightarrow> alrm_blocked t)
    \<and> (pc s = WaitAck \<longrightarrow> run srv_step s (replicate n (E, Alarm)) = Inr s)"
proof -
  have "alrm_blocked t" if "run srv_step s is = Inr t"
    using assms _ that by (rule blocked.run_inv) (simp add: list_all_iff)
  moreover have "run srv_step s (replicate n (E, Alarm)) = Inr s" if "pc s = WaitAck"
    using assms that by (induction n) simp_all
  ultimately show ?thesis by simp
qed

theorem alarm_lost_after_probe_witness:
  "run srv_step (demo_srv\<lparr>alrm_blocked := True\<rparr>) (replicate 100 (demo_env, Alarm))
    = Inr (demo_srv\<lparr>alrm_blocked := True\<rparr>)"
  using alarm_lost_after_probe [of "demo_srv\<lparr>alrm_blocked := True\<rparr>" "[]" demo_srv 100 demo_env]
  by (simp add: demo_srv_def del: replicate.simps)

lemma resend_past_end:
  assumes "all_well E" and "cq_ok (send_buffer s)" and "MAX_QSIZE (send_buffer s) < front (send_buffer s) + n"
  shows "\<exists>t. resend_window E n s = Inl (Undefined ''send_buffer->base'', t)"
proof -
  let ?Q = "send_buffer s"
  define k where "k = nat (MAX_QSIZE ?Q - front ?Q)"
  obtain b where b: "base ?Q = Some b" "length b = nat (MAX_QSIZE ?Q)"
    using assms(2) by (auto simp: cq_ok_def)
  have front: "0 \<le> front ?Q" "front ?Q < MAX_QSIZE ?Q" using assms(2) by (simp_all add: cq_ok_def)
  have prefix: "\<exists>w. run_list (\<lambda>j s. resend E (front (send_buffer s) + int j) s) js s = Inr (s\<lparr>wire := w\<rparr>)"
    if "\<forall>j \<in> set js. j < k" for js
    using that
  proof (induction js rule: rev_induct)
    case Nil
    then show ?case by (intro exI [of _ "wire s"]) simp
  next
    case (snoc j js)
    then obtain w where "run_list (\<lambda>j s. resend E (front (send_buffer s) + int j) s) js s
        = Inr (s\<lparr>wire := w\<rparr>)" by auto
    with snoc.prems b front show ?case
      using send_datagram_ok [OF assms(1)]
      by (auto simp: run_list_append resend_def base_at_def k_def)
  qed
  have "k < nat n" using assms(3) front by (simp add: k_def)
  then have "[0..<nat n] = [0..<k] @ k # [Suc k..<nat n]"
    using upt_add_eq_append [of 0 k "nat n - k"] by (simp add: upt_conv_Cons)
  moreover from prefix [of "[0..<k]"] obtain w where
    "run_list (\<lambda>j s. resend E (front (send_buffer s) + int j) s) [0..<k] s = Inr (s\<lparr>wire := w\<rparr>)"
    by auto
  moreover have "base_at ?Q (front ?Q + int k) = None"
    using b front by (simp add: base_at_def k_def)
  ultimately show ?thesis
    by (simp add: resend_window_def run_list_append resend_def)
qed

text \<open>
  C40. The loop that sends unacknowledged datagrams again indexes the circular buffer without
  going round its end: when the datagrams in flight wrap around the end of the array, and the
  sending window reaches past it, the process reads outside the buffer.
\<close>

theorem resend_reads_past_end:
  assumes "all_well E" and "cq_ok (send_buffer s)" and "0 < used (send_buffer s)"
    and "MAX_QSIZE (send_buffer s) < front (send_buffer s)
      + min (int (used (send_buffer s))) (min (cwnd s) (min (send_window s) (recv_window s)))"
  shows "\<exists>t. send_round E s = Inl (Undefined ''send_buffer->base'', t)"
proof -
  let ?w = "three_min (cwnd s) (send_window s) (recv_window s)" and ?n = "int (used (send_buffer s))"
  let ?s1 = "s\<lparr>sending_window := ?w, rttinfo := rtt_newpack (rttinfo s)\<rparr>"
  have "?w = min (cwnd s) (min (send_window s) (recv_window s))"
    by (auto simp: three_min_def Let_def)
  with assms have "\<exists>t. resend_window E (if ?w \<le> ?n then ?w else ?n) ?s1
      = Inl (Undefined ''send_buffer->base'', t)"
    by (intro resend_past_end) (auto simp: min_def split: if_splits)
  moreover have "IsEmptyCirQueue (send_buffer s) = 0"
    using IsEmpty_used [OF assms(2)] assms(3) by (auto simp: IsEmptyCirQueue_def split: if_splits)
  ultimately show ?thesis
    by (auto simp: send_round_def Let_def CirQueueLength_used [OF assms(2)] split: if_splits)
qed


theorem resend_reads_past_end_witness:
  "\<exists>t. send_round demo_env demo_srv = Inl (Undefined ''send_buffer->base'', t)"
  using resend_reads_past_end [of demo_env demo_srv] demo_env_well demo_srv_ok
  by (simp add: demo_srv_def)

end
