(* ===== verification/FileTransfer.thy ===== *)
theory FileTransfer
  imports FileServerClaims FileClientInv
begin

text \<open>
  The server child and the client together, over a network that loses, repeats and reorders
  datagrams but keeps a header and the line sent behind it together: the text on the client's
  screen is always a prefix of the file, with what the server's uninitialised array held behind
  the first block.
\<close>

section \<open>The system\<close>

text \<open>
  The state is the server's, the client's and the queue of datagrams that have arrived at the
  client's socket and are not read. The network keeps everything that was ever sent: a header with
  its line, or a probe, arrives any number of times, in any order, or never. The client
  reads one datagram at a time, and between the two its other thread may run. That a line is never
  parted from its header is an assumption: they are two datagrams (\<open>any_line_taken\<close> shows
  what happens without it). Sequence numbers do not run out (\<open>room\<close>), and \<open>ready_block\<close> is what
  the client needs of \<^verbatim>\<open>malloc\<close>.
\<close>

type_synonym system = "srv \<times> cli \<times> dgram list"

inductive sys_step :: "system \<Rightarrow> system \<Rightarrow> bool" where
  srv_alarm: "room s \<Longrightarrow> srv_step s (E, Alarm) = Inr s' \<Longrightarrow> sys_step (s, c, n) (s', c, n)"
| srv_hear: "room s \<Longrightarrow> r \<in> set (c_out c) \<Longrightarrow> srv_step s (E, Hdr r) = Inr s' \<Longrightarrow>
    sys_step (s, c, n) (s', c, n)"
| net_pair: "wire s = u @ DHdr q ts # DLine l # v \<Longrightarrow> sys_step (s, c, n) (s, c, n @ [DHdr q ts, DLine l])"
| net_probe: "DHdr q ts \<in> set (wire s) \<Longrightarrow> ntohl q = 0 \<Longrightarrow> sys_step (s, c, n) (s, c, n @ [DHdr q ts])"
| cli_hdr: "c_main c = Receiving \<Longrightarrow>
    cli_step c (RecvHdr (Some \<lparr>h_seq = q, h_ts = ts, h_recv_window = w\<rparr>) I) = Inr c' \<Longrightarrow>
    sys_step (s, c, DHdr q ts # n) (s, c', n)"
| cli_line: "room s \<Longrightarrow> c_main c = GotHeader r \<Longrightarrow>
    (i_arrives I \<and> c_printed c < ntohl (h_seq r) \<Longrightarrow>
       ready_block (c_header c) (ntohl (h_seq r)) (i_mem I) (c_heap c)) \<Longrightarrow>
    cli_step c (RecvLine (Some l) I) = Inr c' \<Longrightarrow> sys_step (s, c, DLine l # n) (s, c', n)"
| cli_own: "e \<in> {ReceiveEnd ok, Tick, Wake ok, Check} \<Longrightarrow> cli_step c e = Inr c' \<Longrightarrow>
    sys_step (s, c, n) (s, c', n)"

inductive_cases sys_stepE: "sys_step (s, c, n) (s', c', n')"


section \<open>The invariant\<close>


























section \<open>The text\<close>




text \<open>The rest of the uninitialised array goes out behind the first block.\<close>

definition rubbish :: "string \<Rightarrow> string \<Rightarrow> string" where
  "rubbish F g = cstr (drop (min packet_capacity (length F)) g)"

lemma first_line_text:
  assumes "NUL \<notin> set F"
  shows "cstr (line F g 1) = take packet_capacity F @ rubbish F g"
proof -
  have "NUL \<notin> set (take packet_capacity F)" using assms by (auto dest: in_set_takeD)
  then have "cstr (take packet_capacity F @ x) = take packet_capacity F @ cstr x" for x
    unfolding cstr_def by (intro takeWhile_append2) auto
  then show ?thesis by (simp add: line_def chunk_def overwrite_def rubbish_def min.commute)
qed


section \<open>Claims\<close>











text \<open>
  The first datagram carries rubbish: \<^verbatim>\<open>localcopy.sendline\<close> is an uninitialised array
  of which \<^verbatim>\<open>fread\<close> fills at most the first 500 bytes, so what the client prints for
  it is the beginning of the file followed by whatever the array held behind it.
\<close>

theorem first_line_rubbish:
  assumes "NUL \<notin> set f"
  shows "cstr (line f g 1) = take packet_capacity f @ cstr (drop (min packet_capacity (length f)) g)"
  using first_line_text [OF assms] by (simp add: rubbish_def)

theorem first_line_rubbish_witness:
  "cstr (line ''hi'' ''junkjunk'' 1) = ''hinkjunk''"
  using first_line_rubbish [of "''hi''" "''junkjunk''"] by (simp add: packet_capacity_def cstr_def)

end
