(* ===== verification/StreamIo.thy ===== *)
theory StreamIo
  imports Prelude
begin

text \<open>
  The byte streams of the book library: \<^verbatim>\<open>readn\<close>, \<^verbatim>\<open>writen\<close>, \<^verbatim>\<open>readline\<close> with its static
  buffer (\<^verbatim>\<open>unpv13e/lib\<close>) and the version with a buffer per thread the server of assignment 1 is
  linked with (\<^verbatim>\<open>unpv13e/threads/readline.c\<close>).

  A descriptor that is read is the bytes that will arrive on it before the end of the stream and the
  turns the kernel takes: a call is interrupted, fails, or gives some of the bytes asked for. When
  no turn is left the call blocks, which is the value \<open>None\<close>.
\<close>

section \<open>The kernel\<close>

datatype turn = Deliver nat | Intr | Fail

record chan =
  pending :: string
  turns :: "turn list"

text \<open>What a \<^verbatim>\<open>read\<close> gives: bytes, the end of the stream, an interrupted call or an error.\<close>

datatype rd = Bytes string | Eof | Interrupted | ReadError

definition sys_read :: "nat \<Rightarrow> chan \<Rightarrow> (rd \<times> chan) option" where
  "sys_read n c =
     (case turns c of
        [] \<Rightarrow> None
      | t # ts \<Rightarrow>
          let c = c\<lparr>turns := ts\<rparr> in
          Some (case t of
            Intr \<Rightarrow> (Interrupted, c)
          | Fail \<Rightarrow> (ReadError, c)
          | Deliver k \<Rightarrow>
              if pending c = [] then (Eof, c)
              else let m = max 1 (min k n) in (Bytes (take m (pending c)), c\<lparr>pending := drop m (pending c)\<rparr>)))"

text \<open>
  A descriptor that is written keeps what it has taken; \<^verbatim>\<open>write\<close> takes a beginning of the bytes,
  possibly none of them.
\<close>

datatype wr = Taken nat | WrInterrupted | WriteError

definition sys_write :: "string \<Rightarrow> chan \<Rightarrow> (wr \<times> chan) option" where
  "sys_write b c =
     (case turns c of
        [] \<Rightarrow> None
      | t # ts \<Rightarrow>
          let c = c\<lparr>turns := ts\<rparr> in
          Some (case t of
            Intr \<Rightarrow> (WrInterrupted, c)
          | Fail \<Rightarrow> (WriteError, c)
          | Deliver k \<Rightarrow> (Taken (min k (length b)), c\<lparr>pending := pending c @ take k b\<rparr>)))"

lemma sys_read_turns [termination_simp]: "sys_read n c = Some (r, c') \<Longrightarrow> length (turns c') < length (turns c)"
  by (auto simp: sys_read_def Let_def split: list.splits turn.splits if_splits)

lemma sys_write_turns [termination_simp]: "sys_write b c = Some (r, c') \<Longrightarrow> length (turns c') < length (turns c)"
  by (auto simp: sys_write_def Let_def split: list.splits turn.splits)

section \<open>A given number of bytes\<close>

text \<open>The value returned and the bytes stored; \<open>got\<close> are those stored before.\<close>

function readn_loop :: "nat \<Rightarrow> string \<Rightarrow> chan \<Rightarrow> ((int \<times> string) \<times> chan) option" where
  "readn_loop nleft got c =
     (if nleft = 0 then Some ((int (length got), got), c)
      else
        (case sys_read nleft c of
           None \<Rightarrow> None
         | Some (Interrupted, c') \<Rightarrow> readn_loop nleft got c'
         | Some (ReadError, c') \<Rightarrow> Some ((- 1, got), c')
         | Some (Eof, c') \<Rightarrow> Some ((int (length got), got), c')
         | Some (Bytes b, c') \<Rightarrow> readn_loop (nleft - length b) (got @ b) c'))"
  by pat_completeness auto
termination
  by (relation "measure (\<lambda>(_, _, c). length (turns c))") (auto simp: sys_read_turns)

definition readn :: "nat \<Rightarrow> chan \<Rightarrow> ((int \<times> string) \<times> chan) option" where
  "readn n c = readn_loop n [] c"

function writen_loop :: "int \<Rightarrow> string \<Rightarrow> chan \<Rightarrow> (int \<times> chan) option" where
  "writen_loop n rest c =
     (if rest = [] then Some (n, c)
      else
        (case sys_write rest c of
           None \<Rightarrow> None
         | Some (WrInterrupted, c') \<Rightarrow> writen_loop n rest c'
         | Some (WriteError, c') \<Rightarrow> Some (- 1, c')
         | Some (Taken k, c') \<Rightarrow> if k = 0 then Some (- 1, c') else writen_loop n (drop k rest) c'))"
  by pat_completeness auto
termination
  by (relation "measure (\<lambda>(_, _, c). length (turns c))") (auto simp: sys_write_turns)

definition writen :: "string \<Rightarrow> chan \<Rightarrow> (int \<times> chan) option" where
  "writen b c = writen_loop (int (length b)) b c"

declare readn_loop.simps [simp del] writen_loop.simps [simp del]

text \<open>The wrappers.\<close>

definition Readn :: "nat \<Rightarrow> chan \<Rightarrow> ((stop \<times> chan) + ((int \<times> string) \<times> chan)) option" where
  "Readn n c = (case readn n c of None \<Rightarrow> None
     | Some ((r, got), c') \<Rightarrow> Some (if r < 0 then Inl (Exit 1 ''readn error'', c') else Inr ((r, got), c')))"

definition Writen :: "string \<Rightarrow> chan \<Rightarrow> chan outcome option" where
  "Writen b c = (case writen b c of None \<Rightarrow> None
     | Some (r, c') \<Rightarrow> Some (if r \<noteq> int (length b) then Inl (Exit 1 ''writen error'', c') else Inr c'))"

section \<open>Lines\<close>

definition RL_SIZE :: nat where "RL_SIZE = 4096"

text \<open>The static variables of \<^verbatim>\<open>readline.c\<close>; \<^verbatim>\<open>read_ptr\<close> is an index into \<^verbatim>\<open>read_buf\<close>.\<close>

record rline =
  read_cnt :: int
  read_ptr :: nat
  read_buf :: string

text \<open>
  \<^verbatim>\<open>my_read\<close>: the character, or 0 at the end of the stream and -1 after an error.
\<close>

datatype one = OneChar char | OneEof | OneError

function fill_buf :: "rline \<Rightarrow> chan \<Rightarrow> (one option \<times> rline \<times> chan) option" where
  "fill_buf s c =
     (case sys_read RL_SIZE c of
        None \<Rightarrow> None
      | Some (Interrupted, c') \<Rightarrow> fill_buf (s\<lparr>read_cnt := - 1\<rparr>) c'
      | Some (ReadError, c') \<Rightarrow> Some (Some OneError, s\<lparr>read_cnt := - 1\<rparr>, c')
      | Some (Eof, c') \<Rightarrow> Some (Some OneEof, s\<lparr>read_cnt := 0\<rparr>, c')
      | Some (Bytes b, c') \<Rightarrow>
          Some (None, s\<lparr>read_cnt := int (length b), read_ptr := 0, read_buf := overwrite (read_buf s) b\<rparr>, c'))"
  by pat_completeness auto
termination
  by (relation "measure (\<lambda>(_, c). length (turns c))") (auto simp: sys_read_turns)

declare fill_buf.simps [simp del]

definition next_char :: "rline \<Rightarrow> one \<times> rline" where
  "next_char s = (OneChar (read_buf s ! read_ptr s), s\<lparr>read_cnt := read_cnt s - 1, read_ptr := read_ptr s + 1\<rparr>)"

definition my_read :: "rline \<Rightarrow> chan \<Rightarrow> (one \<times> rline \<times> chan) option" where
  "my_read s c =
     (if read_cnt s \<le> 0 then
        (case fill_buf s c of
           None \<Rightarrow> None
         | Some (Some r, s', c') \<Rightarrow> Some (r, s', c')
         | Some (None, s', c') \<Rightarrow> (case next_char s' of (r, s'') \<Rightarrow> Some (r, s'', c')))
      else (case next_char s of (r, s') \<Rightarrow> Some (r, s', c)))"

text \<open>
  The loop of \<^verbatim>\<open>readline\<close>: \<open>left\<close> is \<^verbatim>\<open>maxlen - n\<close>, \<open>got\<close> what has been stored. The value returned
  is \<^verbatim>\<open>n\<close>, or \<^verbatim>\<open>n - 1\<close> at the end of the stream.
\<close>

fun readline_loop :: "nat \<Rightarrow> int \<Rightarrow> string \<Rightarrow> rline \<Rightarrow> chan \<Rightarrow> ((int \<times> string) \<times> rline \<times> chan) option" where
  "readline_loop 0 n got s c = Some ((n, got @ [NUL]), s, c)"
| "readline_loop (Suc left) n got s c =
     (case my_read s c of
        None \<Rightarrow> None
      | Some (OneChar ch, s', c') \<Rightarrow>
          if ch = CHR 0x0A then Some ((n, got @ [ch] @ [NUL]), s', c')
          else readline_loop left (n + 1) (got @ [ch]) s' c'
      | Some (OneEof, s', c') \<Rightarrow> Some ((n - 1, got @ [NUL]), s', c')
      | Some (OneError, s', c') \<Rightarrow> Some ((- 1, got), s', c'))"

definition readline :: "nat \<Rightarrow> rline \<Rightarrow> chan \<Rightarrow> ((int \<times> string) \<times> rline \<times> chan) option" where
  "readline maxlen s c = readline_loop (maxlen - 1) 1 [] s c"

text \<open>\<^verbatim>\<open>readlinebuf\<close>: what is left in the buffer, and how much that is.\<close>

definition readlinebuf :: "rline \<Rightarrow> int \<times> nat option" where
  "readlinebuf s = (read_cnt s, if read_cnt s \<noteq> 0 then Some (read_ptr s) else None)"

definition Readline :: "nat \<Rightarrow> rline \<Rightarrow> chan \<Rightarrow> ((stop \<times> rline \<times> chan) + ((int \<times> string) \<times> rline \<times> chan)) option" where
  "Readline maxlen s c = (case readline maxlen s c of None \<Rightarrow> None
     | Some ((r, got), s', c') \<Rightarrow>
         Some (if r < 0 then Inl (Exit 1 ''readline error'', s', c') else Inr ((r, got), s', c')))"

text \<open>
  The version with threads: each thread has a structure of its own, zeroed when the thread first
  calls.
\<close>

definition new_rline :: rline where
  "new_rline = \<lparr>read_cnt = 0, read_ptr = 0, read_buf = replicate RL_SIZE NUL\<rparr>"

definition readline_r :: "'t \<Rightarrow> nat \<Rightarrow> ('t \<Rightarrow> rline option) \<Rightarrow> chan \<Rightarrow> ((int \<times> string) \<times> ('t \<Rightarrow> rline option) \<times> chan) option" where
  "readline_r self maxlen tsd c =
     (let s = (case tsd self of None \<Rightarrow> new_rline | Some s \<Rightarrow> s) in
      case readline maxlen s c of
        None \<Rightarrow> None
      | Some (r, s', c') \<Rightarrow> Some (r, tsd(self := Some s'), c'))"

end
