(* ===== verification/EchoTime.thy ===== *)
theory EchoTime
  imports StreamIo InetAddr
begin

text \<open>
  Assignment 1: the echo and time server with its threads (\<^verbatim>\<open>tcpechotimesrv.c\<close>), the clients
  of the two services (\<^verbatim>\<open>echo_cli.c\<close>, \<^verbatim>\<open>time_cli.c\<close>) and the program that starts them
  (\<^verbatim>\<open>tcpechotimecli.c\<close>). A wrapper of the book library ends the process when its call fails.
\<close>

section \<open>The server\<close>

text \<open>The steps that turn a socket into a listening one, in order, with their messages.\<close>

definition listen_steps :: "string list" where
  "listen_steps =
     [''TCPECHOTIMESERV: socket failed to open'', ''TCPECHOTIMESERV: F_GETFL error'',
      ''TCPECHOTIMESERV: F_SETFL error'', ''TCPECHOTIMESERV: failed to set socket option SO_REUSEADDR'',
      ''TCPECHOTIMESERV: bind error'', ''TCPECHOTIMESERV: listen error'']"

datatype service = Echo | Time

record etserver =
  es_nonblock :: "service \<Rightarrow> bool"
  es_threads :: "(service \<times> int) list"

definition open_listeners :: "bool list \<Rightarrow> etserver \<Rightarrow> etserver outcome" where
  "open_listeners oks s =
     bindr (run_list (\<lambda>(ok, msg) s. exit_if (\<not> ok) 1 msg s) (zip oks (listen_steps @ listen_steps)) s) (\<lambda>s.
     Inr (s\<lparr>es_nonblock := (\<lambda>_. True)\<rparr>))"

text \<open>
  What \<^verbatim>\<open>accept\<close> returns each time \<^verbatim>\<open>Accept\<close> calls it: a descriptor, an aborted
  connection, after which it is called again, or another failure (a listening socket that does
  not block fails when the connection has gone).
\<close>

datatype accepted = Conn int | Aborted | AcceptFails

fun Accept :: "accepted list \<Rightarrow> etserver \<Rightarrow> (stop \<times> etserver) + int" where
  "Accept [] s = Inl (Hang ''accept'', s)"
| "Accept (Conn fd # as) s = Inr fd"
| "Accept (Aborted # as) s = Accept as s"
| "Accept (AcceptFails # as) s = Inl (Exit 1 ''accept error'', s)"

text \<open>
  A listening socket is ready: the connection gets the flags of the listening socket without
  \<^verbatim>\<open>O_NONBLOCK\<close> and a thread of its own.
\<close>

record accept_env =
  ae_accepts :: "accepted list"
  ae_fcntl :: bool
  ae_thread :: bool

definition new_service :: "service \<Rightarrow> accept_env \<Rightarrow> etserver \<Rightarrow> etserver outcome" where
  "new_service k E s =
     bindr (Accept (ae_accepts E) s) (\<lambda>fd.
     let s = s\<lparr>es_nonblock := (es_nonblock s)(k := False)\<rparr> in
     bindr (exit_if (\<not> ae_fcntl E) 1 ''TCPECHOTIMESERV: F_SETFL error'' s) (\<lambda>s.
     bindr (exit_if (\<not> ae_thread E) 1 ''pthread_create error'' s) (\<lambda>s.
     Inr (s\<lparr>es_threads := es_threads s @ [(k, fd)]\<rparr>))))"

datatype listen_pass = ListenError | Listening "accept_env option" "accept_env option"

fun etserver_step :: "etserver \<Rightarrow> listen_pass \<Rightarrow> etserver outcome" where
  "etserver_step s ListenError = Inl (Exit 1 ''select error'', s)"
| "etserver_step s (Listening e t) =
     bindr (case e of None \<Rightarrow> Inr s | Some E \<Rightarrow> new_service Echo E s) (\<lambda>s.
     case t of None \<Rightarrow> Inr s | Some E \<Rightarrow> new_service Time E s)"

section \<open>The service threads\<close>

text \<open>
  One \<^verbatim>\<open>read\<close> of \<^verbatim>\<open>str_echo\<close>: bytes, the end of the stream, an interrupted call or an
  error. \<open>Write\<close> ends the whole process when not all bytes are taken.
\<close>

record echo_thread =
  et_out :: string
  et_open :: bool

definition echo_read :: "bool \<Rightarrow> rd \<Rightarrow> echo_thread \<Rightarrow> echo_thread outcome" where
  "echo_read written r t =
     (if \<not> et_open t then Inr t
      else
        (case r of
           Bytes b \<Rightarrow>
             if b = [] then Inr (t\<lparr>et_open := False\<rparr>)
             else
               bindr (exit_if (\<not> written) 1 ''write error'' t) (\<lambda>t.
               Inr (t\<lparr>et_out := et_out t @ b\<rparr>))
         | Eof \<Rightarrow> Inr (t\<lparr>et_open := False\<rparr>)
         | Interrupted \<Rightarrow> Inr t
         | ReadError \<Rightarrow> Inr (t\<lparr>et_open := False\<rparr>)))"

text \<open>
  One round of \<^verbatim>\<open>time_serv\<close>: five seconds without anything to read (\<open>Quiet\<close>) send the
  time, anything else ends the service.
\<close>

datatype waited = Quiet string | Readable | WaitError

definition time_round :: "bool \<Rightarrow> waited \<Rightarrow> echo_thread \<Rightarrow> echo_thread outcome" where
  "time_round written w t =
     (if \<not> et_open t then Inr t
      else
        (case w of
           Quiet now \<Rightarrow>
             bindr (exit_if (\<not> written) 1 ''write error'' t) (\<lambda>t.
             Inr (t\<lparr>et_out := et_out t @ take 24 (cstr now) @ [char_of (13::nat), char_of (10::nat)]\<rparr>))
         | Readable \<Rightarrow> Inr (t\<lparr>et_open := False\<rparr>)
         | WaitError \<Rightarrow> Inl (Exit 1 ''readable_timeo error'', t)))"

section \<open>The echo client\<close>

text \<open>
  The status messages go to the parent through a pipe with a fixed number of bytes each, mostly
  more than the literal has: \<open>beyond\<close> is the memory behind it.
\<close>

definition status :: "(string \<Rightarrow> string) \<Rightarrow> string \<Rightarrow> nat \<Rightarrow> string" where
  "status beyond msg n = take n (msg @ [NUL] @ beyond msg)"

record echo_client =
  ec_flag :: bool
  ec_sent :: string
  ec_shut :: bool
  ec_screen :: string
  ec_pipe :: "string list"
  ec_running :: bool

definition tell :: "(string \<Rightarrow> string) \<Rightarrow> string \<Rightarrow> nat \<Rightarrow> echo_client \<Rightarrow> echo_client" where
  "tell beyond msg n s = s\<lparr>ec_pipe := ec_pipe s @ [status beyond msg n]\<rparr>"

text \<open>
  The calls of a pass that write: to the terminal, to the server, the shutdown, and to the pipe after
  something has come from the server or from the user.
\<close>

record echo_writes =
  ew_shown :: bool
  ew_sent :: bool
  ew_shut :: bool
  ew_told :: bool
  ew_told_user :: bool

text \<open>Bytes from the server; the loop ends with the stream.\<close>

definition echo_from_server :: "(string \<Rightarrow> string) \<Rightarrow> echo_writes \<Rightarrow> rd \<Rightarrow> echo_client \<Rightarrow> echo_client outcome" where
  "echo_from_server beyond w r s =
     (let ended =
            bindr (exit_if (\<not> ew_told w) 1 ''write error'' s) (\<lambda>s.
            Inr ((if ec_flag s then tell beyond ''Server terminated'' 20 s
                  else tell beyond ''Server terminated prematurely'' 30 s)\<lparr>ec_running := False\<rparr>))
      in
      case r of
        Bytes b \<Rightarrow>
          if b = [] then ended
          else
            bindr (exit_if (\<not> ew_shown w) 1 ''write error'' s) (\<lambda>s.
            bindr (exit_if (\<not> ew_told w) 1 ''write error'' (s\<lparr>ec_screen := ec_screen s @ b\<rparr>)) (\<lambda>s.
            Inr (tell beyond ''User input is echoed back'' 30 s)))
      | Eof \<Rightarrow> ended
      | Interrupted \<Rightarrow> Inl (Exit 1 ''read error'', s)
      | ReadError \<Rightarrow> Inl (Exit 1 ''read error'', s))"

text \<open>Input of the user; the end of it shuts the sending side down.\<close>

definition echo_from_user :: "(string \<Rightarrow> string) \<Rightarrow> echo_writes \<Rightarrow> rd \<Rightarrow> echo_client \<Rightarrow> echo_client outcome" where
  "echo_from_user beyond w r s =
     (let ended =
            bindr (exit_if (\<not> ew_told_user w) 1 ''write error'' (s\<lparr>ec_flag := True\<rparr>)) (\<lambda>s.
            bindr (exit_if (\<not> ew_shut w) 1 ''shutdown error'' (tell beyond ''No more user input'' 20 s)) (\<lambda>s.
            Inr (s\<lparr>ec_shut := True\<rparr>)))
      in
      case r of
        Bytes b \<Rightarrow>
          if b = [] then ended
          else
            bindr (exit_if (\<not> ew_sent w) 1 ''write error'' s) (\<lambda>s.
            bindr (exit_if (\<not> ew_told_user w) 1 ''write error'' (s\<lparr>ec_sent := ec_sent s @ b\<rparr>)) (\<lambda>s.
            Inr (tell beyond ''User input is forwarded to server'' 30 s)))
      | Eof \<Rightarrow> ended
      | Interrupted \<Rightarrow> Inl (Exit 1 ''read error'', s)
      | ReadError \<Rightarrow> Inl (Exit 1 ''read error'', s))"

text \<open>
  A pass of the loop: what is ready of the connection and of the terminal (watched until the end
  of the input), and which of the calls that write succeed.
\<close>

datatype echo_pass = EchoSelectError | EchoReady "rd option" "rd option" echo_writes

fun echo_cli_step :: "(string \<Rightarrow> string) \<Rightarrow> echo_client \<Rightarrow> echo_pass \<Rightarrow> echo_client outcome" where
  "echo_cli_step beyond s EchoSelectError = Inl (Exit 1 ''select error'', s)"
| "echo_cli_step beyond s (EchoReady srv usr w) =
     (if \<not> ec_running s then Inr s
      else
        bindr (case srv of None \<Rightarrow> Inr s | Some r \<Rightarrow> echo_from_server beyond w r s) (\<lambda>s.
        case usr of None \<Rightarrow> Inr s
        | Some r \<Rightarrow> if ec_running s \<and> \<not> ec_flag s then echo_from_user beyond w r s else Inr s))"

section \<open>The time client\<close>

record time_client =
  tc_screen :: string
  tc_pipe :: "string list"

definition tell_time :: "(string \<Rightarrow> string) \<Rightarrow> string \<Rightarrow> nat \<Rightarrow> time_client \<Rightarrow> time_client" where
  "tell_time beyond msg n s = s\<lparr>tc_pipe := tc_pipe s @ [status beyond msg n]\<rparr>"

text \<open>
  One read of the loop of \<^verbatim>\<open>time_cli\<close>; a read of the whole buffer puts the terminating NUL
  behind it.
\<close>

definition time_read :: "(string \<Rightarrow> string) \<Rightarrow> nat \<Rightarrow> bool \<Rightarrow> rd \<Rightarrow> time_client \<Rightarrow> time_client outcome" where
  "time_read beyond maxline put r s =
     (case r of
        Bytes b \<Rightarrow>
          if b = [] then Inl (Exit 0 [], tell_time beyond ''Server teminated'' 20 s)
          else if length b \<ge> maxline then Inl (Undefined ''recvline'', s)
          else if \<not> put then Inl (Exit 1 ''TIME_CLI: fputs error'', tell_time beyond ''TIME_CLI: fputs error'' 30 s)
          else Inr (tell_time beyond ''Received current time from server'' 40 (s\<lparr>tc_screen := tc_screen s @ cstr b\<rparr>))
      | Eof \<Rightarrow> Inl (Exit 0 [], tell_time beyond ''Server teminated'' 20 s)
      | Interrupted \<Rightarrow> Inl (Exit 1 ''TIME_CLI: server crashed'', tell_time beyond ''Server crashed'' 20 s)
      | ReadError \<Rightarrow> Inl (Exit 1 ''TIME_CLI: server crashed'', tell_time beyond ''Server crashed'' 20 s))"

section \<open>The program that starts the clients\<close>

text \<open>
  The server as address or name: \<open>byaddr\<close> says whether \<^verbatim>\<open>gethostbyaddr\<close> knows the
  address, \<open>byname\<close> is the first address \<^verbatim>\<open>gethostbyname\<close> finds. The result is what
  \<^verbatim>\<open>inet_ntop\<close> leaves in \<^verbatim>\<open>char str[INET_ADDRSTRLEN]\<close>; \<open>junk\<close> is what the variable for
  the address holds before.
\<close>

definition INET_ADDRSTRLEN :: nat where "INET_ADDRSTRLEN = 16"

definition print_server :: "u8 list \<Rightarrow> stop + string" where
  "print_server a =
     (case inet_ntop AF_INET a INET_ADDRSTRLEN of
        Inl e \<Rightarrow> Inl e
      | Inr None \<Rightarrow> Inl (Undefined ''printf'')
      | Inr (Some str) \<Rightarrow> Inr str)"

definition resolve :: "nat \<Rightarrow> (u8 list \<Rightarrow> bool) \<Rightarrow> (string \<Rightarrow> u8 list option) \<Rightarrow> u8 list \<Rightarrow> string \<Rightarrow> stop + string" where
  "resolve argc byaddr byname junk arg =
     (if argc \<noteq> 2
      then Inl (Exit 1 (''TCPECHOTIMECLI: usage is '' @ [CHR 0x27] @ ''tcpechotimecli <IPaddress/Domain name>'' @ [CHR 0x27]))
      else
        (case inet_pton AF_INET arg junk of
           Inl e \<Rightarrow> Inl e
         | Inr (n, addr) \<Rightarrow>
             if n \<noteq> 0 then
               (if byaddr addr then print_server addr else Inl (Exit 1 ''TCPECHOTIMECLI: wrong input IP address''))
             else
               (case byname arg of
                  Some a \<Rightarrow> print_server a
                | None \<Rightarrow> Inl (Exit 1 ''TCPECHOTIMECLI: wrong input hostname or IP address format''))))"

text \<open>
  \<^verbatim>\<open>scanf("%s", choice)\<close> into \<^verbatim>\<open>char choice[4]\<close>, again and again until a service or the
  end is chosen. At the end of the input \<open>choice\<close> keeps what it holds.
\<close>

datatype choice = Run service | Quit

datatype word_in = Word string | Interrupt | EndOfInput

definition chosen :: "string \<Rightarrow> choice option" where
  "chosen w =
     (if w = ''echo'' then Some (Run Echo) else if w = ''time'' then Some (Run Time)
      else if w = ''quit'' then Some Quit else None)"

fun choose_service :: "string \<Rightarrow> word_in list \<Rightarrow> (stop + choice) option" where
  "choose_service old [] = None"
| "choose_service old (Interrupt # ws) = choose_service old ws"
| "choose_service old (EndOfInput # ws) =
     (case chosen (cstr old) of Some c \<Rightarrow> Some (Inr c) | None \<Rightarrow> choose_service old ws)"
| "choose_service old (Word w # ws) =
     (if length w \<ge> 4 then Some (Inl (Undefined ''choice''))
      else (case chosen w of Some c \<Rightarrow> Some (Inr c) | None \<Rightarrow> choose_service w ws))"

text \<open>
  The parent shows what the child writes into the pipe until the pipe ends. While the user types
  into its window it does not look at the pipe. Its buffer has \<open>SIZE\<close> bytes, less than it lets
  the user fill, and nothing terminates what is read into it.
\<close>

definition SIZE :: nat where "SIZE = 1024"

record parent_window =
  pw_buf :: string
  pw_shown :: "string list"
  pw_waiting :: bool

datatype window_pass = ParentSelectError | ParentReady "rd option" "rd option"

definition parent_typed :: "rd \<Rightarrow> parent_window \<Rightarrow> parent_window outcome" where
  "parent_typed r s =
     (case r of
        Bytes b \<Rightarrow>
          bindr (undef_if (length b > SIZE) ''buf'' s) (\<lambda>s.
          Inr (if b = [] then s
               else s\<lparr>pw_buf := overwrite (pw_buf s) b,
                      pw_shown := pw_shown s @ [''Please type input at child process terminal'']\<rparr>))
      | Eof \<Rightarrow> Inr s
      | Interrupted \<Rightarrow> Inl (Exit 1 ''read error'', s)
      | ReadError \<Rightarrow> Inl (Exit 1 ''read error'', s))"

definition parent_piped :: "rd \<Rightarrow> parent_window \<Rightarrow> parent_window outcome" where
  "parent_piped r s =
     (let closes = (\<lambda>msg. Inr (s\<lparr>pw_shown := pw_shown s @ [msg], pw_waiting := False\<rparr>)) in
      case r of
        Bytes b \<Rightarrow>
          if b = [] then closes ''Child process close the pipe''
          else
            let s = s\<lparr>pw_buf := overwrite (pw_buf s) b\<rparr> in
            bindr (undef_if (NUL \<notin> set (pw_buf s)) ''buf'' s) (\<lambda>s.
            Inr (s\<lparr>pw_shown := pw_shown s @ [''Child process status: '' @ cstr (pw_buf s)]\<rparr>))
      | Eof \<Rightarrow> closes ''Child process close the pipe''
      | Interrupted \<Rightarrow> Inr s
      | ReadError \<Rightarrow> closes ''Child process terminated prematurely'')"

fun window_step :: "parent_window \<Rightarrow> window_pass \<Rightarrow> parent_window outcome" where
  "window_step s ParentSelectError = Inl (Exit 1 ''select error'', s)"
| "window_step s (ParentReady (Some r) pipe) = parent_typed r s"
| "window_step s (ParentReady None pipe) = (case pipe of None \<Rightarrow> Inr s | Some r \<Rightarrow> parent_piped r s)"

section \<open>The echo comes back\<close>

text \<open>
  Client, connection and server thread together. The connection delivers what was sent on each
  side in order: a read takes the next bytes, or finds the end when the other side is closed and
  everything has been taken.
\<close>

record echo_system =
  sy_client :: echo_client
  sy_thread :: echo_thread
  sy_read :: nat
  sy_echoed :: nat

text \<open>What a read at position \<open>n\<close> of a stream may return; \<open>breaks\<close>: the connection can fail.\<close>

definition next_bytes :: "bool \<Rightarrow> string \<Rightarrow> nat \<Rightarrow> bool \<Rightarrow> rd \<Rightarrow> bool" where
  "next_bytes breaks stream n ended r =
     (case r of
        Bytes b \<Rightarrow> b \<noteq> [] \<and> take (length b) (drop n stream) = b
      | Eof \<Rightarrow> ended \<and> n = length stream
      | Interrupted \<Rightarrow> True
      | ReadError \<Rightarrow> breaks)"

definition taken :: "rd \<Rightarrow> nat" where
  "taken r = (case r of Bytes b \<Rightarrow> length b | _ \<Rightarrow> 0)"

inductive echo_reach :: "bool \<Rightarrow> (string \<Rightarrow> string) \<Rightarrow> echo_system \<Rightarrow> bool" for breaks beyond where
  start: "c = \<lparr>ec_flag = False, ec_sent = [], ec_shut = False, ec_screen = [], ec_pipe = [], ec_running = True\<rparr> \<Longrightarrow>
     t = \<lparr>et_out = [], et_open = True\<rparr> \<Longrightarrow>
     echo_reach breaks beyond \<lparr>sy_client = c, sy_thread = t, sy_read = 0, sy_echoed = 0\<rparr>"
| server: "echo_reach breaks beyond S \<Longrightarrow> et_open (sy_thread S) \<Longrightarrow>
     next_bytes breaks (ec_sent (sy_client S)) (sy_read S) (ec_shut (sy_client S)) r \<Longrightarrow>
     echo_read True r (sy_thread S) = Inr t \<Longrightarrow>
     echo_reach breaks beyond (S\<lparr>sy_thread := t, sy_read := sy_read S + taken r\<rparr>)"
| client: "echo_reach breaks beyond S \<Longrightarrow>
     (case srv of None \<Rightarrow> True
      | Some r \<Rightarrow> next_bytes breaks (et_out (sy_thread S)) (sy_echoed S) (\<not> et_open (sy_thread S)) r) \<Longrightarrow>
     ec_running (sy_client S) \<Longrightarrow>
     echo_cli_step beyond (sy_client S) (EchoReady srv usr w) = Inr c \<Longrightarrow>
     echo_reach breaks beyond (S\<lparr>sy_client := c,
       sy_echoed := sy_echoed S + (case srv of None \<Rightarrow> 0 | Some r \<Rightarrow> taken r)\<rparr>)"

definition echo_inv :: "bool \<Rightarrow> echo_system \<Rightarrow> bool" where
  "echo_inv breaks S \<longleftrightarrow>
     sy_read S \<le> length (ec_sent (sy_client S)) \<and> et_out (sy_thread S) = take (sy_read S) (ec_sent (sy_client S))
     \<and> sy_echoed S \<le> length (et_out (sy_thread S)) \<and> ec_screen (sy_client S) = take (sy_echoed S) (et_out (sy_thread S))
     \<and> (ec_shut (sy_client S) \<longrightarrow> ec_flag (sy_client S))
     \<and> (\<not> breaks \<and> \<not> et_open (sy_thread S) \<longrightarrow>
          ec_shut (sy_client S) \<and> sy_read S = length (ec_sent (sy_client S)))
     \<and> (\<not> breaks \<and> \<not> ec_running (sy_client S) \<longrightarrow>
          \<not> et_open (sy_thread S) \<and> sy_echoed S = length (et_out (sy_thread S)))"

abbreviation new_bytes :: "rd \<Rightarrow> string" where
  "new_bytes r \<equiv> (case r of Bytes b \<Rightarrow> b | _ \<Rightarrow> [])"

lemma next_bytes_taken:
  assumes "next_bytes breaks xs n e r" and "n \<le> length xs"
  shows "n + taken r \<le> length xs \<and> take (n + taken r) xs = take n xs @ new_bytes r"
proof (cases r)
  case (Bytes b)
  with assms have b: "take (length b) (drop n xs) = b" by (simp add: next_bytes_def)
  then have "length b \<le> length xs - n" by (metis length_drop length_take min.absorb_iff1 min.commute)
  with b Bytes assms(2) show ?thesis by (simp add: taken_def take_add)
qed (use assms in \<open>simp_all add: taken_def\<close>)

lemma echo_read_Inr:
  assumes "echo_read True r t = Inr u" and "et_open t" and "next_bytes breaks xs n e r"
  shows "et_out u = et_out t @ new_bytes r \<and> (et_open u \<longleftrightarrow> r \<noteq> Eof \<and> r \<noteq> ReadError)"
  using assms by (cases r) (auto simp: echo_read_def next_bytes_def)

lemma tell_simps [simp]:
  "ec_flag (tell b m n s) = ec_flag s" "ec_sent (tell b m n s) = ec_sent s" "ec_shut (tell b m n s) = ec_shut s"
  "ec_screen (tell b m n s) = ec_screen s" "ec_running (tell b m n s) = ec_running s"
  by (simp_all add: tell_def)

lemma from_server_Inr:
  assumes "echo_from_server beyond w r s = Inr t" and "next_bytes breaks xs n e r"
  shows "ec_screen t = ec_screen s @ new_bytes r \<and> ec_sent t = ec_sent s \<and> ec_shut t = ec_shut s
    \<and> ec_flag t = ec_flag s \<and> (ec_running t \<longleftrightarrow> ec_running s \<and> r \<noteq> Eof)"
  using assms by (cases r) (auto simp: echo_from_server_def next_bytes_def bind_iff split: if_splits)

lemma from_user_Inr:
  assumes "echo_from_user beyond w r s = Inr t"
  shows "\<exists>b. ec_sent t = ec_sent s @ b \<and> ec_screen t = ec_screen s \<and> ec_running t = ec_running s
    \<and> (ec_shut t \<longrightarrow> ec_flag t \<or> ec_shut s) \<and> (ec_flag s \<longrightarrow> ec_flag t)"
  using assms by (cases r) (auto simp: echo_from_user_def bind_iff split: if_splits)

text \<open>One pass of the client, with the part that comes from the server first.\<close>

lemma echo_cli_step_Inr:
  assumes "echo_cli_step beyond s (EchoReady srv usr w) = Inr t" and "ec_running s"
    and "case srv of None \<Rightarrow> True | Some r \<Rightarrow> next_bytes breaks xs n e r"
  shows "ec_screen t = ec_screen s @ (case srv of None \<Rightarrow> [] | Some r \<Rightarrow> new_bytes r)
    \<and> (ec_running t \<longleftrightarrow> srv \<noteq> Some Eof) \<and> (ec_shut s \<longrightarrow> ec_flag s \<longrightarrow> ec_shut t \<and> ec_flag t \<and> ec_sent t = ec_sent s)
    \<and> (\<exists>b. ec_sent t = ec_sent s @ b) \<and> (ec_shut t \<longrightarrow> ec_flag t \<or> ec_shut s) \<and> (ec_flag s \<longrightarrow> ec_flag t)"
proof -
  obtain u where u: "(case srv of None \<Rightarrow> Inr s | Some r \<Rightarrow> echo_from_server beyond w r s) = Inr u"
    and t: "(case usr of None \<Rightarrow> Inr u
      | Some r \<Rightarrow> if ec_running u \<and> \<not> ec_flag u then echo_from_user beyond w r u else Inr u) = Inr t"
    using assms(1,2) by (auto simp: bind_iff)
  have s: "ec_screen u = ec_screen s @ (case srv of None \<Rightarrow> [] | Some r \<Rightarrow> new_bytes r) \<and> ec_sent u = ec_sent s
      \<and> ec_shut u = ec_shut s \<and> ec_flag u = ec_flag s \<and> (ec_running u \<longleftrightarrow> srv \<noteq> Some Eof)"
    using u assms(2,3) from_server_Inr by (cases srv) fastforce+
  show ?thesis
  proof (cases "t = u")
    case True
    with s show ?thesis by auto
  next
    case False
    with t obtain r where "\<not> ec_flag u" "echo_from_user beyond w r u = Inr t"
      by (auto split: option.splits if_splits)
    with from_user_Inr [OF this(2)] s show ?thesis by auto
  qed
qed

lemma echo_reach_inv: "echo_reach breaks beyond S \<Longrightarrow> echo_inv breaks S"
proof (induction rule: echo_reach.induct)
  case (start c t)
  then show ?case by (simp add: echo_inv_def)
next
  case (server S r t)
  have i: "sy_read S \<le> length (ec_sent (sy_client S))" using server.IH by (simp add: echo_inv_def)
  note n = next_bytes_taken [OF server.hyps(3) i] echo_read_Inr [OF server.hyps(4,2,3)]
  have fin: "\<not> breaks \<Longrightarrow> r \<noteq> ReadError"
      "r = Eof \<Longrightarrow> ec_shut (sy_client S) \<and> sy_read S = length (ec_sent (sy_client S))"
    using server.hyps(3) by (auto simp: next_bytes_def)
  show ?case using server.IH n fin server.hyps(2) by (auto simp: echo_inv_def taken_def)
next
  case (client S srv usr c)
  have i: "sy_echoed S \<le> length (et_out (sy_thread S))" using client.IH unfolding echo_inv_def by blast
  note n = echo_cli_step_Inr [OF client.hyps(4,3,2)]
  have m: "sy_echoed S + (case srv of None \<Rightarrow> 0 | Some r \<Rightarrow> taken r) \<le> length (et_out (sy_thread S))
      \<and> take (sy_echoed S + (case srv of None \<Rightarrow> 0 | Some r \<Rightarrow> taken r)) (et_out (sy_thread S))
        = take (sy_echoed S) (et_out (sy_thread S)) @ (case srv of None \<Rightarrow> [] | Some r \<Rightarrow> new_bytes r)"
    using client.hyps(2) next_bytes_taken [OF _ i] i by (cases srv) auto
  have fin: "srv = Some Eof \<Longrightarrow> \<not> et_open (sy_thread S) \<and> sy_echoed S = length (et_out (sy_thread S)) \<and> taken Eof = 0"
    using client.hyps(2) by (auto simp: next_bytes_def taken_def)
  show ?case
    unfolding echo_inv_def echo_system.simps
    using client.IH [unfolded echo_inv_def] n m fin client.hyps(3)
    by (intro conjI) auto
qed

text \<open>
  C7. What the echo client shows is what the user typed: at every moment the text on the screen
  is a beginning of what was sent to the server, in the same order and nothing twice; and when
  the connection does not break and the client has ended, it is all of it.
\<close>
theorem echo_comes_back:
  assumes "echo_reach breaks beyond S"
  shows "(\<exists>rest. ec_sent (sy_client S) = ec_screen (sy_client S) @ rest)
    \<and> (\<not> breaks \<and> \<not> ec_running (sy_client S) \<longrightarrow> ec_screen (sy_client S) = ec_sent (sy_client S))"
proof -
  have inv: "echo_inv breaks S" by (rule echo_reach_inv [OF assms])
  then have "ec_screen (sy_client S) = take (min (sy_echoed S) (sy_read S)) (ec_sent (sy_client S))"
    by (simp add: echo_inv_def)
  then have "ec_sent (sy_client S) = ec_screen (sy_client S) @ drop (min (sy_echoed S) (sy_read S)) (ec_sent (sy_client S))"
    by simp
  moreover have "ec_screen (sy_client S) = ec_sent (sy_client S)" if "\<not> breaks" "\<not> ec_running (sy_client S)"
    using inv that by (simp add: echo_inv_def)
  ultimately show ?thesis by blast
qed

text \<open>The user types a word, it comes back, and the user ends the input.\<close>

theorem echo_comes_back_witness:
  "\<exists>S. echo_reach False (\<lambda>_. []) S \<and> ec_screen (sy_client S) = ''hi'' \<and> \<not> ec_running (sy_client S)"
proof -
  let ?b = "\<lambda>_ :: string. [] :: string"
  let ?w = "\<lparr>ew_shown = True, ew_sent = True, ew_shut = True, ew_told = True, ew_told_user = True\<rparr>"
  let ?S0 = "\<lparr>sy_client = \<lparr>ec_flag = False, ec_sent = [], ec_shut = False, ec_screen = [], ec_pipe = [], ec_running = True\<rparr>,
    sy_thread = \<lparr>et_out = [], et_open = True\<rparr>, sy_read = 0, sy_echoed = 0\<rparr>"
  have r0: "echo_reach False ?b ?S0" by (rule echo_reach.start) simp_all
  have step: "\<exists>c. echo_cli_step ?b s (EchoReady None (Some (Bytes ''hi'')) ?w) = Inr c \<and> ec_sent c = ec_sent s @ ''hi''
      \<and> ec_screen c = ec_screen s \<and> ec_flag c = ec_flag s \<and> ec_shut c = ec_shut s \<and> ec_running c"
    if "ec_running s" "\<not> ec_flag s" for s
    using that by (simp add: echo_from_user_def)
  obtain c1 where c1: "echo_cli_step ?b (sy_client ?S0) (EchoReady None (Some (Bytes ''hi'')) ?w) = Inr c1"
      "ec_sent c1 = ''hi''" "ec_screen c1 = []" "\<not> ec_flag c1" "\<not> ec_shut c1" "ec_running c1"
    using step [of "sy_client ?S0"] by auto
  have r1: "echo_reach False ?b \<lparr>sy_client = c1, sy_thread = \<lparr>et_out = [], et_open = True\<rparr>, sy_read = 0, sy_echoed = 0\<rparr>"
    using echo_reach.client [OF r0, of None "Some (Bytes ''hi'')" ?w c1] c1(1) by simp
  have r2: "echo_reach False ?b \<lparr>sy_client = c1, sy_thread = \<lparr>et_out = ''hi'', et_open = True\<rparr>, sy_read = 2, sy_echoed = 0\<rparr>"
    using echo_reach.server [OF r1, of "Bytes ''hi''" "\<lparr>et_out = ''hi'', et_open = True\<rparr>"] c1(2)
    by (simp add: next_bytes_def taken_def echo_read_def numeral_2_eq_2)
  obtain c2 where c2: "echo_cli_step ?b c1 (EchoReady (Some (Bytes ''hi'')) (Some Eof) ?w) = Inr c2"
      "ec_sent c2 = ''hi''" "ec_screen c2 = ''hi''" "ec_shut c2" "ec_running c2"
    using c1 by (simp add: echo_from_server_def echo_from_user_def)
  have r3: "echo_reach False ?b \<lparr>sy_client = c2, sy_thread = \<lparr>et_out = ''hi'', et_open = True\<rparr>, sy_read = 2, sy_echoed = 2\<rparr>"
    using echo_reach.client [OF r2, of "Some (Bytes ''hi'')" "Some Eof" ?w c2] c1(6) c2(1)
    by (simp add: next_bytes_def taken_def numeral_2_eq_2)
  have r4: "echo_reach False ?b \<lparr>sy_client = c2, sy_thread = \<lparr>et_out = ''hi'', et_open = False\<rparr>, sy_read = 2, sy_echoed = 2\<rparr>"
    using echo_reach.server [OF r3, of Eof "\<lparr>et_out = ''hi'', et_open = False\<rparr>"] c2
    by (simp add: next_bytes_def taken_def echo_read_def numeral_2_eq_2)
  obtain c3 where c3: "echo_cli_step ?b c2 (EchoReady (Some Eof) None ?w) = Inr c3" "\<not> ec_running c3"
    using c2(5) by (simp add: echo_from_server_def)
  let ?S = "\<lparr>sy_client = c3, sy_thread = \<lparr>et_out = ''hi'', et_open = False\<rparr>, sy_read = 2, sy_echoed = 2\<rparr>"
  have r5: "echo_reach False ?b ?S"
    using echo_reach.client [OF r4, of "Some Eof" None ?w c3] c2(5) c3(1) by (simp add: next_bytes_def taken_def numeral_2_eq_2)
  have "ec_sent c3 = ''hi''" using c2 c3(1) by (auto simp: echo_from_server_def)
  with echo_comes_back [OF r5] c3(2) r5 show ?thesis by (intro exI [of _ ?S]) simp
qed

text \<open>
  No service can be chosen within the bounds of the language: each of the words \<^verbatim>\<open>echo\<close>,
  \<^verbatim>\<open>time\<close> and \<^verbatim>\<open>quit\<close> needs five bytes, the buffer has four. Whatever shorter words come
  before it, the first accepted word overruns the buffer.
\<close>
theorem every_choice_overruns:
  assumes "\<forall>x \<in> set ws. \<exists>w. x = Interrupt \<or> x = Word w \<and> length w < 4" and "w \<in> {''echo'', ''time'', ''quit''}"
  shows "choose_service old (ws @ Word w # rest) = Some (Inl (Undefined ''choice''))"
  using assms
proof (induction ws arbitrary: old)
  case Nil
  then show ?case by auto
next
  case (Cons x ws)
  have "chosen v = None" if "length v < 4" for v using that by (auto simp: chosen_def)
  with Cons show ?case by fastforce
qed

theorem every_choice_overruns_witness:
  "choose_service [] [Word ''ech'', Interrupt, Word ''echo''] = Some (Inl (Undefined ''choice''))"
  using every_choice_overruns [of "[Word ''ech'', Interrupt]" "''echo''" "[]" "[]"] by simp

end
