(* ===== verification/EchoStart.thy ===== *)
theory EchoStart
  imports EchoTime InetAddrProps
begin

text \<open>
  How \<^verbatim>\<open>tcpechotimecli.c\<close> starts a client in a window of its own, and how \<^verbatim>\<open>echo_cli.c\<close>
  begins: the descriptor of the pipe goes from one to the other as text.
\<close>

section \<open>The child process\<close>

datatype fork_result = ForkFailed | ForkChild | ForkParent

text \<open>
  What the calls return: \<^verbatim>\<open>signal\<close>, the two descriptors of \<^verbatim>\<open>pipe\<close>, \<^verbatim>\<open>fork\<close>, and
  whether \<^verbatim>\<open>execlp\<close> finds the program.
\<close>

record child_calls =
  cc_signal :: bool
  cc_pipe :: "(int \<times> int) option"
  cc_fork :: fork_result
  cc_exec :: bool

text \<open>
  What becomes of the process: the program it executes with its arguments, or the parent, which
  reads the pipe at a descriptor.
\<close>

datatype started = Executes "string list" | ReadsPipe int

definition client_program :: "service \<Rightarrow> string" where
  "client_program k = (case k of Time \<Rightarrow> ''./time_cli'' | Echo \<Rightarrow> ''./echo_cli'')"

text \<open>In the child the descriptor is printed into \<^verbatim>\<open>char pipe_port[4]\<close>.\<close>

definition exec_client :: "child_calls \<Rightarrow> service \<Rightarrow> string \<Rightarrow> int \<Rightarrow> (stop \<times> unit) + started" where
  "exec_client C k str fd =
     (let pipe_port = show_int fd in
      bindr (undef_if (length pipe_port \<ge> 4) ''pipe_port'' ()) (\<lambda>u.
      bindr (exit_if (\<not> cc_exec C) 1 ''TCPECHOTIMECLI: unable to execute an xterm'' u) (\<lambda>u.
      Inr (Executes [''xterm'', ''-e'', client_program k, str, pipe_port]))))"

definition start_client :: "child_calls \<Rightarrow> service \<Rightarrow> string \<Rightarrow> (stop \<times> unit) + started" where
  "start_client C k str =
     bindr (exit_if (\<not> cc_signal C) 1 ''TCPECHOTIMECLI: unable to catch SIGCHLD signal'' ()) (\<lambda>u.
     case cc_pipe C of
       None \<Rightarrow> Inl (Exit 1 ''TCPECHOTIMECLI: pipe failed'', u)
     | Some (rd_end, wr_end) \<Rightarrow>
        (case cc_fork C of
           ForkFailed \<Rightarrow> Inl (Exit 1 ''TCPECHOTIMECLI: fork failed'', u)
         | ForkChild \<Rightarrow> exec_client C k str wr_end
         | ForkParent \<Rightarrow> Inr (ReadsPipe rd_end)))"

section \<open>The start of the clients\<close>

text \<open>
  \<open>argv\<close> are the arguments behind the name of the program, \<open>junk\<close> what \<^verbatim>\<open>pipe_port\<close> holds
  when the second is no number. \<open>eo_connect\<close> says of each address and port whether \<^verbatim>\<open>connect\<close>
  succeeds. The result is the descriptor the status messages go to and the peer of the connection.
\<close>

record echo_calls =
  eo_socket :: bool
  eo_connect :: "u8 list \<times> nat \<Rightarrow> bool"

definition scan_port :: "int \<Rightarrow> string \<Rightarrow> int" where
  "scan_port junk arg = (case scan_int arg of None \<Rightarrow> junk | Some (i, _) \<Rightarrow> i)"

definition echo_main ::
  "(string \<Rightarrow> string) \<Rightarrow> int \<Rightarrow> echo_calls \<Rightarrow> string list \<Rightarrow> echo_client
    \<Rightarrow> (stop \<times> echo_client) + int \<times> (u8 list \<times> nat) \<times> echo_client" where
  "echo_main beyond junk E argv s =
     bindr (undef_if (length argv < 2) ''argv'' s) (\<lambda>s.
     let pipe_port = scan_port junk (argv ! 1) in
     bindr (exit_if (\<not> eo_socket E) 1 ''socket error'' s) (\<lambda>s.
     case Inet_pton AF_INET (argv ! 0) [0, 0, 0, 0] of
       Inl e \<Rightarrow> Inl (e, s)
     | Inr addr \<Rightarrow>
         if \<not> eo_connect E (addr, 55000)
         then Inl (Exit 1 [], tell beyond ''Server is not ready or is not reachable'' 50 s)
         else Inr (pipe_port, (addr, 55000), s)))"

definition time_main ::
  "(string \<Rightarrow> string) \<Rightarrow> int \<Rightarrow> echo_calls \<Rightarrow> string list \<Rightarrow> time_client
    \<Rightarrow> (stop \<times> time_client) + int \<times> (u8 list \<times> nat) \<times> time_client" where
  "time_main beyond junk E argv s =
     bindr (undef_if (length argv < 2) ''argv'' s) (\<lambda>s.
     let pipe_port = scan_port junk (argv ! 1) in
     if \<not> eo_socket E then Inl (Exit 1 [], tell_time beyond ''TIME_CLI: socket failed to open'' 40 s)
     else
       (case inet_pton AF_INET (argv ! 0) [0, 0, 0, 0] of
          Inl e \<Rightarrow> Inl (e, s)
        | Inr (n, addr) \<Rightarrow>
            if n < 0 then Inl (Exit 1 [], tell_time beyond ''TIME_CLI: inet_pton error'' 40 s)
            else if \<not> eo_connect E (addr, 50000)
            then Inl (Exit 1 [], tell_time beyond ''Server is not working or is not reachable'' 50 s)
            else Inr (pipe_port, (addr, 50000), s)))"

section \<open>The starter, the pipe and the clients together\<close>

lemma start_client_Executes:
  assumes "start_client C k str = Inr (Executes args)"
  obtains r w where "cc_pipe C = Some (r, w)" "args = [''xterm'', ''-e'', client_program k, str, show_int w]"
  using assms
  by (cases "cc_pipe C"; cases "cc_fork C") (auto simp: start_client_def exec_client_def Let_def bind_iff)

lemma scan_port_show [simp]: "scan_port junk (show_int w) = w"
  using scan_show_int [of "[]" w] by (simp add: scan_port_def)

lemma show4_back:
  assumes "length a = 4"
  shows "inet_pton AF_INET (show4 a) [0, 0, 0, 0] = Inr (1, a)"
  using assms show4_no_nul [of a] by (simp add: inet_pton_def inet_pton4_eq cstr_no_nul show4_quad overwrite_def)

lemma print_server_ok: "print_server a = Inr (show4 a)"
  using show4_length [of a] by (simp add: print_server_def inet_ntop_def inet_ntop4_def Let_def INET_ADDRSTRLEN_def)

text \<open>The address the starter works with: the argument itself, or what the resolver gives for it.\<close>

definition server_address :: "(string \<Rightarrow> u8 list option) \<Rightarrow> string \<Rightarrow> u8 list option" where
  "server_address byname arg = (case dotted_quad (cstr arg) of Some a \<Rightarrow> Some a | None \<Rightarrow> byname arg)"

lemma resolve_Inr:
  assumes "resolve argc byaddr byname junk arg = Inr str" and "length junk = 4"
  shows "\<exists>a. server_address byname arg = Some a \<and> str = show4 a"
proof (cases "dotted_quad (cstr arg)")
  case None
  then show ?thesis using assms(1)
    by (auto simp: resolve_def inet_pton_def inet_pton4_eq server_address_def print_server_ok split: if_splits option.splits)
next
  case (Some a)
  then have "length a = 4" by (rule dotted_quad_length)
  then have "overwrite junk a = a" using assms(2) by (simp add: overwrite_def)
  with Some show ?thesis using assms(1)
    by (auto simp: resolve_def inet_pton_def inet_pton4_eq server_address_def print_server_ok split: if_splits)
qed

text \<open>
  C25. A client started for a service connects to the very server the user named, at the port of the
  service, and reports through the pipe its starter reads: the address the starter finds for its
  argument, itself an address or a name of the resolver, goes as text through the arguments of the
  program and comes out of them unchanged, and so does the writing end of the pipe. The resolver
  gives addresses of four bytes.
\<close>
theorem client_connects_to_named_server:
  assumes "resolve argc byaddr byname junk arg = Inr str" and "length junk = 4"
    and "\<forall>n a. byname n = Some a \<longrightarrow> length a = 4"
    and "start_client C k str = Inr (Executes args)" and "eo_socket E" and "\<forall>p. eo_connect E p"
  shows "\<exists>a r w. server_address byname arg = Some a \<and> cc_pipe C = Some (r, w)
    \<and> start_client (C\<lparr>cc_fork := ForkParent\<rparr>) k str = Inr (ReadsPipe r)
    \<and> take 3 args = [''xterm'', ''-e'', client_program k]
    \<and> echo_main beyond old E (drop 3 args) s = Inr (w, (a, 55000), s)
    \<and> time_main beyond old E (drop 3 args) t = Inr (w, (a, 50000), t)"
proof -
  obtain r w where w: "cc_pipe C = Some (r, w)" "args = [''xterm'', ''-e'', client_program k, str, show_int w]"
    using assms(4) by (rule start_client_Executes)
  obtain a where a: "server_address byname arg = Some a" "str = show4 a"
    using resolve_Inr [OF assms(1,2)] by blast
  have "length a = 4" using a(1) assms(3) dotted_quad_length by (auto simp: server_address_def split: option.splits)
  note pton = show4_back [OF this]
  have "cc_signal C" using assms(4) by (auto simp: start_client_def bind_iff)
  then have "start_client (C\<lparr>cc_fork := ForkParent\<rparr>) k str = Inr (ReadsPipe r)" by (simp add: start_client_def w(1))
  moreover have "echo_main beyond old E (drop 3 args) s = Inr (w, (a, 55000), s)"
    using assms(5,6) by (simp add: echo_main_def Inet_pton_def w(2) a(2) pton)
  moreover have "time_main beyond old E (drop 3 args) t = Inr (w, (a, 50000), t)"
    using assms(5,6) by (simp add: time_main_def w(2) a(2) pton)
  ultimately show ?thesis using w a(1) by simp
qed

definition example_calls :: child_calls where
  "example_calls = \<lparr>cc_signal = True, cc_pipe = Some (3, 4), cc_fork = ForkChild, cc_exec = True\<rparr>"

theorem client_connects_to_named_server_witness:
  "\<exists>a r w. server_address (\<lambda>_. None) ''10.0.0.1'' = Some a \<and> cc_pipe example_calls = Some (r, w)
    \<and> time_main (\<lambda>_. []) 0 \<lparr>eo_socket = True, eo_connect = (\<lambda>_. True)\<rparr> [''10.0.0.1'', ''4''] \<lparr>tc_screen = [], tc_pipe = []\<rparr>
      = Inr (w, (a, 50000), \<lparr>tc_screen = [], tc_pipe = []\<rparr>)"
proof -
  let ?E = "\<lparr>eo_socket = True, eo_connect = (\<lambda>_. True)\<rparr>"
  have r: "resolve 2 (\<lambda>_. True) (\<lambda>_. None) [9, 9, 9, 9] ''10.0.0.1'' = Inr ''10.0.0.1''" by code_simp
  have c: "start_client example_calls Time ''10.0.0.1'' = Inr (Executes [''xterm'', ''-e'', ''./time_cli'', ''10.0.0.1'', ''4''])"
    by code_simp
  from client_connects_to_named_server [OF r _ _ c, where E = ?E and beyond = "\<lambda>_. []" and old = 0
      and s = "undefined" and t = "\<lparr>tc_screen = [], tc_pipe = []\<rparr>"]
  show ?thesis by fastforce
qed

text \<open>
  Called with something that is no address, the time client does not notice and asks for a
  connection to the address 0.0.0.0; the echo client stops.
\<close>

theorem time_client_takes_any_text:
  assumes "dotted_quad (cstr text) = None" and "eo_socket E" and "eo_connect E ([0, 0, 0, 0], 50000)"
  shows "time_main beyond junk E [text, port] t = Inr (scan_port junk port, ([0, 0, 0, 0], 50000), t)"
    and "echo_main beyond junk E [text, port] s = Inl (Exit 1 (''inet_pton error for '' @ text), s)"
  using assms by (simp_all add: time_main_def echo_main_def Inet_pton_def inet_pton_def inet_pton4_eq)

text \<open>The thousandth descriptor and those behind it do not fit the buffer.\<close>

theorem large_descriptor_overruns:
  assumes "cc_signal C" and "cc_pipe C = Some (r, w)" and "cc_fork C = ForkChild" and "length (show_int w) \<ge> 4"
  shows "start_client C k str = Inl (Undefined ''pipe_port'', ())"
  using assms by (simp add: start_client_def exec_client_def Let_def)

end
