(* ===== verification/Api.thy ===== *)
theory Api
  imports CStrings
begin

text \<open>
  \<^verbatim>\<open>Assignment 3/Code/API.c\<close> and the two applications that use it: the interface between
  an application and the ODR daemon of its node, one datagram with the parameters as text, and
  the client (\<^verbatim>\<open>client.c\<close>) and time server (\<^verbatim>\<open>server.c\<close>) loops.
\<close>

section \<open>The interface\<close>

definition ETH_FRAME_LEN :: nat where "ETH_FRAME_LEN = 1514"

text \<open>\<^verbatim>\<open>sprintf(data, "%s %d %s %d", dst_addr, dst_port, sendmsg, flag)\<close>\<close>

definition format_send :: "string \<Rightarrow> int \<Rightarrow> string \<Rightarrow> int \<Rightarrow> string" where
  "format_send dst_addr dst_port sendmsg flag =
     cstr dst_addr @ [space] @ show_int dst_port @ [space] @ cstr sendmsg @ [space] @ show_int flag"

text \<open>
  \<open>sent\<close> is whether \<^verbatim>\<open>sendto\<close> succeeds; the result is what arrives at ODR.
\<close>

definition msg_send :: "bool \<Rightarrow> string \<Rightarrow> int \<Rightarrow> string \<Rightarrow> int \<Rightarrow> (stop \<times> unit) + string" where
  "msg_send sent dst_addr dst_port sendmsg flag =
     (let data = format_send dst_addr dst_port sendmsg flag in
      bindr (undef_if (length data \<ge> ETH_FRAME_LEN) ''data'' ()) (\<lambda>u.
      bindr (exit_if (data = []) 1 ''MSG_SEND: Failed to format parameters into a single data sequence'' u)
        (\<lambda>u.
      bindr (exit_if (\<not> sent) 1 ''MSG_SEND: Failed to send data sequence to local ODR'' u) (\<lambda>u.
      Inr data))))"

record received =
  recvmsg :: string
  src_addr :: string
  src_port :: int

text \<open>
  \<^verbatim>\<open>sscanf(data, "%s %s %d", recvmsg, src_addr, src_port)\<close>: the variables behind a
  conversion that fails keep their values; \<open>n\<close> is the size of the caller's \<open>recvmsg\<close>
  and 15 that of its \<open>src_addr\<close>.
\<close>

definition scan_received :: "nat \<Rightarrow> string \<Rightarrow> received \<Rightarrow> received outcome" where
  "scan_received n data v =
     (case scan_word data of
        None \<Rightarrow> Inr v
      | Some (m, rest) \<Rightarrow>
          bindr (undef_if (length m \<ge> n) ''recvmsg'' v) (\<lambda>v.
          let v = v\<lparr>recvmsg := m\<rparr> in
          (case scan_word rest of
             None \<Rightarrow> Inr v
           | Some (a, rest) \<Rightarrow>
               bindr (undef_if (length a \<ge> 15) ''src_addr'' v) (\<lambda>v.
               let v = v\<lparr>src_addr := a\<rparr> in
               (case scan_int rest of
                  None \<Rightarrow> Inr v
                | Some (p, rest) \<Rightarrow> Inr (v\<lparr>src_port := p\<rparr>))))))"

text \<open>
  \<open>garbage\<close> is what the uninitialised array \<open>data\<close> holds; the bytes of the datagram
  overwrite its beginning and nothing terminates them.
\<close>

definition msg_recv :: "string \<Rightarrow> nat \<Rightarrow> string option \<Rightarrow> received \<Rightarrow> received outcome" where
  "msg_recv garbage n bytes v =
     (case bytes of
        None \<Rightarrow> Inl (Exit 1 ''MSG_RECV: Failed to receive data sequence from local ODR'', v)
      | Some b \<Rightarrow> scan_received n (cstr (overwrite garbage (take ETH_FRAME_LEN b))) v)"

section \<open>The nodes\<close>

definition vm_addr :: "string list" where
  "vm_addr = [''130.245.156.21'', ''130.245.156.22'', ''130.245.156.23'', ''130.245.156.24'',
     ''130.245.156.25'', ''130.245.156.26'', ''130.245.156.27'', ''130.245.156.28'',
     ''130.245.156.29'', ''130.245.156.20'']"

text \<open>
  The search for the node with a given address; \<open>old\<close> is the value the variable keeps when
  there is none.
\<close>

definition vm_index :: "string \<Rightarrow> int \<Rightarrow> int" where
  "vm_index addr old =
     (let i = index_of (\<lambda>a. a = cstr addr) vm_addr in if i < 10 then int i + 1 else old)"

definition vm_at :: "int \<Rightarrow> string option" where
  "vm_at n = (if 1 \<le> n \<and> n \<le> 10 then Some (vm_addr ! nat (n - 1)) else None)"

section \<open>The time server\<close>

record server =
  s_node :: int
  s_recv :: int
  s_vars :: received
  s_out :: "string list"

text \<open>
  One request: \<open>now\<close> is the text \<^verbatim>\<open>ctime\<close> gives, of which 24 characters are sent.
\<close>

definition time_msg :: "string \<Rightarrow> string" where
  "time_msg now = take 24 (cstr now) @ [char_of (13::nat), char_of (10::nat)]"

definition serve :: "string \<Rightarrow> string option \<Rightarrow> string \<Rightarrow> bool \<Rightarrow> server \<Rightarrow> server outcome" where
  "serve garbage bytes now sent s =
     (case msg_recv garbage ETH_FRAME_LEN bytes (s_vars s) of
        Inl (e, v) \<Rightarrow> Inl (e, s\<lparr>s_vars := v\<rparr>)
      | Inr v \<Rightarrow>
          let s = s\<lparr>s_vars := v, s_recv := vm_index (src_addr v) (s_recv s)\<rparr> in
          (case vm_at (s_recv s) of
             None \<Rightarrow> Inl (Undefined ''vm_addr'', s)
           | Some a \<Rightarrow>
              (case msg_send sent a (src_port v) (time_msg now) 0 of
                 Inl (e, u) \<Rightarrow> Inl (e, s)
               | Inr d \<Rightarrow> Inr (s\<lparr>s_out := s_out s @ [d]\<rparr>))))"

section \<open>The client\<close>

datatype client_pc = Choose | AwaitReply

record client =
  k_node :: int
  k_send :: int
  k_recv :: int
  k_vars :: received
  k_out :: "string list"
  k_pc :: client_pc

datatype client_event =
    UserInput "int option" bool
  | ReplyTimeout bool
  | SelectFails
  | Reply string "string option"

definition ask_vm :: "bool \<Rightarrow> int \<Rightarrow> client \<Rightarrow> client outcome" where
  "ask_vm sent flag s =
     (case vm_at (k_send s) of
        None \<Rightarrow> Inl (Undefined ''vm_addr'', s)
      | Some a \<Rightarrow>
         (case msg_send sent a 5000 ''HI'' flag of
            Inl (e, u) \<Rightarrow> Inl (e, s)
          | Inr d \<Rightarrow> Inr (s\<lparr>k_out := k_out s @ [d], k_pc := AwaitReply\<rparr>)))"

fun client_step :: "client \<Rightarrow> client_event \<Rightarrow> client outcome" where
  "client_step s (UserInput n sent) =
     (if k_pc s = Choose
      then (case n of None \<Rightarrow> Inl (Exit 1 ''CLIENT: Failed to receive user input'', s)
            | Some n \<Rightarrow> ask_vm sent 0 (s\<lparr>k_send := n\<rparr>))
      else Inr s)"
| "client_step s (ReplyTimeout sent) = (if k_pc s = AwaitReply then ask_vm sent 1 s else Inr s)"
| "client_step s SelectFails =
     (if k_pc s = AwaitReply then Inl (Exit 1 ''CLIENT: Failed to read from local ODR'', s) else Inr s)"
| "client_step s (Reply garbage bytes) =
     (if k_pc s = AwaitReply
      then (case msg_recv garbage (ETH_FRAME_LEN + 1) bytes (k_vars s) of
              Inl (e, v) \<Rightarrow> Inl (e, s\<lparr>k_vars := v\<rparr>)
            | Inr v \<Rightarrow> Inr (s\<lparr>k_vars := v, k_recv := vm_index (src_addr v) (k_recv s), k_pc := Choose\<rparr>))
      else Inr s)"

section \<open>Properties\<close>

definition word :: "string \<Rightarrow> bool" where
  "word w \<longleftrightarrow> w \<noteq> [] \<and> (\<forall>c \<in> set w. \<not> is_space c \<and> c \<noteq> NUL)"

lemma word_cstr: "word w \<Longrightarrow> cstr w = w"
  by (intro cstr_no_nul) (auto simp: word_def)

lemma scan_word_first: "word w \<Longrightarrow> scan_word (w @ space # rest) = Some (w, space # rest)"
  by (rule scan_word_word) (auto simp: word_def space_def is_space_def)

lemma space_not_digit: "\<not> is_digit space"
  by (simp add: is_digit_def space_def)

lemma scan_int_first: "scan_int (show_int i @ space # rest) = Some (i, space # rest)"
  by (rule scan_show_int) (simp add: space_not_digit)

lemma vm_addr_words: "a \<in> set vm_addr \<Longrightarrow> word a \<and> length a = 14"
  by (auto simp: vm_addr_def word_def is_space_def)

end
