(* ===== verification/Odr.thy ===== *)
theory Odr
  imports Api
begin

text \<open>
  \<^verbatim>\<open>Assignment 3/Code/ODR.c\<close>: the on-demand routing daemon of a node. It hears requests of
  local applications on a UNIX socket and Ethernet frames on the raw socket of every interface,
  keeps a routing table and a table of local ports, and floods, answers and relays route requests
  (RREQ), route replies (RREP) and application payloads.

  Numbers inside a frame are in network byte order. An \<^verbatim>\<open>int\<close> field that the code compares
  with the result of \<^verbatim>\<open>ntohl\<close> is a word, because the comparison is unsigned.
\<close>

section \<open>Data\<close>

type_synonym mac = "u8 list"

record routing_entry =
  r_dst_addr :: string
  next_hop :: mac
  outgoing_if :: int
  hop_cnt :: u32
  r_broadcast_id :: u32

record port_entry =
  pt_port :: u32
  pt_path :: string

record RREQ =
  q_src_addr :: string
  q_dst_addr :: string
  q_src_port :: u32
  q_broadcast_id :: u32
  q_hop_cnt :: u32
  q_RREP_sent :: u32
  q_discovery :: u32

record RREP =
  p_src_addr :: string
  p_dst_addr :: string
  p_dst_port :: u32
  p_hop_cnt :: u32
  p_discovery :: u32

record payload =
  l_src_addr :: string
  l_dst_addr :: string
  l_src_port :: u32
  l_dst_port :: u32
  l_hop_cnt :: u32
  l_len :: u32
  l_message :: string

text \<open>
  A frame: the two addresses of its header and the message, whose constructor stands for the
  header's \<open>type\<close>.
\<close>

datatype body = Rreq RREQ | Rrep RREP | Load payload

record frame =
  dst_mac :: mac
  src_mac :: mac
  f_body :: body

text \<open>What the daemon sends: a frame on an interface (counted from 0), text to a local path.\<close>

datatype action = Raw nat frame | Local string string

text \<open>
  The variables of \<^verbatim>\<open>main\<close> and the globals; \<open>o_ports\<close> is the used part
  \<^verbatim>\<open>port_table[0..port_cnt]\<close>.
\<close>

record odr =
  o_node :: nat
  o_ifs :: "mac list"
  o_table :: "routing_entry list"
  o_ports :: "port_entry list"
  o_broadcast_id :: u32
  o_port :: u32
  o_recvmsg :: string
  o_dst_addr :: string
  o_dst_port :: int
  o_message :: string
  o_flag :: int
  o_localaddr :: string
  o_out :: "action list"

definition broadcast :: mac where "broadcast = replicate 6 0xff"

definition own_addr :: "odr \<Rightarrow> string" where
  "own_addr s = vm_addr ! (o_node s - 1)"

definition find_route :: "string \<Rightarrow> odr \<Rightarrow> nat" where
  "find_route addr s = index_of (\<lambda>e. cstr (r_dst_addr e) = cstr addr) (o_table s)"

text \<open>\<^verbatim>\<open>if_addr[k-3]\<close> and \<^verbatim>\<open>if_fd[k-3]\<close> exist for the interfaces of the node only.\<close>

definition if_slot :: "int \<Rightarrow> odr \<Rightarrow> nat option" where
  "if_slot k s = (if 3 \<le> k \<and> nat (k - 3) < length (o_ifs s) then Some (nat (k - 3)) else None)"

definition with_if :: "string \<Rightarrow> int \<Rightarrow> odr \<Rightarrow> (nat \<Rightarrow> odr outcome) \<Rightarrow> odr outcome" where
  "with_if what k s f = (case if_slot k s of None \<Rightarrow> Inl (Undefined what, s) | Some i \<Rightarrow> f i)"

definition with_entry :: "nat \<Rightarrow> odr \<Rightarrow> (routing_entry \<Rightarrow> odr outcome) \<Rightarrow> odr outcome" where
  "with_entry n s f =
     (if n < length (o_table s) then f (o_table s ! n) else Inl (Undefined ''routing_table'', s))"

definition set_entry :: "nat \<Rightarrow> routing_entry \<Rightarrow> odr \<Rightarrow> odr" where
  "set_entry n e s = s\<lparr>o_table := (o_table s)[n := e]\<rparr>"

section \<open>Sending\<close>

text \<open>\<open>E n\<close>: the \<open>n\<close>-th \<^verbatim>\<open>sendto\<close> of the process succeeds.\<close>

type_synonym sends = "nat \<Rightarrow> bool"

definition emit :: "sends \<Rightarrow> string \<Rightarrow> action \<Rightarrow> odr \<Rightarrow> odr outcome" where
  "emit E msg a s =
     (if E (length (o_out s)) then Inr (s\<lparr>o_out := o_out s @ [a]\<rparr>) else Inl (Exit 1 msg, s))"

definition raw_failed :: string where
  "raw_failed = ''ODR: Failed to send Ethernet frame through interface socket''"

definition send_frame :: "sends \<Rightarrow> nat \<Rightarrow> mac \<Rightarrow> mac \<Rightarrow> body \<Rightarrow> odr \<Rightarrow> odr outcome" where
  "send_frame E i dst src b s = emit E raw_failed (Raw i \<lparr>dst_mac = dst, src_mac = src, f_body = b\<rparr>) s"

text \<open>A message along the route in table entry \<open>n\<close>.\<close>

definition send_along :: "sends \<Rightarrow> string \<Rightarrow> nat \<Rightarrow> body \<Rightarrow> odr \<Rightarrow> odr outcome" where
  "send_along E msg n b s =
     with_entry n s (\<lambda>e.
     with_if ''if_addr'' (outgoing_if e) s (\<lambda>k. emit E msg (Raw k \<lparr>dst_mac = next_hop e, src_mac = o_ifs s ! k, f_body = b\<rparr>) s))"

text \<open>A broadcast on the interfaces listed.\<close>

definition flood :: "sends \<Rightarrow> nat list \<Rightarrow> RREQ \<Rightarrow> odr \<Rightarrow> odr outcome" where
  "flood E ks q s = run_list (\<lambda>k s. send_frame E k broadcast (o_ifs s ! k) (Rreq q) s) ks s"

section \<open>Requests and replies of local applications\<close>

text \<open>
  \<^verbatim>\<open>sscanf(recvmsg, "%s %d %s %d", dst_addr, &dst_port, message, &flag)\<close>: what a failing
  conversion leaves keeps its value. \<open>recvmsg\<close> is never terminated, so the text ends where
  an older, longer one did.
\<close>

definition parse_local :: "string \<Rightarrow> odr \<Rightarrow> odr outcome" where
  "parse_local text s =
     (case scan_word text of
        None \<Rightarrow> Inr s
      | Some (a, rest) \<Rightarrow>
          bindr (undef_if (length a \<ge> 15) ''dst_addr'' s) (\<lambda>s.
          let s = s\<lparr>o_dst_addr := a\<rparr> in
          (case scan_int rest of
             None \<Rightarrow> Inr s
           | Some (p, rest) \<Rightarrow>
               let s = s\<lparr>o_dst_port := p\<rparr> in
               (case scan_word rest of
                  None \<Rightarrow> Inr s
                | Some (m, rest) \<Rightarrow>
                    let s = s\<lparr>o_message := m\<rparr> in
                    (case scan_int rest of None \<Rightarrow> Inr s | Some (f, rest) \<Rightarrow> Inr (s\<lparr>o_flag := f\<rparr>))))))"

definition send_payload :: "sends \<Rightarrow> nat \<Rightarrow> u32 \<Rightarrow> u32 \<Rightarrow> odr \<Rightarrow> odr outcome" where
  "send_payload E number from_port to_port s =
     bindr (undef_if (length (cstr (o_message s)) \<ge> 25) ''load->message'' s) (\<lambda>s.
     send_along E ''ODR: Failed to send Ethernet frame throught interface socket'' number
       (Load \<lparr>l_src_addr = own_addr s, l_dst_addr = o_dst_addr s, l_src_port = htonl from_port,
          l_dst_port = htonl to_port, l_hop_cnt = htonl 0, l_len = htonl 4096,
          l_message = cstr (o_message s)\<rparr>) s)"

definition server_reply :: "sends \<Rightarrow> odr \<Rightarrow> odr outcome" where
  "server_reply E s =
     send_payload E (find_route (o_dst_addr s) s) 5000 (word_of_int (o_dst_port s)) s"

text \<open>The port of the client at \<open>index\<close>, which gets the next free one if it is new.\<close>

definition register_client :: "nat \<Rightarrow> odr \<Rightarrow> odr outcome" where
  "register_client index s =
     (if index = length (o_ports s)
      then bindr (undef_if (length (o_ports s) \<ge> 10) ''port_table'' s) (\<lambda>s.
           bindr (undef_if (length (cstr (o_localaddr s)) \<ge> 15) ''sun_path'' s) (\<lambda>s.
           Inr (s\<lparr>o_ports := o_ports s @ [\<lparr>pt_port = o_port s, pt_path = cstr (o_localaddr s)\<rparr>],
                  o_port := o_port s + 1\<rparr>)))
      else Inr s)"

definition client_request :: "sends \<Rightarrow> nat \<Rightarrow> odr \<Rightarrow> odr outcome" where
  "client_request E index s =
     bindr (register_client index s) (\<lambda>s.
     let number = find_route (o_dst_addr s) s;
         from_port = pt_port (o_ports s ! index);
         route_exist = (number < 10 \<and> outgoing_if (o_table s ! number) \<noteq> 0 \<and> o_flag s = 0) in
     if route_exist then send_payload E number from_port 5000 s
     else
       let s = s\<lparr>o_broadcast_id := o_broadcast_id s + 1\<rparr>;
           q = \<lparr>q_src_addr = own_addr s, q_dst_addr = o_dst_addr s, q_src_port = htonl from_port,
                q_broadcast_id = htonl (o_broadcast_id s), q_hop_cnt = htonl 0, q_RREP_sent = htonl 0,
                q_discovery = htonl (if o_flag s = 1 then 1 else 0)\<rparr>
       in flood E [0..<length (o_ifs s)] q s)"

text \<open>
  A datagram on the UNIX socket (\<open>None\<close>: \<^verbatim>\<open>recvfrom\<close> fails) with the path of its sender.
\<close>

definition on_local :: "sends \<Rightarrow> (string \<times> string) option \<Rightarrow> odr \<Rightarrow> odr outcome" where
  "on_local E msg s =
     (case msg of
        None \<Rightarrow> Inl (Exit 1 ''ODR: Failed to receive data sequence from UNIX domain socket'', s)
      | Some (bytes, path) \<Rightarrow>
          let s = s\<lparr>o_recvmsg := overwrite (o_recvmsg s) bytes, o_localaddr := path\<rparr> in
          bindr (parse_local (cstr (o_recvmsg s)) s) (\<lambda>s.
          let index = index_of (\<lambda>p. cstr (pt_path p) = cstr (o_localaddr s)) (o_ports s) in
          if index = 0 then server_reply E s else client_request E index s))"

section \<open>Route requests\<close>

definition better :: "u32 \<Rightarrow> u32 \<Rightarrow> nat \<Rightarrow> routing_entry \<Rightarrow> bool" where
  "better discovery hops i e \<longleftrightarrow>
     ntohl discovery = 1 \<or> outgoing_if e = 0 \<or> hop_cnt e > ntohl hops + 1
     \<or> (hop_cnt e = ntohl hops + 1 \<and> outgoing_if e \<noteq> int i + 3)"

text \<open>The route to the sender of a frame from \<open>m\<close> on interface \<open>i\<close>, if it is better.\<close>

definition learn :: "u32 \<Rightarrow> u32 \<Rightarrow> nat \<Rightarrow> mac \<Rightarrow> string \<Rightarrow> odr \<Rightarrow> odr \<times> bool" where
  "learn discovery hops i m addr s =
     (let n = find_route addr s in
      if n < length (o_table s) \<and> better discovery hops i (o_table s ! n)
      then (set_entry n ((o_table s ! n)\<lparr>next_hop := m, outgoing_if := int i + 3,
                            hop_cnt := ntohl hops + 1\<rparr>) s, True)
      else (s, False))"

text \<open>
  The search for an entry of the destination with a route; when a new route is asked for
  (\<open>discovery\<close>), none will do.
\<close>

definition usable_route :: "RREQ \<Rightarrow> odr \<Rightarrow> nat" where
  "usable_route q s =
     index_of (\<lambda>e. cstr (q_dst_addr q) = cstr (r_dst_addr e) \<and> outgoing_if e \<noteq> 0 \<and> ntohl (q_discovery q) = 0)
       (o_table s)"

definition newer :: "RREQ \<Rightarrow> bool \<Rightarrow> routing_entry \<Rightarrow> bool" where
  "newer q efficient e \<longleftrightarrow> r_broadcast_id e < ntohl (q_broadcast_id q)
     \<or> (r_broadcast_id e = ntohl (q_broadcast_id q) \<and> efficient)"

definition others :: "nat \<Rightarrow> odr \<Rightarrow> nat list" where
  "others i s = [k \<leftarrow> [0..<length (o_ifs s)]. k \<noteq> i]"

definition one_hop_more :: "RREQ \<Rightarrow> RREQ" where
  "one_hop_more q = q\<lparr>q_hop_cnt := htonl (ntohl (q_hop_cnt q) + 1)\<rparr>"

definition note_broadcast :: "nat \<Rightarrow> RREQ \<Rightarrow> odr \<Rightarrow> odr outcome" where
  "note_broadcast n q s =
     with_entry n s (\<lambda>e. Inr (set_entry n (e\<lparr>r_broadcast_id := ntohl (q_broadcast_id q)\<rparr>) s))"

text \<open>
  The reply to a request: it leaves through interface \<open>i\<close> with the hardware address of the
  interface in entry \<open>n\<close>. The port in the request is in network byte order already.
\<close>

definition reply :: "sends \<Rightarrow> nat \<Rightarrow> nat \<Rightarrow> mac \<Rightarrow> RREQ \<Rightarrow> u32 \<Rightarrow> u32 \<Rightarrow> odr \<Rightarrow> odr outcome" where
  "reply E i n m q hops discovery s =
     with_entry n s (\<lambda>e.
     with_if ''if_addr'' (outgoing_if e) s (\<lambda>k.
     send_frame E i m (o_ifs s ! k)
       (Rrep \<lparr>p_src_addr = q_dst_addr q, p_dst_addr = q_src_addr q,
          p_dst_port = htonl (q_src_port q), p_hop_cnt = htonl hops, p_discovery = htonl discovery\<rparr>) s))"

text \<open>
  The three ways a request goes on, with entry \<open>n\<close> of its source and the contents \<open>e\<close> that
  entry had on arrival: this node is its destination, has a route to it (entry \<open>count\<close>), or
  passes the request on.
\<close>

definition answer_here ::
  "sends \<Rightarrow> nat \<Rightarrow> nat \<Rightarrow> mac \<Rightarrow> RREQ \<Rightarrow> bool \<Rightarrow> routing_entry \<Rightarrow> odr \<Rightarrow> odr outcome" where
  "answer_here E i n m q efficient e s =
     bindr (if ntohl (q_RREP_sent q) = 0 \<and> newer q efficient e
            then reply E i n m q 0 (if ntohl (q_discovery q) = 1 then 1 else 0) s
            else Inr s) (\<lambda>s.
     note_broadcast n q s)"

definition answer_known ::
  "sends \<Rightarrow> nat \<Rightarrow> nat \<Rightarrow> nat \<Rightarrow> mac \<Rightarrow> RREQ \<Rightarrow> bool \<Rightarrow> routing_entry \<Rightarrow> odr \<Rightarrow> odr outcome" where
  "answer_known E i n count m q efficient e s =
     bindr (if ntohl (q_RREP_sent q) = 0 \<and> newer q efficient e
            then reply E i n m q (hop_cnt (o_table s ! count)) 0 s
            else Inr s) (\<lambda>s.
     bindr (note_broadcast n q s) (\<lambda>s.
     if efficient then flood E (others i s) (one_hop_more (q\<lparr>q_RREP_sent := htonl 1\<rparr>)) s
     else Inr s))"

definition pass_on ::
  "sends \<Rightarrow> nat \<Rightarrow> nat \<Rightarrow> RREQ \<Rightarrow> bool \<Rightarrow> routing_entry \<Rightarrow> odr \<Rightarrow> odr outcome" where
  "pass_on E i n q efficient e s =
     bindr (if newer q efficient e then flood E (others i s) (one_hop_more q) s else Inr s) (\<lambda>s.
     note_broadcast n q s)"

text \<open>
  A request from \<open>m\<close> on interface \<open>i\<close>.
\<close>

definition on_RREQ :: "sends \<Rightarrow> nat \<Rightarrow> mac \<Rightarrow> RREQ \<Rightarrow> odr \<Rightarrow> odr outcome" where
  "on_RREQ E i m q s =
     (let n = find_route (q_src_addr q) s;
          (s, efficient) = learn (q_discovery q) (q_hop_cnt q) i m (q_src_addr q) s in
      with_entry n s (\<lambda>e.
      if cstr (q_dst_addr q) = own_addr s then answer_here E i n m q efficient e s
      else
        let count = usable_route q s in
        if count < length (o_table s)
        then answer_known E i n count m q efficient e s
        else pass_on E i n q efficient e s))"

lemmas on_RREQ_defs = on_RREQ_def answer_here_def answer_known_def pass_on_def

section \<open>Route replies and payloads\<close>

definition format_local :: "string \<Rightarrow> string \<Rightarrow> int \<Rightarrow> string" where
  "format_local message addr p = cstr message @ [space] @ cstr addr @ [space] @ show_int p"

text \<open>
  Delivery to the local application whose port the message names: when no port matches,
  \<open>localaddr\<close> still holds the path used last.
\<close>

definition deliver :: "sends \<Rightarrow> string \<Rightarrow> u32 \<Rightarrow> string \<Rightarrow> odr \<Rightarrow> odr outcome" where
  "deliver E msg to_port data s =
     (let c = index_of (\<lambda>p. pt_port p = ntohl to_port) (o_ports s);
          s = (if c < length (o_ports s) then s\<lparr>o_localaddr := cstr (pt_path (o_ports s ! c))\<rparr> else s)
      in emit E msg (Local (o_localaddr s) data) s)"

definition on_RREP :: "sends \<Rightarrow> nat \<Rightarrow> mac \<Rightarrow> RREP \<Rightarrow> odr \<Rightarrow> odr outcome" where
  "on_RREP E i m p s =
     (let (s, efficient) = learn (p_discovery p) (p_hop_cnt p) i m (p_src_addr p) s in
      if cstr (p_dst_addr p) = own_addr s
      then deliver E ''ODR: Failed to send date sequence to local client'' (p_dst_port p)
             (format_local ''HI'' (p_src_addr p) 5000) s
      else send_along E raw_failed (find_route (p_dst_addr p) s)
             (Rrep (p\<lparr>p_hop_cnt := htonl (ntohl (p_hop_cnt p) + 1)\<rparr>)) s)"

text \<open>The source port is printed as it stands in the frame.\<close>

definition on_payload :: "sends \<Rightarrow> payload \<Rightarrow> odr \<Rightarrow> odr outcome" where
  "on_payload E l s =
     (if cstr (l_dst_addr l) = own_addr s
      then deliver E ''ODR: Failed to send date sequence to local client/server'' (l_dst_port l)
             (format_local (l_message l) (l_src_addr l) (sint (l_src_port l))) s
      else send_along E raw_failed (find_route (l_dst_addr l) s) (Load l) s)"

definition on_frame :: "sends \<Rightarrow> nat \<Rightarrow> frame option \<Rightarrow> odr \<Rightarrow> odr outcome" where
  "on_frame E i fr s =
     (case fr of
        None \<Rightarrow> Inl (Exit 1 ''ODR: Failed to receive Ethernet frame througth interface socket'', s)
      | Some f \<Rightarrow>
         (case f_body f of
            Rreq q \<Rightarrow> on_RREQ E i (src_mac f) q s
          | Rrep p \<Rightarrow> on_RREP E i (src_mac f) p s
          | Load l \<Rightarrow> on_payload E l s))"

section \<open>The daemon\<close>

text \<open>
  One pass of the loop: \<^verbatim>\<open>select\<close> fails, or the UNIX socket and some of the raw sockets
  are ready.
\<close>

datatype pass = SelectError | Ready "(string \<times> string) option option" "(nat \<times> frame option) list"

fun odr_step :: "odr \<Rightarrow> sends \<times> pass \<Rightarrow> odr outcome" where
  "odr_step s (E, SelectError) =
     Inl (Exit 1 ''ODR: Failed to select from unix domain and interface sockets'', s)"
| "odr_step s (E, Ready loc frs) =
     bindr (case loc of None \<Rightarrow> Inr s | Some msg \<Rightarrow> on_local E msg s) (\<lambda>s.
     run_list (\<lambda>(i, fr) s. on_frame E i fr s) frs s)"

text \<open>
  The start: the tables as \<^verbatim>\<open>main\<close> fills them. \<open>junk\<close> gives the fields nothing
  initialises, and \<open>vars\<close> the uninitialised variables.
\<close>

definition init_table :: "(nat \<Rightarrow> routing_entry) \<Rightarrow> routing_entry list" where
  "init_table junk = map (\<lambda>i. (junk i)\<lparr>r_dst_addr := vm_addr ! i, outgoing_if := 0\<rparr>) [0..<10]"

definition odr_start :: "nat \<Rightarrow> mac list \<Rightarrow> (nat \<Rightarrow> routing_entry) \<Rightarrow> odr \<Rightarrow> odr" where
  "odr_start node ifs junk vars =
     vars\<lparr>o_node := node, o_ifs := ifs, o_table := init_table junk,
       o_ports := [\<lparr>pt_port = 5000, pt_path = ''240411''\<rparr>], o_broadcast_id := 0, o_port := 6000,
       o_localaddr := [], o_out := []\<rparr>"

end
