(* ===== verification/OdrInv.thy ===== *)
theory OdrInv
  imports Odr
begin

text \<open>
  What each handler of the routing daemon does to its tables and what it sends, and the
  invariant of one daemon: the shape of the tables, which every handler keeps and which still
  holds where a handler stops.
\<close>

section \<open>What the handlers send\<close>

lemma emit_Inr: "emit E msg a s = Inr t \<Longrightarrow> t = s\<lparr>o_out := o_out s @ [a]\<rparr>"
  by (auto simp: emit_def split: if_splits)

lemma send_frame_Inr:
  "send_frame E i d m b s = Inr t \<Longrightarrow>
     t = s\<lparr>o_out := o_out s @ [Raw i \<lparr>dst_mac = d, src_mac = m, f_body = b\<rparr>]\<rparr>"
  by (auto simp: send_frame_def dest: emit_Inr)

definition broadcasts :: "nat list \<Rightarrow> RREQ \<Rightarrow> odr \<Rightarrow> action list" where
  "broadcasts ks q s = map (\<lambda>k. Raw k \<lparr>dst_mac = broadcast, src_mac = o_ifs s ! k, f_body = Rreq q\<rparr>) ks"

lemma flood_Inr: "flood E ks q s = Inr t \<Longrightarrow> t = s\<lparr>o_out := o_out s @ broadcasts ks q s\<rparr>"
  unfolding flood_def
proof (induction ks arbitrary: s)
  case Nil
  then show ?case by (simp add: broadcasts_def)
next
  case (Cons k ks)
  then obtain u where u: "send_frame E k broadcast (o_ifs s ! k) (Rreq q) s = Inr u"
    and rest: "run_list (\<lambda>k s. send_frame E k broadcast (o_ifs s ! k) (Rreq q) s) ks u = Inr t"
    by (auto simp: bind_iff)
  from Cons.IH [OF rest] send_frame_Inr [OF u] show ?case by (simp add: broadcasts_def)
qed

lemma with_entry_Inr:
  "with_entry n s f = Inr t \<longleftrightarrow> n < length (o_table s) \<and> f (o_table s ! n) = Inr t"
  by (simp add: with_entry_def)

lemma with_if_Inr: "with_if what k s f = Inr t \<longleftrightarrow> (\<exists>i. if_slot k s = Some i \<and> f i = Inr t)"
  by (auto simp: with_if_def split: option.splits)

lemma send_along_Inr:
  assumes "send_along E msg n b s = Inr t"
  shows "\<exists>k. n < length (o_table s) \<and> if_slot (outgoing_if (o_table s ! n)) s = Some k
    \<and> t = s\<lparr>o_out := o_out s @ [Raw k \<lparr>dst_mac = next_hop (o_table s ! n), src_mac = o_ifs s ! k, f_body = b\<rparr>]\<rparr>"
  using assms by (auto simp: send_along_def with_entry_Inr with_if_Inr dest: emit_Inr)

lemma note_broadcast_Inr:
  "note_broadcast n q s = Inr t \<longleftrightarrow> n < length (o_table s)
     \<and> t = set_entry n ((o_table s ! n)\<lparr>r_broadcast_id := ntohl (q_broadcast_id q)\<rparr>) s"
  by (auto simp: note_broadcast_def with_entry_Inr)

definition rrep_frame :: "nat \<Rightarrow> mac \<Rightarrow> mac \<Rightarrow> RREQ \<Rightarrow> u32 \<Rightarrow> u32 \<Rightarrow> action" where
  "rrep_frame i d m q hops discovery = Raw i \<lparr>dst_mac = d, src_mac = m,
     f_body = Rrep \<lparr>p_src_addr = q_dst_addr q, p_dst_addr = q_src_addr q,
       p_dst_port = htonl (q_src_port q), p_hop_cnt = htonl hops, p_discovery = htonl discovery\<rparr>\<rparr>"

lemma reply_Inr:
  assumes "reply E i n m q hops d s = Inr t"
  shows "\<exists>k. if_slot (outgoing_if (o_table s ! n)) s = Some k
    \<and> t = s\<lparr>o_out := o_out s @ [rrep_frame i m (o_ifs s ! k) q hops d]\<rparr>"
  using assms
  by (auto simp: reply_def with_entry_Inr with_if_Inr rrep_frame_def dest: send_frame_Inr)

text \<open>
  The output of a route request, in the state after the route to its source has been learnt:
  \<open>n\<close> is the entry of the source, \<open>r\<close> the hardware address the reply carries.
\<close>

definition rreq_out :: "nat \<Rightarrow> mac \<Rightarrow> mac \<Rightarrow> RREQ \<Rightarrow> bool \<Rightarrow> routing_entry \<Rightarrow> odr \<Rightarrow> action list" where
  "rreq_out i m r q efficient e s =
     (let answers = (ntohl (q_RREP_sent q) = 0 \<and> newer q efficient e);
          count = usable_route q s in
      if cstr (q_dst_addr q) = own_addr s
      then (if answers then [rrep_frame i m r q 0 (if ntohl (q_discovery q) = 1 then 1 else 0)] else [])
      else if count < length (o_table s)
      then (if answers then [rrep_frame i m r q (hop_cnt (o_table s ! count)) 0] else [])
        @ (if efficient then broadcasts (others i s) (one_hop_more (q\<lparr>q_RREP_sent := htonl 1\<rparr>)) s else [])
      else (if newer q efficient e then broadcasts (others i s) (one_hop_more q) s else []))"

lemma broadcasts_cong [simp]:
  "broadcasts ks q (s\<lparr>o_out := x\<rparr>) = broadcasts ks q s" "broadcasts ks q (set_entry n e s) = broadcasts ks q s"
  "others i (s\<lparr>o_out := x\<rparr>) = others i s" "others i (set_entry n e s) = others i s"
  by (simp_all add: broadcasts_def others_def set_entry_def)

lemma set_entry_simps [simp]:
  "o_out (set_entry n e s) = o_out s" "o_table (set_entry n e s) = (o_table s)[n := e]"
  "o_ifs (set_entry n e s) = o_ifs s" "o_ports (set_entry n e s) = o_ports s"
  "o_node (set_entry n e s) = o_node s" "o_port (set_entry n e s) = o_port s"
  "o_localaddr (set_entry n e s) = o_localaddr s" "own_addr (set_entry n e s) = own_addr s"
  "set_entry n e (s\<lparr>o_out := x\<rparr>) = (set_entry n e s)\<lparr>o_out := x\<rparr>"
  by (simp_all add: set_entry_def own_addr_def)

lemma learn_cases:
  "learn d hops i m addr s = (s, False)
   \<or> (\<exists>n. n = find_route addr s \<and> n < length (o_table s) \<and> better d hops i (o_table s ! n)
       \<and> learn d hops i m addr s = (set_entry n ((o_table s ! n)\<lparr>next_hop := m, outgoing_if := int i + 3,
            hop_cnt := ntohl hops + 1\<rparr>) s, True))"
  by (auto simp: learn_def Let_def)

lemma on_RREQ_Inr:
  assumes "on_RREQ E i m q s = Inr t" and "learn (q_discovery q) (q_hop_cnt q) i m (q_src_addr q) s = (u, eff)"
    and "n = find_route (q_src_addr q) s"
  shows "\<exists>r. n < length (o_table u)
    \<and> t = (set_entry n ((o_table u ! n)\<lparr>r_broadcast_id := ntohl (q_broadcast_id q)\<rparr>) u)
        \<lparr>o_out := o_out u @ rreq_out i m r q eff (o_table u ! n) u\<rparr>"
proof -
  let ?e = "o_table u ! n"
  let ?answers = "ntohl (q_RREP_sent q) = 0 \<and> newer q eff ?e"
  have answered: "\<exists>r. v = u\<lparr>o_out := o_out u @ (if ?answers then [rrep_frame i m r q h d] else [])\<rparr>"
    if "(if ?answers then reply E i n m q h d u else Inr u) = Inr v" for h d v
    using that by (auto split: if_splits dest: reply_Inr)
  from assms have n: "n < length (o_table u)"
    by (simp add: on_RREQ_defs with_entry_Inr Let_def)
  show ?thesis
  proof (cases "cstr (q_dst_addr q) = own_addr u")
    case True
    with assms obtain v where
      "(if ?answers then reply E i n m q 0 (if ntohl (q_discovery q) = 1 then 1 else 0) u else Inr u) = Inr v"
      and t: "note_broadcast n q v = Inr t"
      by (auto simp: on_RREQ_defs with_entry_Inr bind_iff Let_def)
    from answered [OF this(1)] obtain r where
      v: "v = u\<lparr>o_out := o_out u @ (if ?answers
        then [rrep_frame i m r q 0 (if ntohl (q_discovery q) = 1 then 1 else 0)] else [])\<rparr>"
      by blast
    have "rreq_out i m r q eff ?e u = (if ?answers
        then [rrep_frame i m r q 0 (if ntohl (q_discovery q) = 1 then 1 else 0)] else [])"
      unfolding rreq_out_def Let_def by (simp only: True if_True simp_thms)
    then show ?thesis using t n
      by (intro exI [of _ r]) (simp add: note_broadcast_Inr v)
  next
    case False
    let ?c = "usable_route q u"
    show ?thesis
    proof (cases "?c < length (o_table u)")
      case route: True
      with False assms obtain v w where
        "(if ?answers then reply E i n m q (hop_cnt (o_table u ! ?c)) 0 u else Inr u) = Inr v"
        and w: "note_broadcast n q v = Inr w"
        and t: "(if eff then flood E (others i w) (one_hop_more (q\<lparr>q_RREP_sent := htonl 1\<rparr>)) w else Inr w) = Inr t"
        by (auto simp: on_RREQ_defs with_entry_Inr bind_iff Let_def)
      from answered [OF this(1)] obtain r where
        v: "v = u\<lparr>o_out := o_out u @ (if ?answers then [rrep_frame i m r q (hop_cnt (o_table u ! ?c)) 0] else [])\<rparr>"
        by blast
      let ?a = "if ?answers then [rrep_frame i m r q (hop_cnt (o_table u ! ?c)) 0] else []"
      let ?q = "one_hop_more (q\<lparr>q_RREP_sent := htonl 1\<rparr>)"
      have out: "rreq_out i m r q eff ?e u = ?a @ (if eff then broadcasts (others i u) ?q u else [])"
        unfolding rreq_out_def Let_def by (simp only: False route if_False if_True simp_thms)
      have ww: "w = (set_entry n (?e\<lparr>r_broadcast_id := ntohl (q_broadcast_id q)\<rparr>) u)\<lparr>o_out := o_out u @ ?a\<rparr>"
        using w by (simp add: v note_broadcast_Inr)
      have "t = w\<lparr>o_out := o_out w @ (if eff then broadcasts (others i u) ?q u else [])\<rparr>"
        using t by (cases eff) (auto simp: ww dest!: flood_Inr)
      then show ?thesis using n out
        by (intro exI [of _ r]) (simp add: ww)
    next
      case no_route: False
      with False assms obtain v where
        v: "(if newer q eff ?e then flood E (others i u) (one_hop_more q) u else Inr u) = Inr v"
        and t: "note_broadcast n q v = Inr t"
        by (auto simp: on_RREQ_defs with_entry_Inr bind_iff Let_def)
      from v have "v = u\<lparr>o_out := o_out u @ (if newer q eff ?e then broadcasts (others i u) (one_hop_more q) u else [])\<rparr>"
        by (auto split: if_splits dest: flood_Inr)
      moreover have "rreq_out i m [] q eff ?e u
          = (if newer q eff ?e then broadcasts (others i u) (one_hop_more q) u else [])"
        unfolding rreq_out_def Let_def by (simp only: False no_route if_False)
      ultimately show ?thesis using t n
        by (intro exI [of _ "[]"]) (simp add: note_broadcast_Inr)
    qed
  qed
qed

section \<open>The shape of the tables\<close>

definition entry_ok :: "nat \<Rightarrow> nat \<Rightarrow> routing_entry \<Rightarrow> bool" where
  "entry_ok ifs k e \<longleftrightarrow> r_dst_addr e = vm_addr ! k
     \<and> (outgoing_if e = 0 \<or> 3 \<le> outgoing_if e \<and> outgoing_if e < 3 + int ifs)"

definition table_ok :: "odr \<Rightarrow> bool" where
  "table_ok s \<longleftrightarrow> length (o_table s) = 10
     \<and> (\<forall>k < 10. entry_ok (length (o_ifs s)) k (o_table s ! k))"

definition ports_ok :: "odr \<Rightarrow> bool" where
  "ports_ok s \<longleftrightarrow> length (o_ports s) \<le> 10 \<and> o_ports s \<noteq> []
     \<and> hd (o_ports s) = \<lparr>pt_port = 5000, pt_path = ''240411''\<rparr>
     \<and> (\<forall>k < length (o_ports s). 0 < k \<longrightarrow> pt_port (o_ports s ! k) = 5999 + of_nat k)
     \<and> o_port s = 5999 + of_nat (length (o_ports s))"

definition odr_ok :: "odr \<Rightarrow> bool" where
  "odr_ok s \<longleftrightarrow> 1 \<le> o_node s \<and> o_node s \<le> 10 \<and> table_ok s \<and> ports_ok s"

lemma vm_addr_facts: "length vm_addr = 10" "distinct vm_addr"
  by (simp_all add: vm_addr_def)

lemma cstr_vm_addr: "k < 10 \<Longrightarrow> cstr (vm_addr ! k) = vm_addr ! k"
  using vm_addr_words [of "vm_addr ! k"] by (simp add: vm_addr_facts word_cstr)

lemma vm_index_node: "k < 10 \<Longrightarrow> vm_index (vm_addr ! k) old = int k + 1"
  using index_of_distinct [OF vm_addr_facts(2), of k] by (simp add: vm_index_def cstr_vm_addr vm_addr_facts)

lemma find_route_vm:
  assumes "table_ok s" and "k < 10" and "cstr addr = vm_addr ! k"
  shows "find_route addr s = k"
  unfolding find_route_def
proof (rule index_of_eqI)
  have e: "cstr (r_dst_addr (o_table s ! j)) = vm_addr ! j" if "j < 10" for j
    using assms(1) that by (simp add: table_ok_def entry_ok_def cstr_vm_addr)
  show "k < length (o_table s)" using assms by (simp add: table_ok_def)
  show "cstr (r_dst_addr (o_table s ! k)) = cstr addr" using e [OF assms(2)] assms(3) by simp
  show "cstr (r_dst_addr (o_table s ! j)) \<noteq> cstr addr" if "j < k" for j
    using e [of j] that assms(2,3) vm_addr_facts by (simp add: nth_eq_iff_index_eq)
qed

lemma table_ok_set:
  assumes "table_ok s" and "n < 10 \<Longrightarrow> entry_ok (length (o_ifs s)) n e"
  shows "table_ok (set_entry n e s)"
  proof -
  have "entry_ok (length (o_ifs s)) k ((o_table s)[n := e] ! k)" if "k < 10" for k
    using assms that by (cases "k = n") (simp_all add: table_ok_def)
  with assms(1) show ?thesis by (simp add: table_ok_def)
qed

lemma odr_ok_cong:
  assumes "odr_ok s" and "table_ok t" and "o_node t = o_node s" and "o_ports t = o_ports s"
    and "o_port t = o_port s"
  shows "odr_ok t"
  using assms by (simp add: odr_ok_def ports_ok_def)

lemma learn_ok:
  assumes "table_ok s" and "i < length (o_ifs s)" and "learn d hops i m addr s = (u, eff)"
  shows "table_ok u \<and> o_node u = o_node s \<and> o_ports u = o_ports s \<and> o_port u = o_port s
    \<and> o_ifs u = o_ifs s \<and> o_out u = o_out s"
  using learn_cases [of d hops i m addr s]
proof
  assume "learn d hops i m addr s = (s, False)"
  with assms show ?thesis by simp
next
  assume "\<exists>n. n = find_route addr s \<and> n < length (o_table s) \<and> better d hops i (o_table s ! n)
       \<and> learn d hops i m addr s = (set_entry n ((o_table s ! n)\<lparr>next_hop := m, outgoing_if := int i + 3,
            hop_cnt := ntohl hops + 1\<rparr>) s, True)"
  with assms obtain n where u: "u = set_entry n ((o_table s ! n)\<lparr>next_hop := m, outgoing_if := int i + 3,
      hop_cnt := ntohl hops + 1\<rparr>) s" by auto
  have "table_ok u" unfolding u
    using assms(1,2) by (intro table_ok_set) (auto simp: table_ok_def entry_ok_def)
  then show ?thesis by (simp add: u)
qed

lemma table_ok_out [simp]: "table_ok (s\<lparr>o_out := x\<rparr>) = table_ok s"
  by (simp add: table_ok_def)

lemma on_RREQ_ok:
  assumes "odr_ok s" and "i < length (o_ifs s)" and "on_RREQ E i m q s = Inr t"
  shows "odr_ok t \<and> o_ifs t = o_ifs s"
proof -
  obtain u eff where l: "learn (q_discovery q) (q_hop_cnt q) i m (q_src_addr q) s = (u, eff)"
    by (cases "learn (q_discovery q) (q_hop_cnt q) i m (q_src_addr q) s")
  note lo = learn_ok [OF _ assms(2) l]
  let ?n = "find_route (q_src_addr q) s"
  from on_RREQ_Inr [OF assms(3) l refl] obtain r where
    t: "t = (set_entry ?n ((o_table u ! ?n)\<lparr>r_broadcast_id := ntohl (q_broadcast_id q)\<rparr>) u)
        \<lparr>o_out := o_out u @ rreq_out i m r q eff (o_table u ! ?n) u\<rparr>" by blast
  have "table_ok u" using lo assms(1) by (simp add: odr_ok_def)
  then have "table_ok (set_entry ?n ((o_table u ! ?n)\<lparr>r_broadcast_id := ntohl (q_broadcast_id q)\<rparr>) u)"
    by (rule table_ok_set) (use \<open>table_ok u\<close> in \<open>simp add: table_ok_def entry_ok_def\<close>)
  then show ?thesis using assms(1) lo
    by (intro conjI odr_ok_cong [OF assms(1)]) (simp_all add: t odr_ok_def)
qed

lemma deliver_Inr:
  assumes "deliver E msg p data s = Inr t"
  shows "\<exists>path. t = s\<lparr>o_localaddr := path, o_out := o_out s @ [Local path data]\<rparr>
    \<and> (path = o_localaddr s \<and> (\<forall>x \<in> set (o_ports s). pt_port x \<noteq> ntohl p)
       \<or> (\<exists>x \<in> set (o_ports s). pt_port x = ntohl p \<and> path = cstr (pt_path x)))"
proof -
  let ?c = "index_of (\<lambda>x. pt_port x = ntohl p) (o_ports s)"
  show ?thesis
  proof (cases "?c < length (o_ports s)")
    case True
    then have "pt_port (o_ports s ! ?c) = ntohl p" "o_ports s ! ?c \<in> set (o_ports s)"
      using index_of_nth [OF True] by simp_all
    moreover from True assms have "t = s\<lparr>o_localaddr := cstr (pt_path (o_ports s ! ?c)),
        o_out := o_out s @ [Local (cstr (pt_path (o_ports s ! ?c))) data]\<rparr>"
      by (simp add: deliver_def Let_def) (drule emit_Inr, simp)
    ultimately show ?thesis by blast
  next
    case False
    moreover from this have "\<forall>x \<in> set (o_ports s). pt_port x \<noteq> ntohl p"
      using index_of_less_iff [of "\<lambda>x. pt_port x = ntohl p" "o_ports s"] by blast
    ultimately show ?thesis using assms
      by (intro exI [of _ "o_localaddr s"]) (auto simp: deliver_def Let_def dest!: emit_Inr)
  qed
qed

lemma on_RREP_ok:
  assumes "odr_ok s" and "i < length (o_ifs s)" and "on_RREP E i m p s = Inr t"
  shows "odr_ok t \<and> o_ifs t = o_ifs s"
proof -
  obtain u eff where l: "learn (p_discovery p) (p_hop_cnt p) i m (p_src_addr p) s = (u, eff)"
    by (cases "learn (p_discovery p) (p_hop_cnt p) i m (p_src_addr p) s")
  have lo: "table_ok u \<and> o_node u = o_node s \<and> o_ports u = o_ports s \<and> o_port u = o_port s
      \<and> o_ifs u = o_ifs s" using learn_ok [OF _ assms(2) l] assms(1) by (simp add: odr_ok_def)
  then have "odr_ok u" using odr_ok_cong [OF assms(1)] by blast
  moreover have "\<exists>x y. t = u\<lparr>o_localaddr := x, o_out := y\<rparr> \<or> t = u\<lparr>o_out := y\<rparr>"
    using assms(3) l by (auto simp: on_RREP_def split: if_splits dest!: deliver_Inr send_along_Inr)
  ultimately show ?thesis using lo by (auto simp: odr_ok_def table_ok_def ports_ok_def)
qed

lemma on_payload_ok:
  assumes "odr_ok s" and "on_payload E l s = Inr t"
  shows "odr_ok t \<and> o_ifs t = o_ifs s \<and> o_table t = o_table s"
proof -
  have "\<exists>x y. t = s\<lparr>o_localaddr := x, o_out := y\<rparr> \<or> t = s\<lparr>o_out := y\<rparr>"
    using assms(2) by (auto simp: on_payload_def split: if_splits dest!: deliver_Inr send_along_Inr)
  with assms(1) show ?thesis by (auto simp: odr_ok_def table_ok_def ports_ok_def)
qed

lemma parse_local_Inr:
  assumes "parse_local text s = Inr t"
  shows "\<exists>a p m f. t = s\<lparr>o_dst_addr := a, o_dst_port := p, o_message := m, o_flag := f\<rparr>"
proof -
  have same: "s = s\<lparr>o_dst_addr := o_dst_addr s, o_dst_port := o_dst_port s, o_message := o_message s,
      o_flag := o_flag s\<rparr>" by simp
  have "t = s\<lparr>o_dst_addr := o_dst_addr t, o_dst_port := o_dst_port t, o_message := o_message t,
      o_flag := o_flag t\<rparr>"
    using assms by (auto simp: parse_local_def Let_def bind_iff split: option.splits)
  then show ?thesis by blast
qed

lemma register_client_ok:
  assumes "odr_ok s" and "index \<le> length (o_ports s)" and "register_client index s = Inr t"
  shows "odr_ok t \<and> o_ifs t = o_ifs s \<and> o_table t = o_table s \<and> index < length (o_ports t)"
proof (cases "index = length (o_ports s)")
  case True
  let ?e = "\<lparr>pt_port = o_port s, pt_path = cstr (o_localaddr s)\<rparr>"
  from True assms(3) have t: "t = s\<lparr>o_ports := o_ports s @ [?e], o_port := o_port s + 1\<rparr>"
    and len: "length (o_ports s) < 10"
    by (auto simp: register_client_def bind_iff)
  have p: "ports_ok s" using assms(1) by (simp add: odr_ok_def)
  have "ports_ok t"
    using p len by (auto simp: t ports_ok_def nth_append less_Suc_eq ac_simps)
  with assms(1) True show ?thesis by (simp add: t odr_ok_def table_ok_def)
next
  case False
  with assms show ?thesis by (simp add: register_client_def)
qed

lemma send_payload_Inr: "send_payload E n a b s = Inr t \<Longrightarrow> \<exists>x. t = s\<lparr>o_out := x\<rparr>"
  by (auto simp: send_payload_def bind_iff dest!: send_along_Inr)

lemma client_request_ok:
  assumes "odr_ok s" and "index \<le> length (o_ports s)" and "client_request E index s = Inr t"
  shows "odr_ok t \<and> o_ifs t = o_ifs s \<and> o_table t = o_table s"
proof -
  from assms(3) obtain u where u: "register_client index s = Inr u"
    and t: "\<exists>x y. t = u\<lparr>o_out := x\<rparr> \<or> t = u\<lparr>o_broadcast_id := y, o_out := x\<rparr>"
    by (auto simp: client_request_def bind_iff Let_def split: if_splits
        dest!: send_payload_Inr flood_Inr)
  note register_client_ok [OF assms(1,2) u]
  with t show ?thesis by (auto simp: odr_ok_def table_ok_def ports_ok_def)
qed

lemma on_local_ok:
  assumes "odr_ok s" and "on_local E msg s = Inr t"
  shows "odr_ok t \<and> o_ifs t = o_ifs s \<and> o_table t = o_table s"
proof -
  obtain bytes path where msg: "msg = Some (bytes, path)"
    using assms(2) by (auto simp: on_local_def split: option.splits)
  let ?s = "s\<lparr>o_recvmsg := overwrite (o_recvmsg s) bytes, o_localaddr := path\<rparr>"
  from assms(2) msg obtain u where u: "parse_local (cstr (o_recvmsg ?s)) ?s = Inr u"
    and t: "(let index = index_of (\<lambda>p. cstr (pt_path p) = cstr (o_localaddr u)) (o_ports u) in
      if index = 0 then server_reply E u else client_request E index u) = Inr t"
    by (auto simp: on_local_def bind_iff Let_def)
  have ok: "odr_ok u \<and> o_ifs u = o_ifs s \<and> o_table u = o_table s"
    using parse_local_Inr [OF u] assms(1) by (auto simp: odr_ok_def table_ok_def ports_ok_def)
  show ?thesis
  proof (cases "index_of (\<lambda>p. cstr (pt_path p) = cstr (o_localaddr u)) (o_ports u) = 0")
    case True
    with t ok show ?thesis
      by (auto simp: server_reply_def odr_ok_def table_ok_def ports_ok_def dest!: send_payload_Inr)
  next
    case False
    with t ok client_request_ok [of u _ E t] index_of_le show ?thesis by (auto simp: Let_def)
  qed
qed

text \<open>Frames arrive on the interfaces of the node.\<close>

fun arrives :: "odr \<Rightarrow> sends \<times> pass \<Rightarrow> bool" where
  "arrives s (E, SelectError) \<longleftrightarrow> True"
| "arrives s (E, Ready loc frs) \<longleftrightarrow> (\<forall>(i, fr) \<in> set frs. i < length (o_ifs s))"

lemma on_frame_ok:
  assumes "odr_ok s" and "i < length (o_ifs s)" and "on_frame E i fr s = Inr t"
  shows "odr_ok t \<and> o_ifs t = o_ifs s"
  using assms on_RREQ_ok [OF assms(1,2)] on_RREP_ok [OF assms(1,2)] on_payload_ok [OF assms(1)]
  by (auto simp: on_frame_def split: option.splits body.splits)

text \<open>
  A property of the tables that local messages keep and each frame keeps holds after a pass.
\<close>

lemma odr_step_inv:
  assumes "odr_ok s" and "arrives s x" and "odr_step s x = Inr t" and "P s"
    and local: "\<And>E msg s t. odr_ok s \<Longrightarrow> P s \<Longrightarrow> on_local E msg s = Inr t \<Longrightarrow> P t"
    and frame: "\<And>E i fr s t. odr_ok s \<Longrightarrow> P s \<Longrightarrow> i < length (o_ifs s) \<Longrightarrow> on_frame E i fr s = Inr t \<Longrightarrow>
      (\<exists>loc frs. snd x = Ready loc frs \<and> (i, fr) \<in> set frs) \<Longrightarrow> P t"
  shows "odr_ok t \<and> o_ifs t = o_ifs s \<and> P t"
proof -
  from assms(3) obtain E loc frs u where x: "x = (E, Ready loc frs)"
    and u: "(case loc of None \<Rightarrow> Inr s | Some msg \<Rightarrow> on_local E msg s) = Inr u"
    and t: "run_list (\<lambda>(i, fr) s. on_frame E i fr s) frs u = Inr t"
    by (cases x; cases "snd x") (auto simp: bind_iff)
  have ou: "odr_ok u \<and> o_ifs u = o_ifs s \<and> P u"
    using u assms(1,4) on_local_ok [OF assms(1)] local by (auto split: option.splits)
  show ?thesis
  proof (rule run_list_inv [where P = "\<lambda>t. odr_ok t \<and> o_ifs t = o_ifs s \<and> P t", OF _ ou t])
    fix y v w
    assume y: "y \<in> set frs" and v: "odr_ok v \<and> o_ifs v = o_ifs s \<and> P v"
      and w: "(case y of (i, fr) \<Rightarrow> on_frame E i fr) v = Inr w"
    obtain i fr where yy: "y = (i, fr)" by (cases y)
    have i: "i < length (o_ifs v)" using assms(2) x y yy v by auto
    have fr: "on_frame E i fr v = Inr w" using w yy by simp
    show "odr_ok w \<and> o_ifs w = o_ifs s \<and> P w"
      using on_frame_ok [OF _ i fr] frame [OF _ _ i fr] v x y yy by auto
  qed
qed

lemma odr_start_ok:
  assumes "1 \<le> node" and "node \<le> 10"
  shows "odr_ok (odr_start node ifs junk vars)"
  using assms by (simp add: odr_ok_def odr_start_def table_ok_def init_table_def entry_ok_def ports_ok_def)

section \<open>How a daemon stops\<close>

text \<open>
  Whatever a handler returns or stops with, the tables are in order; it stops with the overflow of
  the port table only when that table is full.
\<close>

fun stops_in_order :: "stop \<times> odr \<Rightarrow> bool" where
  "stops_in_order (e, t) \<longleftrightarrow> odr_ok t \<and> (e = Undefined ''port_table'' \<longrightarrow> length (o_ports t) = 10)"

definition in_order :: "odr outcome \<Rightarrow> bool" where
  "in_order r \<longleftrightarrow> (case r of Inr t \<Rightarrow> odr_ok t | Inl e \<Rightarrow> stops_in_order e)"

named_theorems ordered

lemma in_order_simps [simp]:
  "in_order (Inr t) \<longleftrightarrow> odr_ok t"
  "in_order (Inl e) \<longleftrightarrow> stops_in_order e"
  by (simp_all add: in_order_def)

lemma in_order_bindr: "in_order m \<Longrightarrow> (\<And>s. m = Inr s \<Longrightarrow> odr_ok s \<Longrightarrow> in_order (f s)) \<Longrightarrow> in_order (bindr m f)"
  by (cases m) simp_all

lemma odr_ok_simps [simp]:
  "odr_ok (s\<lparr>o_out := x\<rparr>) = odr_ok s" "odr_ok (s\<lparr>o_localaddr := y\<rparr>) = odr_ok s"
  "odr_ok (s\<lparr>o_recvmsg := y\<rparr>) = odr_ok s" "odr_ok (s\<lparr>o_dst_addr := y\<rparr>) = odr_ok s"
  "odr_ok (s\<lparr>o_dst_port := z\<rparr>) = odr_ok s" "odr_ok (s\<lparr>o_message := y\<rparr>) = odr_ok s"
  "odr_ok (s\<lparr>o_flag := z\<rparr>) = odr_ok s" "odr_ok (s\<lparr>o_broadcast_id := b\<rparr>) = odr_ok s"
  by (simp_all add: odr_ok_def table_ok_def ports_ok_def)

lemma in_order_emit [ordered]: "odr_ok s \<Longrightarrow> in_order (emit E m a s)"
  by (simp add: emit_def)

lemma in_order_undef [ordered]: "odr_ok s \<Longrightarrow> w \<noteq> ''port_table'' \<Longrightarrow> in_order (undef_if b w s)"
  by (cases b) simp_all

lemma in_order_with_entry [ordered]:
  "odr_ok s \<Longrightarrow> (\<And>e. in_order (f e)) \<Longrightarrow> in_order (with_entry n s f)"
  by (simp add: with_entry_def)

lemma in_order_with_if [ordered]:
  "odr_ok s \<Longrightarrow> w \<noteq> ''port_table'' \<Longrightarrow> (\<And>k. in_order (f k)) \<Longrightarrow> in_order (with_if w k s f)"
  by (simp add: with_if_def split: option.split)

lemma in_order_send_frame [ordered]: "odr_ok s \<Longrightarrow> in_order (send_frame E i d m b s)"
  unfolding send_frame_def by (rule in_order_emit)

lemma in_order_send_along [ordered]: "odr_ok s \<Longrightarrow> in_order (send_along E m n b s)"
  unfolding send_along_def by (intro ordered) simp_all

lemma in_order_flood [ordered]: "odr_ok s \<Longrightarrow> in_order (flood E ks q s)"
  unfolding flood_def by (induction ks arbitrary: s) (auto intro!: in_order_bindr ordered)

lemma in_order_reply [ordered]: "odr_ok s \<Longrightarrow> in_order (reply E i n m q h d s)"
  unfolding reply_def by (intro ordered) simp_all

lemma in_order_note [ordered]:
  assumes "odr_ok s"
  shows "in_order (note_broadcast n q s)"
proof (cases "n < length (o_table s)")
  case True
  have "table_ok (set_entry n ((o_table s ! n)\<lparr>r_broadcast_id := ntohl (q_broadcast_id q)\<rparr>) s)"
    by (rule table_ok_set) (use assms in \<open>simp_all add: odr_ok_def table_ok_def entry_ok_def\<close>)
  with True show ?thesis using odr_ok_cong [OF assms] by (simp add: note_broadcast_def with_entry_def)
qed (use assms in \<open>simp add: note_broadcast_def with_entry_def\<close>)

lemma learn_in_order:
  assumes "odr_ok s" and "i < length (o_ifs s)" and "learn d hops i m addr s = (u, eff)"
  shows "odr_ok u"
  using learn_ok [OF _ assms(2,3)] odr_ok_cong [OF assms(1)] assms(1) by (simp add: odr_ok_def)

lemma in_order_RREQ:
  assumes "odr_ok s" and "i < length (o_ifs s)"
  shows "in_order (on_RREQ E i m q s)"
proof -
  obtain u eff where l: "learn (q_discovery q) (q_hop_cnt q) i m (q_src_addr q) s = (u, eff)"
    by (cases "learn (q_discovery q) (q_hop_cnt q) i m (q_src_addr q) s")
  have u: "odr_ok u" by (rule learn_in_order [OF assms l])
  have "in_order (answer_here E i n m q b e u)" "in_order (answer_known E i n c m q b e u)"
    "in_order (pass_on E i n q b e u)" for n b e c
    unfolding answer_here_def answer_known_def pass_on_def using u
    by (auto intro!: in_order_bindr ordered)
  with u show ?thesis unfolding on_RREQ_def Let_def l prod.case by (auto intro!: ordered)
qed

lemma in_order_deliver [ordered]: "odr_ok s \<Longrightarrow> in_order (deliver E w p data s)"
  unfolding deliver_def Let_def by (rule in_order_emit) simp

lemma in_order_frame:
  assumes "odr_ok s" and "i < length (o_ifs s)"
  shows "in_order (on_frame E i fr s)"
proof (cases fr)
  case None
  then show ?thesis using assms(1) by (simp add: on_frame_def)
next
  case (Some f)
  have "in_order (on_RREP E i (src_mac f) p s)" for p
  proof -
    obtain u eff where l: "learn (p_discovery p) (p_hop_cnt p) i (src_mac f) (p_src_addr p) s = (u, eff)"
      by (cases "learn (p_discovery p) (p_hop_cnt p) i (src_mac f) (p_src_addr p) s")
    then show ?thesis using learn_in_order [OF assms l]
      by (auto simp: on_RREP_def intro!: ordered)
  qed
  moreover have "in_order (on_payload E l s)" for l
    using assms(1) by (auto simp: on_payload_def intro!: ordered)
  ultimately show ?thesis using Some in_order_RREQ [OF assms]
    by (simp add: on_frame_def split: body.split)
qed

lemma in_order_send_payload [ordered]: "odr_ok s \<Longrightarrow> in_order (send_payload E n a b s)"
  unfolding send_payload_def by (auto intro!: in_order_bindr ordered)

lemma in_order_register:
  assumes "odr_ok s" and "index \<le> length (o_ports s)"
  shows "in_order (register_client index s)"
proof (cases "register_client index s")
  case (Inl e)
  have "length (o_ports s) \<le> 10" using assms(1) by (simp add: odr_ok_def ports_ok_def)
  with Inl assms(1) show ?thesis by (auto simp: register_client_def undef_if_def split: if_splits)
next
  case (Inr t)
  with register_client_ok [OF assms Inr] show ?thesis by simp
qed

lemma in_order_client_request:
  assumes "odr_ok s" and "index \<le> length (o_ports s)"
  shows "in_order (client_request E index s)"
  unfolding client_request_def Let_def using in_order_register [OF assms]
  by (rule in_order_bindr) (auto intro!: ordered)

lemma in_order_parse [ordered]: "odr_ok s \<Longrightarrow> in_order (parse_local text s)"
  unfolding parse_local_def Let_def
  by (auto split: option.split intro!: in_order_bindr ordered simp: undef_if_def)

lemma in_order_local:
  assumes "odr_ok s"
  shows "in_order (on_local E msg s)"
proof (cases msg)
  case None
  then show ?thesis using assms by (simp add: on_local_def)
next
  case (Some m)
  then obtain bytes path where m: "msg = Some (bytes, path)" by (cases m) auto
  show ?thesis unfolding on_local_def m Let_def option.case prod.case
  proof (rule in_order_bindr)
    show "in_order (parse_local (cstr (o_recvmsg (s\<lparr>o_recvmsg := overwrite (o_recvmsg s) bytes, o_localaddr := path\<rparr>)))
        (s\<lparr>o_recvmsg := overwrite (o_recvmsg s) bytes, o_localaddr := path\<rparr>))"
      using assms by (intro ordered) simp
    fix t
    assume "odr_ok t"
    then show "in_order (if index_of (\<lambda>p. cstr (pt_path p) = cstr (o_localaddr t)) (o_ports t) = 0 then server_reply E t
        else client_request E (index_of (\<lambda>p. cstr (pt_path p) = cstr (o_localaddr t)) (o_ports t)) t)"
      using in_order_client_request [OF _ index_of_le] by (auto simp: server_reply_def intro: ordered)
  qed
qed

lemma in_order_frames:
  assumes "odr_ok s" and "\<forall>(i, fr) \<in> set frs. i < length (o_ifs s)"
  shows "in_order (run_list (\<lambda>(i, fr) s. on_frame E i fr s) frs s)"
  using assms
proof (induction frs arbitrary: s)
  case Nil
  then show ?case by simp
next
  case (Cons x frs)
  obtain i fr where x: "x = (i, fr)" by (cases x)
  have i: "i < length (o_ifs s)" using Cons.prems(2) x by simp
  have "in_order (bindr (on_frame E i fr s) (run_list (\<lambda>(i, fr) s. on_frame E i fr s) frs))"
  proof (rule in_order_bindr [OF in_order_frame [OF Cons.prems(1) i]])
    fix t
    assume "on_frame E i fr s = Inr t"
    then show "in_order (run_list (\<lambda>(i, fr) s. on_frame E i fr s) frs t)"
      using on_frame_ok [OF Cons.prems(1) i] Cons.prems(2) by (intro Cons.IH) auto
  qed
  then show ?case by (simp add: x)
qed

lemma in_order_step:
  assumes "odr_ok s" and "arrives s x"
  shows "in_order (odr_step s x)"
proof -
  obtain E p where x: "x = (E, p)" by (cases x)
  show ?thesis
  proof (cases p)
    case SelectError
    then show ?thesis using assms(1) by (simp add: x)
  next
    case (Ready loc frs)
    have "in_order (bindr (case loc of None \<Rightarrow> Inr s | Some msg \<Rightarrow> on_local E msg s)
        (run_list (\<lambda>(i, fr) s. on_frame E i fr s) frs))"
    proof (rule in_order_bindr)
      show "in_order (case loc of None \<Rightarrow> Inr s | Some msg \<Rightarrow> on_local E msg s)"
        using assms(1) in_order_local by (simp split: option.split)
      fix t
      assume "(case loc of None \<Rightarrow> Inr s | Some msg \<Rightarrow> on_local E msg s) = Inr t" and "odr_ok t"
      then show "in_order (run_list (\<lambda>(i, fr) s. on_frame E i fr s) frs t)"
        using assms on_local_ok [OF assms(1)] x Ready
        by (intro in_order_frames) (auto split: option.splits)
    qed
    then show ?thesis by (simp add: x Ready)
  qed
qed

interpretation daemon: ending_system odr_step arrives odr_ok stops_in_order
proof
  fix s i t
  assume "odr_ok s" and "arrives s i" and "odr_step s i = Inr t"
  then show "odr_ok t" using odr_step_inv [of s i t "\<lambda>_. True"] by blast
next
  fix s i e
  assume "odr_ok s" and "arrives s i" and "odr_step s i = Inl e"
  then show "stops_in_order e" using in_order_step [of s i] by simp
qed

end
