(* ===== verification/OdrClaims.thy ===== *)
theory OdrClaims
  imports OdrInv
begin

text \<open>
  What one routing daemon promises: tables that stay well formed, routes that only get shorter,
  requests that are flooded once and answered by their destination; and where ports and the
  node's own requests go wrong.
\<close>

section \<open>Routes that only get shorter\<close>

definition shorter :: "odr \<Rightarrow> odr \<Rightarrow> bool" where
  "shorter s t \<longleftrightarrow> (\<forall>k < 10. outgoing_if (o_table s ! k) \<noteq> 0 \<longrightarrow>
     outgoing_if (o_table t ! k) \<noteq> 0 \<and> hop_cnt (o_table t ! k) \<le> hop_cnt (o_table s ! k))"

lemma shorter_refl: "o_table t = o_table s \<Longrightarrow> shorter s t"
  by (simp add: shorter_def)

lemma shorter_trans: "shorter s t \<Longrightarrow> shorter t u \<Longrightarrow> shorter s u"
  unfolding shorter_def by (meson order_trans)

lemma shorter_set:
  assumes "length (o_table s) = 10"
    and "outgoing_if (o_table s ! n) \<noteq> 0 \<Longrightarrow> outgoing_if e \<noteq> 0 \<and> hop_cnt e \<le> hop_cnt (o_table s ! n)"
  shows "shorter s (set_entry n e s)"
  unfolding shorter_def
proof (intro allI impI)
  fix k :: nat
  assume "k < 10" and "outgoing_if (o_table s ! k) \<noteq> 0"
  with assms show "outgoing_if (o_table (set_entry n e s) ! k) \<noteq> 0
      \<and> hop_cnt (o_table (set_entry n e s) ! k) \<le> hop_cnt (o_table s ! k)"
    by (cases "k = n") simp_all
qed

lemma learn_shorter:
  assumes "table_ok s" and "ntohl d \<noteq> 1" and "learn d hops i m addr s = (u, eff)"
  shows "shorter s u"
  using learn_cases [of d hops i m addr s]
proof
  assume "learn d hops i m addr s = (s, False)"
  with assms show ?thesis by (simp add: shorter_refl)
next
  assume "\<exists>n. n = find_route addr s \<and> n < length (o_table s) \<and> better d hops i (o_table s ! n)
       \<and> learn d hops i m addr s = (set_entry n ((o_table s ! n)\<lparr>next_hop := m, outgoing_if := int i + 3,
            hop_cnt := ntohl hops + 1\<rparr>) s, True)"
  with assms obtain n where n: "better d hops i (o_table s ! n)"
    and u: "u = set_entry n ((o_table s ! n)\<lparr>next_hop := m, outgoing_if := int i + 3,
      hop_cnt := ntohl hops + 1\<rparr>) s" by auto
  show ?thesis unfolding u
    using assms(1,2) n by (intro shorter_set) (auto simp: better_def table_ok_def)
qed

fun unforced :: "frame option \<Rightarrow> bool" where
  "unforced None \<longleftrightarrow> True"
| "unforced (Some f) \<longleftrightarrow>
     (case f_body f of Rreq q \<Rightarrow> ntohl (q_discovery q) \<noteq> 1 | Rrep p \<Rightarrow> ntohl (p_discovery p) \<noteq> 1
      | Load l \<Rightarrow> True)"

lemma on_frame_shorter:
  assumes "odr_ok s" and "i < length (o_ifs s)" and "unforced fr" and "on_frame E i fr s = Inr t"
  shows "shorter s t"
proof -
  have tab: "table_ok s" using assms(1) by (simp add: odr_ok_def)
  obtain f where f: "fr = Some f" using assms(4) by (cases fr) (auto simp: on_frame_def)
  show ?thesis
  proof (cases "f_body f")
    case (Rreq q)
    obtain u eff where l: "learn (q_discovery q) (q_hop_cnt q) i (src_mac f) (q_src_addr q) s = (u, eff)"
      by (cases "learn (q_discovery q) (q_hop_cnt q) i (src_mac f) (q_src_addr q) s")
    have "on_RREQ E i (src_mac f) q s = Inr t" using assms(4) f Rreq by (simp add: on_frame_def)
    from on_RREQ_Inr [OF this l refl] obtain e x where
      t: "t = (set_entry (find_route (q_src_addr q) s) ((o_table u ! find_route (q_src_addr q) s)\<lparr>r_broadcast_id := e\<rparr>) u)\<lparr>o_out := x\<rparr>"
      by blast
    have "shorter s u" using assms(3) f Rreq by (intro learn_shorter [OF tab _ l]) simp
    moreover have "length (o_table u) = 10" using learn_ok [OF tab assms(2) l] by (simp add: table_ok_def)
    then have "shorter u t"
      using shorter_set [of u "find_route (q_src_addr q) s"
          "(o_table u ! find_route (q_src_addr q) s)\<lparr>r_broadcast_id := e\<rparr>"]
      by (simp add: t shorter_def)
    ultimately show ?thesis by (rule shorter_trans)
  next
    case (Rrep p)
    obtain u eff where l: "learn (p_discovery p) (p_hop_cnt p) i (src_mac f) (p_src_addr p) s = (u, eff)"
      by (cases "learn (p_discovery p) (p_hop_cnt p) i (src_mac f) (p_src_addr p) s")
    have "on_RREP E i (src_mac f) p s = Inr t" using assms(4) f Rrep by (simp add: on_frame_def)
    then have "o_table t = o_table u"
      using l by (auto simp: on_RREP_def split: if_splits dest!: deliver_Inr send_along_Inr)
    moreover have "shorter s u" using assms(3) f Rrep by (intro learn_shorter [OF tab _ l]) simp
    ultimately show ?thesis by (simp add: shorter_def)
  next
    case (Load l)
    with assms f have "o_table t = o_table s"
      using on_payload_ok [OF assms(1), of E l t] by (simp add: on_frame_def)
    then show ?thesis by (rule shorter_refl)
  qed
qed

fun unforced_pass :: "odr \<Rightarrow> sends \<times> pass \<Rightarrow> bool" where
  "unforced_pass s (E, SelectError) \<longleftrightarrow> True"
| "unforced_pass s (E, Ready loc frs) \<longleftrightarrow> (\<forall>(i, fr) \<in> set frs. i < length (o_ifs s) \<and> unforced fr)"

lemma unforced_arrives: "unforced_pass s x \<Longrightarrow> arrives s x"
  by (induction s x rule: unforced_pass.induct) auto

interpretation improving: guarded_system odr_step unforced_pass "\<lambda>t. odr_ok t \<and> shorter s0 t" for s0
proof
  fix s i t
  assume s: "odr_ok s \<and> shorter s0 s" and i: "unforced_pass s i" and "odr_step s i = Inr t"
  then have "odr_ok t \<and> o_ifs t = o_ifs s \<and> shorter s0 t"
  proof (intro odr_step_inv [of s i t "shorter s0"])
    fix E msg s t
    assume "odr_ok s" "shorter s0 s" "on_local E msg s = Inr t"
    then show "shorter s0 t" using on_local_ok [of s E msg t] by (simp add: shorter_def)
  next
    fix E j fr s' t
    assume *: "odr_ok s'" "shorter s0 s'" "j < length (o_ifs s')" "on_frame E j fr s' = Inr t"
      "\<exists>loc frs. snd i = Ready loc frs \<and> (j, fr) \<in> set frs"
    then have "unforced fr" using i by (cases i) auto
    with * have "shorter s' t" by (intro on_frame_shorter)
    with *(2) show "shorter s0 t" by (rule shorter_trans)
  qed (use unforced_arrives in auto)
  then show "odr_ok t \<and> shorter s0 t" by simp
qed

section \<open>One request\<close>

lemma find_route_addrs:
  "find_route x s = index_of (\<lambda>a. cstr a = cstr x) (map r_dst_addr (o_table s))"
  by (simp add: find_route_def index_of_map)

lemma find_route_set:
  assumes "r_dst_addr e = r_dst_addr (o_table s ! n)"
  shows "find_route x (set_entry n e s) = find_route x s"
proof (cases "n < length (o_table s)")
  case True
  then have "(map r_dst_addr (o_table s))[n := r_dst_addr e] = map r_dst_addr (o_table s)"
    by (simp add: assms list_update_same_conv)
  then show ?thesis by (simp add: find_route_addrs map_update)
qed (simp add: find_route_addrs list_update_beyond)

lemma find_route_cong [simp]:
  "find_route x (s\<lparr>o_out := y\<rparr>) = find_route x s"
  by (simp add: find_route_def)

lemma learn_find_route:
  assumes "learn d hops i m addr s = (u, eff)"
  shows "find_route x u = find_route x s \<and> own_addr u = own_addr s \<and> o_ifs u = o_ifs s"
  using learn_cases [of d hops i m addr s] assms by (auto simp: find_route_set)

lemma learn_True:
  "learn d hops i m addr s = (u, True) \<Longrightarrow> u = set_entry (find_route addr s)
     ((o_table s ! find_route addr s)\<lparr>next_hop := m, outgoing_if := int i + 3, hop_cnt := ntohl hops + 1\<rparr>) s"
  by (simp add: learn_def Let_def split: if_splits)

lemma learn_False:
  "learn d hops i m addr s = (u, False) \<Longrightarrow> u = s
     \<and> (find_route addr s < length (o_table s) \<longrightarrow> \<not> better d hops i (o_table s ! find_route addr s))"
  by (simp add: learn_def Let_def split: if_splits)

lemma on_RREQ_again:
  assumes "odr_ok s" and "i < length (o_ifs s)" and "ntohl (q_discovery q) \<noteq> 1"
    and "on_RREQ E i m q s = Inr t"
  shows "\<exists>u. on_RREQ E' i m q t = Inr u \<and> o_out u = o_out t \<and> o_table u = o_table t"
proof -
  let ?n = "find_route (q_src_addr q) s"
  obtain u eff where l: "learn (q_discovery q) (q_hop_cnt q) i m (q_src_addr q) s = (u, eff)"
    by (cases "learn (q_discovery q) (q_hop_cnt q) i m (q_src_addr q) s")
  from on_RREQ_Inr [OF assms(4) l refl] obtain x where n: "?n < length (o_table u)"
    and t: "t = (set_entry ?n ((o_table u ! ?n)\<lparr>r_broadcast_id := ntohl (q_broadcast_id q)\<rparr>) u)\<lparr>o_out := x\<rparr>"
    by blast
  let ?e = "(o_table u ! ?n)\<lparr>r_broadcast_id := ntohl (q_broadcast_id q)\<rparr>"
  have tn: "o_table t ! ?n = ?e" "length (o_table t) = length (o_table u)" using n by (simp_all add: t)
  have "find_route y t = find_route y u" for y
    by (simp add: t find_route_set)
  then have fr: "find_route (q_src_addr q) t = ?n" using learn_find_route [OF l] by simp
  have len: "length (o_table u) = length (o_table s)"
    using learn_cases [of "q_discovery q" "q_hop_cnt q" i m "q_src_addr q" s] l by auto
  have "\<not> better (q_discovery q) (q_hop_cnt q) i ?e"
  proof (cases eff)
    case True
    then have "o_table u ! ?n = (o_table s ! ?n)\<lparr>next_hop := m, outgoing_if := int i + 3,
        hop_cnt := ntohl (q_hop_cnt q) + 1\<rparr>"
      using learn_True [of "q_discovery q" "q_hop_cnt q" i m "q_src_addr q" s u] l n len by simp
    then show ?thesis using assms(3) by (simp add: better_def)
  next
    case False
    then have "u = s" "\<not> better (q_discovery q) (q_hop_cnt q) i (o_table s ! ?n)"
      using learn_False [of "q_discovery q" "q_hop_cnt q" i m "q_src_addr q" s u] l n len by simp_all
    then show ?thesis by (simp add: better_def)
  qed
  then have l2: "learn (q_discovery q) (q_hop_cnt q) i m (q_src_addr q) t = (t, False)"
    by (simp add: learn_def Let_def fr tn)
  have nn: "\<not> newer q False ?e" by (simp add: newer_def)
  let ?w = "set_entry ?n ?e t"
  have nb: "note_broadcast ?n q t = Inr ?w"
    using n by (simp add: note_broadcast_Inr tn)
  have "on_RREQ E' i m q t = Inr ?w"
    using l2 nn n nb unfolding on_RREQ_defs fr by (simp add: with_entry_def tn Let_def)
  moreover have "o_table ?w = o_table t" using tn(1) by (simp add: list_update_same_conv n tn(2))
  ultimately show ?thesis by auto
qed

section \<open>Stopping\<close>

text \<open>The only way a handler stops the daemon: a \<^verbatim>\<open>sendto\<close> on a raw socket fails.\<close>

definition only_send_fails :: "sends \<Rightarrow> odr outcome \<Rightarrow> bool" where
  "only_send_fails E r =
     (case r of Inl (e, s) \<Rightarrow> e = Exit 1 raw_failed \<and> (\<exists>n. \<not> E n) | Inr s \<Rightarrow> True)"

lemma osf_Inr [simp]: "only_send_fails E (Inr s)"
  by (simp add: only_send_fails_def)

lemma osf_bindr [intro]:
  "only_send_fails E m \<Longrightarrow> (\<And>s. m = Inr s \<Longrightarrow> only_send_fails E (f s)) \<Longrightarrow> only_send_fails E (bindr m f)"
  by (cases m) (auto simp: only_send_fails_def)

lemma osf_returns: "only_send_fails E r \<Longrightarrow> (\<And>n. E n) \<Longrightarrow> \<exists>t. r = Inr t"
  by (cases r) (auto simp: only_send_fails_def)

lemma osf_benign: "only_send_fails E r \<Longrightarrow> benign r"
  by (cases r) (auto simp: only_send_fails_def)

lemma osf_send_frame: "only_send_fails E (send_frame E i d m b s)"
  by (auto simp: send_frame_def emit_def only_send_fails_def)

lemma osf_flood: "only_send_fails E (flood E ks q s)"
  unfolding flood_def by (induction ks arbitrary: s) (auto intro: osf_send_frame)

lemma osf_with_entry:
  "n < length (o_table s) \<Longrightarrow> only_send_fails E (f (o_table s ! n)) \<Longrightarrow> only_send_fails E (with_entry n s f)"
  by (simp add: with_entry_def)

lemma osf_note: "n < length (o_table s) \<Longrightarrow> only_send_fails E (note_broadcast n q s)"
  by (simp add: note_broadcast_def osf_with_entry)

lemma osf_reply:
  assumes "n < length (o_table s)" and "if_slot (outgoing_if (o_table s ! n)) s = Some k"
  shows "only_send_fails E (reply E i n m q h d s)"
  using assms by (simp add: reply_def with_entry_def with_if_def osf_send_frame)

lemma if_slot_ok:
  assumes "table_ok s" and "k < 10" and "outgoing_if (o_table s ! k) \<noteq> 0"
  shows "if_slot (outgoing_if (o_table s ! k)) s = Some (nat (outgoing_if (o_table s ! k) - 3))"
  using assms by (auto simp: table_ok_def entry_ok_def if_slot_def)

text \<open>After a request has been heard there is a route to its source.\<close>

lemma learn_route:
  assumes "table_ok s" and "k < 10" and "cstr addr = vm_addr ! k"
    and "learn d hops i m addr s = (u, eff)"
  shows "outgoing_if (o_table u ! k) \<noteq> 0"
proof -
  have k: "find_route addr s = k" "length (o_table s) = 10"
    using find_route_vm [OF assms(1-3)] assms(1) by (simp_all add: table_ok_def)
  show ?thesis
  proof (cases eff)
    case True
    then show ?thesis using learn_True [of d hops i m addr s u] assms(2,4) k by simp
  next
    case False
    then have "u = s" "\<not> better d hops i (o_table s ! k)"
      using learn_False [of d hops i m addr s u] assms(2,4) k by auto
    then show ?thesis by (simp add: better_def)
  qed
qed

lemma on_RREQ_stops:
  assumes "odr_ok s" and "i < length (o_ifs s)" and "k < 10" and "cstr (q_src_addr q) = vm_addr ! k"
  shows "only_send_fails E (on_RREQ E i m q s)"
proof -
  have tab: "table_ok s" using assms(1) by (simp add: odr_ok_def)
  obtain u eff where l: "learn (q_discovery q) (q_hop_cnt q) i m (q_src_addr q) s = (u, eff)"
    by (cases "learn (q_discovery q) (q_hop_cnt q) i m (q_src_addr q) s")
  have k: "find_route (q_src_addr q) s = k" by (rule find_route_vm [OF tab assms(3,4)])
  have u: "table_ok u" using learn_ok [OF tab assms(2) l] by blast
  then have len: "length (o_table u) = 10" by (simp add: table_ok_def)
  note slot = if_slot_ok [OF u assms(3) learn_route [OF tab assms(3,4) l]]
  have answer: "only_send_fails E (reply E i k m q h d u)" for h d
    using osf_reply [OF _ slot] assms(3) len by simp
  have kept: "k < length (o_table v)" if "reply E i k m q h d u = Inr v" for h d v
    using that assms(3) len by (auto dest: reply_Inr)
  have flooded: "k < length (o_table v)" if "flood E ks r u = Inr v" for ks r v
    using that assms(3) len by (auto dest: flood_Inr)
  show ?thesis
    unfolding on_RREQ_defs Let_def l prod.case k
    by (intro osf_with_entry)
      (use assms(3) len in \<open>auto intro!: osf_bindr osf_note answer osf_flood dest: kept flooded\<close>)
qed

section \<open>The entry of the source and the output\<close>

lemma learn_keeps_id:
  "learn d hops i m addr s = (u, eff) \<Longrightarrow> r_broadcast_id (o_table u ! k) = r_broadcast_id (o_table s ! k)"
  using learn_cases [of d hops i m addr s]
  by (auto simp: nth_list_update split: if_splits)

lemma on_RREQ_entry:
  assumes "odr_ok s" and "i < length (o_ifs s)" and "k < 10" and "cstr (q_src_addr q) = vm_addr ! k"
    and "on_RREQ E i m q s = Inr t"
  shows "outgoing_if (o_table t ! k) \<noteq> 0 \<and> r_broadcast_id (o_table t ! k) = ntohl (q_broadcast_id q)"
proof -
  have tab: "table_ok s" using assms(1) by (simp add: odr_ok_def)
  obtain u eff where l: "learn (q_discovery q) (q_hop_cnt q) i m (q_src_addr q) s = (u, eff)"
    by (cases "learn (q_discovery q) (q_hop_cnt q) i m (q_src_addr q) s")
  have k: "k = find_route (q_src_addr q) s" using find_route_vm [OF tab assms(3,4)] by simp
  from on_RREQ_Inr [OF assms(5) l k] show ?thesis
    using learn_route [OF tab assms(3,4) l] by auto
qed

lemma usable_route_entry:
  assumes "table_ok s" and "usable_route q s < length (o_table s)"
  shows "usable_route q s < 10 \<and> cstr (q_dst_addr q) = vm_addr ! usable_route q s
    \<and> outgoing_if (o_table s ! usable_route q s) \<noteq> 0"
  using assms index_of_nth [OF assms(2) [unfolded usable_route_def]]
  by (auto simp: table_ok_def entry_ok_def usable_route_def cstr_vm_addr)

text \<open>What a request sends, in terms of the state in which it arrives.\<close>

lemma on_RREQ_out:
  assumes "odr_ok s" and "i < length (o_ifs s)" and "k < 10" and "cstr (q_src_addr q) = vm_addr ! k"
    and "on_RREQ E i m q s = Inr t"
  shows "\<exists>u eff r. learn (q_discovery q) (q_hop_cnt q) i m (q_src_addr q) s = (u, eff)
    \<and> r_broadcast_id (o_table u ! k) = r_broadcast_id (o_table s ! k) \<and> table_ok u
    \<and> own_addr u = own_addr s \<and> o_ifs u = o_ifs s
    \<and> o_out t = o_out s @ rreq_out i m r q eff (o_table u ! k) u"
proof -
  have tab: "table_ok s" using assms(1) by (simp add: odr_ok_def)
  obtain u eff where l: "learn (q_discovery q) (q_hop_cnt q) i m (q_src_addr q) s = (u, eff)"
    by (cases "learn (q_discovery q) (q_hop_cnt q) i m (q_src_addr q) s")
  have k: "k = find_route (q_src_addr q) s" using find_route_vm [OF tab assms(3,4)] by simp
  from on_RREQ_Inr [OF assms(5) l k] obtain r where
    "o_out t = o_out u @ rreq_out i m r q eff (o_table u ! k) u" by auto
  then show ?thesis
    using l learn_keeps_id [OF l] learn_find_route [OF l] learn_ok [OF tab assms(2) l] by metis
qed

text \<open>The destination's answer.\<close>

lemma on_RREQ_answers:
  assumes "odr_ok s" and "i < length (o_ifs s)" and "\<And>n. E n"
    and "k < 10" and "cstr (q_src_addr q) = vm_addr ! k" and "cstr (q_dst_addr q) = own_addr s"
    and "ntohl (q_RREP_sent q) = 0" and "r_broadcast_id (o_table s ! k) < ntohl (q_broadcast_id q)"
  shows "\<exists>t r d. on_RREQ E i m q s = Inr t \<and> o_out t = o_out s @ [Raw i \<lparr>dst_mac = m, src_mac = r,
      f_body = Rrep \<lparr>p_src_addr = q_dst_addr q, p_dst_addr = q_src_addr q,
        p_dst_port = htonl (q_src_port q), p_hop_cnt = 0, p_discovery = d\<rparr>\<rparr>]
    \<and> outgoing_if (o_table t ! k) \<noteq> 0 \<and> r_broadcast_id (o_table t ! k) = ntohl (q_broadcast_id q)"
proof -
  obtain t where t: "on_RREQ E i m q s = Inr t"
    using osf_returns [OF on_RREQ_stops [OF assms(1,2,4,5), of E m]] assms(3) by blast
  from on_RREQ_out [OF assms(1,2,4,5) t] assms(6-8) have "\<exists>r d. o_out t = o_out s @ [rrep_frame i m r q 0 d]"
    unfolding rreq_out_def Let_def newer_def by (elim exE conjE, intro exI) simp
  then show ?thesis
    using t on_RREQ_entry [OF assms(1,2,4,5) t] by (force simp: rrep_frame_def bswap32_def)
qed

end
