(* ===== verification/OdrProps.thy ===== *)
theory OdrProps
  imports OdrClaims
begin

text \<open>
  The properties of one routing daemon, over the lemmas of \<open>OdrInv\<close> and \<open>OdrClaims\<close>, and the
  text protocol between the daemon and the applications of its node.
\<close>

section \<open>A daemon to evaluate\<close>

definition example_mac :: "u8 \<Rightarrow> mac" where
  "example_mac k = [2, 0, 0, 0, 0, k]"

definition example_vars :: odr where
  "example_vars = \<lparr>o_node = 0, o_ifs = [], o_table = [], o_ports = [], o_broadcast_id = 0, o_port = 0,
     o_recvmsg = [], o_dst_addr = [], o_dst_port = 0, o_message = [], o_flag = 0, o_localaddr = [],
     o_out = []\<rparr>"

text \<open>Node 2 with two interfaces, and a request of node 1 for node 2 or for node 3.\<close>

definition example_odr :: odr where
  "example_odr = odr_start 2 [example_mac 1, example_mac 2]
     (\<lambda>_. \<lparr>r_dst_addr = [], next_hop = [], outgoing_if = 0, hop_cnt = 0, r_broadcast_id = 0\<rparr>) example_vars"

definition example_request :: "nat \<Rightarrow> RREQ" where
  "example_request d = \<lparr>q_src_addr = vm_addr ! 0, q_dst_addr = vm_addr ! d, q_src_port = htonl 6000,
     q_broadcast_id = htonl 1, q_hop_cnt = htonl 0, q_RREP_sent = htonl 0, q_discovery = htonl 0\<rparr>"

lemma example_odr_ok: "odr_ok example_odr"
  by (simp add: example_odr_def odr_start_ok)

lemma example_odr_simps:
  "o_ifs example_odr = [example_mac 1, example_mac 2]" "own_addr example_odr = vm_addr ! 1"
  "k < 10 \<Longrightarrow> o_table example_odr ! k
     = \<lparr>r_dst_addr = vm_addr ! k, next_hop = [], outgoing_if = 0, hop_cnt = 0, r_broadcast_id = 0\<rparr>"
  by (simp_all add: example_odr_def odr_start_def own_addr_def init_table_def)

lemma example_request_simps:
  "q_src_addr (example_request d) = vm_addr ! 0" "q_dst_addr (example_request d) = vm_addr ! d"
  "ntohl (q_broadcast_id (example_request d)) = 1" "ntohl (q_hop_cnt (example_request d)) = 0"
  "ntohl (q_RREP_sent (example_request d)) = 0" "ntohl (q_discovery (example_request d)) = 0"
  by (simp_all add: example_request_def)

lemma example_returns:
  "\<exists>t. on_RREQ (\<lambda>_. True) 0 (example_mac 9) (example_request d) example_odr = Inr t"
  by (rule osf_returns [OF on_RREQ_stops [OF example_odr_ok, of 0 0]])
    (simp_all add: example_odr_simps example_request_simps cstr_vm_addr)

lemmas example_simps = example_odr_simps example_request_simps cstr_vm_addr

section \<open>The tables\<close>

text \<open>
  C10. Whatever frames arrive on its interfaces and whatever the local applications send, the
  daemon's tables are well formed at every moment, also where it stops: entry k of the routing
  table is the one of the k-th node and names no interface or one the node has, the port table
  has at most ten entries, starts with the server's well-known one and gives the clients the
  ports 6000, 6001, ... in order. It stops on the overflow of the port table exactly where the
  code would write its eleventh entry.
\<close>
theorem tables_stay_well_formed:
  assumes "1 \<le> node" and "node \<le> 10"
    and "admissible arrives odr_step (odr_start node ifs junk vars) passes"
  shows "case run odr_step (odr_start node ifs junk vars) passes of
      Inr t \<Rightarrow> odr_ok t
    | Inl (e, t) \<Rightarrow> odr_ok t \<and> (e = Undefined ''port_table'' \<longrightarrow> length (o_ports t) = 10)"
  using daemon.guarded_run_inv [OF odr_start_ok [OF assms(1,2)] assms(3)]
    daemon.run_ends [OF odr_start_ok [OF assms(1,2)] assms(3)]
  by (fastforce split: sum.split)

lemma example_pass:
  assumes "on_RREQ (\<lambda>_. True) 0 (example_mac 9) (example_request d) example_odr = Inr t"
  shows "run odr_step example_odr [(\<lambda>_. True, Ready None
    [(0, Some \<lparr>dst_mac = broadcast, src_mac = example_mac 9, f_body = Rreq (example_request d)\<rparr>)])] = Inr t"
  using assms by (simp add: on_frame_def)

theorem tables_stay_well_formed_witness:
  "\<exists>t. run odr_step example_odr [(\<lambda>_. True, Ready None
    [(0, Some \<lparr>dst_mac = broadcast, src_mac = example_mac 9, f_body = Rreq (example_request 2)\<rparr>)])] = Inr t
    \<and> odr_ok t"
proof -
  obtain t where t: "on_RREQ (\<lambda>_. True) 0 (example_mac 9) (example_request 2) example_odr = Inr t"
    using example_returns by blast
  let ?r = "[(\<lambda>_. True, Ready None
    [(0, Some \<lparr>dst_mac = broadcast, src_mac = example_mac 9, f_body = Rreq (example_request 2)\<rparr>)])]"
  have "admissible arrives odr_step example_odr ?r"
    by (simp add: example_odr_simps split: sum.splits)
  then have "case run odr_step example_odr ?r of Inr t \<Rightarrow> odr_ok t
      | Inl (e, t) \<Rightarrow> odr_ok t \<and> (e = Undefined ''port_table'' \<longrightarrow> length (o_ports t) = 10)"
    unfolding example_odr_def by (intro tables_stay_well_formed) simp_all
  then show ?thesis using example_pass [OF t] by simp
qed

text \<open>
  C11. A route is never lost and never gets longer: over any run in which no frame forces a new
  discovery, an entry that names an interface keeps naming one and its hop count does not grow.
\<close>
theorem routes_only_improve:
  assumes "odr_ok s" and "admissible unforced_pass odr_step s passes" and "run odr_step s passes = Inr t"
    and "k < 10" and "outgoing_if (o_table s ! k) \<noteq> 0"
  shows "outgoing_if (o_table t ! k) \<noteq> 0 \<and> hop_cnt (o_table t ! k) \<le> hop_cnt (o_table s ! k)"
  using improving.guarded_run_inv [of s s passes t] assms by (simp add: shorter_refl) (simp add: shorter_def)

text \<open>After the request of node 1, the same request over a longer way.\<close>

theorem routes_only_improve_witness:
  "\<exists>s t. run odr_step s [(\<lambda>_. True, Ready None [(1, Some \<lparr>dst_mac = broadcast, src_mac = example_mac 8,
       f_body = Rreq (one_hop_more (example_request 2))\<rparr>)])] = Inr t
    \<and> outgoing_if (o_table s ! 0) \<noteq> 0 \<and> hop_cnt (o_table t ! 0) \<le> hop_cnt (o_table s ! 0)"
proof -
  let ?q = "one_hop_more (example_request 2)"
  have src: "q_src_addr ?q = vm_addr ! 0" "ntohl (q_discovery ?q) = 0"
    by (simp_all add: one_hop_more_def example_simps)
  obtain s where s: "on_RREQ (\<lambda>_. True) 0 (example_mac 9) (example_request 2) example_odr = Inr s"
    using example_returns by blast
  have ok: "odr_ok s" "o_ifs s = [example_mac 1, example_mac 2]"
    using on_RREQ_ok [OF example_odr_ok _ s] by (simp_all add: example_simps)
  have route: "outgoing_if (o_table s ! 0) \<noteq> 0"
    using on_RREQ_entry [OF example_odr_ok _ _ _ s, of 0] by (simp add: example_simps)
  obtain t where t: "on_RREQ (\<lambda>_. True) 1 (example_mac 8) ?q s = Inr t"
    using osf_returns [OF on_RREQ_stops [OF ok(1), of 1 0 ?q]] ok src cstr_vm_addr by fastforce
  let ?r = "[(\<lambda>_. True, Ready None [(1, Some \<lparr>dst_mac = broadcast, src_mac = example_mac 8, f_body = Rreq ?q\<rparr>)])]"
  have r: "run odr_step s ?r = Inr t" using t by (simp add: on_frame_def)
  have "outgoing_if (o_table t ! 0) \<noteq> 0 \<and> hop_cnt (o_table t ! 0) \<le> hop_cnt (o_table s ! 0)"
    by (rule routes_only_improve [OF ok(1) _ r _ route])
      (simp_all add: ok src split: sum.splits)
  with r route show ?thesis by blast
qed

section \<open>Route requests\<close>

text \<open>
  Every frame a route request causes is either the reply to it, sent back through the interface
  it came from to the node it came from, or the request itself with one hop more, broadcast on
  another interface of the node: no request is ever sent back where it came from.
\<close>
theorem request_frames:
  assumes "on_RREQ E i m q s = Inr t"
  shows "\<exists>out. o_out t = o_out s @ out \<and> (\<forall>a \<in> set out.
      (\<exists>f p. a = Raw i f \<and> dst_mac f = m \<and> f_body f = Rrep p
          \<and> p_src_addr p = q_dst_addr q \<and> p_dst_addr p = q_src_addr q)
    \<or> (\<exists>j f q'. a = Raw j f \<and> j \<noteq> i \<and> j < length (o_ifs s) \<and> dst_mac f = broadcast
          \<and> src_mac f = o_ifs s ! j \<and> f_body f = Rreq q'
          \<and> ntohl (q_hop_cnt q') = ntohl (q_hop_cnt q) + 1
          \<and> q_src_addr q' = q_src_addr q \<and> q_dst_addr q' = q_dst_addr q
          \<and> q_broadcast_id q' = q_broadcast_id q))"
proof -
  obtain u eff where l: "learn (q_discovery q) (q_hop_cnt q) i m (q_src_addr q) s = (u, eff)"
    by (cases "learn (q_discovery q) (q_hop_cnt q) i m (q_src_addr q) s")
  have u: "o_out u = o_out s \<and> o_ifs u = o_ifs s"
    using learn_cases [of "q_discovery q" "q_hop_cnt q" i m "q_src_addr q" s] l by auto
  from on_RREQ_Inr [OF assms l refl] obtain r e where
    t: "o_out t = o_out u @ rreq_out i m r q eff e u" by auto
  show ?thesis
    using u by (intro exI [of _ "rreq_out i m r q eff e u"])
      (auto simp: t rreq_out_def Let_def rrep_frame_def broadcasts_def others_def one_hop_more_def)
qed

theorem request_frames_witness:
  "\<exists>t out. on_RREQ (\<lambda>_. True) 0 (example_mac 9) (example_request 2) example_odr = Inr t
    \<and> o_out t = o_out example_odr @ out"
  using example_returns request_frames by metis



text \<open>
  C13. A node that is not the destination of a new request and has no route to it passes it on: when
  every send succeeds the daemon goes on, having broadcast the request with one hop more on
  every interface except the one it came from, in the order of the interfaces.
\<close>
theorem request_passed_on:
  assumes "odr_ok s" and "i < length (o_ifs s)" and "\<And>n. E n"
    and "k < 10" and "cstr (q_src_addr q) = vm_addr ! k"
    and "d < 10" and "cstr (q_dst_addr q) = vm_addr ! d" and "d \<noteq> o_node s - 1" and "d \<noteq> k"
    and "outgoing_if (o_table s ! d) = 0"
    and "r_broadcast_id (o_table s ! k) < ntohl (q_broadcast_id q)"
  shows "\<exists>t. on_RREQ E i m q s = Inr t \<and> o_out t = o_out s
    @ map (\<lambda>j. Raw j \<lparr>dst_mac = broadcast, src_mac = o_ifs s ! j, f_body = Rreq (one_hop_more q)\<rparr>)
        [j \<leftarrow> [0..<length (o_ifs s)]. j \<noteq> i]"
proof -
  obtain t where t: "on_RREQ E i m q s = Inr t"
    using osf_returns [OF on_RREQ_stops [OF assms(1,2,4,5), of E m]] assms(3) by blast
  from on_RREQ_out [OF assms(1,2,4,5) t] obtain u eff r where
    u: "r_broadcast_id (o_table u ! k) = r_broadcast_id (o_table s ! k)" "table_ok u"
      "own_addr u = own_addr s" "o_ifs u = o_ifs s"
    and l: "learn (q_discovery q) (q_hop_cnt q) i m (q_src_addr q) s = (u, eff)"
    and o: "o_out t = o_out s @ rreq_out i m r q eff (o_table u ! k) u" by blast
  have "cstr (q_dst_addr q) \<noteq> own_addr u"
    using assms(1,6-8) u(3) vm_addr_facts by (auto simp: own_addr_def odr_ok_def nth_eq_iff_index_eq)
  moreover have "find_route (q_src_addr q) s = k"
    using assms(1) by (intro find_route_vm [OF _ assms(4,5)]) (simp add: odr_ok_def)
  then have none: "outgoing_if (o_table u ! d) = 0"
    using learn_cases [of "q_discovery q" "q_hop_cnt q" i m "q_src_addr q" s] l assms(9,10) by auto
  have "\<not> usable_route q u < length (o_table u)"
    using usable_route_entry [OF u(2), of q] none assms(6,7) vm_addr_facts by (auto simp: nth_eq_iff_index_eq)
  moreover have "newer q eff (o_table u ! k)" using assms(11) u(1) by (simp add: newer_def)
  ultimately show ?thesis
    using t o u(4) by (simp add: rreq_out_def Let_def broadcasts_def others_def)
qed

theorem request_passed_on_witness:
  "\<exists>t. on_RREQ (\<lambda>_. True) 0 (example_mac 9) (example_request 2) example_odr = Inr t
    \<and> o_out t = o_out example_odr @ [Raw 1 \<lparr>dst_mac = broadcast, src_mac = example_mac 2,
        f_body = Rreq (one_hop_more (example_request 2))\<rparr>]"
  using request_passed_on [OF example_odr_ok, of 0 "\<lambda>_. True" 0 "example_request 2" 2 "example_mac 9"]
  by (simp add: example_simps) (simp add: example_odr_def odr_start_def numeral_eq_Suc)



text \<open>
  A request that forces a new discovery is not recognised: whatever the entry of its source holds,
  it counts as a better route, and a node that is not the destination floods it again every time
  it hears it. The broadcast identifier does not stop it.
\<close>
theorem forced_request_floods_again:
  assumes "odr_ok s" and "i < length (o_ifs s)" and "\<And>n. E n" and "ntohl (q_discovery q) = 1"
    and "k < 10" and "cstr (q_src_addr q) = vm_addr ! k"
    and "cstr (q_dst_addr q) \<noteq> own_addr s" and "r_broadcast_id (o_table s ! k) = ntohl (q_broadcast_id q)"
  shows "\<exists>t. on_RREQ E i m q s = Inr t \<and> o_out t = o_out s
    @ map (\<lambda>j. Raw j \<lparr>dst_mac = broadcast, src_mac = o_ifs s ! j, f_body = Rreq (one_hop_more q)\<rparr>)
        [j \<leftarrow> [0..<length (o_ifs s)]. j \<noteq> i]
    \<and> odr_ok t \<and> o_ifs t = o_ifs s \<and> own_addr t = own_addr s
    \<and> r_broadcast_id (o_table t ! k) = ntohl (q_broadcast_id q)"
proof -
  obtain t where t: "on_RREQ E i m q s = Inr t"
    using osf_returns [OF on_RREQ_stops [OF assms(1,2,5,6), of E m]] assms(3) by blast
  from on_RREQ_out [OF assms(1,2,5,6) t] obtain u eff r where
    u: "r_broadcast_id (o_table u ! k) = r_broadcast_id (o_table s ! k)" "table_ok u"
      "own_addr u = own_addr s" "o_ifs u = o_ifs s"
    and l: "learn (q_discovery q) (q_hop_cnt q) i m (q_src_addr q) s = (u, eff)"
    and o: "o_out t = o_out s @ rreq_out i m r q eff (o_table u ! k) u" by blast
  have "find_route (q_src_addr q) s < length (o_table s)"
    using assms(1,5) find_route_vm [OF _ assms(5,6), of s] by (simp add: odr_ok_def table_ok_def)
  then have eff using l assms(4) by (simp add: learn_def Let_def better_def split: if_splits)
  have "\<not> usable_route q u < length (o_table u)"
    unfolding usable_route_def index_of_less_iff using assms(4) by simp
  moreover have "newer q eff (o_table u ! k)" using assms(8) u(1) \<open>eff\<close> by (simp add: newer_def)
  moreover have "own_addr t = own_addr s"
    using on_RREQ_Inr [OF t l refl] u(3) by (auto simp: own_addr_def set_entry_def)
  ultimately show ?thesis
    using t o u(3,4) assms(7) on_RREQ_ok [OF assms(1,2) t] on_RREQ_entry [OF assms(1,2,5,6) t]
    by (simp add: rreq_out_def Let_def broadcasts_def others_def)
qed

theorem forced_request_floods_again_witness:
  "\<exists>s t. on_RREQ (\<lambda>_. True) 0 (example_mac 9) ((example_request 2)\<lparr>q_discovery := htonl 1\<rparr>) example_odr = Inr s
    \<and> on_RREQ (\<lambda>_. True) 0 (example_mac 9) ((example_request 2)\<lparr>q_discovery := htonl 1\<rparr>) s = Inr t
    \<and> o_out t \<noteq> o_out s"
proof -
  let ?q = "(example_request 2)\<lparr>q_discovery := htonl 1\<rparr>"
  have q: "cstr (q_src_addr ?q) = vm_addr ! 0" "ntohl (q_discovery ?q) = 1" "q_dst_addr ?q = vm_addr ! 2"
    by (simp_all add: example_simps)
  obtain s where s: "on_RREQ (\<lambda>_. True) 0 (example_mac 9) ?q example_odr = Inr s"
    using osf_returns [OF on_RREQ_stops [OF example_odr_ok, of 0 0 ?q "\<lambda>_. True" "example_mac 9"]] q
    by (auto simp: example_odr_simps cstr_vm_addr)
  obtain u eff where l: "learn (q_discovery ?q) (q_hop_cnt ?q) 0 (example_mac 9) (q_src_addr ?q) example_odr = (u, eff)"
    by (cases "learn (q_discovery ?q) (q_hop_cnt ?q) 0 (example_mac 9) (q_src_addr ?q) example_odr")
  have "own_addr s = vm_addr ! 1"
    using on_RREQ_Inr [OF s l refl] learn_find_route [OF l] example_odr_simps(2)
    by (auto simp: own_addr_def set_entry_def)
  moreover have "odr_ok s" "o_ifs s = [example_mac 1, example_mac 2]"
    using on_RREQ_ok [OF example_odr_ok _ s] by (simp_all add: example_simps)
  moreover have "r_broadcast_id (o_table s ! 0) = ntohl (q_broadcast_id ?q)"
    using on_RREQ_entry [OF example_odr_ok _ _ q(1) s] by (simp add: example_simps)
  ultimately show ?thesis
    using forced_request_floods_again [of s 0 "\<lambda>_. True" ?q 0 "example_mac 9"] s q
    by (auto simp: cstr_vm_addr vm_addr_facts nth_eq_iff_index_eq)
qed

text \<open>
  A request that comes in over a way longer than the known route, through another interface,
  is answered with a forged origin: the reply leaves through the interface the request came from
  with the hardware address of the interface of the known route. The node that gets the reply
  takes that address, which is not on its wire, for its next hop.
\<close>
theorem reply_names_other_interface:
  assumes "odr_ok s" and "i < length (o_ifs s)" and "\<And>n. E n"
    and "k < 10" and "cstr (q_src_addr q) = vm_addr ! k" and "cstr (q_dst_addr q) = own_addr s"
    and "ntohl (q_RREP_sent q) = 0" and "r_broadcast_id (o_table s ! k) < ntohl (q_broadcast_id q)"
    and "ntohl (q_discovery q) = 0" and "outgoing_if (o_table s ! k) = int j + 3" and "j \<noteq> i"
    and "hop_cnt (o_table s ! k) < ntohl (q_hop_cnt q) + 1"
  shows "\<exists>t f. on_RREQ E i m q s = Inr t \<and> o_out t = o_out s @ [Raw i f]
    \<and> dst_mac f = m \<and> src_mac f = o_ifs s ! j"
proof -
  have tab: "table_ok s" using assms(1) by (simp add: odr_ok_def)
  have k: "find_route (q_src_addr q) s = k" by (rule find_route_vm [OF tab assms(4,5)])
  have len: "k < length (o_table s)" using tab assms(4) by (simp add: table_ok_def)
  have l: "learn (q_discovery q) (q_hop_cnt q) i m (q_src_addr q) s = (s, False)"
    using assms(9,10,12) k len by (auto simp: learn_def Let_def better_def)
  have slot: "if_slot (int j + 3) s = Some j"
    using if_slot_ok [OF tab assms(4)] assms(10) by simp
  show ?thesis
    using assms(3,6-10) len slot unfolding on_RREQ_defs Let_def l k prod.case
    by (simp add: with_entry_def newer_def reply_def with_if_def send_frame_def emit_def note_broadcast_def)
qed

text \<open>Node 2 knows a route to node 1 through its first interface and hears a longer way on the second.\<close>

theorem reply_names_other_interface_witness:
  "\<exists>s t f. outgoing_if (o_table s ! 0) = 3 \<and> on_RREQ (\<lambda>_. True) 1 (example_mac 8)
       ((one_hop_more (example_request 1))\<lparr>q_broadcast_id := htonl 2\<rparr>) s = Inr t
    \<and> o_out t = o_out s @ [Raw 1 f] \<and> src_mac f = o_ifs s ! 0"
proof -
  let ?s = "set_entry 0 \<lparr>r_dst_addr = vm_addr ! 0, next_hop = example_mac 9, outgoing_if = 3,
       hop_cnt = 1, r_broadcast_id = 1\<rparr> example_odr"
  let ?q = "(one_hop_more (example_request 1))\<lparr>q_broadcast_id := htonl 2\<rparr>"
  have "table_ok ?s"
    by (rule table_ok_set) (use example_odr_ok in \<open>auto simp: odr_ok_def entry_ok_def example_simps\<close>)
  then have ok: "odr_ok ?s" using odr_ok_cong [OF example_odr_ok] by simp
  have "0 < length (o_table example_odr)" using example_odr_ok by (auto simp: odr_ok_def table_ok_def)
  then have e: "o_table ?s ! 0 = \<lparr>r_dst_addr = vm_addr ! 0, next_hop = example_mac 9, outgoing_if = 3,
       hop_cnt = 1, r_broadcast_id = 1\<rparr>" by simp
  have "\<exists>t f. on_RREQ (\<lambda>_. True) 1 (example_mac 8) ?q ?s = Inr t \<and> o_out t = o_out ?s @ [Raw 1 f]
      \<and> dst_mac f = example_mac 8 \<and> src_mac f = o_ifs ?s ! 0"
    by (rule reply_names_other_interface [OF ok, where k = 0], unfold e)
      (simp_all add: example_simps one_hop_more_def)
  moreover have "outgoing_if (o_table ?s ! 0) = 3" unfolding e by simp
  ultimately show ?thesis by blast
qed

text \<open>
  A node that hears its own request again, from a neighbour that passed it on, takes it for
  news: it enters a route to itself through that neighbour.
\<close>
theorem own_request_gives_route_to_self:
  assumes "odr_ok s" and "i < length (o_ifs s)" and "cstr (q_src_addr q) = own_addr s"
    and "outgoing_if (o_table s ! (o_node s - 1)) = 0" and "on_RREQ E i m q s = Inr t"
  shows "outgoing_if (o_table t ! (o_node s - 1)) = int i + 3
    \<and> hop_cnt (o_table t ! (o_node s - 1)) = ntohl (q_hop_cnt q) + 1
    \<and> next_hop (o_table t ! (o_node s - 1)) = m"
proof -
  let ?k = "o_node s - 1"
  have tab: "table_ok s" and kk: "?k < 10" using assms(1) by (auto simp: odr_ok_def)
  have k: "?k = find_route (q_src_addr q) s"
    using find_route_vm [OF tab kk] assms(3) by (simp add: own_addr_def)
  have len: "?k < length (o_table s)" using tab kk by (simp add: table_ok_def)
  let ?u = "set_entry ?k ((o_table s ! ?k)\<lparr>next_hop := m, outgoing_if := int i + 3,
      hop_cnt := ntohl (q_hop_cnt q) + 1\<rparr>) s"
  have l: "learn (q_discovery q) (q_hop_cnt q) i m (q_src_addr q) s = (?u, True)"
    using assms(4) k len by (simp add: learn_def Let_def better_def)
  from on_RREQ_Inr [OF assms(5) l k] len show ?thesis by auto
qed

theorem own_request_gives_route_to_self_witness:
  "\<exists>t. on_RREQ (\<lambda>_. True) 0 (example_mac 9) ((example_request 0)\<lparr>q_src_addr := vm_addr ! 1\<rparr>) example_odr = Inr t
    \<and> outgoing_if (o_table t ! 1) = 3"
proof -
  let ?q = "(example_request 0)\<lparr>q_src_addr := vm_addr ! 1\<rparr>"
  obtain t where t: "on_RREQ (\<lambda>_. True) 0 (example_mac 9) ?q example_odr = Inr t"
    using osf_returns [OF on_RREQ_stops [OF example_odr_ok, of 0 1 ?q "\<lambda>_. True"]]
    by (auto simp: example_simps)
  have node: "o_node example_odr - 1 = 1" by (simp add: example_odr_def odr_start_def)
  from own_request_gives_route_to_self [OF example_odr_ok _ _ _ t] t show ?thesis
    unfolding node by (auto simp: example_simps)
qed

section \<open>Words in a datagram\<close>

lemma parse_local_words:
  assumes "word dst" and "length dst < 15" and "word m"
  shows "parse_local (dst @ space # show_int p @ space # m @ space # rest) s =
    Inr (case scan_int rest of
           None \<Rightarrow> s\<lparr>o_dst_addr := dst, o_dst_port := p, o_message := m\<rparr>
         | Some (f, r) \<Rightarrow> s\<lparr>o_dst_addr := dst, o_dst_port := p, o_message := m, o_flag := f\<rparr>)"
  using assms
  by (simp add: parse_local_def scan_word_first scan_int_space scan_int_first scan_word_space
      split: option.splits)

lemma format_send_words:
  "word dst \<Longrightarrow> word m \<Longrightarrow>
     format_send dst p m f = dst @ space # show_int p @ space # m @ space # show_int f"
  by (simp add: format_send_def word_cstr)

lemma show_int_no_nul: "NUL \<notin> set (show_int i)"
  using show_nat_digits digit_not_nul by (auto simp: show_int_def)

lemma cstr_append: "NUL \<notin> set a \<Longrightarrow> cstr (a @ b) = a @ cstr b"
  by (induction a) (auto simp: cstr_def)

lemma format_send_no_nul: "NUL \<notin> set (format_send dst p m f)"
  using show_int_no_nul by (auto simp: format_send_def space_def)

text \<open>What a client of node 2 sends.\<close>

definition example_text :: string where
  "example_text = vm_addr ! 1 @ space # show_int 5000 @ space # ''HI'' @ space # show_int 0"

lemma vm_addr_word: "k < 10 \<Longrightarrow> word (vm_addr ! k) \<and> length (vm_addr ! k) = 14"
  using vm_addr_words [of "vm_addr ! k"] by (simp add: vm_addr_facts)

lemma word_HI: "word ''HI''"
  by (simp add: word_def is_space_def)

lemma example_text_parsed:
  "parse_local (cstr (overwrite [] example_text)) s
     = Inr (s\<lparr>o_dst_addr := vm_addr ! 1, o_dst_port := 5000, o_message := ''HI'', o_flag := 0\<rparr>)"
proof -
  have "cstr example_text = example_text"
    using format_send_no_nul [of "vm_addr ! 1" 5000 "''HI''" 0] vm_addr_word [of 1] word_HI
    by (intro cstr_no_nul) (simp add: format_send_words example_text_def)
  then show ?thesis
    using parse_local_words [of "vm_addr ! 1" "''HI''" 5000 "show_int 0"] vm_addr_word [of 1] word_HI
      scan_show_int [of "[]" 0]
    by (simp add: overwrite_def) (simp add: example_text_def)
qed

section \<open>Ports\<close>

text \<open>No client's port is the byte-swapped port of a client or of the server.\<close>

lemma bswap32_small:
  assumes "x < (65536 :: u32)" and "bswap32 x < 65536"
  shows "bswap32 x = 0"
proof (rule bit_eqI)
  fix n
  have small: "\<not> bit y n" if "y < (65536 :: u32)" "16 \<le> n" for y n
  proof -
    have "take_bit 16 y = y" using that less_mask_eq [of y 16] by (simp add: take_bit_eq_mask)
    then show ?thesis using that(2) by (metis bit_take_bit_iff not_le)
  qed
  show "bit (bswap32 x) n \<longleftrightarrow> bit 0 n"
    using small [OF assms(2), of n] small [OF assms(1), of "n + 24"] small [OF assms(1), of "n + 8"]
    by (cases "n < 16") (auto simp: bit_bswap32)
qed

lemma swapped_port:
  assumes "ports_ok s" and "0 < k" and "k < length (o_ports s)" and "x \<in> set (o_ports s)"
  shows "pt_port x \<noteq> ntohl (pt_port (o_ports s ! k))"
proof -
  obtain j where j: "j < length (o_ports s)" "x = o_ports s ! j"
    using assms(4) by (auto simp: in_set_conv_nth)
  have k: "pt_port (o_ports s ! k) = 5999 + of_nat k" "k < 10" "length (o_ports s) \<le> 10"
    using assms by (auto simp: ports_ok_def)
  have p: "0 < pt_port (o_ports s ! k) \<and> pt_port (o_ports s ! k) < 65536" if "k < 10" "k < length (o_ports s)" for k
  proof (cases "k = 0")
    case True
    then have "o_ports s ! k = \<lparr>pt_port = 5000, pt_path = ''240411''\<rparr>"
      using assms(1) by (simp add: ports_ok_def flip: hd_conv_nth)
    then show ?thesis by simp
  next
    case False
    then have "pt_port (o_ports s ! k) = word_of_nat (5999 + k)" using that assms(1) by (simp add: ports_ok_def)
    then show ?thesis using that by (simp only: word_less_nat_alt) (simp add: unat_of_nat del: of_nat_add)
  qed
  show ?thesis using p [of j] p [of k] j k assms(3) bswap32_small by force
qed

lemma deliver_misses:
  assumes "ports_ok s" and "0 < k" and "k < length (o_ports s)"
    and "deliver E msg (pt_port (o_ports s ! k)) data s = Inr t"
  shows "o_out t = o_out s @ [Local (o_localaddr s) data]"
  using deliver_Inr [OF assms(4)] swapped_port [OF assms(1-3)] by auto

lemma deliver_returns: "(\<And>n. E n) \<Longrightarrow> \<exists>t. deliver E msg p data s = Inr t"
  by (simp add: deliver_def Let_def emit_def)

lemma on_local_localaddr:
  assumes "on_local E (Some (bytes, path)) s = Inr t"
  shows "o_localaddr t = path"
proof -
  let ?s = "s\<lparr>o_recvmsg := overwrite (o_recvmsg s) bytes, o_localaddr := path\<rparr>"
  from assms obtain u where u: "parse_local (cstr (o_recvmsg ?s)) ?s = Inr u"
    and t: "server_reply E u = Inr t \<or> (\<exists>index. client_request E index u = Inr t)"
    by (auto simp: on_local_def bind_iff Let_def split: if_splits)
  have "o_localaddr u = path" using parse_local_Inr [OF u] by auto
  moreover have "o_localaddr t = o_localaddr u"
    using t by (auto simp: server_reply_def client_request_def register_client_def bind_iff Let_def
        split: if_splits dest!: send_payload_Inr flood_Inr)
  ultimately show ?thesis by simp
qed

text \<open>
  C38. The reply to a client's route request does not look for the client. The daemon that answers
  swaps the bytes of a port which is in network byte order already, so when the reply is back at
  the client's node no entry of the port table matches, and the text goes to the path the
  daemon used last. When it has heard another process of its node in the meantime, the reply
  goes to that process and nothing is sent to the client.
\<close>
theorem route_reply_misses_client:
  assumes "on_RREQ E i m q v = Inr v'" and "o_out v' = o_out v @ out" and "Raw j f \<in> set out"
    and "f_body f = Rrep p" and "q_src_port q = htonl (pt_port (o_ports s ! k))"
    and "odr_ok w" and "on_local E'' (Some (bytes, path)) w = Inr s"
    and "0 < k" and "k < length (o_ports s)" and "path \<noteq> cstr (pt_path (o_ports s ! k))"
    and "cstr (p_dst_addr p) = own_addr s" and "on_RREP E' i' m' p s = Inr t"
  shows "o_out t = o_out s @ [Local path (format_local ''HI'' (p_src_addr p) 5000)]
    \<and> (\<forall>text. Local (cstr (pt_path (o_ports s ! k))) text \<notin> set (drop (length (o_out s)) (o_out t)))"
proof -
  have s: "odr_ok s" using on_local_ok [OF assms(6,7)] by blast
  obtain u eff where l: "learn (q_discovery q) (q_hop_cnt q) i m (q_src_addr q) v = (u, eff)"
    by (cases "learn (q_discovery q) (q_hop_cnt q) i m (q_src_addr q) v")
  have "o_out u = o_out v"
    using learn_cases [of "q_discovery q" "q_hop_cnt q" i m "q_src_addr q" v] l by auto
  with on_RREQ_Inr [OF assms(1) l refl] assms(2) obtain r e where "out = rreq_out i m r q eff e u" by auto
  with assms(3-5) have port: "p_dst_port p = pt_port (o_ports s ! k)"
    by (auto simp: rreq_out_def Let_def rrep_frame_def broadcasts_def split: if_splits)
  obtain x b where x: "learn (p_discovery p) (p_hop_cnt p) i' m' (p_src_addr p) s = (x, b)"
    by (cases "learn (p_discovery p) (p_hop_cnt p) i' m' (p_src_addr p) s")
  then have eq: "o_ports x = o_ports s" "o_localaddr x = o_localaddr s" "o_out x = o_out s"
      "own_addr x = own_addr s" "o_port x = o_port s"
    using learn_cases [of "p_discovery p" "p_hop_cnt p" i' m' "p_src_addr p" s] by auto
  have "deliver E' ''ODR: Failed to send date sequence to local client'' (pt_port (o_ports s ! k))
      (format_local ''HI'' (p_src_addr p) 5000) x = Inr t"
    using assms(11,12) x eq port by (simp add: on_RREP_def)
  moreover have "ports_ok x" using s eq by (simp add: odr_ok_def ports_ok_def)
  ultimately have "o_out t = o_out s @ [Local path (format_local ''HI'' (p_src_addr p) 5000)]"
    using deliver_misses [of x k] assms(8,9) eq on_local_localaddr [OF assms(7)] by simp
  with assms(10) show ?thesis by auto
qed

text \<open>A node with a server and one client, whose server has been heard last.\<close>

definition example_client_odr :: odr where
  "example_client_odr = (odr_start 1 [example_mac 3]
     (\<lambda>_. \<lparr>r_dst_addr = [], next_hop = [], outgoing_if = 0, hop_cnt = 0, r_broadcast_id = 0\<rparr>) example_vars)
     \<lparr>o_ports := [\<lparr>pt_port = 5000, pt_path = ''240411''\<rparr>, \<lparr>pt_port = 6000, pt_path = ''temp.a''\<rparr>],
      o_port := 6001, o_localaddr := ''240411''\<rparr>"

lemma example_client_simps:
  "own_addr example_client_odr = vm_addr ! 0" "o_out example_client_odr = []"
  "o_ports example_client_odr ! Suc 0 = \<lparr>pt_port = 6000, pt_path = ''temp.a''\<rparr>"
  "length (o_ports example_client_odr) = 2" "o_localaddr example_client_odr = ''240411''"
  by (simp_all add: example_client_odr_def own_addr_def odr_start_def)

lemma example_client_ok: "odr_ok example_client_odr"
  using odr_start_ok [of 1 "[example_mac 3]"]
  by (auto simp: example_client_odr_def odr_ok_def table_ok_def ports_ok_def odr_start_def less_Suc_eq)

lemma on_RREP_returns:
  assumes "\<And>n. E n" and "cstr (p_dst_addr p) = own_addr s"
  shows "\<exists>t. on_RREP E i m p s = Inr t"
proof -
  obtain u b where l: "learn (p_discovery p) (p_hop_cnt p) i m (p_src_addr p) s = (u, b)"
    by (cases "learn (p_discovery p) (p_hop_cnt p) i m (p_src_addr p) s")
  then have "own_addr u = own_addr s" using learn_find_route by blast
  then show ?thesis using assms l deliver_returns by (simp add: on_RREP_def)
qed

text \<open>A second client of that node, which the daemon hears before the reply.\<close>

lemma example_second_client:
  "\<exists>s. on_local (\<lambda>_. True) (Some (example_text, ''temp.b'')) example_client_odr = Inr s
    \<and> o_ports s ! 1 = \<lparr>pt_port = 6000, pt_path = ''temp.a''\<rparr> \<and> length (o_ports s) = 3 \<and> own_addr s = vm_addr ! 0"
proof -
  let ?u = "example_client_odr\<lparr>o_recvmsg := overwrite [] example_text, o_localaddr := ''temp.b'',
    o_dst_addr := vm_addr ! 1, o_dst_port := 5000, o_message := ''HI'', o_flag := 0\<rparr>"
  let ?v = "?u\<lparr>o_ports := o_ports ?u @ [\<lparr>pt_port = o_port ?u, pt_path = ''temp.b''\<rparr>], o_port := o_port ?u + 1\<rparr>"
  have idx: "index_of (\<lambda>p. cstr (pt_path p) = cstr ''temp.b'') (o_ports ?u) = 2"
    by (simp add: example_client_odr_def cstr_def)
  have "table_ok ?v" using example_client_ok by (simp add: odr_ok_def table_ok_def)
  then have n: "find_route (vm_addr ! 1) ?v = 1" by (rule find_route_vm) (simp_all add: cstr_vm_addr)
  have none: "outgoing_if (o_table example_client_odr ! 1) = 0"
    by (simp add: example_client_odr_def odr_start_def init_table_def)
  have "register_client 2 ?u = Inr ?v"
    by (simp add: register_client_def example_client_odr_def cstr_def)
  then have "\<exists>s. client_request (\<lambda>_. True) 2 ?u = Inr s
    \<and> o_ports s ! 1 = \<lparr>pt_port = 6000, pt_path = ''temp.a''\<rparr> \<and> length (o_ports s) = 3 \<and> own_addr s = vm_addr ! 0"
    using n none example_client_simps
    by (simp add: client_request_def Let_def flood_def send_frame_def emit_def own_addr_def)
      (simp add: example_client_odr_def odr_start_def send_frame_def emit_def)
  moreover have "on_local (\<lambda>_. True) (Some (example_text, ''temp.b'')) example_client_odr = client_request (\<lambda>_. True) 2 ?u"
    using idx by (simp add: on_local_def example_text_parsed) (simp add: example_client_odr_def odr_start_def example_vars_def example_text_parsed)
  ultimately show ?thesis by simp
qed

theorem route_reply_misses_client_witness:
  "\<exists>p s t. on_local (\<lambda>_. True) (Some (example_text, ''temp.b'')) example_client_odr = Inr s
    \<and> on_RREP (\<lambda>_. True) 0 (example_mac 1) p s = Inr t
    \<and> o_out t = o_out s @ [Local ''temp.b'' (format_local ''HI'' (p_src_addr p) 5000)]"
proof -
  obtain v r d where v: "on_RREQ (\<lambda>_. True) 0 (example_mac 9) (example_request 1) example_odr = Inr v"
    "o_out v = o_out example_odr @ [Raw 0 \<lparr>dst_mac = example_mac 9, src_mac = r,
        f_body = Rrep \<lparr>p_src_addr = vm_addr ! 1, p_dst_addr = vm_addr ! 0,
          p_dst_port = htonl (q_src_port (example_request 1)), p_hop_cnt = 0, p_discovery = d\<rparr>\<rparr>]"
    using on_RREQ_answers [OF example_odr_ok, of 0 "\<lambda>_. True" 0 "example_request 1" "example_mac 9"]
    by (auto simp: example_simps)
  let ?p = "\<lparr>p_src_addr = vm_addr ! 1, p_dst_addr = vm_addr ! 0,
          p_dst_port = htonl (q_src_port (example_request 1)), p_hop_cnt = 0, p_discovery = d\<rparr>"
  obtain s where s: "on_local (\<lambda>_. True) (Some (example_text, ''temp.b'')) example_client_odr = Inr s"
    "o_ports s ! 1 = \<lparr>pt_port = 6000, pt_path = ''temp.a''\<rparr>" "length (o_ports s) = 3" "own_addr s = vm_addr ! 0"
    using example_second_client by blast
  obtain t where t: "on_RREP (\<lambda>_. True) 0 (example_mac 1) ?p s = Inr t"
    using on_RREP_returns [of "\<lambda>_. True" ?p s 0 "example_mac 1"] by (auto simp: s cstr_vm_addr)
  have "o_out t = o_out s @ [Local ''temp.b'' (format_local ''HI'' (p_src_addr ?p) 5000)]
      \<and> (\<forall>text. Local (cstr (pt_path (o_ports s ! 1))) text \<notin> set (drop (length (o_out s)) (o_out t)))"
    by (rule route_reply_misses_client [OF v(1) v(2) _ _ _ example_client_ok s(1) _ _ _ _ t,
        of 0 "\<lparr>dst_mac = example_mac 9, src_mac = r, f_body = Rrep ?p\<rparr>"])
      (simp_all add: s [unfolded One_nat_def] example_request_def cstr_vm_addr, simp add: cstr_def)
  with s(1) t show ?thesis by blast
qed

text \<open>
  The time server's answer misses the client as well: the port of the client is printed for
  the server in network byte order, the server's daemon swaps it once more, and at the client's
  node no entry of the port table matches the payload.
\<close>
theorem answer_misses_client:
  assumes "o_dst_port v = sint (htonl (pt_port (o_ports s ! k)))"
    and "server_reply E v = Inr v'" and "o_out v' = o_out v @ [Raw j f]" and "f_body f = Load l"
    and "odr_ok s" and "0 < k" and "k < length (o_ports s)"
    and "cstr (l_dst_addr l) = own_addr s" and "on_payload E' l s = Inr t"
  shows "\<exists>text. o_out t = o_out s @ [Local (o_localaddr s) text]"
proof -
  have "l_dst_port l = pt_port (o_ports s ! k)"
    using assms(1-4) by (auto simp: server_reply_def send_payload_def bind_iff dest!: send_along_Inr)
  with assms(8,9) have "deliver E' ''ODR: Failed to send date sequence to local client/server''
      (pt_port (o_ports s ! k)) (format_local (l_message l) (l_src_addr l) (sint (l_src_port l))) s = Inr t"
    by (simp add: on_payload_def)
  then show ?thesis using deliver_misses [of s k] assms(5-7) by (auto simp: odr_ok_def)
qed

text \<open>The server's daemon after the request of node 1, about to send the answer.\<close>

definition example_server_odr :: odr where
  "example_server_odr = (set_entry 0 \<lparr>r_dst_addr = vm_addr ! 0, next_hop = example_mac 9, outgoing_if = 3,
       hop_cnt = 1, r_broadcast_id = 1\<rparr> example_odr)
     \<lparr>o_dst_addr := vm_addr ! 0, o_dst_port := sint (htonl 6000), o_message := ''Tue''\<rparr>"

theorem answer_misses_client_witness:
  "\<exists>v' f l t text. server_reply (\<lambda>_. True) example_server_odr = Inr v'
    \<and> o_out v' = o_out example_server_odr @ [Raw 0 f] \<and> f_body f = Load l
    \<and> on_payload (\<lambda>_. True) l example_client_odr = Inr t
    \<and> o_out t = [Local ''240411'' text]"
proof -
  have "table_ok (set_entry 0 \<lparr>r_dst_addr = vm_addr ! 0, next_hop = example_mac 9, outgoing_if = 3,
       hop_cnt = 1, r_broadcast_id = 1\<rparr> example_odr)"
    by (rule table_ok_set) (use example_odr_ok in \<open>auto simp: odr_ok_def entry_ok_def example_simps\<close>)
  then have "table_ok example_server_odr"
    by (simp add: example_server_odr_def table_ok_def)
  then have n: "find_route (vm_addr ! 0) example_server_odr = 0"
    by (rule find_route_vm) (simp_all add: cstr_vm_addr)
  have e: "o_table example_server_odr ! 0 = \<lparr>r_dst_addr = vm_addr ! 0, next_hop = example_mac 9,
      outgoing_if = 3, hop_cnt = 1, r_broadcast_id = 1\<rparr>" "o_table example_server_odr \<noteq> []"
    by (simp_all add: example_server_odr_def example_odr_def odr_start_def init_table_def)
  have d: "o_dst_addr example_server_odr = vm_addr ! 0" "o_message example_server_odr = ''Tue''"
    "o_dst_port example_server_odr = sint (htonl 6000)" "length (o_ifs example_server_odr) = 2"
    by (simp_all add: example_server_odr_def example_simps)
  obtain v' f l where v: "server_reply (\<lambda>_. True) example_server_odr = Inr v'"
      "o_out v' = o_out example_server_odr @ [Raw 0 f]" "f_body f = Load l" "l_dst_addr l = vm_addr ! 0"
    by (simp add: server_reply_def send_payload_def send_along_def with_entry_def with_if_def if_slot_def
        send_frame_def emit_def n e d cstr_def)
  have "\<exists>t. on_payload (\<lambda>_. True) l example_client_odr = Inr t"
    by (simp add: v(4) on_payload_def example_client_simps cstr_vm_addr deliver_returns)
  then obtain t where t: "on_payload (\<lambda>_. True) l example_client_odr = Inr t" by blast
  have "\<exists>text. o_out t = o_out example_client_odr @ [Local (o_localaddr example_client_odr) text]"
    by (rule answer_misses_client [OF _ v(1,2,3) example_client_ok _ _ _ t, of 1])
      (simp_all add: d example_client_simps v(4) cstr_vm_addr)
  with v t show ?thesis by (auto simp: example_client_simps)
qed

section \<open>Text between the daemon and the applications\<close>

text \<open>
  C24. What an application passes to \<^verbatim>\<open>msg_send\<close> is what the daemon reads back from the
  datagram: address, port, message and flag, provided that the address is a word of at most 14
  characters and the message a single word (the client's \<open>HI\<close>; not the server's time, see
  \<open>time_cut_at_first_space\<close>) and that the older bytes that follow the datagram in the daemon's
  buffer do not go on with a digit.
\<close>
theorem local_request_round_trip:
  assumes "word dst" and "length dst < 15" and "word m" and "msg_send True dst p m f = Inr data"
    and "cstr (drop (length data) old) = [] \<or> \<not> is_digit (hd (cstr (drop (length data) old)))"
  shows "parse_local (cstr (overwrite old data)) s
    = Inr (s\<lparr>o_dst_addr := dst, o_dst_port := p, o_message := m, o_flag := f\<rparr>)"
proof -
  let ?rest = "cstr (drop (length data) old)"
  have data: "data = format_send dst p m f"
    using assms(4) by (simp add: msg_send_def Let_def bind_iff)
  have "cstr (overwrite old data) = dst @ space # show_int p @ space # m @ space # show_int f @ ?rest"
    using assms(1,3) format_send_no_nul [of dst p m f]
    by (simp add: overwrite_def data cstr_append) (simp add: format_send_words)
  then show ?thesis using assms(1-3,5) by (simp add: parse_local_words scan_show_int)
qed

theorem local_request_round_trip_witness:
  "\<exists>data. msg_send True (vm_addr ! 2) 5000 ''HI'' 1 = Inr data
    \<and> parse_local (cstr (overwrite [] data)) example_odr
      = Inr (example_odr\<lparr>o_dst_addr := vm_addr ! 2, o_dst_port := 5000, o_message := ''HI'', o_flag := 1\<rparr>)"
proof -
  let ?d = "format_send (vm_addr ! 2) 5000 ''HI'' 1"
  have d: "msg_send True (vm_addr ! 2) 5000 ''HI'' 1 = Inr ?d"
  proof -
    have "length ?d = 24"
      by (simp add: format_send_def vm_addr_def cstr_def show_int_def show_nat.simps [of 5000]
          show_nat.simps [of 500] show_nat.simps [of 50] show_nat.simps [of 5] show_nat.simps [of "Suc 0"])
    moreover from this have "?d \<noteq> []" by (metis list.size(3) zero_neq_numeral)
    ultimately show ?thesis by (simp add: msg_send_def Let_def ETH_FRAME_LEN_def)
  qed
  have "word (vm_addr ! 2)" "length (vm_addr ! 2) = 14" "word ''HI''"
    using vm_addr_words [of "vm_addr ! 2"] by (simp_all add: vm_addr_facts) (simp add: word_def is_space_def)
  with local_request_round_trip [OF _ _ _ d, of "[]" example_odr] d show ?thesis by (simp add: cstr_def)
qed

text \<open>
  The time does not survive the way: \<^verbatim>\<open>ctime\<close>'s text has spaces, so the daemon takes
  its first word, the day of the week, for the whole message, and the flag it goes on to read is
  not there, so the flag of the previous request stays in force.
\<close>
theorem time_cut_at_first_space:
  assumes "word dst" and "length dst < 15" and "word day" and "now = day @ space # rest"
    and "length day < 22" and "NUL \<notin> set rest" and "rest \<noteq> []" and "hd rest \<notin> {CHR ''-'', CHR ''+''}"
    and "\<not> is_space (hd rest)" and "\<not> is_digit (hd rest)"
  shows "parse_local (format_send dst p (time_msg now) 0) s
    = Inr (s\<lparr>o_dst_addr := dst, o_dst_port := p, o_message := day\<rparr>)"
proof -
  obtain c cs where c: "rest = c # cs" using assms(7) by (cases rest) auto
  define n where "n = 22 - length day"
  then have n: "24 - length day = Suc (Suc n)" using assms(5) by simp
  let ?r = "c # take n cs @ [char_of (13::nat), char_of (10::nat)]"
  have nul: "NUL \<notin> set day" "NUL \<notin> set now" using assms(3,4,6) by (auto simp: word_def space_def)
  have t: "time_msg now = day @ space # ?r"
    using nul assms(4,5) n c by (simp add: time_msg_def cstr_no_nul)
  have "NUL \<noteq> char_of (13::nat)" "NUL \<noteq> char_of (10::nat)" by code_simp+
  then have "NUL \<notin> set (time_msg now)" using nul by (auto simp: time_msg_def cstr_no_nul dest: in_set_takeD)
  then have "format_send dst p (time_msg now) 0
      = dst @ space # show_int p @ space # day @ space # ?r @ [space] @ show_int 0"
    using assms(1) by (simp add: format_send_def word_cstr cstr_no_nul) (simp add: t)
  moreover have "scan_int (?r @ [space] @ show_int 0) = None"
    using assms(8-10) c by (simp add: scan_int_def skip_space_def)
  ultimately show ?thesis using assms(1-3) by (simp add: parse_local_words)
qed

theorem time_cut_at_first_space_witness:
  "parse_local (format_send (vm_addr ! 0) 6000 (time_msg ''Tue Nov 11 10:20:30 2014'') 0) example_odr
    = Inr (example_odr\<lparr>o_dst_addr := vm_addr ! 0, o_dst_port := 6000, o_message := ''Tue''\<rparr>)"
  by (rule time_cut_at_first_space [where rest = "''Nov 11 10:20:30 2014''"])
    (simp_all add: vm_addr_def word_def is_space_def is_digit_def space_def)

end
