(* ===== verification/OdrNet.thy ===== *)
theory OdrNet
  imports OdrProps
begin

text \<open>
  The ten daemons together: a step relation on the states of all nodes, in which a node hears
  frames that some node has sent on a wire to it, lost, late, duplicated and reordered as the
  network likes. The invariant: every route leads along wires to the node it is for, over as
  many hops as its entry says.
\<close>

section \<open>The network\<close>

text \<open>\<open>W x i y j\<close>: what node \<open>x\<close> sends on its interface \<open>i\<close> can be heard by \<open>y\<close> on \<open>j\<close>.\<close>

type_synonym wires = "nat \<Rightarrow> nat \<Rightarrow> nat \<Rightarrow> nat \<Rightarrow> bool"

inductive way :: "wires \<Rightarrow> nat \<Rightarrow> nat \<Rightarrow> nat \<Rightarrow> bool" for W where
  here: "way W x x 0"
| hop: "W x i y j \<Longrightarrow> way W y d n \<Longrightarrow> way W x d (Suc n)"

fun heard :: "wires \<Rightarrow> (nat \<Rightarrow> odr) \<Rightarrow> nat \<Rightarrow> sends \<times> pass \<Rightarrow> bool" where
  "heard W N x (E, SelectError) \<longleftrightarrow> True"
| "heard W N x (E, Ready loc frs) \<longleftrightarrow> (\<forall>(i, fr) \<in> set frs. i < length (o_ifs (N x))
     \<and> (case fr of None \<Rightarrow> True
        | Some f \<Rightarrow> (\<exists>y \<in> {1..10}. \<exists>j. Raw j f \<in> set (o_out (N y)) \<and> W y j x i)))"

definition net_start ::
  "(nat \<Rightarrow> mac list) \<Rightarrow> (nat \<Rightarrow> nat \<Rightarrow> routing_entry) \<Rightarrow> (nat \<Rightarrow> odr) \<Rightarrow> nat \<Rightarrow> odr" where
  "net_start ifs junk vars x = odr_start x (ifs x) (junk x) (vars x)"

abbreviation net_reach where
  "net_reach W ifs junk vars \<equiv> reaches (\<lambda>x. x \<in> {1..10}) (heard W) odr_step (net_start ifs junk vars)"

section \<open>The invariant\<close>

text \<open>The node a message with a hop count names, and the count.\<close>

definition named :: "body \<Rightarrow> (string \<times> u32) option" where
  "named b =
     (case b of
        Rreq q \<Rightarrow> Some (q_src_addr q, ntohl (q_hop_cnt q))
      | Rrep p \<Rightarrow> Some (p_src_addr p, ntohl (p_hop_cnt p))
      | Load l \<Rightarrow> None)"

definition names :: "body \<Rightarrow> nat \<Rightarrow> u32 \<Rightarrow> bool" where
  "names b k h \<longleftrightarrow> (\<exists>addr. named b = Some (addr, h) \<and> cstr addr = vm_addr ! k)"

text \<open>
  \<open>x\<close> can hear on its interface \<open>i\<close> the frame \<open>f\<close>, which \<open>y\<close> has sent and which names
  entry \<open>k\<close> with the count \<open>h\<close>.
\<close>

definition hears :: "wires \<Rightarrow> (nat \<Rightarrow> odr) \<Rightarrow> nat \<Rightarrow> nat \<Rightarrow> nat \<Rightarrow> frame \<Rightarrow> nat \<Rightarrow> u32 \<Rightarrow> bool" where
  "hears W N x i y f k h \<longleftrightarrow>
     y \<in> {1..10} \<and> (\<exists>j. Raw j f \<in> set (o_out (N y)) \<and> W y j x i) \<and> names (f_body f) k h"

text \<open>
  The news of entry \<open>k\<close> has come to \<open>x\<close> over \<open>n\<close> wires: it starts at the node itself, and
  each node of the chain has sent the next one a message that counts the wires so far.
\<close>

inductive carried :: "wires \<Rightarrow> (nat \<Rightarrow> odr) \<Rightarrow> nat \<Rightarrow> nat \<Rightarrow> nat \<Rightarrow> bool" for W N k where
  origin: "carried W N k (Suc k) 0"
| hop: "carried W N k y n \<Longrightarrow> hears W N x i y f k (of_nat n) \<Longrightarrow> carried W N k x (Suc n)"

definition msg_sound :: "wires \<Rightarrow> (nat \<Rightarrow> odr) \<Rightarrow> nat \<Rightarrow> body \<Rightarrow> bool" where
  "msg_sound W N x b \<longleftrightarrow>
     (\<forall>addr h. named b = Some (addr, h) \<longrightarrow>
        (\<exists>k < 10. \<exists>n. cstr addr = vm_addr ! k \<and> carried W N k x n \<and> h = of_nat n))"

definition learnt :: "wires \<Rightarrow> (nat \<Rightarrow> odr) \<Rightarrow> nat \<Rightarrow> nat \<Rightarrow> routing_entry \<Rightarrow> nat \<Rightarrow> frame \<Rightarrow> nat \<Rightarrow> bool" where
  "learnt W N x k e y f n \<longleftrightarrow> hears W N x (nat (outgoing_if e - 3)) y f k (of_nat n) \<and> carried W N k y n
     \<and> next_hop e = src_mac f \<and> hop_cnt e = of_nat (Suc n)"

definition route_sound :: "wires \<Rightarrow> (nat \<Rightarrow> odr) \<Rightarrow> nat \<Rightarrow> nat \<Rightarrow> routing_entry \<Rightarrow> bool" where
  "route_sound W N x k e \<longleftrightarrow> outgoing_if e \<noteq> 0 \<longrightarrow> (\<exists>y f n. learnt W N x k e y f n)"

definition out_sound :: "wires \<Rightarrow> (nat \<Rightarrow> odr) \<Rightarrow> nat \<Rightarrow> action list \<Rightarrow> bool" where
  "out_sound W N x out \<longleftrightarrow> (\<forall>i f. Raw i f \<in> set out \<longrightarrow> msg_sound W N x (f_body f))"

definition node_sound :: "wires \<Rightarrow> (nat \<Rightarrow> odr) \<Rightarrow> nat \<Rightarrow> odr \<Rightarrow> bool" where
  "node_sound W N x s \<longleftrightarrow> odr_ok s \<and> o_node s = x
     \<and> (\<forall>k < 10. route_sound W N x k (o_table s ! k)) \<and> out_sound W N x (o_out s)"

text \<open>What has been sent stays sent.\<close>

definition grown :: "(nat \<Rightarrow> odr) \<Rightarrow> (nat \<Rightarrow> odr) \<Rightarrow> bool" where
  "grown N M \<longleftrightarrow> (\<forall>z \<in> {1..10}. set (o_out (N z)) \<subseteq> set (o_out (M z)))"

lemma hears_mono: "grown N M \<Longrightarrow> hears W N x i y f k h \<Longrightarrow> hears W M x i y f k h"
  by (fastforce simp: hears_def grown_def)

lemma carried_mono:
  assumes "grown N M" and "carried W N k x n"
  shows "carried W M k x n"
  using assms(2)
proof induction
  case origin
  then show ?case by (rule carried.origin)
next
  case (hop y n x i f)
  then show ?case using hears_mono [OF assms(1)] by (intro carried.hop)
qed

lemma msg_sound_mono: "grown N M \<Longrightarrow> msg_sound W N x b \<Longrightarrow> msg_sound W M x b"
  unfolding msg_sound_def using carried_mono by blast

lemma route_sound_mono: "grown N M \<Longrightarrow> route_sound W N x k e \<Longrightarrow> route_sound W M x k e"
  unfolding route_sound_def learnt_def using carried_mono hears_mono by blast

lemma node_sound_mono: "grown N M \<Longrightarrow> node_sound W N x s \<Longrightarrow> node_sound W M x s"
  unfolding node_sound_def out_sound_def using msg_sound_mono route_sound_mono by blast

lemma out_sound_append [simp]: "out_sound W N x (a @ b) \<longleftrightarrow> out_sound W N x a \<and> out_sound W N x b"
  by (auto simp: out_sound_def)

lemma out_sound_simps [simp]:
  "out_sound W N x []" "out_sound W N x (Local a b # out) \<longleftrightarrow> out_sound W N x out"
  "out_sound W N x (Raw i f # out) \<longleftrightarrow> msg_sound W N x (f_body f) \<and> out_sound W N x out"
  by (auto simp: out_sound_def)

lemma msg_sound_simps:
  "msg_sound W N x (Rreq q) \<longleftrightarrow> (\<exists>k < 10. \<exists>n. cstr (q_src_addr q) = vm_addr ! k \<and> carried W N k x n
     \<and> ntohl (q_hop_cnt q) = of_nat n)"
  "msg_sound W N x (Rrep p) \<longleftrightarrow> (\<exists>k < 10. \<exists>n. cstr (p_src_addr p) = vm_addr ! k \<and> carried W N k x n
     \<and> ntohl (p_hop_cnt p) = of_nat n)"
  "msg_sound W N x (Load l)"
  by (simp_all add: msg_sound_def named_def)

text \<open>A node that names \<open>addr\<close> with the count \<open>h\<close> tells the truth.\<close>

definition may_name :: "wires \<Rightarrow> (nat \<Rightarrow> odr) \<Rightarrow> nat \<Rightarrow> string \<Rightarrow> u32 \<Rightarrow> bool" where
  "may_name W N x addr h \<longleftrightarrow> (\<exists>k < 10. \<exists>n. cstr addr = vm_addr ! k \<and> carried W N k x n \<and> h = of_nat n)"

lemma msg_sound_may_name:
  "msg_sound W N x (Rreq q) \<longleftrightarrow> may_name W N x (q_src_addr q) (ntohl (q_hop_cnt q))"
  "msg_sound W N x (Rrep p) \<longleftrightarrow> may_name W N x (p_src_addr p) (ntohl (p_hop_cnt p))"
  by (simp_all add: msg_sound_simps may_name_def)

lemma out_sound_broadcasts:
  "may_name W N x (q_src_addr q) (ntohl (q_hop_cnt q)) \<Longrightarrow> out_sound W N x (broadcasts ks q s)"
  by (auto simp: out_sound_def broadcasts_def msg_sound_may_name)

lemma node_own: "node_sound W N x s \<Longrightarrow> own_addr s = vm_addr ! (x - 1) \<and> 1 \<le> x \<and> x \<le> 10"
  by (auto simp: node_sound_def odr_ok_def own_addr_def)

lemma may_name_own:
  assumes "1 \<le> x" and "x \<le> 10" and "cstr addr = vm_addr ! (x - 1)"
  shows "may_name W N x addr 0"
  unfolding may_name_def using assms carried.origin [of W N "x - 1"]
  by (intro exI [of _ "x - 1"] conjI exI [of _ 0]) auto

text \<open>What a node learns from a frame it hears, and what it may then say.\<close>

lemma heard_learnt:
  assumes "msg_sound W N y (f_body f)" and "y \<in> {1..10}" and "Raw j f \<in> set (o_out (N y))" and "W y j x i"
    and "named (f_body f) = Some (addr, h)" and "k < 10" and "cstr addr = vm_addr ! k"
  shows "\<exists>n. h = of_nat n \<and> carried W N k y n \<and> hears W N x i y f k (of_nat n)"
proof -
  from assms(1,5) obtain l n where l: "l < 10" "cstr addr = vm_addr ! l" "carried W N l y n" "h = of_nat n"
    by (auto simp: msg_sound_def)
  then have "l = k" using assms(6,7) vm_addr_facts by (simp add: nth_eq_iff_index_eq)
  with l assms show ?thesis by (auto simp: hears_def names_def)
qed

lemma heard_may_name:
  assumes "msg_sound W N y (f_body f)" and "y \<in> {1..10}" and "Raw j f \<in> set (o_out (N y))" and "W y j x i"
    and "named (f_body f) = Some (addr, h)"
  shows "may_name W N x addr (h + 1)"
proof -
  from assms(1,5) obtain k where k: "k < 10" "cstr addr = vm_addr ! k" by (auto simp: msg_sound_def)
  from heard_learnt [OF assms k] obtain n
    where "h = of_nat n" "carried W N k y n" "hears W N x i y f k (of_nat n)" by blast
  then show ?thesis using k carried.hop [of W N k y n x i f] unfolding may_name_def
    by (intro exI [of _ k] conjI exI [of _ "Suc n"]) (auto simp: add.commute)
qed

lemma route_may_name:
  assumes "route_sound W N x k e" and "outgoing_if e \<noteq> 0" and "k < 10" and "cstr addr = vm_addr ! k"
  shows "may_name W N x addr (hop_cnt e)"
  using assms carried.hop unfolding route_sound_def learnt_def may_name_def by metis

section \<open>Every handler keeps it\<close>

text \<open>A frame on the interface \<open>i\<close> of \<open>x\<close>, sent by a node that tells the truth.\<close>

definition frame_from :: "wires \<Rightarrow> (nat \<Rightarrow> odr) \<Rightarrow> nat \<Rightarrow> nat \<Rightarrow> frame \<Rightarrow> nat \<Rightarrow> nat \<Rightarrow> bool" where
  "frame_from W N x i f y j \<longleftrightarrow> msg_sound W N y (f_body f) \<and> y \<in> {1..10}
     \<and> Raw j f \<in> set (o_out (N y)) \<and> W y j x i"

lemma learn_sound:
  assumes "node_sound W N x s" and "i < length (o_ifs s)" and "frame_from W N x i f y j"
    and "named (f_body f) = Some (addr, ntohl hops)"
    and "learn d hops i (src_mac f) addr s = (u, eff)"
  shows "node_sound W N x u \<and> o_out u = o_out s \<and> o_ifs u = o_ifs s"
proof -
  have tab: "table_ok s" using assms(1) by (simp add: node_sound_def odr_ok_def)
  note lo = learn_ok [OF tab assms(2,5)]
  have "odr_ok u" using lo assms(1) odr_ok_cong [of s u] by (simp add: node_sound_def)
  note fr = assms(3) [unfolded frame_from_def, THEN conjunct1]
    assms(3) [unfolded frame_from_def, THEN conjunct2, THEN conjunct1]
    assms(3) [unfolded frame_from_def, THEN conjunct2, THEN conjunct2, THEN conjunct1]
    assms(3) [unfolded frame_from_def, THEN conjunct2, THEN conjunct2, THEN conjunct2]
  from fr(1) assms(4) obtain k where k: "k < 10" "cstr addr = vm_addr ! k" by (auto simp: msg_sound_def)
  from heard_learnt [OF fr assms(4) k] obtain n where
    n: "ntohl hops = of_nat n" "carried W N k y n" "hears W N x i y f k (of_nat n)" by blast
  have fk: "find_route addr s = k" by (rule find_route_vm [OF tab k])
  have "route_sound W N x l (o_table u ! l)" if "l < 10" for l
  proof (cases "eff \<and> l = k")
    case True
    then have "o_table u ! l = (o_table s ! k)\<lparr>next_hop := src_mac f, outgoing_if := int i + 3,
        hop_cnt := ntohl hops + 1\<rparr>"
      using learn_True [of d hops i "src_mac f" addr s u] assms(5) fk k(1) tab by (simp add: table_ok_def)
    then have "learnt W N x l (o_table u ! l) y f n" using n True by (simp add: learnt_def add.commute)
    then show ?thesis by (auto simp: route_sound_def)
  next
    case False
    then have "o_table u ! l = o_table s ! l"
      using learn_True [of d hops i "src_mac f" addr s u] learn_False [of d hops i "src_mac f" addr s u] assms(5) fk
      by (cases eff) auto
    with assms(1) that show ?thesis by (simp add: node_sound_def)
  qed
  with \<open>odr_ok u\<close> lo assms(1) show ?thesis by (simp add: node_sound_def)
qed

lemma frame_may_name:
  "frame_from W N x i f y j \<Longrightarrow> named (f_body f) = Some (addr, h) \<Longrightarrow> may_name W N x addr (h + 1)"
  unfolding frame_from_def using heard_may_name by blast

lemma on_RREQ_sound:
  assumes "node_sound W N x s" and "i < length (o_ifs s)" and "frame_from W N x i f y j" and "f_body f = Rreq q"
    and "on_RREQ E i (src_mac f) q s = Inr t"
  shows "node_sound W N x t"
proof -
  have nm: "named (f_body f) = Some (q_src_addr q, ntohl (q_hop_cnt q))" by (simp add: assms(4) named_def)
  obtain u eff where l: "learn (q_discovery q) (q_hop_cnt q) i (src_mac f) (q_src_addr q) s = (u, eff)"
    by (cases "learn (q_discovery q) (q_hop_cnt q) i (src_mac f) (q_src_addr q) s")
  let ?n = "find_route (q_src_addr q) s"
  let ?c = "usable_route q u"
  from on_RREQ_Inr [OF assms(5) l refl] obtain r where
    t: "t = (set_entry ?n ((o_table u ! ?n)\<lparr>r_broadcast_id := ntohl (q_broadcast_id q)\<rparr>) u)
        \<lparr>o_out := o_out u @ rreq_out i (src_mac f) r q eff (o_table u ! ?n) u\<rparr>" by blast
  have u: "node_sound W N x u" using learn_sound [OF assms(1-3) nm l] by blast
  then have tab: "table_ok u" by (simp add: node_sound_def odr_ok_def)
  have flood: "out_sound W N x (broadcasts ks (one_hop_more q') v)"
    if "q_src_addr q' = q_src_addr q" "q_hop_cnt q' = q_hop_cnt q" for ks q' v
    using frame_may_name [OF assms(3) nm] that by (intro out_sound_broadcasts) (simp add: one_hop_more_def)
  have own: "may_name W N x (q_dst_addr q) 0" if "cstr (q_dst_addr q) = own_addr u"
    using may_name_own [of x] that node_own [OF u] by simp
  have relay: "may_name W N x (q_dst_addr q) (hop_cnt (o_table u ! ?c))"
    if "?c < length (o_table u)"
    using usable_route_entry [OF tab that] u
    by (intro route_may_name [of W N x ?c]) (auto simp: node_sound_def)
  have "out_sound W N x (rreq_out i (src_mac f) r q eff e u)" for e
    unfolding rreq_out_def Let_def
    by (auto simp: flood own relay rrep_frame_def msg_sound_may_name)
  moreover have "odr_ok t" using on_RREQ_ok [OF _ assms(2,5)] assms(1) by (simp add: node_sound_def)
  moreover have "route_sound W N x k (o_table t ! k)" if "k < 10" for k
    using u that tab by (cases "k = ?n") (auto simp: t node_sound_def table_ok_def route_sound_def learnt_def)
  ultimately show ?thesis using u by (simp add: node_sound_def t)
qed

lemma on_RREP_sound:
  assumes "node_sound W N x s" and "i < length (o_ifs s)" and "frame_from W N x i f y j" and "f_body f = Rrep p"
    and "on_RREP E i (src_mac f) p s = Inr t"
  shows "node_sound W N x t"
proof -
  have nm: "named (f_body f) = Some (p_src_addr p, ntohl (p_hop_cnt p))" by (simp add: assms(4) named_def)
  obtain u eff where l: "learn (p_discovery p) (p_hop_cnt p) i (src_mac f) (p_src_addr p) s = (u, eff)"
    by (cases "learn (p_discovery p) (p_hop_cnt p) i (src_mac f) (p_src_addr p) s")
  have u: "node_sound W N x u" using learn_sound [OF assms(1-3) nm l] by blast
  have ok: "odr_ok t" using on_RREP_ok [OF _ assms(2,5)] assms(1) by (simp add: node_sound_def)
  have more: "msg_sound W N x (Rrep (p\<lparr>p_hop_cnt := htonl (ntohl (p_hop_cnt p) + 1)\<rparr>))"
    using frame_may_name [OF assms(3) nm] by (simp add: msg_sound_may_name)
  have "o_table t = o_table u \<and> o_node t = o_node u \<and> (\<exists>out. o_out t = o_out u @ out \<and> out_sound W N x out)"
    using assms(5) l more
    by (auto simp: on_RREP_def split: if_splits dest!: deliver_Inr send_along_Inr)
  then show ?thesis using u ok by (auto simp: node_sound_def)
qed

lemma on_payload_sound:
  assumes "node_sound W N x s" and "on_payload E l s = Inr t"
  shows "node_sound W N x t"
proof -
  have "o_table t = o_table s \<and> o_node t = o_node s \<and> (\<exists>out. o_out t = o_out s @ out \<and> out_sound W N x out)"
    using assms(2)
    by (auto simp: on_payload_def msg_sound_simps split: if_splits dest!: deliver_Inr send_along_Inr)
  then show ?thesis
    using assms(1) on_payload_ok [OF _ assms(2)] by (auto simp: node_sound_def)
qed

lemma send_payload_sound:
  assumes "send_payload E n a b s = Inr t"
  shows "o_node t = o_node s \<and> (\<exists>out. o_out t = o_out s @ out \<and> out_sound W N x out)"
  using assms by (auto simp: send_payload_def bind_iff msg_sound_simps dest!: send_along_Inr)

lemma client_request_sound:
  assumes "own_addr s = vm_addr ! (x - 1)" and "1 \<le> x" and "x \<le> 10" and "client_request E index s = Inr t"
  shows "o_node t = o_node s \<and> (\<exists>out. o_out t = o_out s @ out \<and> out_sound W N x out)"
proof -
  from assms(4) obtain u where u: "register_client index s = Inr u"
    and t: "(\<exists>n a b. send_payload E n a b u = Inr t) \<or>
      (\<exists>ks q v. flood E ks q (u\<lparr>o_broadcast_id := v\<rparr>) = Inr t \<and> q_src_addr q = own_addr u \<and> ntohl (q_hop_cnt q) = 0)"
    unfolding client_request_def Let_def bindr_Inr_iff
    by (auto simp: own_addr_def split: if_splits) (fastforce simp: own_addr_def)+
  have s: "o_node u = o_node s" "o_out u = o_out s"
    using u by (auto simp: register_client_def bind_iff split: if_splits)
  from t show ?thesis
  proof
    assume "\<exists>n a b. send_payload E n a b u = Inr t"
    then show ?thesis using send_payload_sound [of E _ _ _ u t] s by auto
  next
    assume "\<exists>ks q v. flood E ks q (u\<lparr>o_broadcast_id := v\<rparr>) = Inr t \<and> q_src_addr q = own_addr u \<and> ntohl (q_hop_cnt q) = 0"
    then obtain ks q v where f: "flood E ks q (u\<lparr>o_broadcast_id := v\<rparr>) = Inr t"
      and q: "q_src_addr q = own_addr u" "ntohl (q_hop_cnt q) = 0" by blast
    have "own_addr u = vm_addr ! (x - 1)" using assms(1) s by (simp add: own_addr_def)
    then have "may_name W N x (q_src_addr q) (ntohl (q_hop_cnt q))"
      using may_name_own [OF assms(2,3)] q assms(2,3) by (simp add: cstr_vm_addr)
    then show ?thesis using flood_Inr [OF f] s by (auto intro: out_sound_broadcasts)
  qed
qed

lemma on_local_out:
  assumes "own_addr s = vm_addr ! (x - 1)" and "1 \<le> x" and "x \<le> 10" and "on_local E msg s = Inr t"
  shows "o_node t = o_node s \<and> (\<exists>out. o_out t = o_out s @ out \<and> out_sound W N x out)"
proof -
  obtain bytes path where msg: "msg = Some (bytes, path)"
    using assms(4) by (auto simp: on_local_def split: option.splits)
  let ?s = "s\<lparr>o_recvmsg := overwrite (o_recvmsg s) bytes, o_localaddr := path\<rparr>"
  from assms(4) msg obtain u where u: "parse_local (cstr (o_recvmsg ?s)) ?s = Inr u"
    and t: "server_reply E u = Inr t \<or> (\<exists>index. client_request E index u = Inr t)"
    by (auto simp: on_local_def bind_iff Let_def split: if_splits)
  have s: "o_node u = o_node s" "o_out u = o_out s" "own_addr u = own_addr s"
    using parse_local_Inr [OF u] by (auto simp: own_addr_def)
  show ?thesis
    using t send_payload_sound [of E _ _ _ u t W N x] client_request_sound [of u x E _ t W N] assms(1-3) s
    by (auto simp: server_reply_def)
qed

lemma on_local_sound:
  assumes "node_sound W N x s" and "on_local E msg s = Inr t"
  shows "node_sound W N x t"
  using on_local_out [OF _ _ _ assms(2), of x W N] node_own [OF assms(1)] on_local_ok [OF _ assms(2)] assms(1)
  by (auto simp: node_sound_def)

text \<open>No frame takes back what was sent.\<close>

lemma on_frame_keeps_out:
  assumes "odr_ok s" and "on_frame E i fr s = Inr t"
  shows "set (o_out s) \<subseteq> set (o_out t)"
proof -
  have rreq: "set (o_out s) \<subseteq> set (o_out t)" if "on_RREQ E i m q s = Inr t" for m q
  proof -
    obtain u eff where l: "learn (q_discovery q) (q_hop_cnt q) i m (q_src_addr q) s = (u, eff)"
      by (cases "learn (q_discovery q) (q_hop_cnt q) i m (q_src_addr q) s")
    from on_RREQ_Inr [OF that l refl] have "set (o_out u) \<subseteq> set (o_out t)" by auto
    then show ?thesis using l by (auto simp: learn_def Let_def split: if_splits)
  qed
  moreover have "set (o_out s) \<subseteq> set (o_out t)" if "on_RREP E i m p s = Inr t" for m p
  proof -
    obtain u eff where l: "learn (p_discovery p) (p_hop_cnt p) i m (p_src_addr p) s = (u, eff)"
      by (cases "learn (p_discovery p) (p_hop_cnt p) i m (p_src_addr p) s")
    then have "o_out u = o_out s" by (auto simp: learn_def Let_def split: if_splits)
    then show ?thesis using that l
      by (auto simp: on_RREP_def split: if_splits dest!: deliver_Inr send_along_Inr)
  qed
  moreover have "set (o_out s) \<subseteq> set (o_out t)" if "on_payload E l s = Inr t" for l
    using that by (auto simp: on_payload_def split: if_splits dest!: deliver_Inr send_along_Inr)
  ultimately show ?thesis using assms(2)
    by (auto simp: on_frame_def split: option.splits body.splits)
qed

lemma step_sound:
  assumes "\<And>y. y \<in> {1..10} \<Longrightarrow> node_sound W N y (N y)"
    and "x \<in> {1..10}" and "heard W N x p" and "odr_step (N x) p = Inr t"
  shows "node_sound W N x t \<and> set (o_out (N x)) \<subseteq> set (o_out t)"
proof -
  have "odr_ok t \<and> o_ifs t = o_ifs (N x) \<and> (node_sound W N x t \<and> set (o_out (N x)) \<subseteq> set (o_out t))"
  proof (rule odr_step_inv [OF _ _ assms(4)])
    show "odr_ok (N x)" using assms(1,2) by (simp add: node_sound_def)
    show "arrives (N x) p" using assms(3) by (cases p; cases "snd p") auto
    show "node_sound W N x (N x) \<and> set (o_out (N x)) \<subseteq> set (o_out (N x))" using assms(1,2) by simp
  next
    fix E msg s t
    assume "odr_ok s" "node_sound W N x s \<and> set (o_out (N x)) \<subseteq> set (o_out s)" "on_local E msg s = Inr t"
    then show "node_sound W N x t \<and> set (o_out (N x)) \<subseteq> set (o_out t)"
      using on_local_sound on_local_out [of s x E msg t W N] node_own [of W N x s] by fastforce
  next
    fix E i fr s t
    assume s: "odr_ok s" "node_sound W N x s \<and> set (o_out (N x)) \<subseteq> set (o_out s)" and i: "i < length (o_ifs s)"
      and fr: "on_frame E i fr s = Inr t" and "\<exists>loc frs. snd p = Ready loc frs \<and> (i, fr) \<in> set frs"
    then obtain f y j where f: "fr = Some f" and y: "y \<in> {1..10}" "Raw j f \<in> set (o_out (N y))" "W y j x i"
      using assms(3) by (cases p; cases fr) (fastforce simp: on_frame_def)+
    have b: "frame_from W N x i f y j"
      using assms(1) y by (auto simp: node_sound_def out_sound_def frame_from_def)
    have "node_sound W N x t"
      using fr b s i on_RREQ_sound [of W N x s i f y j _ E t] on_RREP_sound [of W N x s i f y j _ E t]
        on_payload_sound [of W N x s E _ t]
      by (cases "f_body f") (auto simp: on_frame_def f)
    moreover have "set (o_out s) \<subseteq> set (o_out t)" by (rule on_frame_keeps_out [OF s(1) fr])
    ultimately show "node_sound W N x t \<and> set (o_out (N x)) \<subseteq> set (o_out t)" using s(2) by blast
  qed
  then show ?thesis by blast
qed

lemma start_sound: "x \<in> {1..10} \<Longrightarrow> node_sound W N x (net_start ifs junk vars x)"
  using odr_start_ok [of x "ifs x" "junk x" "vars x"]
  by (simp add: net_start_def node_sound_def odr_start_def route_sound_def init_table_def)

interpretation odr_net: history_network "\<lambda>x. x \<in> {1..10}" "heard W" odr_step "net_start ifs junk vars"
  "node_sound W" for W ifs junk vars
proof
  fix x :: nat
  assume "x \<in> {1..10}"
  then show "node_sound W (net_start ifs junk vars) x (net_start ifs junk vars x)" by (rule start_sound)
next
  fix N x i t
  assume N: "\<And>y. y \<in> {1..10} \<Longrightarrow> node_sound W N y (N y)"
    and x: "x \<in> {1..10}" "heard W N x i" "odr_step (N x) i = Inr t"
  note step = step_sound [OF N x]
  show "node_sound W N x t" using step by blast
  fix y s
  assume "node_sound W N y s"
  moreover have "grown N (N(x := t))" using step by (simp add: grown_def)
  ultimately show "node_sound W (N(x := t)) y s" by (rule node_sound_mono [rotated])
qed

text \<open>Where wires carry both ways, the chain is a way back to the node.\<close>

definition two_way :: "wires \<Rightarrow> bool" where
  "two_way W \<longleftrightarrow> (\<forall>x i y j. W x i y j \<longrightarrow> W y j x i)"

lemma carried_way: "carried W N k x n \<Longrightarrow> two_way W \<Longrightarrow> way W x (Suc k) n"
proof (induction rule: carried.induct)
  case origin
  show ?case by (rule way.here)
next
  case (hop y n x i f)
  then obtain j where "W y j x i" by (auto simp: hears_def)
  then have "W x i y j" using hop.prems by (simp add: two_way_def)
  then show ?case using hop.IH [OF hop.prems] by (rule way.hop)
qed

section \<open>Routes are real\<close>

text \<open>
  C2. However the network delivers the frames of the ten daemons, every route a daemon holds is
  real: it was learnt from a frame that named the destination, sent by the neighbour \<open>y\<close> on the
  wire to the interface in the entry; its next hop is the source address of that frame; and its
  hop count is one more than the number \<open>n\<close> of wires over which the news of the destination had
  come to \<open>y\<close>, each node of that chain having sent the next one a message with the count so far.
  Where wires carry both ways, the destination is \<open>n + 1\<close> wires away.
\<close>
theorem routes_are_real:
  assumes "net_reach W ifs junk vars N"
    and "1 \<le> x" and "x \<le> 10" and "k < 10" and "outgoing_if (o_table (N x) ! k) \<noteq> 0"
  shows "\<exists>y f n. hears W N x (nat (outgoing_if (o_table (N x) ! k) - 3)) y f k (of_nat n)
    \<and> carried W N k y n \<and> next_hop (o_table (N x) ! k) = src_mac f
    \<and> hop_cnt (o_table (N x) ! k) = of_nat (Suc n)
    \<and> (two_way W \<longrightarrow> way W x (Suc k) (Suc n))"
proof -
  have "node_sound W N x (N x)" using odr_net.reaches_inv [OF assms(1), of x] assms(2,3) by simp
  then obtain y f n where "learnt W N x k (o_table (N x) ! k) y f n"
    using assms(4,5) by (auto simp: node_sound_def route_sound_def)
  moreover from this have "two_way W \<longrightarrow> way W x (Suc k) (Suc n)"
    using carried_way carried.hop unfolding learnt_def by metis
  ultimately show ?thesis unfolding learnt_def by blast
qed

text \<open>Two nodes on one wire: a client of node 1 asks for node 2, and node 2 hears the request.\<close>

definition pair_wire :: wires where
  "pair_wire x i y j \<longleftrightarrow> i = 0 \<and> j = 0 \<and> (x = 1 \<and> y = 2 \<or> x = 2 \<and> y = 1)"

definition example_net :: "nat \<Rightarrow> odr" where
  "example_net x = odr_start x [example_mac (of_nat x)]
     (\<lambda>_. \<lparr>r_dst_addr = [], next_hop = [], outgoing_if = 0, hop_cnt = 0, r_broadcast_id = 0\<rparr>) example_vars"

lemma example_table_ok: "x \<in> {1..10} \<Longrightarrow> table_ok (example_net x)"
  using odr_start_ok by (simp add: example_net_def odr_ok_def)

lemma example_net_simps:
  "o_ifs (example_net x) = [example_mac (of_nat x)]" "o_out (example_net x) = []"
  "o_recvmsg (example_net x) = []" "o_ports (example_net x) = [\<lparr>pt_port = 5000, pt_path = ''240411''\<rparr>]"
  "k < 10 \<Longrightarrow> outgoing_if (o_table (example_net x) ! k) = 0"
  by (simp_all add: example_net_def odr_start_def init_table_def example_vars_def)

lemma example_asks:
  "\<exists>t q. on_local (\<lambda>_. True) (Some (example_text, ''temp.a'')) (example_net 1) = Inr t
    \<and> Raw 0 \<lparr>dst_mac = broadcast, src_mac = example_mac 1, f_body = Rreq q\<rparr> \<in> set (o_out t)
    \<and> q_src_addr q = vm_addr ! 0"
proof -
  let ?u = "(example_net 1)\<lparr>o_recvmsg := overwrite [] example_text, o_localaddr := ''temp.a'',
    o_dst_addr := vm_addr ! 1, o_dst_port := 5000, o_message := ''HI'', o_flag := 0\<rparr>"
  let ?v = "?u\<lparr>o_ports := o_ports ?u @ [\<lparr>pt_port = o_port ?u, pt_path = ''temp.a''\<rparr>], o_port := o_port ?u + 1\<rparr>"
  have idx: "index_of (\<lambda>p. cstr (pt_path p) = cstr ''temp.a'') (o_ports ?u) = 1"
    by (simp add: example_net_simps cstr_def)
  have "table_ok ?v" using example_table_ok [of 1] by (simp add: table_ok_def)
  then have n: "find_route (vm_addr ! 1) ?v = 1" by (rule find_route_vm) (simp_all add: cstr_vm_addr)
  have "register_client 1 ?u = Inr ?v"
    by (simp add: register_client_def example_net_simps cstr_def)
  then have "\<exists>t q. client_request (\<lambda>_. True) 1 ?u = Inr t
    \<and> Raw 0 \<lparr>dst_mac = broadcast, src_mac = example_mac 1, f_body = Rreq q\<rparr> \<in> set (o_out t)
    \<and> q_src_addr q = vm_addr ! 0"
    using n by (simp add: client_request_def Let_def example_net_simps flood_def send_frame_def emit_def own_addr_def)
      (simp add: example_net_def odr_start_def)
  moreover have "on_local (\<lambda>_. True) (Some (example_text, ''temp.a'')) (example_net 1) = client_request (\<lambda>_. True) 1 ?u"
    using idx by (simp add: on_local_def example_net_simps example_text_parsed)
  ultimately show ?thesis by simp
qed

theorem routes_are_real_witness:
  "\<exists>N. net_reach pair_wire (\<lambda>x. [example_mac (of_nat x)])
       (\<lambda>_ _. \<lparr>r_dst_addr = [], next_hop = [], outgoing_if = 0, hop_cnt = 0, r_broadcast_id = 0\<rparr>)
       (\<lambda>_. example_vars) N
     \<and> outgoing_if (o_table (N 2) ! 0) \<noteq> 0
     \<and> (\<exists>y f n. hears pair_wire N 2 (nat (outgoing_if (o_table (N 2) ! 0) - 3)) y f 0 (of_nat n)
          \<and> carried pair_wire N 0 y n \<and> next_hop (o_table (N 2) ! 0) = src_mac f
          \<and> hop_cnt (o_table (N 2) ! 0) = of_nat (Suc n) \<and> way pair_wire 2 1 (Suc n))"
proof -
  let ?reach = "net_reach pair_wire (\<lambda>x. [example_mac (of_nat x)])
       (\<lambda>_ _. \<lparr>r_dst_addr = [], next_hop = [], outgoing_if = 0, hop_cnt = 0, r_broadcast_id = 0\<rparr>)
       (\<lambda>_. example_vars)"
  let ?E = "\<lambda>_ :: nat. True"
  obtain t q where t: "on_local ?E (Some (example_text, ''temp.a'')) (example_net 1) = Inr t"
    and q: "Raw 0 \<lparr>dst_mac = broadcast, src_mac = example_mac 1, f_body = Rreq q\<rparr> \<in> set (o_out t)"
    and src: "q_src_addr q = vm_addr ! 0" using example_asks by blast
  let ?f = "\<lparr>dst_mac = broadcast, src_mac = example_mac 1, f_body = Rreq q\<rparr>"
  have "net_start (\<lambda>x. [example_mac (of_nat x)])
       (\<lambda>_ _. \<lparr>r_dst_addr = [], next_hop = [], outgoing_if = 0, hop_cnt = 0, r_broadcast_id = 0\<rparr>)
       (\<lambda>_. example_vars) = example_net"
    by (rule ext) (simp add: net_start_def example_net_def)
  then have r0: "?reach example_net" using reaches_start by metis
  have r1: "?reach (example_net(1 := t))"
    by (rule reaches_step [OF r0, of _ "(?E, Ready (Some (Some (example_text, ''temp.a''))) [])"])
      (simp_all add: t [unfolded One_nat_def])
  have ok: "odr_ok (example_net 2)" by (simp add: example_net_def odr_start_ok)
  have known: "cstr (q_src_addr q) = vm_addr ! 0" using src by (simp add: cstr_vm_addr)
  obtain u where u: "on_RREQ ?E 0 (example_mac 1) q (example_net 2) = Inr u"
    using osf_returns [OF on_RREQ_stops [OF ok, of 0 0 q ?E]] known by (auto simp: example_net_simps)
  have r2: "?reach (example_net(1 := t, 2 := u))"
    by (rule reaches_step [OF r1, of _ "(?E, Ready None [(0, Some ?f)])"])
      (use u q in \<open>auto simp: example_net_simps on_frame_def pair_wire_def intro!: bexI [of _ 1]\<close>)
  have out: "outgoing_if (o_table u ! 0) \<noteq> 0"
    using on_RREQ_entry [OF ok _ _ known u] by (simp add: example_net_simps)
  let ?N = "example_net(1 := t, 2 := u)"
  have "two_way pair_wire" by (auto simp: two_way_def pair_wire_def)
  then have "\<exists>y f n. hears pair_wire ?N 2 (nat (outgoing_if (o_table (?N 2) ! 0) - 3)) y f 0 (of_nat n)
     \<and> carried pair_wire ?N 0 y n \<and> next_hop (o_table (?N 2) ! 0) = src_mac f
     \<and> hop_cnt (o_table (?N 2) ! 0) = of_nat (Suc n) \<and> way pair_wire 2 1 (Suc n)"
    using routes_are_real [OF r2, of 2 0] out by simp
  with r2 out show ?thesis by (intro exI [of _ ?N]) simp
qed

end
