(* ===== verification/HwAddrs.thy ===== *)
theory HwAddrs
  imports Api
begin

text \<open>
  \<^verbatim>\<open>get_hw_addrs.c\<close> of assignments 3 and 4 (the same file): the list of a node's
  interfaces with their hardware addresses, and how the programs find out from it which node
  they run on.
\<close>

section \<open>Asking the kernel\<close>

definition IF_NAME :: nat where "IF_NAME = 16"
definition IF_HADDR :: nat where "IF_HADDR = 6"

text \<open>
  An item of the kernel's answer, with what the union behind its name holds after
  \<^verbatim>\<open>SIOCGIFHWADDR\<close> and after \<^verbatim>\<open>SIOCGIFINDEX\<close> (a failure of these is only
  reported on the terminal). Addresses are in host byte order.
\<close>

record ifreq =
  ifr_name :: string
  ifr_addr :: u32
  ifr_hwaddr :: "u8 list"
  ifr_ifindex :: int

datatype ifconf = ConfError bool | Conf "ifreq list"

definition sizeof_ifreq :: nat where "sizeof_ifreq = 40"

text \<open>
  The loop that guesses the size of the buffer: \<open>conf len\<close> is the kernel's answer to
  \<^verbatim>\<open>SIOCGIFCONF\<close> with a buffer of \<open>len\<close> bytes (\<open>ConfError b\<close>: it fails, \<open>b\<close> says whether
  with \<^verbatim>\<open>EINVAL\<close>). \<open>None\<close>: \<open>fuel\<close> rounds were not enough.
\<close>

fun guess_buffer :: "nat \<Rightarrow> (nat \<Rightarrow> ifconf) \<Rightarrow> nat \<Rightarrow> nat \<Rightarrow> (stop + ifreq list) option" where
  "guess_buffer 0 conf len lastlen = None"
| "guess_buffer (Suc fuel) conf len lastlen =
     (case conf len of
        ConfError einval \<Rightarrow>
          if \<not> einval \<or> lastlen \<noteq> 0 then Some (Inl (Exit 1 ''ioctl error''))
          else guess_buffer fuel conf (len + 10 * sizeof_ifreq) lastlen
      | Conf items \<Rightarrow>
          if length items * sizeof_ifreq = lastlen then Some (Inr items)
          else guess_buffer fuel conf (len + 10 * sizeof_ifreq) (length items * sizeof_ifreq))"

section \<open>The list of interfaces\<close>

record hwa_info =
  if_name :: string
  if_haddr :: "u8 list"
  if_index :: int
  ip_alias :: bool
  hwa_ip :: u32

text \<open>The name of an item before a colon, which marks an alias.\<close>

definition base_name :: "ifreq \<Rightarrow> string" where
  "base_name item = takeWhile (\<lambda>c. c \<noteq> NUL \<and> c \<noteq> CHR '':'') (take IF_NAME (ifr_name item))"

fun hw_list :: "string \<Rightarrow> ifreq list \<Rightarrow> hwa_info list" where
  "hw_list lastname [] = []"
| "hw_list lastname (item # items) =
     \<lparr>if_name = cstr (take (IF_NAME - 1) (ifr_name item)), if_haddr = take IF_HADDR (ifr_hwaddr item),
      if_index = ifr_ifindex item, ip_alias = (lastname = base_name item), hwa_ip = ifr_addr item\<rparr>
     # hw_list (base_name item) items"

definition get_hw_addrs :: "nat \<Rightarrow> (nat \<Rightarrow> ifconf) \<Rightarrow> (stop + hwa_info list) option" where
  "get_hw_addrs fuel conf =
     (case guess_buffer fuel conf (100 * sizeof_ifreq) 0 of
        None \<Rightarrow> None
      | Some (Inl e) \<Rightarrow> Some (Inl e)
      | Some (Inr items) \<Rightarrow> Some (Inr (hw_list [] items)))"

section \<open>Which node this is\<close>

text \<open>
  \<^verbatim>\<open>sa=hwa->hwa_next->ip_addr\<close> and the search for the node: the second interface of the list
  is taken, whatever it is; \<open>node\<close> keeps its old value when the address is not known.
\<close>

definition find_node :: "string \<Rightarrow> hwa_info list \<Rightarrow> int \<Rightarrow> stop + int" where
  "find_node failed hwa old =
     (case hwa of
        [] \<Rightarrow> Inl (Exit 1 failed)
      | [h] \<Rightarrow> Inl (Undefined ''hwa_next'')
      | h # h2 # hs \<Rightarrow> Inr (vm_index (dotted (hwa_ip h2)) old))"

section \<open>All interfaces are found\<close>

text \<open>The kernel's answer: as many of the interfaces as fit the buffer.\<close>

definition kernel_conf :: "ifreq list \<Rightarrow> nat \<Rightarrow> ifconf" where
  "kernel_conf items len = Conf (take (len div sizeof_ifreq) items)"

lemma guess_buffer_full:
  assumes "length items \<le> len div sizeof_ifreq" and "lastlen \<le> length items * sizeof_ifreq"
  shows "guess_buffer (Suc (Suc fuel)) (kernel_conf items) len lastlen = Some (Inr items)"
proof -
  have "length items \<le> (len + 10 * sizeof_ifreq) div sizeof_ifreq"
    using assms(1) by (simp add: sizeof_ifreq_def)
  then show ?thesis using assms(1) by (simp add: kernel_conf_def)
qed

lemma guess_buffer_all:
  assumes "n = length items - len div sizeof_ifreq" and "fuel \<ge> (n + 9) div 10 + 2"
    and "lastlen = 0 \<or> lastlen < len \<and> lastlen < length items * sizeof_ifreq"
    and "sizeof_ifreq dvd len" and "0 < len"
  shows "guess_buffer fuel (kernel_conf items) len lastlen = Some (Inr items)"
  using assms
proof (induction n arbitrary: fuel len lastlen rule: less_induct)
  case (less n)
  obtain fuel' where fuel: "fuel = Suc (Suc fuel')"
    using less.prems(2) by (cases fuel; cases "fuel - 1") auto
  show ?case
  proof (cases "length items \<le> len div sizeof_ifreq")
    case True
    then show ?thesis using less.prems(3) unfolding fuel by (intro guess_buffer_full) auto
  next
    case False
    obtain d where d: "len = sizeof_ifreq * d" using less.prems(4) by blast
    have s: "sizeof_ifreq = 40" by (simp add: sizeof_ifreq_def)
    from False d s have dl: "d < length items" "0 < d" using less.prems(5) by simp_all
    have "guess_buffer (Suc fuel') (kernel_conf items) (len + 10 * sizeof_ifreq) len = Some (Inr items)"
    proof (rule less.IH [of "n - 10"])
      show "n - 10 < n" using less.prems(1) dl d s by simp
      show "n - 10 = length items - (len + 10 * sizeof_ifreq) div sizeof_ifreq"
        using less.prems(1) d s by simp
      show "Suc fuel' \<ge> (n - 10 + 9) div 10 + 2"
      proof -
        have "0 < n" using less.prems(1) dl d s by simp
        then have "(n - 10 + 9) div 10 + 1 \<le> (n + 9) div 10" by (cases "n < 10") auto
        then show ?thesis using less.prems(2) unfolding fuel by linarith
      qed
      show "len = 0 \<or> len < len + 10 * sizeof_ifreq \<and> len < length items * sizeof_ifreq"
        using dl d s by simp
    qed (use less.prems d s in auto)
    moreover have "length (take d items) * sizeof_ifreq = len" using dl d by simp
    moreover have "len \<noteq> lastlen" using less.prems(3,5) by auto
    moreover have "kernel_conf items len = Conf (take d items)" using d s by (simp add: kernel_conf_def)
    ultimately show ?thesis
      unfolding fuel guess_buffer.simps(2) [of "Suc fuel'"] by (simp only: ifconf.case if_False)
  qed
qed

lemma get_hw_addrs_all:
  assumes "fuel \<ge> (length items + 9) div 10 + 2"
  shows "get_hw_addrs fuel (kernel_conf items) = Some (Inr (hw_list [] items))"
proof -
  have "(length items - 100 + 9) div 10 \<le> (length items + 9) div 10" by (intro div_le_mono) simp
  then have "guess_buffer fuel (kernel_conf items) (100 * sizeof_ifreq) 0 = Some (Inr items)"
    using assms by (intro guess_buffer_all [OF refl]) (simp_all add: sizeof_ifreq_def)
  then show ?thesis by (simp add: get_hw_addrs_def)
qed

lemma hw_list_facts:
  "map if_index (hw_list l items) = map ifr_ifindex items \<and> map hwa_ip (hw_list l items) = map ifr_addr items"
  by (induction items arbitrary: l) auto

text \<open>
  C22. The search for the right buffer size ends and misses nothing: on a node with any number
  of interfaces, with fuel for a round per ten interfaces beyond the first hundred and two more,
  \<^verbatim>\<open>get_hw_addrs\<close> returns every interface of the kernel's list, in its order.
\<close>
theorem all_interfaces_found:
  assumes "fuel \<ge> (length items + 9) div 10 + 2"
  shows "\<exists>hwa. get_hw_addrs fuel (kernel_conf items) = Some (Inr hwa) \<and> map if_index hwa = map ifr_ifindex items
    \<and> map hwa_ip hwa = map ifr_addr items"
  using get_hw_addrs_all [OF assms] hw_list_facts [of "[]" items] by blast

definition example_ifs :: "ifreq list" where
  "example_ifs =
     [\<lparr>ifr_name = ''lo'' @ replicate 14 NUL, ifr_addr = 0x7F000001, ifr_hwaddr = replicate 6 0, ifr_ifindex = 1\<rparr>,
      \<lparr>ifr_name = ''eth0'' @ replicate 12 NUL, ifr_addr = 0x82F59C15, ifr_hwaddr = [0, 0x0c, 0x29, 1, 2, 3],
        ifr_ifindex = 2\<rparr>,
      \<lparr>ifr_name = ''eth1'' @ replicate 12 NUL, ifr_addr = 0xC0A80101, ifr_hwaddr = [0, 0x0c, 0x29, 1, 2, 4],
        ifr_ifindex = 3\<rparr>,
      \<lparr>ifr_name = ''eth1:1'' @ replicate 10 NUL, ifr_addr = 0xC0A80102, ifr_hwaddr = [0, 0x0c, 0x29, 1, 2, 4],
        ifr_ifindex = 3\<rparr>]"

theorem all_interfaces_found_witness:
  "\<exists>hwa. get_hw_addrs 3 (kernel_conf example_ifs) = Some (Inr hwa) \<and> map if_index hwa = [1, 2, 3, 3]"
proof -
  have "length example_ifs = 4" "map ifr_ifindex example_ifs = [1, 2, 3, 3]" by (simp_all add: example_ifs_def)
  with all_interfaces_found [of example_ifs 3] show ?thesis by auto
qed

text \<open>
  An interface is marked as an alias exactly when its name, up to a colon, is that of the
  interface before it in the kernel's list.
\<close>
theorem alias_marked:
  assumes "get_hw_addrs fuel conf = Some (Inr hwa)" and "guess_buffer fuel conf (100 * sizeof_ifreq) 0 = Some (Inr items)"
    and "Suc k < length items"
  shows "length hwa = length items \<and> ip_alias (hwa ! Suc k) = (base_name (items ! Suc k) = base_name (items ! k))"
proof -
  have hwa: "hwa = hw_list [] items" using assms(1,2) by (simp add: get_hw_addrs_def)
  have len: "length (hw_list l xs) = length xs" for l xs by (induction xs arbitrary: l) auto
  have "ip_alias (hw_list l xs ! Suc k) = (base_name (xs ! Suc k) = base_name (xs ! k))"
    if "Suc k < length xs" for l xs k
    using that
  proof (induction xs arbitrary: l k)
    case (Cons x xs)
    then show ?case by (cases k; cases xs) auto
  qed simp
  then show ?thesis using assms(3) hwa len by simp
qed

theorem alias_marked_witness:
  "\<exists>hwa. get_hw_addrs 2 (kernel_conf example_ifs) = Some (Inr hwa)
    \<and> ip_alias (hwa ! 3) \<and> \<not> ip_alias (hwa ! 2)"
proof -
  have g: "guess_buffer 2 (kernel_conf example_ifs) (100 * sizeof_ifreq) 0 = Some (Inr example_ifs)"
    unfolding numeral_2_eq_2 by (rule guess_buffer_full) (simp_all add: example_ifs_def sizeof_ifreq_def)
  then obtain hwa where h: "get_hw_addrs 2 (kernel_conf example_ifs) = Some (Inr hwa)"
    by (simp add: get_hw_addrs_def)
  have n: "base_name (example_ifs ! 3) = ''eth1''" "base_name (example_ifs ! 2) = ''eth1''"
    "base_name (example_ifs ! 1) = ''eth0''" "length example_ifs = 4"
    by (simp_all add: example_ifs_def base_name_def IF_NAME_def numeral_eq_Suc)
  show ?thesis
    using alias_marked [OF h g, of 2] alias_marked [OF h g, of 1] h n by (simp add: numeral_eq_Suc)
qed

end
