(* ===== verification/OdrSetup.thy ===== *)
theory OdrSetup
  imports HwAddrs OdrProps
begin

text \<open>
  The start of \<^verbatim>\<open>main\<close> in \<^verbatim>\<open>ODR.c\<close>: the interfaces become raw sockets, the second
  one tells which node this is, the UNIX socket is bound and the tables are filled.
\<close>

record odr_setup =
  su_node :: int
  su_ifs :: "mac list"

text \<open>An interface of the list with the outcome of \<^verbatim>\<open>socket\<close> and \<^verbatim>\<open>bind\<close> for it.\<close>

definition odr_interface :: "hwa_info \<times> bool \<times> bool \<Rightarrow> odr_setup \<Rightarrow> odr_setup outcome" where
  "odr_interface x s =
     (case x of (hwa, opened, bound) \<Rightarrow>
        if if_index hwa = 1 then Inr s
        else if if_index hwa = 2 then Inr (s\<lparr>su_node := vm_index (dotted (hwa_ip hwa)) (su_node s)\<rparr>)
        else
          bindr (undef_if (length (su_ifs s) \<ge> 3) ''if_addr'' s) (\<lambda>s.
          bindr (exit_if (\<not> opened) 1 ''ODR: Failed to open interface raw socket'' s) (\<lambda>s.
          bindr (exit_if (\<not> bound) 1 ''ODR: Failed to bind interface raw socket'' s) (\<lambda>s.
          Inr (s\<lparr>su_ifs := su_ifs s @ [if_haddr hwa]\<rparr>)))))"

definition odr_usage :: string where
  "odr_usage = ''ODR: Usage is '' @ [CHR 0x27] @ ''ODR staleness_time(in seconds)'' @ [CHR 0x27]"

text \<open>\<open>node\<close>, \<open>junk\<close> and \<open>vars\<close> are the contents of uninitialised variables.\<close>

definition odr_main ::
  "nat \<Rightarrow> (hwa_info \<times> bool \<times> bool) list \<Rightarrow> bool \<Rightarrow> bool \<Rightarrow> int \<Rightarrow> (nat \<Rightarrow> routing_entry) \<Rightarrow> odr
   \<Rightarrow> (stop \<times> odr_setup) + odr" where
  "odr_main argc hwas opened bound node junk vars =
     (let s = \<lparr>su_node = node, su_ifs = []\<rparr> in
      bindr (exit_if (argc \<noteq> 2) 1 odr_usage s) (\<lambda>s.
      bindr (exit_if (hwas = []) 1 ''ODR: Failed to get interface information for this node'' s) (\<lambda>s.
      bindr (run_list odr_interface hwas s) (\<lambda>s.
      bindr (exit_if (\<not> opened) 1 ''ODR: Failed to open UNIX domain socket'' s) (\<lambda>s.
      bindr (exit_if (\<not> bound) 1 ''ODR: Failed to bind UNIX domain socket'' s) (\<lambda>s.
      Inr (odr_start (nat (su_node s)) (su_ifs s) junk vars)))))))"

definition of_interest :: "hwa_info \<Rightarrow> bool" where
  "of_interest hwa \<longleftrightarrow> if_index hwa \<noteq> 1 \<and> if_index hwa \<noteq> 2"

lemma odr_interface_Inr:
  assumes "odr_interface x s = Inr t"
  shows "su_ifs t = su_ifs s @ map (if_haddr \<circ> fst) (filter (of_interest \<circ> fst) [x])
    \<and> length (su_ifs t) \<le> max 3 (length (su_ifs s))
    \<and> su_node t = (if if_index (fst x) = 2 then vm_index (dotted (hwa_ip (fst x))) (su_node s) else su_node s)"
  using assms by (cases x) (auto simp: odr_interface_def of_interest_def bind_iff split: if_splits)

lemma odr_interfaces_Inr:
  assumes "run_list odr_interface xs s = Inr t"
  shows "su_ifs t = su_ifs s @ map (if_haddr \<circ> fst) (filter (of_interest \<circ> fst) xs)
    \<and> length (su_ifs t) \<le> max 3 (length (su_ifs s))"
  using assms
proof (induction xs arbitrary: s)
  case Nil
  then show ?case by simp
next
  case (Cons x xs)
  then obtain u where u: "odr_interface x s = Inr u" "run_list odr_interface xs u = Inr t"
    by (auto simp: bind_iff)
  show ?case using Cons.IH [OF u(2)] odr_interface_Inr [OF u(1)] by auto
qed

lemma node_known:
  assumes "run_list odr_interface xs s = Inr t" and "(hwa, o1, b1) \<in> set xs" and "if_index hwa = 2"
    and "\<forall>x \<in> set xs. if_index (fst x) = 2 \<longrightarrow> dotted (hwa_ip (fst x)) = vm_addr ! k" and "k < 10"
  shows "su_node t = int k + 1"
proof -
  note vm = vm_index_node [OF assms(5)]
  have keep: "su_node v = int k + 1"
    if "run_list odr_interface ys u = Inr v" "su_node u = int k + 1" "set ys \<subseteq> set xs" for ys u v
    using that
  proof (induction ys arbitrary: u)
    case (Cons y ys)
    then obtain w where w: "odr_interface y u = Inr w" "run_list odr_interface ys w = Inr v"
      by (auto simp: bind_iff)
    have "su_node w = int k + 1"
      using odr_interface_Inr [OF w(1)] assms(4) Cons.prems vm by (auto split: if_splits)
    then show ?case using Cons.IH [OF w(2)] Cons.prems by simp
  qed simp
  obtain ys zs where xs: "xs = ys @ (hwa, o1, b1) # zs" using assms(2) split_list by fast
  with assms(1) obtain u w where u: "odr_interface (hwa, o1, b1) u = Inr w"
    and w: "run_list odr_interface zs w = Inr t"
    by (auto simp: run_list_append bind_iff)
  have "su_node w = int k + 1" using odr_interface_Inr [OF u] assms(2-4) vm by auto
  then show ?thesis using keep [OF w] xs by auto
qed

text \<open>
  A daemon that starts starts well: on a node whose second interface carries the address of
  one of the ten nodes, it knows which node it is, has a raw socket for each further interface,
  three at most, in the order of the list, and its tables are well formed.
\<close>
theorem odr_starts_well:
  assumes "odr_main argc hwas opened bound node junk vars = Inr t"
    and "(hwa, o1, b1) \<in> set hwas" and "if_index hwa = 2"
    and "\<forall>x \<in> set hwas. if_index (fst x) = 2 \<longrightarrow> dotted (hwa_ip (fst x)) = vm_addr ! k" and "k < 10"
  shows "odr_ok t \<and> o_node t = k + 1 \<and> own_addr t = vm_addr ! k \<and> length (o_ifs t) \<le> 3
    \<and> o_ifs t = map (if_haddr \<circ> fst) (filter (of_interest \<circ> fst) hwas)"
proof -
  from assms(1) obtain s where s: "run_list odr_interface hwas \<lparr>su_node = node, su_ifs = []\<rparr> = Inr s"
    and t: "t = odr_start (nat (su_node s)) (su_ifs s) junk vars"
    by (auto simp: odr_main_def bind_iff Let_def)
  have n: "nat (su_node s) = k + 1" using node_known [OF s assms(2-5)] by simp
  have "odr_ok t" unfolding t n using assms(5) by (intro odr_start_ok) auto
  with odr_interfaces_Inr [OF s] n show ?thesis by (auto simp: t odr_start_def own_addr_def)
qed

definition example_hwas :: "(hwa_info \<times> bool \<times> bool) list" where
  "example_hwas =
     [(\<lparr>if_name = ''lo'', if_haddr = replicate 6 0, if_index = 1, ip_alias = False, hwa_ip = 0x7F000001\<rparr>, True, True),
      (\<lparr>if_name = ''eth0'', if_haddr = [0, 12, 41, 1, 2, 3], if_index = 2, ip_alias = False, hwa_ip = 0x82F59C15\<rparr>,
       True, True),
      (\<lparr>if_name = ''eth1'', if_haddr = [0, 12, 41, 1, 2, 4], if_index = 3, ip_alias = False, hwa_ip = 0xC0A80101\<rparr>,
       True, True)]"

lemma example_dotted: "dotted 0x82F59C15 = vm_addr ! 0"
proof -
  have "unat (drop_bit 24 (0x82F59C15 :: u32)) = 130" "unat (take_bit 8 (drop_bit 16 (0x82F59C15 :: u32))) = 245"
    "unat (take_bit 8 (drop_bit 8 (0x82F59C15 :: u32))) = 156" "unat (take_bit 8 (0x82F59C15 :: u32)) = 21"
    by (simp_all add: drop_bit_eq_div take_bit_eq_mod unat_div unat_mod)
  then show ?thesis
    by (simp add: dotted_def vm_addr_def show_nat.simps [of 130] show_nat.simps [of 13] show_nat.simps [of 245]
        show_nat.simps [of 24] show_nat.simps [of 156] show_nat.simps [of 15] show_nat.simps [of 21]
        show_nat.simps [of 2] show_nat.simps [of "Suc 0"] digit_def char_of_def bit_Suc_0_iff)
qed

theorem odr_starts_well_witness:
  "\<exists>t. odr_main 2 example_hwas True True 0
       (\<lambda>_. \<lparr>r_dst_addr = [], next_hop = [], outgoing_if = 0, hop_cnt = 0, r_broadcast_id = 0\<rparr>) example_vars = Inr t
     \<and> odr_ok t \<and> o_node t = 1 \<and> o_ifs t = [[0, 12, 41, 1, 2, 4]]"
proof -
  let ?j = "\<lambda>_ :: nat. \<lparr>r_dst_addr = [], next_hop = [], outgoing_if = 0, hop_cnt = 0, r_broadcast_id = 0\<rparr>"
  obtain t where t: "odr_main 2 example_hwas True True 0 ?j example_vars = Inr t"
    by (simp add: odr_main_def example_hwas_def odr_interface_def)
  have m: "snd (example_hwas ! 1) = (True, True)" "example_hwas ! 1 \<in> set example_hwas"
    "if_index (fst (example_hwas ! 1)) = 2"
    "\<forall>x \<in> set example_hwas. if_index (fst x) = 2 \<longrightarrow> dotted (hwa_ip (fst x)) = vm_addr ! 0"
    "map (if_haddr \<circ> fst) (filter (of_interest \<circ> fst) example_hwas) = [[0, 12, 41, 1, 2, 4]]"
    by (simp_all add: example_hwas_def example_dotted of_interest_def)
  obtain h where h: "example_hwas ! 1 = (h, True, True)" using m(1) by (metis prod.collapse)
  show ?thesis using odr_starts_well [OF t, of h True True 0] m t unfolding h by auto
qed

end
