(* ===== verification/AppSetup.thy ===== *)
theory AppSetup
  imports HwAddrs OdrInv
begin

text \<open>
  The start of the two applications of assignment 3 (\<^verbatim>\<open>client.c\<close>, \<^verbatim>\<open>server.c\<close>): each finds
  out which node it runs on and binds the UNIX socket it talks to the daemon through.
\<close>

text \<open>
  \<open>old\<close> and the variables of the loops hold what is in memory; \<open>mkstemp\<close> is the name it makes,
  if any. The client also gives the path it binds.
\<close>

definition server_main :: "(stop + hwa_info list) \<Rightarrow> int \<Rightarrow> bool \<Rightarrow> bool \<Rightarrow> server \<Rightarrow> (stop \<times> unit) + server" where
  "server_main hwa old opened bound vars =
     (case hwa of
        Inl e \<Rightarrow> Inl (e, ())
      | Inr hwa \<Rightarrow>
         (case find_node ''SERVER: Failed to get interface information for this node'' hwa old of
            Inl e \<Rightarrow> Inl (e, ())
          | Inr node \<Rightarrow>
              bindr (exit_if (\<not> opened) 1 ''SERVER: Failed to open socket'' ()) (\<lambda>u.
              bindr (exit_if (\<not> bound) 1 ''SERVER: Failed to bind socket'' u) (\<lambda>u.
              Inr (vars\<lparr>s_node := node, s_out := []\<rparr>)))))"

definition client_main ::
  "(stop + hwa_info list) \<Rightarrow> int \<Rightarrow> bool \<Rightarrow> string option \<Rightarrow> bool \<Rightarrow> client \<Rightarrow> (stop \<times> unit) + string \<times> client" where
  "client_main hwa old opened mkstemp bound vars =
     (case hwa of
        Inl e \<Rightarrow> Inl (e, ())
      | Inr hwa \<Rightarrow>
         (case find_node ''CLIENT: Failed to get interface information for this node'' hwa old of
            Inl e \<Rightarrow> Inl (e, ())
          | Inr node \<Rightarrow>
              bindr (exit_if (\<not> opened) 1 ''CLIENT: Failed to open UNIX domain socket'' ()) (\<lambda>u.
              case mkstemp of
                None \<Rightarrow> Inl (Exit 1 ''CLIENT: Failed to create a new unique file'', u)
              | Some filename \<Rightarrow>
                  bindr (exit_if (\<not> bound) 1 ''CLIENT: Failed to bind socket'' u) (\<lambda>u.
                  Inr (filename, vars\<lparr>k_node := node, k_out := [], k_pc := Choose\<rparr>)))))"

lemma find_node_second:
  "2 \<le> length items \<Longrightarrow> find_node failed (hw_list l items) old = Inr (vm_index (dotted (ifr_addr (items ! 1))) old)"
  by (cases items rule: list.exhaust; cases "tl items") (auto simp: find_node_def)

text \<open>
  Both applications know their node: on a host whose second interface has the address of node
  \<open>k + 1\<close>, with whatever other interfaces, the number they announce and send is \<open>k + 1\<close>, and the
  client waits for the user.
\<close>
theorem applications_know_their_node:
  assumes "fuel \<ge> (length items + 9) div 10 + 2" and "2 \<le> length items" and "k < 10"
    and "dotted (ifr_addr (items ! 1)) = vm_addr ! k"
  shows "\<exists>hwa. get_hw_addrs fuel (kernel_conf items) = Some hwa
    \<and> server_main hwa old True True sv = Inr (sv\<lparr>s_node := int k + 1, s_out := []\<rparr>)
    \<and> client_main hwa old True (Some path) True cv = Inr (path, cv\<lparr>k_node := int k + 1, k_out := [], k_pc := Choose\<rparr>)"
  using get_hw_addrs_all [OF assms(1)] find_node_second [OF assms(2)] vm_index_node [OF assms(3)] assms(4)
  by (simp add: server_main_def client_main_def)

theorem applications_know_their_node_witness:
  "\<exists>hwa. get_hw_addrs 3 (kernel_conf example_ifs) = Some hwa
    \<and> (\<exists>s. server_main hwa 0 True True \<lparr>s_node = 7, s_recv = 8, s_vars = \<lparr>recvmsg = [], src_addr = [], src_port = 0\<rparr>, s_out = []\<rparr> = Inr s \<and> s_node s = 1)"
proof -
  have "length example_ifs = 4" "dotted (ifr_addr (example_ifs ! 1)) = vm_addr ! 0" by code_simp+
  with applications_know_their_node [of example_ifs 3 0 0 "\<lparr>s_node = 7, s_recv = 8, s_vars = \<lparr>recvmsg = [], src_addr = [], src_port = 0\<rparr>, s_out = []\<rparr>"]
  show ?thesis by fastforce
qed

end
