(* ===== verification/Arp.thy ===== *)
theory Arp
  imports HwAddrs
begin

text \<open>
  \<^verbatim>\<open>Assignment 4/Code/arp.c\<close>: the daemon that resolves node addresses to hardware addresses.
  It hears frames on a packet socket and questions of local processes on a UNIX stream socket;
  what it has learnt it keeps in a cache with one entry per node, which also holds the
  descriptor of the connection that waits for the answer.
\<close>

section \<open>Data\<close>

type_synonym hwmac = "u8 list"

definition ARP_PROTO :: u16 where "ARP_PROTO = 0x2404"

record eth_hdr =
  h_dst_mac :: hwmac
  h_src_mac :: hwmac
  h_proto :: u16

record arp =
  hard_type :: u16
  prot_type :: u16
  hard_size :: u8
  prot_size :: u8
  op :: u16
  arp_src_mac :: hwmac
  arp_src_ip :: string
  arp_dst_mac :: hwmac
  arp_dst_ip :: string

record cache_entry =
  c_ip_addr :: string
  c_mac_addr :: hwmac
  c_sockfd :: int

text \<open>What the daemon does: a frame on the wire, six bytes to a descriptor, \<^verbatim>\<open>close\<close>.\<close>

datatype arp_action = ArpFrame eth_hdr arp | WriteMac int hwmac | Close int

record arpd =
  a_ip :: string
  a_mac :: hwmac
  a_cache :: "cache_entry list"
  a_fds :: "int list"
  a_done :: "arp_action list"

text \<open>
  The environment of one pass: whether \<^verbatim>\<open>sendto\<close> succeeds, and whether the peer of a
  descriptor takes what is written. \<^verbatim>\<open>write\<close> on a descriptor that is not open fails.
\<close>

record arp_env =
  send_ok :: bool
  peer_ok :: "int \<Rightarrow> bool"

definition all_ones :: hwmac where "all_ones = replicate 6 0xff"

section \<open>Frames\<close>

definition send_arp :: "arp_env \<Rightarrow> eth_hdr \<Rightarrow> arp \<Rightarrow> arpd \<Rightarrow> arpd outcome" where
  "send_arp E h a s =
     bindr (exit_if (\<not> send_ok E) 1 ''ARP: Failed to send Ethernet frame through PF_PACKET socket'' s) (\<lambda>s.
     Inr (s\<lparr>a_done := a_done s @ [ArpFrame h a]\<rparr>))"

definition write_mac :: "arp_env \<Rightarrow> int \<Rightarrow> hwmac \<Rightarrow> arpd \<Rightarrow> arpd outcome" where
  "write_mac E fd m s =
     bindr (exit_if (fd \<notin> set (a_fds s) \<or> \<not> peer_ok E fd) 1 ''ARP: Failed to send data sequence to local TOUR'' s)
       (\<lambda>s.
     Inr (s\<lparr>a_done := a_done s @ [WriteMac fd m]\<rparr>))"

definition close_fd :: "int \<Rightarrow> arpd \<Rightarrow> arpd" where
  "close_fd fd s = s\<lparr>a_fds := removeAll fd (a_fds s), a_done := a_done s @ [Close fd]\<rparr>"

definition node_index :: "string \<Rightarrow> nat" where
  "node_index addr = index_of (\<lambda>a. a = cstr addr) vm_addr"

text \<open>A request: answered if it is for this node, otherwise only reported.\<close>

definition arp_request :: "arp_env \<Rightarrow> eth_hdr \<Rightarrow> arp \<Rightarrow> arpd \<Rightarrow> arpd outcome" where
  "arp_request E h a s =
     (if cstr (arp_dst_ip a) = cstr (a_ip s)
      then send_arp E (h\<lparr>h_dst_mac := h_src_mac h, h_src_mac := a_mac s\<rparr>)
             (a\<lparr>op := htons 2, arp_dst_mac := a_mac s\<rparr>) s
      else Inr s)"

definition set_cache :: "nat \<Rightarrow> cache_entry \<Rightarrow> arpd \<Rightarrow> arpd" where
  "set_cache i c s = s\<lparr>a_cache := (a_cache s)[i := c]\<rparr>"

definition arp_reply :: "arp_env \<Rightarrow> arp \<Rightarrow> arpd \<Rightarrow> arpd outcome" where
  "arp_reply E a s =
     (let index = node_index (arp_dst_ip a) in
      bindr (undef_if (index \<ge> length (a_cache s)) ''cache'' s) (\<lambda>s.
      let s = set_cache index ((a_cache s ! index)\<lparr>c_ip_addr := cstr (arp_dst_ip a),
                                  c_mac_addr := arp_dst_mac a\<rparr>) s;
          c = a_cache s ! index in
      bindr (write_mac E (c_sockfd c) (c_mac_addr c) s) (\<lambda>s.
      Inr (close_fd (c_sockfd c) s))))"

definition on_packet :: "arp_env \<Rightarrow> (eth_hdr \<times> arp) option \<Rightarrow> arpd \<Rightarrow> arpd outcome" where
  "on_packet E pkt s =
     (case pkt of
        None \<Rightarrow> Inl (Exit 1 ''ARP: Failed to receive Ethernet frame througth PF_PACKET socket'', s)
      | Some (h, a) \<Rightarrow> if ntohs (op a) = 1 then arp_request E h a s else arp_reply E a s)"

section \<open>Local questions\<close>

definition ask_frame :: "arpd \<Rightarrow> string \<Rightarrow> eth_hdr \<times> arp" where
  "ask_frame s ip =
     (\<lparr>h_dst_mac = all_ones, h_src_mac = a_mac s, h_proto = htons ARP_PROTO\<rparr>,
      \<lparr>hard_type = htons 1, prot_type = htons 0x0800, hard_size = 6, prot_size = 4, op = htons 1,
       arp_src_mac = a_mac s, arp_src_ip = cstr (a_ip s), arp_dst_mac = all_ones, arp_dst_ip = cstr ip\<rparr>)"

text \<open>
  A connection: \<open>None\<close> when \<^verbatim>\<open>accept\<close> fails, else its descriptor and what \<^verbatim>\<open>read\<close>
  leaves in \<open>ip\<close> (\<open>None\<close>: it fails). An address that is not the one of a node runs past the
  cache; one without a terminating NUL in its fifteen bytes runs past \<open>ip\<close>.
\<close>

definition on_connect :: "arp_env \<Rightarrow> (int \<times> string option) option \<Rightarrow> arpd \<Rightarrow> arpd outcome" where
  "on_connect E conn s =
     (case conn of
        None \<Rightarrow> Inl (Exit 1 ''ARP: Failed to accept on UNIX domain socket'', s)
      | Some (connfd, got) \<Rightarrow>
          let s = s\<lparr>a_fds := connfd # a_fds s\<rparr> in
          (case got of
             None \<Rightarrow> Inl (Exit 1 ''ARP: Failed to receive data sequence from local TOUR'', s)
           | Some ip \<Rightarrow>
               let index = node_index ip in
               bindr (undef_if (NUL \<notin> set (take 15 ip)) ''ip'' s) (\<lambda>s.
               bindr (undef_if (index \<ge> length (a_cache s)) ''cache'' s) (\<lambda>s.
               let c = a_cache s ! index in
               if cstr (c_ip_addr c) = vm_addr ! index
               then bindr (write_mac E connfd (c_mac_addr c) s) (\<lambda>s. Inr (close_fd connfd s))
               else
                 let s = set_cache index (c\<lparr>c_sockfd := connfd\<rparr>) s
                 in send_arp E (fst (ask_frame s ip)) (snd (ask_frame s ip)) s))))"

section \<open>The daemon\<close>

datatype arp_pass =
    ArpSelectError
  | ArpReady arp_env "(eth_hdr \<times> arp) option option" "(int \<times> string option) option option"

fun arp_step :: "arpd \<Rightarrow> arp_pass \<Rightarrow> arpd outcome" where
  "arp_step s ArpSelectError = Inl (Exit 1 ''ARP: Failed to select from PF_PACKET and UNIX sockets'', s)"
| "arp_step s (ArpReady E pkt conn) =
     bindr (case pkt of None \<Rightarrow> Inr s | Some p \<Rightarrow> on_packet E p s) (\<lambda>s.
     case conn of None \<Rightarrow> Inr s | Some c \<Rightarrow> on_connect E c s)"

text \<open>
  The start: the node and its hardware address come from the second interface (\<open>old_ip\<close> is what
  \<open>ip_addr\<close> holds if its address is not the one of a node); the sockets, with the outcome of
  each call; the cache filled with zeros.
\<close>

definition arp_start ::
  "hwa_info list \<Rightarrow> string \<Rightarrow> int option \<Rightarrow> int option \<Rightarrow> bool \<Rightarrow> bool \<Rightarrow> (stop + arpd)" where
  "arp_start hwa old_ip packetfd unixfd bound listening =
     (case hwa of
        [] \<Rightarrow> Inl (Exit 1 ''ARP: Failed to get interface information for this node'')
      | [h] \<Rightarrow> Inl (Undefined ''hwa_next'')
      | h # h2 # hs \<Rightarrow>
          let i = node_index (dotted (hwa_ip h2)); ip = (if i < 10 then vm_addr ! i else old_ip) in
          (case packetfd of
             None \<Rightarrow> Inl (Exit 1 ''ARP: Failed to open PF_PACKET socket for ICMP echo request'')
           | Some p \<Rightarrow>
              (case unixfd of
                 None \<Rightarrow> Inl (Exit 1 ''ARP: Failed to open socket'')
               | Some u \<Rightarrow>
                   if \<not> bound then Inl (Exit 1 ''ARP: Failed to bind socket'')
                   else if \<not> listening
                   then Inl (Exit 1 ''ARP: Failed to turn UNIX domain socket into listening socket'')
                   else Inr \<lparr>a_ip = ip, a_mac = if_haddr h2,
                          a_cache = replicate 10 \<lparr>c_ip_addr = [], c_mac_addr = replicate 6 0, c_sockfd = 0\<rparr>,
                          a_fds = [0, 1, 2, p, u], a_done = []\<rparr>)))"

end
