(* ===== verification/Tour.thy ===== *)
theory Tour
  imports Arp InetAddr
begin

text \<open>
  \<^verbatim>\<open>Assignment 4/Code/tour.c\<close>: a packet travels along a list of nodes given on the command line
  of the first one. Every node on the way passes it on, asks its ARP daemon for the node before
  it and starts to ping that node; the last node ends the tour with a multicast, to which every
  node answers before it stops.

  The signal handler runs between two passes of the loop, where the process waits in
  \<^verbatim>\<open>select\<close>.
\<close>

section \<open>Data\<close>

definition TOUR_ID :: u16 where "TOUR_ID = 0x2404"

text \<open>
  A packet: the fields of the IP header the program looks at (addresses as their four bytes) and the payload, whose bytes 12 to
  15 are \<open>offset\<close>, 16 to 19 \<open>total\<close> and from byte 20 on fifteen bytes for each node of the
  tour. Bytes 10 and 11 hold two bytes of the address of the string with the multicast port;
  nobody reads them.
\<close>

record route_packet =
  ip_id :: u16
  ip_src :: "u8 list"
  ip_dst :: "u8 list"
  offset :: int
  total :: int
  slots :: "string list"

datatype tour_action =
    RoutePacket route_packet
  | AskArp "u8 list"
  | Multicast string
  | Ping string int

text \<open>
  The globals: \<open>pings\<close> is the used part of \<^verbatim>\<open>ping_addr\<close> and \<^verbatim>\<open>ping_cnt\<close>, \<open>armed\<close> the
  seconds of a pending \<^verbatim>\<open>alarm\<close> (0: none).
\<close>

record tour =
  t_node :: int
  visited :: bool
  t_option :: bool
  last_node :: bool
  pings :: "(string \<times> int) list"
  joined :: bool
  armed :: nat
  t_done :: "tour_action list"

definition ping_cnt0 :: "tour \<Rightarrow> int" where
  "ping_cnt0 s = (case pings s of [] \<Rightarrow> 0 | p # ps \<Rightarrow> snd p)"

text \<open>The outcomes of the system calls of one pass; \<open>arp_says\<close> is what the ARP daemon writes.\<close>

record tour_env =
  join_ok :: bool
  raw_ok :: bool
  mcast_ok :: bool
  areq_socket :: bool
  areq_connect :: bool
  areq_write :: bool
  arp_says :: "hwmac option"

definition act :: "tour_action \<Rightarrow> tour \<Rightarrow> tour" where
  "act a s = s\<lparr>t_done := t_done s @ [a]\<rparr>"

section \<open>Asking ARP\<close>

definition areq :: "tour_env \<Rightarrow> u8 list \<Rightarrow> tour \<Rightarrow> tour outcome" where
  "areq E ip s =
     bindr (exit_if (\<not> areq_socket E) 1 ''SERVER: Failed to open socket'' s) (\<lambda>s.
     bindr (exit_if (\<not> areq_connect E) 1 ''TOUR: Failed to connect to ARP well-known address'' s) (\<lambda>s.
     bindr (exit_if (\<not> areq_write E) 1 ''TOUR: Failed to send data sequence to local ARP'' s) (\<lambda>s.
     bindr (exit_if (arp_says E = None) 1 ''TOUR: Failed to receive data sequence from local ARP'' s) (\<lambda>s.
     Inr (act (AskArp ip) s)))))"

section \<open>The alarm\<close>

definition end_text :: "int \<Rightarrow> string" where
  "end_text node = ''<<<<<This is node VM'' @ show_int node
     @ ''. Tour has ended. Group members please identify yourselves>>>>>''"

definition member_text :: "int \<Rightarrow> string" where
  "member_text node = ''<<<<<Node VM'' @ show_int node @ '': I am a member of the group>>>>>''"

definition multicast :: "tour_env \<Rightarrow> string \<Rightarrow> tour \<Rightarrow> tour outcome" where
  "multicast E text s =
     bindr (exit_if (\<not> mcast_ok E) 1 ''TOUR: Failed to send multicasting'' s) (\<lambda>s.
     Inr (act (Multicast text) s))"

definition sig_alrm :: "tour_env \<Rightarrow> tour \<Rightarrow> tour outcome" where
  "sig_alrm E s =
     (if \<not> t_option s
      then if ping_cnt0 s = 5 \<and> last_node s
           then multicast E (end_text (t_node s)) s
           else Inr (s\<lparr>t_done := t_done s @ map (\<lambda>(a, n). Ping a n) (pings s),
                       pings := map (\<lambda>(a, n). (a, n + 1)) (pings s), armed := 1\<rparr>)
      else Inl (Exit 0 ''The TOUR process has all finished. GOODBYE!'', s))"

section \<open>Packets of the tour\<close>

definition join_group :: "tour_env \<Rightarrow> tour \<Rightarrow> tour outcome" where
  "join_group E s =
     bindr (exit_if (\<not> join_ok E) 1
       ''TOUR: Failed to join multicasting group or disable the loopback feature or set TLL to one'' s) (\<lambda>s.
     Inr (s\<lparr>joined := True\<rparr>))"

text \<open>\<^verbatim>\<open>vm_addr[node-1]\<close>\<close>

definition with_node :: "tour \<Rightarrow> (string \<Rightarrow> tour outcome) \<Rightarrow> tour outcome" where
  "with_node s f = (case vm_at (t_node s) of None \<Rightarrow> Inl (Undefined ''vm_addr'', s) | Some a \<Rightarrow> f a)"

text \<open>\<^verbatim>\<open>inet_pton(AF_INET, text, ...)!=1\<close>; all four bytes of the address are stored.\<close>

definition set_addr :: "string \<Rightarrow> string \<Rightarrow> tour \<Rightarrow> (stop \<times> tour) + u8 list" where
  "set_addr text msg s =
     (case inet_pton AF_INET text (replicate 4 0) of
        Inl e \<Rightarrow> Inl (e, s)
      | Inr (r, a) \<Rightarrow> if r \<noteq> 1 then Inl (Exit 1 msg, s) else Inr a)"

definition header_failed :: string where
  "header_failed = ''TOUR: Failed to set source or destination IP address in IP header''"

text \<open>The header is filled in with this node's address and that of the next node, and the packet sent.\<close>

definition send_route :: "tour_env \<Rightarrow> route_packet \<Rightarrow> string \<Rightarrow> string \<Rightarrow> tour \<Rightarrow> tour outcome" where
  "send_route E p me dst s =
     bindr (set_addr me header_failed s) (\<lambda>src.
     bindr (set_addr dst header_failed s) (\<lambda>d.
     bindr (exit_if (\<not> raw_ok E) 1 ''TOUR: Failed to send out source route packet on raw socket'' s) (\<lambda>s.
     Inr (act (RoutePacket (p\<lparr>ip_src := src, ip_dst := d\<rparr>)) s))))"

text \<open>
  The packet goes on: \<^verbatim>\<open>offset++\<close>, and the fifteen bytes at \<^verbatim>\<open>payload+offset*15+5\<close> are
  entry \<^verbatim>\<open>offset-1\<close> of the tour.
\<close>

definition forward :: "tour_env \<Rightarrow> route_packet \<Rightarrow> tour \<Rightarrow> tour outcome" where
  "forward E p s =
     (if offset p = total p then Inr (s\<lparr>last_node := True\<rparr>)
      else
        let off = offset p + 1 in
        bindr (undef_if (\<not> (1 \<le> off \<and> nat (off - 1) < length (slots p))) ''payload'' s) (\<lambda>s.
        with_node s (\<lambda>me.
        send_route E (p\<lparr>ip_id := htons TOUR_ID, offset := off\<rparr>) me (slots p ! nat (off - 1)) s)))"

text \<open>The node before this one is pinged from now on, if it is not already.\<close>

definition start_ping :: "tour_env \<Rightarrow> string \<Rightarrow> tour \<Rightarrow> tour outcome" where
  "start_ping E src s =
     (if \<exists>p \<in> set (pings s). fst p = src then Inr s
      else
        bindr (undef_if (length (pings s) \<ge> 10) ''ping_addr'' s) (\<lambda>s.
        sig_alrm E (s\<lparr>pings := pings s @ [(src, 0)]\<rparr>)))"

text \<open>
  A packet on the raw socket (\<open>None\<close>: \<^verbatim>\<open>recvfrom\<close> fails). The buffer for the printed source
  address has fifteen bytes, one too few for the longest address.
\<close>

definition on_route :: "tour_env \<Rightarrow> route_packet option \<Rightarrow> tour \<Rightarrow> tour outcome" where
  "on_route E pkt s =
     (case pkt of
        None \<Rightarrow> Inl (Exit 1 ''ODR: Failed to receive Ethernet frame througth interface socket'', s)
      | Some p \<Rightarrow>
          if ntohs (ip_id p) \<noteq> TOUR_ID then Inr s
          else
            (case inet_ntop AF_INET (ip_src p) 15 of
               Inl e \<Rightarrow> Inl (e, s)
             | Inr None \<Rightarrow>
                 Inl (Exit 1 ''TOUR: Faile to convert source IP address to presentation format from IP header'', s)
             | Inr (Some src_ip) \<Rightarrow>
                 bindr (if visited s then Inr s else join_group E (s\<lparr>visited := True\<rparr>)) (\<lambda>s.
                 bindr (forward E p s) (\<lambda>s.
                 bindr (set_addr src_ip ''TOUR: Failed to set destination IP address for local ARP'' s) (\<lambda>a.
                 bindr (areq E a s) (\<lambda>s.
                 start_ping E src_ip s))))))"

section \<open>Multicasts\<close>

definition on_multicast :: "tour_env \<Rightarrow> string option \<Rightarrow> tour \<Rightarrow> tour outcome" where
  "on_multicast E msg s =
     (case msg of
        None \<Rightarrow> Inl (Exit 1 ''recvfrom error'', s)
      | Some text \<Rightarrow>
          if t_option s then Inr s
          else bindr (multicast E (member_text (t_node s)) (s\<lparr>t_option := True\<rparr>)) (\<lambda>s. Inr (s\<lparr>armed := 5\<rparr>)))"

section \<open>The process\<close>

datatype tour_event =
    TourEintr
  | TourSelectError
  | TourReady tour_env "route_packet option option" "string option option"
  | TourAlarm tour_env

fun tour_step :: "tour \<Rightarrow> tour_event \<Rightarrow> tour outcome" where
  "tour_step s TourEintr = Inr s"
| "tour_step s TourSelectError = Inl (Exit 1 ''TOUR: Failed to select from sockets'', s)"
| "tour_step s (TourReady E pkt msg) =
     bindr (case pkt of None \<Rightarrow> Inr s | Some p \<Rightarrow> on_route E p s) (\<lambda>s.
     case msg of None \<Rightarrow> Inr s | Some m \<Rightarrow> on_multicast E m s)"
| "tour_step s (TourAlarm E) = (if armed s = 0 then Inr s else sig_alrm E (s\<lparr>armed := 0\<rparr>))"

text \<open>The sockets \<^verbatim>\<open>main\<close> opens, with the message of each step that can fail.\<close>

definition tour_sockets :: "string list" where
  "tour_sockets =
     [''TOUR: Failed to open raw socket for source route'',
      ''TOUR: Failed to set IP_HDRINCL option for route raw socket'',
      ''TOUR: Failed to open raw socket for ICMP echo reply'',
      ''TOUR: Failed to open PF_PACKET socket for ICMP echo request'',
      ''TOUR: Failed to open UDP socket for sending multicasting'',
      ''TOUR: Failed to open UDP socket for receiving multicasting'',
      ''TOUR: Failed to set SO_REUSEADDR option for receiving UDP socket'',
      ''TOUR: Failed to bind receiving UDP socket'']"

definition open_tour_sockets :: "bool list \<Rightarrow> tour \<Rightarrow> tour outcome" where
  "open_tour_sockets oks s = run_list (\<lambda>(ok, msg) s. exit_if (\<not> ok) 1 msg s) (zip oks tour_sockets) s"

text \<open>
  An argument names a node: of three characters the third is its number, every other argument
  is node 10.
\<close>

definition slot_of :: "string \<Rightarrow> tour \<Rightarrow> (stop \<times> tour) + string" where
  "slot_of arg s =
     (if length arg = 3
      then (case vm_at (atoi (drop 2 arg)) of None \<Rightarrow> Inl (Undefined ''vm_addr'', s) | Some a \<Rightarrow> Inr a)
      else Inr (vm_addr ! 9))"

fun slots_of :: "string list \<Rightarrow> tour \<Rightarrow> (stop \<times> tour) + string list" where
  "slots_of [] s = Inr []"
| "slots_of (a # as) s = bindr (slot_of a s) (\<lambda>x. bindr (slots_of as s) (\<lambda>xs. Inr (x # xs)))"

text \<open>The first node sends the packet to the first node of its arguments.\<close>

definition begin_tour :: "tour_env \<Rightarrow> string list \<Rightarrow> tour \<Rightarrow> tour outcome" where
  "begin_tour E args s =
     (if args = [] then Inr s
      else
        bindr (join_group E (s\<lparr>visited := True\<rparr>)) (\<lambda>s.
        bindr (undef_if (length args \<ge> 20) ''source_route'' s) (\<lambda>s.
        with_node s (\<lambda>me.
        bindr (slots_of args s) (\<lambda>xs.
        send_route E \<lparr>ip_id = htons TOUR_ID, ip_src = replicate 4 0, ip_dst = replicate 4 0, offset = 2,
          total = int (length args) + 1, slots = me # xs\<rparr> me (hd xs) s)))))"

definition tour_main :: "hwa_info list \<Rightarrow> bool list \<Rightarrow> tour_env \<Rightarrow> string list \<Rightarrow> tour outcome" where
  "tour_main hwa oks E args =
     (let s = \<lparr>t_node = 0, visited = False, t_option = False, last_node = False, pings = [], joined = False,
               armed = 0, t_done = []\<rparr> in
      case find_node ''TOUR: Failed to get interface information for this node'' hwa 0 of
        Inl e \<Rightarrow> Inl (e, s)
      | Inr n \<Rightarrow>
          bindr (open_tour_sockets oks (s\<lparr>t_node := n\<rparr>)) (\<lambda>s.
          begin_tour E args s))"

end
