(* ===== verification/ArpProps.thy ===== *)
theory ArpProps
  imports Arp
begin

text \<open>
  Properties of the ARP daemons: a question is answered over the wire and from the cache, no
  cache ever holds a wrong address, and how a second reply or a second question goes wrong.
\<close>

section \<open>What the handlers do\<close>

lemma send_arp_Inr: "send_arp E h a s = Inr t \<longleftrightarrow> send_ok E \<and> t = s\<lparr>a_done := a_done s @ [ArpFrame h a]\<rparr>"
  by (auto simp: send_arp_def bind_iff)

lemma write_mac_Inr:
  "write_mac E fd m s = Inr t \<longleftrightarrow> fd \<in> set (a_fds s) \<and> peer_ok E fd \<and> t = s\<lparr>a_done := a_done s @ [WriteMac fd m]\<rparr>"
  by (auto simp: write_mac_def bind_iff)

lemma close_fd_simps [simp]:
  "a_ip (close_fd fd s) = a_ip s" "a_mac (close_fd fd s) = a_mac s" "a_cache (close_fd fd s) = a_cache s"
  "a_done (close_fd fd s) = a_done s @ [Close fd]" "a_fds (close_fd fd s) = removeAll fd (a_fds s)"
  by (simp_all add: close_fd_def)

lemma set_cache_simps [simp]:
  "a_ip (set_cache i c s) = a_ip s" "a_mac (set_cache i c s) = a_mac s"
  "a_cache (set_cache i c s) = (a_cache s)[i := c]" "a_done (set_cache i c s) = a_done s"
  "a_fds (set_cache i c s) = a_fds s"
  by (simp_all add: set_cache_def)

lemma vm_addr_distinct: "length vm_addr = 10" "distinct vm_addr"
  by (simp_all add: vm_addr_def)

lemma cstr_vm: "k < 10 \<Longrightarrow> cstr (vm_addr ! k) = vm_addr ! k \<and> vm_addr ! k \<noteq> []"
  using vm_addr_words [of "vm_addr ! k"] by (auto simp: vm_addr_distinct word_cstr)

lemma vm_not_empty: "k < 10 \<Longrightarrow> cstr [] \<noteq> vm_addr ! k"
proof -
  have "cstr [] = []" by (simp add: cstr_def)
  then show "k < 10 \<Longrightarrow> cstr [] \<noteq> vm_addr ! k" using cstr_vm [of k] by metis
qed

lemma node_index_vm: "k < 10 \<Longrightarrow> cstr addr = vm_addr ! k \<Longrightarrow> node_index addr = k"
  using index_of_distinct [OF vm_addr_distinct(2), of k] by (simp add: node_index_def vm_addr_distinct)

lemma node_index_known: "node_index addr < 10 \<Longrightarrow> cstr addr = vm_addr ! node_index addr"
  using index_of_nth [of "\<lambda>a. a = cstr addr" vm_addr] by (simp add: node_index_def vm_addr_distinct)

lemma arp_reply_Inr:
  assumes "k = node_index (arp_dst_ip a)" and "fd = c_sockfd (a_cache s ! k)"
  shows "arp_reply E a s = Inr t \<longleftrightarrow> k < length (a_cache s) \<and> fd \<in> set (a_fds s) \<and> peer_ok E fd
    \<and> t = close_fd fd ((set_cache k ((a_cache s ! k)\<lparr>c_ip_addr := cstr (arp_dst_ip a), c_mac_addr := arp_dst_mac a\<rparr>) s)
        \<lparr>a_done := a_done s @ [WriteMac fd (arp_dst_mac a)]\<rparr>)"
  using assms by (auto simp: arp_reply_def Let_def bind_iff write_mac_Inr)

lemma on_packet_reply: "ntohs (op a) \<noteq> 1 \<Longrightarrow> on_packet E (Some (h, a)) s = arp_reply E a s"
  by (simp add: on_packet_def)

section \<open>No wrong address is ever cached\<close>

text \<open>
  The network of the ten daemons: node \<open>k\<close> has the hardware address \<open>M k\<close>; a daemon receives
  packets that one of the daemons has sent, at any time and any number of times.
\<close>

fun arp_heard :: "(nat \<Rightarrow> arpd) \<Rightarrow> arp_pass \<Rightarrow> bool" where
  "arp_heard N ArpSelectError \<longleftrightarrow> True"
| "arp_heard N (ArpReady E pkt conn) \<longleftrightarrow>
     (case pkt of Some (Some (h, a)) \<Rightarrow> \<exists>y < 10. ArpFrame h a \<in> set (a_done (N y)) | _ \<Rightarrow> True)"

definition fresh_arpd :: "string \<Rightarrow> hwmac \<Rightarrow> int list \<Rightarrow> arpd" where
  "fresh_arpd ip m fds = \<lparr>a_ip = ip, a_mac = m,
     a_cache = replicate 10 \<lparr>c_ip_addr = [], c_mac_addr = replicate 6 0, c_sockfd = 0\<rparr>,
     a_fds = fds, a_done = []\<rparr>"

abbreviation arp_reach :: "(nat \<Rightarrow> hwmac) \<Rightarrow> (nat \<Rightarrow> int list) \<Rightarrow> (nat \<Rightarrow> arpd) \<Rightarrow> bool" where
  "arp_reach M fds \<equiv> reaches (\<lambda>x. x < 10) (\<lambda>N x. arp_heard N) arp_step
     (\<lambda>x. fresh_arpd (vm_addr ! x) (M x) (fds x))"

lemma arp_start_fresh:
  "arp_start (h # h2 # hs) old (Some p) (Some u) True True = Inr (fresh_arpd
     (if node_index (dotted (hwa_ip h2)) < 10 then vm_addr ! node_index (dotted (hwa_ip h2)) else old)
     (if_haddr h2) [0, 1, 2, p, u])"
  by (simp add: arp_start_def fresh_arpd_def Let_def)

definition true_frame :: "(nat \<Rightarrow> hwmac) \<Rightarrow> arp \<Rightarrow> bool" where
  "true_frame M a \<longleftrightarrow> ntohs (op a) = 1
     \<or> (\<exists>k < 10. cstr (arp_dst_ip a) = vm_addr ! k \<and> arp_dst_mac a = M k)"

definition true_entry :: "(nat \<Rightarrow> hwmac) \<Rightarrow> nat \<Rightarrow> cache_entry \<Rightarrow> bool" where
  "true_entry M k c \<longleftrightarrow> c_ip_addr c = [] \<or> c_ip_addr c = vm_addr ! k \<and> c_mac_addr c = M k"

definition arp_true :: "(nat \<Rightarrow> hwmac) \<Rightarrow> nat \<Rightarrow> arpd \<Rightarrow> bool" where
  "arp_true M x s \<longleftrightarrow> a_ip s = vm_addr ! x \<and> a_mac s = M x \<and> length (a_cache s) = 10
     \<and> (\<forall>k < 10. true_entry M k (a_cache s ! k))
     \<and> (\<forall>h a. ArpFrame h a \<in> set (a_done s) \<longrightarrow> true_frame M a)"

lemma true_set_cache:
  assumes "arp_true M x s" and "k < 10" and "true_entry M k c"
  shows "arp_true M x (set_cache k c s)"
proof -
  have "true_entry M j ((a_cache s)[k := c] ! j)" if "j < 10" for j
    using assms that by (cases "j = k") (simp_all add: arp_true_def)
  with assms(1) show ?thesis by (simp add: arp_true_def)
qed

lemma true_done:
  "arp_true M x s \<Longrightarrow> arp_true M x (s\<lparr>a_fds := f\<rparr>)"
  "arp_true M x s \<Longrightarrow> arp_true M x (s\<lparr>a_done := a_done s @ [WriteMac fd m]\<rparr>)"
  "arp_true M x s \<Longrightarrow> arp_true M x (close_fd fd s)"
  "arp_true M x s \<Longrightarrow> true_frame M a \<Longrightarrow> arp_true M x (s\<lparr>a_done := a_done s @ [ArpFrame h a]\<rparr>)"
  by (auto simp: arp_true_def)

lemma true_more:
  assumes "arp_true M x s" and "a_ip t = a_ip s" and "a_mac t = a_mac s" and "a_cache t = a_cache s"
    and "a_done t = a_done s @ out" and "\<And>h a. ArpFrame h a \<in> set out \<Longrightarrow> true_frame M a"
  shows "arp_true M x t"
  using assms by (auto simp: arp_true_def)

lemma on_packet_true:
  assumes "arp_true M x s" and "x < 10" and "true_frame M a" and "on_packet E (Some (h, a)) s = Inr t"
  shows "arp_true M x t"
proof (cases "ntohs (op a) = 1")
  case True
  show ?thesis
  proof (cases "cstr (arp_dst_ip a) = cstr (a_ip s)")
    case here: True
    then have "cstr (arp_dst_ip a) = vm_addr ! x" using assms(1,2) by (simp add: arp_true_def cstr_vm)
    then have "true_frame M (a\<lparr>op := htons 2, arp_dst_mac := a_mac s\<rparr>)"
      using assms(1,2) by (auto simp: true_frame_def arp_true_def)
    then show ?thesis using assms(1,4) True here
      by (auto simp: on_packet_def arp_request_def send_arp_Inr intro: true_done)
  next
    case False
    then show ?thesis using assms(1,4) True by (simp add: on_packet_def arp_request_def)
  qed
next
  case False
  with assms(3) obtain k where k: "k < 10" "cstr (arp_dst_ip a) = vm_addr ! k" "arp_dst_mac a = M k"
    by (auto simp: true_frame_def)
  let ?c = "(a_cache s ! k)\<lparr>c_ip_addr := vm_addr ! k, c_mac_addr := M k\<rparr>"
  have "arp_true M x (set_cache k ?c s)"
    using assms(1) k(1) by (rule true_set_cache) (simp add: true_entry_def)
  then have *: ?thesis if "t = close_fd fd ((set_cache k ?c s)\<lparr>a_done := a_done s @ [WriteMac fd m]\<rparr>)" for fd m
    by (rule true_more [where out = "[WriteMac fd m, Close fd]"]) (use that in auto)
  have "arp_reply E a s = Inr t" using assms(4) False by (simp add: on_packet_def)
  then show ?thesis using arp_reply_Inr [OF refl refl, of E a s t] k * by (simp add: node_index_vm)
qed

lemma on_connect_true:
  assumes "arp_true M x s" and "on_connect E conn s = Inr t"
  shows "arp_true M x t"
proof -
  obtain fd ip where conn: "conn = Some (fd, Some ip)"
    using assms(2) by (auto simp: on_connect_def Let_def split: option.splits)
  let ?s = "s\<lparr>a_fds := fd # a_fds s\<rparr>" and ?k = "node_index ip"
  let ?c = "a_cache s ! ?k"
  have s: "arp_true M x ?s" using assms(1) by (rule true_done)
  have k: "?k < 10" using assms conn by (auto simp: on_connect_def Let_def bind_iff arp_true_def)
  have "arp_true M x (set_cache ?k (?c\<lparr>c_sockfd := fd\<rparr>) ?s)"
    using s k by (rule true_set_cache) (use s k in \<open>auto simp: arp_true_def true_entry_def\<close>)
  then have waits: ?thesis if "t = (set_cache ?k (?c\<lparr>c_sockfd := fd\<rparr>) ?s)\<lparr>a_done := a_done s @ [ArpFrame h a]\<rparr>"
      "true_frame M a" for h a
    by (rule true_more [where out = "[ArpFrame h a]"]) (use that in auto)
  have known: ?thesis if "t = close_fd fd (?s\<lparr>a_done := a_done s @ [WriteMac fd m]\<rparr>)" for m
    by (rule true_more [OF s, where out = "[WriteMac fd m, Close fd]"]) (use that in auto)
  have "true_frame M (snd (ask_frame u ip))" for u by (simp add: true_frame_def ask_frame_def)
  then show ?thesis using assms(2) conn waits known
    by (auto simp: on_connect_def Let_def bind_iff send_arp_Inr write_mac_Inr split: if_splits)
qed

lemma arp_step_true:
  assumes N: "\<And>y. y < 10 \<Longrightarrow> arp_true M y (N y)" and "x < 10" and "arp_heard N p" and "arp_step (N x) p = Inr t"
  shows "arp_true M x t"
proof (cases p)
  case ArpSelectError
  then show ?thesis using assms(4) by simp
next
  case (ArpReady E pkt conn)
  with assms(4) obtain u where u: "(case pkt of None \<Rightarrow> Inr (N x) | Some p \<Rightarrow> on_packet E p (N x)) = Inr u"
    and t: "(case conn of None \<Rightarrow> Inr u | Some c \<Rightarrow> on_connect E c u) = Inr t"
    by (auto simp: bind_iff)
  have "arp_true M x u"
  proof (cases pkt)
    case None
    then show ?thesis using u N assms(2) by auto
  next
    case (Some q)
    then obtain h a where q: "q = Some (h, a)" using u by (cases q) (auto simp: on_packet_def)
    then obtain y where "y < 10" "ArpFrame h a \<in> set (a_done (N y))"
      using assms(3) ArpReady Some by auto
    then have "true_frame M a" using N by (auto simp: arp_true_def)
    then show ?thesis using on_packet_true [of M x "N x"] N assms(2) u Some q by auto
  qed
  then show ?thesis using t on_connect_true by (auto split: option.splits)
qed

interpretation arp_net: network "\<lambda>x. x < 10" "\<lambda>N x. arp_heard N" arp_step
  "\<lambda>x. fresh_arpd (vm_addr ! x) (M x) (fds x)" "arp_true M" for M fds
  by unfold_locales (simp add: arp_true_def fresh_arpd_def true_entry_def, rule arp_step_true)

section \<open>A question and its answer\<close>

definition arp_ok :: "arpd \<Rightarrow> bool" where
  "arp_ok s \<longleftrightarrow> length (a_cache s) = 10"

definition good_env :: arp_env where
  "good_env = \<lparr>send_ok = True, peer_ok = (\<lambda>_. True)\<rparr>"

lemma good_env_simps [simp]: "send_ok good_env" "peer_ok good_env fd"
  by (simp_all add: good_env_def)

lemma resolution:
  assumes "arp_ok A" and "k < 10" and "cstr ip = vm_addr ! k" and "NUL \<in> set (take 15 ip)"
    and "c_ip_addr (a_cache A ! k) = []" and "a_ip B = vm_addr ! k"
  shows "\<exists>A1 h a B1 h' a' A2.
    on_connect good_env (Some (fd, Some ip)) A = Inr A1 \<and> a_done A1 = a_done A @ [ArpFrame h a]
    \<and> h_dst_mac h = all_ones
    \<and> on_packet good_env (Some (h, a)) B = Inr B1 \<and> a_done B1 = a_done B @ [ArpFrame h' a']
    \<and> h_dst_mac h' = a_mac A
    \<and> on_packet good_env (Some (h', a')) A1 = Inr A2
    \<and> a_done A2 = a_done A1 @ [WriteMac fd (a_mac B), Close fd]
    \<and> c_ip_addr (a_cache A2 ! k) = vm_addr ! k \<and> c_mac_addr (a_cache A2 ! k) = a_mac B"
proof -
  have i: "node_index ip = k" by (rule node_index_vm [OF assms(2,3)])
  have len: "length (a_cache A) = 10" using assms(1) by (simp add: arp_ok_def)
  have ne: "cstr [] \<noteq> vm_addr ! k" by (rule vm_not_empty [OF assms(2)])
  let ?A0 = "set_cache k ((a_cache A ! k)\<lparr>c_sockfd := fd\<rparr>) (A\<lparr>a_fds := fd # a_fds A\<rparr>)"
  let ?h = "fst (ask_frame ?A0 ip)" and ?a = "snd (ask_frame ?A0 ip)"
  let ?A1 = "?A0\<lparr>a_done := a_done A @ [ArpFrame ?h ?a]\<rparr>"
  have q: "on_connect good_env (Some (fd, Some ip)) A = Inr ?A1"
    using assms(2,4,5) i len ne by (simp add: on_connect_def Let_def send_arp_def)
  let ?h' = "?h\<lparr>h_dst_mac := h_src_mac ?h, h_src_mac := a_mac B\<rparr>"
  let ?a' = "?a\<lparr>op := htons 2, arp_dst_mac := a_mac B\<rparr>"
  have k: "cstr (arp_dst_ip ?a) = vm_addr ! k" using assms(2,3) cstr_vm by (simp add: ask_frame_def)
  have r: "on_packet good_env (Some (?h, ?a)) B = Inr (B\<lparr>a_done := a_done B @ [ArpFrame ?h' ?a']\<rparr>)"
    using k assms(2,6) by (simp add: on_packet_def ask_frame_def arp_request_def send_arp_def cstr_vm)
  have f: "node_index (arp_dst_ip ?a') = k" using node_index_vm [OF assms(2)] k by simp
  let ?A2 = "close_fd fd ((set_cache k ((a_cache ?A1 ! k)\<lparr>c_ip_addr := cstr (arp_dst_ip ?a'),
      c_mac_addr := arp_dst_mac ?a'\<rparr>) ?A1)\<lparr>a_done := a_done ?A1 @ [WriteMac fd (arp_dst_mac ?a')]\<rparr>)"
  have rep: "arp_reply good_env ?a' ?A1 = Inr ?A2"
    using len assms(2) by (subst arp_reply_Inr [OF f [symmetric] refl]) simp
  have "ntohs (op ?a') \<noteq> 1" by simp
  then have s: "on_packet good_env (Some (?h', ?a')) ?A1 = Inr ?A2"
    by (rule trans [OF on_packet_reply rep])
  show ?thesis
    by (rule exI [of _ ?A1], rule exI [of _ ?h], rule exI [of _ ?a],
        rule exI [of _ "B\<lparr>a_done := a_done B @ [ArpFrame ?h' ?a']\<rparr>"],
        rule exI [of _ ?h'], rule exI [of _ ?a'], rule exI [of _ ?A2])
      (intro conjI q r s, use k len assms(2) in \<open>simp_all add: ask_frame_def cstr_vm\<close>)
qed


definition example_arpd :: "nat \<Rightarrow> arpd" where
  "example_arpd x = fresh_arpd (vm_addr ! x) [0, 12, 41, 0, 0, of_nat x] [0, 1, 2, 3, 4]"

lemma example_arpd_simps:
  "arp_ok (example_arpd x)" "k < 10 \<Longrightarrow> c_ip_addr (a_cache (example_arpd x) ! k) = []"
  "a_ip (example_arpd x) = vm_addr ! x" "a_mac (example_arpd x) = [0, 12, 41, 0, 0, of_nat x]"
  "a_done (example_arpd x) = []"
  by (simp_all add: example_arpd_def fresh_arpd_def arp_ok_def)

definition example_ip :: string where
  "example_ip = vm_addr ! 1 @ [NUL]"

lemma example_ip_facts: "cstr example_ip = vm_addr ! 1" "NUL \<in> set (take 15 example_ip)"
  by (simp_all add: example_ip_def vm_addr_def cstr_def)


text \<open>
  C39. An answer that comes twice ends the daemon: the first one closes the connection whose
  descriptor stays in the cache, so for the second one \<^verbatim>\<open>write\<close> fails and the process exits.
\<close>
theorem second_reply_ends_daemon:
  assumes "arp_reply E a s = Inr t"
  shows "\<exists>u. arp_reply E' a t = Inl (Exit 1 ''ARP: Failed to send data sequence to local TOUR'', u)"
proof -
  let ?k = "node_index (arp_dst_ip a)"
  from assms arp_reply_Inr [OF refl refl, of E a s t] show ?thesis
    by (auto simp: arp_reply_def Let_def write_mac_def)
qed

text \<open>
  Of two processes that ask for the same node before it has answered, the first one waits
  for ever: the second question overwrites its descriptor, and the answer goes to the second one
  only.
\<close>
theorem earlier_question_lost:
  assumes "arp_ok s" and "k < 10" and "cstr ip = vm_addr ! k" and "c_ip_addr (a_cache s ! k) = []"
    and "on_connect E1 (Some (fd1, Some ip)) s = Inr s1" and "on_connect E2 (Some (fd2, Some ip)) s1 = Inr s2"
    and "fd1 \<noteq> fd2" and "cstr (arp_dst_ip a) = vm_addr ! k" and "arp_reply E3 a s2 = Inr s3"
  shows "a_done s3 = a_done s2 @ [WriteMac fd2 (arp_dst_mac a), Close fd2] \<and> c_sockfd (a_cache s3 ! k) = fd2
    \<and> fd1 \<in> set (a_fds s3)"
proof -
  have i: "node_index ip = k" "node_index (arp_dst_ip a) = k" using node_index_vm [OF assms(2)] assms(3,8) by auto
  have ne: "cstr [] \<noteq> vm_addr ! k" by (rule vm_not_empty [OF assms(2)])
  have s1: "a_cache s1 = (a_cache s)[k := (a_cache s ! k)\<lparr>c_sockfd := fd1\<rparr>] \<and> a_fds s1 = fd1 # a_fds s"
    using assms(2,4,5) i ne by (auto simp: on_connect_def Let_def bind_iff send_arp_Inr)
  then have c1: "c_ip_addr (a_cache s1 ! k) = []" "length (a_cache s1) = 10"
    using assms(1,2,4) by (simp_all add: arp_ok_def)
  then have s2: "a_cache s2 = (a_cache s1)[k := (a_cache s1 ! k)\<lparr>c_sockfd := fd2\<rparr>] \<and> a_fds s2 = fd2 # a_fds s1"
    using assms(2,6) i ne by (auto simp: on_connect_def Let_def bind_iff send_arp_Inr)
  then have "c_sockfd (a_cache s2 ! k) = fd2" "length (a_cache s2) = 10" using c1 assms(2) by simp_all
  then show ?thesis using arp_reply_Inr [OF refl refl, of E3 a s2 s3] assms(2,7,9) i s1 s2 by auto
qed

text \<open>
  C5. No daemon ever believes a wrong address: however the packets of the ten daemons are
  delivered and whatever local processes ask, a filled entry of a cache holds the name and the
  hardware address of the node it stands for.
\<close>
theorem caches_truthful:
  assumes "arp_reach M fds N" and "x < 10" and "k < 10" and "c_ip_addr (a_cache (N x) ! k) \<noteq> []"
  shows "c_ip_addr (a_cache (N x) ! k) = vm_addr ! k \<and> c_mac_addr (a_cache (N x) ! k) = M k"
  using arp_net.past.reaches_inv [OF assms(1,2)] assms(3,4) by (auto simp: arp_true_def true_entry_def)

theorem caches_truthful_witness:
  "\<exists>N. arp_reach (\<lambda>x. [0, 12, 41, 0, 0, of_nat x]) (\<lambda>_. [0, 1, 2, 3, 4]) N
    \<and> c_ip_addr (a_cache (N 0) ! 1) = vm_addr ! 1 \<and> c_mac_addr (a_cache (N 0) ! 1) = [0, 12, 41, 0, 0, 1]"
proof -
  let ?reach = "arp_reach (\<lambda>x. [0, 12, 41, 0, 0, of_nat x]) (\<lambda>_. [0, 1, 2, 3, 4])"
  obtain A1 h a B1 h' a' A2 where
    q: "on_connect good_env (Some (7, Some example_ip)) (example_arpd 0) = Inr A1" "a_done A1 = [ArpFrame h a]"
    and r: "on_packet good_env (Some (h, a)) (example_arpd 1) = Inr B1" "a_done B1 = [ArpFrame h' a']"
    and s: "on_packet good_env (Some (h', a')) A1 = Inr A2" "c_ip_addr (a_cache A2 ! 1) = vm_addr ! 1"
    using resolution [of "example_arpd 0" 1 example_ip "example_arpd 1" 7] by (auto simp: example_arpd_simps example_ip_facts)
  have r0: "?reach example_arpd" using reaches_start by (simp add: example_arpd_def [abs_def])
  have r1: "?reach (example_arpd(0 := A1))"
    by (rule reaches_step [OF r0, of _ "ArpReady good_env None (Some (Some (7, Some example_ip)))"]) (simp_all add: q)
  have r2: "?reach (example_arpd(0 := A1, 1 := B1))"
    by (rule reaches_step [OF r1, of _ "ArpReady good_env (Some (Some (h, a))) None"])
      (use q r in \<open>auto intro!: exI [of _ 0]\<close>)
  have r3: "?reach (example_arpd(0 := A1, 1 := B1, 0 := A2))"
    by (rule reaches_step [OF r2, of _ "ArpReady good_env (Some (Some (h', a'))) None"])
      (use r s in \<open>auto intro!: exI [of _ 1]\<close>)
  have "vm_addr ! 1 \<noteq> []" using cstr_vm by simp
  with caches_truthful [OF r3, of 0 1] r3 s show ?thesis by auto
qed

text \<open>Two questions of node 1 for node 2, then the answer.\<close>

definition example_answer :: arp where
  "example_answer = \<lparr>hard_type = htons 1, prot_type = htons 0x0800, hard_size = 6, prot_size = 4, op = htons 2,
     arp_src_mac = [], arp_src_ip = vm_addr ! 0, arp_dst_mac = [0, 12, 41, 0, 0, 1], arp_dst_ip = vm_addr ! 1\<rparr>"

lemma example_asked:
  assumes "arp_ok s" and "c_ip_addr (a_cache s ! 1) = []"
  shows "\<exists>t. on_connect good_env (Some (fd, Some example_ip)) s = Inr t \<and> arp_ok t
    \<and> c_ip_addr (a_cache t ! 1) = [] \<and> c_sockfd (a_cache t ! 1) = fd \<and> fd \<in> set (a_fds t)"
proof -
  have i: "node_index example_ip = 1" by (rule node_index_vm) (simp_all add: example_ip_facts)
  have "cstr [] \<noteq> vm_addr ! 1" by (rule vm_not_empty) simp
  then show ?thesis using assms i example_ip_facts
    by (simp add: on_connect_def Let_def send_arp_def arp_ok_def)
qed

lemma example_replied:
  assumes "arp_ok s" and "c_sockfd (a_cache s ! 1) \<in> set (a_fds s)"
  shows "\<exists>t. arp_reply good_env example_answer s = Inr t"
proof -
  have i: "1 = node_index (arp_dst_ip example_answer)"
    by (rule node_index_vm [symmetric]) (simp_all add: example_answer_def cstr_vm)
  show ?thesis using arp_reply_Inr [OF i refl, of good_env s] assms by (auto simp: arp_ok_def)
qed

theorem earlier_question_lost_witness:
  "\<exists>s1 s2 s3. on_connect good_env (Some (7, Some example_ip)) (example_arpd 0) = Inr s1
    \<and> on_connect good_env (Some (8, Some example_ip)) s1 = Inr s2
    \<and> arp_reply good_env example_answer s2 = Inr s3
    \<and> a_done s3 = a_done s2 @ [WriteMac 8 [0, 12, 41, 0, 0, 1], Close 8]"
proof -
  obtain s1 where s1: "on_connect good_env (Some (7, Some example_ip)) (example_arpd 0) = Inr s1"
      "arp_ok s1" "c_ip_addr (a_cache s1 ! 1) = []"
    using example_asked [of "example_arpd 0" 7] by (auto simp: example_arpd_simps)
  obtain s2 where s2: "on_connect good_env (Some (8, Some example_ip)) s1 = Inr s2"
      "arp_ok s2" "c_sockfd (a_cache s2 ! 1) \<in> set (a_fds s2)"
    using example_asked [OF s1(2,3), of 8] by auto
  obtain s3 where s3: "arp_reply good_env example_answer s2 = Inr s3" using example_replied [OF s2(2,3)] by blast
  from earlier_question_lost [OF _ _ _ _ s1(1) s2(1) _ _ s3, of 1] s1 s2 s3 show ?thesis
    by (auto simp: example_arpd_simps example_ip_facts example_answer_def cstr_vm)
qed

theorem second_reply_ends_daemon_witness:
  "\<exists>s t u. arp_reply good_env example_answer s = Inr t
    \<and> arp_reply good_env example_answer t = Inl (Exit 1 ''ARP: Failed to send data sequence to local TOUR'', u)"
proof -
  obtain s where s: "arp_ok s" "c_sockfd (a_cache s ! 1) \<in> set (a_fds s)"
    using example_asked [of "example_arpd 0" 7] by (auto simp: example_arpd_simps)
  from example_replied [OF s] obtain t where "arp_reply good_env example_answer s = Inr t" by blast
  with second_reply_ends_daemon show ?thesis by blast
qed

end
