(* ===== verification/TourProps.thy ===== *)
theory TourProps
  imports Tour ArpProps InetAddrProps
begin

text \<open>
  Properties of the tour: the packet visits the nodes of the command line in order and stops at
  the last one, which announces the end after five pings; a multicast stops every node; and how
  the end can be missed.
\<close>

section \<open>When nothing fails\<close>

definition fine :: "tour_env \<Rightarrow> bool" where
  "fine E \<longleftrightarrow> join_ok E \<and> raw_ok E \<and> mcast_ok E \<and> areq_socket E \<and> areq_connect E \<and> areq_write E
     \<and> arp_says E \<noteq> None"

text \<open>A node that takes part: it pings each other node at most once and has not been told to stop.\<close>

definition tour_ok :: "tour \<Rightarrow> bool" where
  "tour_ok s \<longleftrightarrow> distinct (map fst (pings s)) \<and> set (map fst (pings s)) \<subseteq> set vm_addr \<and> \<not> t_option s"

fun routed :: "tour_action list \<Rightarrow> route_packet list" where
  "routed [] = []"
| "routed (RoutePacket p # as) = p # routed as"
| "routed (a # as) = routed as"

lemma routed_append [simp]: "routed (as @ bs) = routed as @ routed bs"
  by (induction as rule: routed.induct) auto

lemma routed_pings [simp]:
  "routed (map (\<lambda>(a, n). Ping a n) ps) = []" "routed (map (\<lambda>p. Ping (fst p) (snd p)) ps) = []"
  by (induction ps) auto

text \<open>The four bytes of the address of a node.\<close>

definition quad_bytes :: "string \<Rightarrow> u8 list" where
  "quad_bytes a = (case dotted_quad a of Some b \<Rightarrow> b | None \<Rightarrow> [])"

lemma quad_bytes_vm:
  assumes "a \<in> set vm_addr"
  shows "dotted_quad a = Some (quad_bytes a)" "length (quad_bytes a) = 4" "show4 (quad_bytes a) = a" "length a = 14"
proof -
  have "\<forall>a \<in> set vm_addr. dotted_quad a = Some (quad_bytes a) \<and> length (quad_bytes a) = 4
      \<and> show4 (quad_bytes a) = a \<and> length a = 14" by code_simp
  with assms show "dotted_quad a = Some (quad_bytes a)" "length (quad_bytes a) = 4" "show4 (quad_bytes a) = a"
    "length a = 14" by auto
qed

lemma vm_in: "k < 10 \<Longrightarrow> vm_addr ! k \<in> set vm_addr"
  by (simp add: vm_addr_distinct)

lemma cstr_in: "a \<in> set vm_addr \<Longrightarrow> cstr a = a"
  using vm_addr_words word_cstr by blast

lemma set_addr_vm: "a \<in> set vm_addr \<Longrightarrow> set_addr a msg s = Inr (quad_bytes a)"
  using quad_bytes_vm [of a] overwrite_same_length [of "quad_bytes a" "replicate 4 0"]
  by (simp add: set_addr_def inet_pton_def inet_pton4_eq cstr_in)

lemma ntop_vm: "a \<in> set vm_addr \<Longrightarrow> inet_ntop AF_INET (quad_bytes a) 15 = Inr (Some a)"
  using quad_bytes_vm [of a] by (simp add: inet_ntop_def inet_ntop4_def)

lemma vm_at_node: "k < 10 \<Longrightarrow> vm_at (int k + 1) = Some (vm_addr ! k)"
  by (simp add: vm_at_def)

lemma room_for_ping:
  assumes "tour_ok s" and "src \<in> set vm_addr" and "\<not> (\<exists>p \<in> set (pings s). fst p = src)"
  shows "length (pings s) < 10"
proof -
  have "src \<notin> set (map fst (pings s))" using assms(3) by auto
  then have "set (map fst (pings s)) \<subset> set vm_addr" using assms(1,2) unfolding tour_ok_def by blast
  then have "card (set (map fst (pings s))) < card (set vm_addr)" by (intro psubset_card_mono) auto
  moreover have "card (set vm_addr) = 10" using vm_addr_distinct distinct_card by metis
  ultimately show ?thesis using assms(1) distinct_card [of "map fst (pings s)"] by (simp add: tour_ok_def)
qed

lemma map_fst_inc [simp]: "map fst (map (\<lambda>(a, n). (a, n + (1::int))) ps) = map fst ps"
  by (induction ps) auto

lemma sig_alrm_ok:
  assumes "tour_ok s" and "mcast_ok E"
  shows "\<exists>t out. sig_alrm E s = Inr t \<and> tour_ok t \<and> t_node t = t_node s \<and> last_node t = last_node s
    \<and> t_done t = t_done s @ out \<and> routed out = []"
proof (cases "ping_cnt0 s = 5 \<and> last_node s")
  case True
  then show ?thesis using assms
    by (auto simp: sig_alrm_def tour_ok_def multicast_def act_def)
next
  case False
  then have "sig_alrm E s = Inr (s\<lparr>t_done := t_done s @ map (\<lambda>(a, n). Ping a n) (pings s),
                       pings := map (\<lambda>(a, n). (a, n + 1)) (pings s), armed := 1\<rparr>)"
    using assms by (simp only: sig_alrm_def tour_ok_def if_True if_False simp_thms)
  moreover have "fst ` (\<lambda>(a, n). (a, n + (1::int))) ` set (pings s) = fst ` set (pings s)"
    by (force simp: image_iff)
  ultimately show ?thesis using assms by (simp add: tour_ok_def comp_def split_def)
qed

lemma start_ping_ok:
  assumes "tour_ok s" and "src \<in> set vm_addr" and "mcast_ok E"
  shows "\<exists>t out. start_ping E src s = Inr t \<and> tour_ok t \<and> t_node t = t_node s \<and> last_node t = last_node s
    \<and> t_done t = t_done s @ out \<and> routed out = []"
proof (cases "\<exists>p \<in> set (pings s). fst p = src")
  case True
  then show ?thesis using assms(1) by (simp add: start_ping_def)
next
  case False
  let ?s = "s\<lparr>pings := pings s @ [(src, 0)]\<rparr>"
  have "tour_ok ?s" using assms False by (auto simp: tour_ok_def)
  moreover have "start_ping E src s = sig_alrm E ?s"
    using False room_for_ping [OF assms(1,2) False] by (simp add: start_ping_def)
  ultimately show ?thesis using sig_alrm_ok [of ?s E] assms(3) by auto
qed

section \<open>The packet at one node\<close>

text \<open>A packet of the tour that is about to reach entry \<open>j\<close> of its list.\<close>

definition on_tour :: "route_packet \<Rightarrow> nat \<Rightarrow> bool" where
  "on_tour p j \<longleftrightarrow> ntohs (ip_id p) = TOUR_ID \<and> ip_src p \<in> quad_bytes ` set vm_addr \<and> set (slots p) \<subseteq> set vm_addr
     \<and> ip_dst p = quad_bytes (slots p ! j)
     \<and> offset p = int j + 1 \<and> total p = int (length (slots p)) \<and> 1 \<le> j \<and> j < length (slots p)"

lemma on_route_ok:
  assumes "tour_ok s" and "t_node s = int k + 1" and "k < 10" and "fine E" and "on_tour p j"
  shows "\<exists>t out. on_route E (Some p) s = Inr t \<and> tour_ok t \<and> t_node t = t_node s \<and> t_done t = t_done s @ out
    \<and> (if Suc j = length (slots p) then last_node t \<and> routed out = []
       else \<exists>q. routed out = [q] \<and> on_tour q (Suc j) \<and> slots q = slots p)"
proof -
  obtain a where a: "a \<in> set vm_addr" "ip_src p = quad_bytes a" using assms(5) by (auto simp: on_tour_def)
  let ?join = "if visited s then Inr s else join_group E (s\<lparr>visited := True\<rparr>)"
  obtain s1 where s1: "?join = Inr s1" "tour_ok s1" "t_node s1 = t_node s" "t_done s1 = t_done s"
    using assms(1,4) by (cases "visited s") (auto simp: join_group_def fine_def tour_ok_def)
  let ?q = "p\<lparr>ip_id := htons TOUR_ID, offset := offset p + 1, ip_src := quad_bytes (vm_addr ! k),
    ip_dst := quad_bytes (slots p ! Suc j)\<rparr>"
  let ?last = "Suc j = length (slots p)"
  obtain s2 where s2: "forward E p s1 = Inr s2" "tour_ok s2" "t_node s2 = t_node s"
    "t_done s2 = t_done s @ (if ?last then [] else [RoutePacket ?q])" "?last \<longrightarrow> last_node s2"
  proof (cases ?last)
    case True
    then have "forward E p s1 = Inr (s1\<lparr>last_node := True\<rparr>)"
      using assms(5) by (simp add: forward_def on_tour_def)
    then show ?thesis using that s1 True by (simp add: tour_ok_def)
  next
    case False
    then have j: "Suc j < length (slots p)" "offset p \<noteq> total p" "nat (offset p) = Suc j" "0 \<le> offset p"
      using assms(5) by (auto simp: on_tour_def)
    have dst: "slots p ! Suc j \<in> set vm_addr" using assms(5) j(1) by (auto simp: on_tour_def)
    have "forward E p s1 = Inr (act (RoutePacket ?q) s1)"
      using j s1(3) assms(2-4) dst
      by (simp add: forward_def Let_def with_node_def vm_at_node send_route_def set_addr_vm vm_in fine_def)
    then show ?thesis using that s1 False by (simp add: tour_ok_def act_def)
  qed
  let ?s3 = "act (AskArp (ip_src p)) s2"
  have s3: "areq E (quad_bytes a) s2 = Inr ?s3" using assms(4) a(2) by (auto simp: areq_def fine_def)
  have "tour_ok ?s3" using s2(2) by (simp add: tour_ok_def act_def)
  then obtain t out where t: "start_ping E a ?s3 = Inr t" "tour_ok t" "t_node t = t_node ?s3"
      "last_node t = last_node ?s3" "t_done t = t_done ?s3 @ out" "routed out = []"
    using start_ping_ok [OF _ a(1)] assms(4) fine_def by blast
  have "on_route E (Some p) s = Inr t"
    using assms(5) a s1(1) s2(1) s3 t(1) by (simp add: on_route_def on_tour_def ntop_vm set_addr_vm)
  moreover have "on_tour ?q (Suc j)" if "\<not> ?last"
    using assms(3,5) that vm_in by (auto simp: on_tour_def)
  ultimately show ?thesis
    using t s2 by (intro exI [of _ t] exI [of _ "(if ?last then [] else [RoutePacket ?q])
      @ [AskArp (ip_src p)] @ out"]) (auto simp: act_def)
qed

section \<open>The whole tour\<close>

text \<open>The network hands each packet to the node it is addressed to.\<close>

fun tour_run :: "tour_env \<Rightarrow> nat \<Rightarrow> (nat \<Rightarrow> tour) \<Rightarrow> route_packet \<Rightarrow> (nat \<Rightarrow> tour) \<times> string list" where
  "tour_run E 0 N p = (N, [])"
| "tour_run E (Suc n) N p =
     (let dst = show4 (ip_dst p); k = node_index dst in
      case on_route E (Some p) (N k) of
        Inl e \<Rightarrow> (N, [dst])
      | Inr t \<Rightarrow>
          (case routed (drop (length (t_done (N k))) (t_done t)) of
             [] \<Rightarrow> (N(k := t), [dst])
           | q # rest \<Rightarrow> (case tour_run E n (N(k := t)) q of (N', ds) \<Rightarrow> (N', dst # ds))))"

lemma tour_run_from:
  assumes "\<And>k. k < 10 \<Longrightarrow> tour_ok (N k) \<and> t_node (N k) = int k + 1" and "fine E" and "on_tour p j"
    and "length (slots p) \<le> j + n"
  shows "\<exists>N'. tour_run E n N p = (N', drop j (slots p)) \<and> last_node (N' (node_index (last (slots p))))"
  using assms
proof (induction n arbitrary: N p j)
  case 0
  then show ?case by (simp add: on_tour_def)
next
  case (Suc n)
  let ?k = "node_index (slots p ! j)"
  have j: "j < length (slots p)" "slots p ! j \<in> set vm_addr" using Suc.prems(3) by (auto simp: on_tour_def)
  have d: "show4 (ip_dst p) = slots p ! j" using Suc.prems(3) quad_bytes_vm(3) [OF j(2)] by (simp add: on_tour_def)
  from j obtain k where k: "k < 10" "slots p ! j = vm_addr ! k"
    by (metis in_set_conv_nth vm_addr_distinct(1))
  have kk: "?k = k" using node_index_vm [OF k(1)] cstr_vm [OF k(1)] k(2) by simp
  have dj: "drop j (slots p) = slots p ! j # drop (Suc j) (slots p)" using j(1) by (simp add: Cons_nth_drop_Suc)
  from on_route_ok [OF _ _ k(1) Suc.prems(2,3), of "N k"] Suc.prems(1) [OF k(1)] obtain t out where
    t: "on_route E (Some p) (N k) = Inr t" "tour_ok t" "t_node t = t_node (N k)" "t_done t = t_done (N k) @ out"
    and nx: "if Suc j = length (slots p) then last_node t \<and> routed out = []
       else \<exists>q. routed out = [q] \<and> on_tour q (Suc j) \<and> slots q = slots p" by blast
  show ?case
  proof (cases "Suc j = length (slots p)")
    case True
    have "last (slots p) = slots p ! (length (slots p) - 1)" using j(1) by (intro last_conv_nth) auto
    then have "last (slots p) = slots p ! j" using True by (metis diff_Suc_1)
    then show ?thesis using nx t True dj by (simp add: Let_def kk d)
  next
    case False
    with nx obtain q where q: "routed out = [q]" "on_tour q (Suc j)" "slots q = slots p" by auto
    have "\<exists>N'. tour_run E n (N(k := t)) q = (N', drop (Suc j) (slots q))
        \<and> last_node (N' (node_index (last (slots q))))"
      using Suc.prems t q by (intro Suc.IH) auto
    then show ?thesis using q t dj by (auto simp: Let_def kk d)
  qed
qed

lemma slots_of_vm:
  "slots_of args s = Inr xs \<Longrightarrow> length xs = length args \<and> set xs \<subseteq> set vm_addr"
proof (induction args arbitrary: xs)
  case (Cons a args)
  then obtain x ys where x: "slot_of a s = Inr x" "slots_of args s = Inr ys" "xs = x # ys"
    by (auto simp: bind_iff)
  have "x \<in> set vm_addr"
    using x(1) by (auto simp: slot_of_def vm_at_def vm_addr_distinct split: if_splits option.splits)
  then show ?case using Cons.IH [OF x(2)] x(3) by simp
qed simp

text \<open>
  C6. The tour visits exactly the nodes of the command line, in their order: the packet that the
  first node sends reaches them one after the other when the network hands it to the node it is
  addressed to, and the last of them knows that it is the last. As many deliveries as there are
  arguments are enough.
\<close>
theorem tour_visits_all:
  assumes "begin_tour E args s = Inr s'" and "args \<noteq> []" and "slots_of args s = Inr xs" and "fine E"
    and "\<And>k. k < 10 \<Longrightarrow> tour_ok (N k) \<and> t_node (N k) = int k + 1" and "length args \<le> n"
  shows "\<exists>p N'. t_done s' = t_done s @ [RoutePacket p] \<and> tour_run E n N p = (N', xs)
    \<and> last_node (N' (node_index (last xs)))"
proof -
  have same: "slots_of args s1 = Inr xs" if "slots_of args s = Inr xs" for s1 :: tour and s args xs
    using that
  proof (induction args arbitrary: xs)
    case (Cons a args)
    have "slot_of a s1 = Inr x" if "slot_of a s = Inr x" for x
      using that by (auto simp: slot_of_def split: if_splits option.splits)
    then show ?case using Cons by (auto simp: bind_iff)
  qed simp
  have xs: "length xs = length args" "set xs \<subseteq> set vm_addr" "xs \<noteq> []"
    using slots_of_vm [OF assms(3)] assms(2) by auto
  have hd: "hd xs \<in> set vm_addr" using xs by auto
  from assms(1,2) obtain s1 where s1: "join_group E (s\<lparr>visited := True\<rparr>) = Inr s1"
    and w: "with_node s1 (\<lambda>me. bindr (slots_of args s1) (\<lambda>xs. send_route E \<lparr>ip_id = htons TOUR_ID,
        ip_src = replicate 4 0, ip_dst = replicate 4 0, offset = 2, total = int (length args) + 1, slots = me # xs\<rparr> me (hd xs) s1)) = Inr s'"
    by (auto simp: begin_tour_def bind_iff)
  have d1: "t_done s1 = t_done s" using s1 by (auto simp: join_group_def bind_iff)
  from w obtain me where me: "vm_at (t_node s1) = Some me"
    and p: "send_route E \<lparr>ip_id = htons TOUR_ID, ip_src = replicate 4 0, ip_dst = replicate 4 0, offset = 2,
        total = int (length args) + 1, slots = me # xs\<rparr> me (hd xs) s1 = Inr s'"
    using same [OF assms(3), of s1] by (auto simp: with_node_def split: option.splits)
  let ?p = "\<lparr>ip_id = htons TOUR_ID, ip_src = quad_bytes me, ip_dst = quad_bytes (hd xs), offset = 2, total = int (length args) + 1, slots = me # xs\<rparr>"
  have vm: "me \<in> set vm_addr" using me by (auto simp: vm_at_def vm_addr_distinct split: if_splits)
  have "on_tour ?p 1" using vm xs by (auto simp: on_tour_def hd_conv_nth)
  from tour_run_from [OF assms(5,4) this, of n] xs assms(6) have
    "\<exists>N'. tour_run E n N ?p = (N', xs) \<and> last_node (N' (node_index (last xs)))"
    by (simp add: hd_conv_nth)
  moreover have "t_done s' = t_done s @ [RoutePacket ?p]"
    using p d1 hd vm by (auto simp: send_route_def set_addr_vm bind_iff act_def)
  ultimately show ?thesis by blast
qed

definition fine_env :: tour_env where
  "fine_env = \<lparr>join_ok = True, raw_ok = True, mcast_ok = True, areq_socket = True, areq_connect = True,
     areq_write = True, arp_says = Some [0, 12, 41, 0, 0, 1]\<rparr>"

definition example_tour :: "nat \<Rightarrow> tour" where
  "example_tour k = \<lparr>t_node = int k + 1, visited = False, t_option = False, last_node = False, pings = [],
     joined = False, armed = 0, t_done = []\<rparr>"

lemma example_tour_ok: "tour_ok (example_tour k)" "t_node (example_tour k) = int k + 1" "fine fine_env"
  by (simp_all add: example_tour_def tour_ok_def fine_def fine_env_def)

lemma example_slots: "slots_of [''vm2'', ''vm3'', ''vm10''] s = Inr [vm_addr ! 1, vm_addr ! 2, vm_addr ! 9]"
proof -
  have "atoi (drop 2 ''vm2'') = 2" "atoi (drop 2 ''vm3'') = 3" by code_simp+
  then show ?thesis by (simp add: slot_of_def vm_at_def)
qed

lemma example_begins: "\<exists>t. begin_tour fine_env [''vm2'', ''vm3'', ''vm10''] (example_tour 0) = Inr t"
proof -
  have me: "vm_at 1 = Some (vm_addr ! 0)" by (simp add: vm_at_def)
  show ?thesis
    using me example_slots unfolding begin_tour_def
    by (simp add: join_group_def with_node_def send_route_def set_addr_vm vm_in fine_env_def example_tour_def
        del: slots_of.simps)
qed

theorem tour_visits_all_witness:
  "\<exists>s' p N'. begin_tour fine_env [''vm2'', ''vm3'', ''vm10''] (example_tour 0) = Inr s'
    \<and> t_done s' = [RoutePacket p]
    \<and> tour_run fine_env 3 example_tour p = (N', [vm_addr ! 1, vm_addr ! 2, vm_addr ! 9])
    \<and> last_node (N' (node_index (vm_addr ! 9)))"
proof -
  obtain s' where s': "begin_tour fine_env [''vm2'', ''vm3'', ''vm10''] (example_tour 0) = Inr s'"
    using example_begins by blast
  from tour_visits_all [OF s' _ example_slots example_tour_ok(3), of example_tour 3] s' show ?thesis
    by (auto simp: example_tour_ok) (auto simp: example_tour_def)
qed

section \<open>The end\<close>

text \<open>
  C16. The last node of the tour announces the end: when it has not been on the tour before, the
  packet and five alarms later it has sent the multicast that asks the members to identify
  themselves.
\<close>
theorem last_node_announces:
  assumes "on_route E (Some p) s = Inr t" and "ntohs (ip_id p) = TOUR_ID" and "offset p = total p"
    and "pings s = []" and "\<not> t_option s" and "mcast_ok E"
  shows "\<exists>u. run tour_step t (replicate 5 (TourAlarm E)) = Inr u \<and> last (t_done u) = Multicast (end_text (t_node s))"
proof -
  from assms(1-3) obtain v src where v: "start_ping E src v = Inr t" "pings v = pings s"
      "t_option v = t_option s" "last_node v" "t_node v = t_node s"
    by (auto simp: on_route_def bind_iff forward_def areq_def act_def join_group_def split: if_splits sum.splits option.splits)
  then have t: "t = v\<lparr>t_done := t_done v @ [Ping src 0], pings := [(src, 1)], armed := 1\<rparr>"
    using assms(4,5) by (simp add: start_ping_def sig_alrm_def ping_cnt0_def)
  have five: "replicate 5 (TourAlarm E) = [TourAlarm E, TourAlarm E, TourAlarm E, TourAlarm E, TourAlarm E]"
    by (simp add: numeral_eq_Suc)
  show ?thesis
    using assms(5,6) v(3-5) unfolding t five
    by (simp add: sig_alrm_def ping_cnt0_def multicast_def act_def)
qed

definition example_last :: route_packet where
  "example_last = \<lparr>ip_id = htons TOUR_ID, ip_src = quad_bytes (vm_addr ! 0), ip_dst = quad_bytes (vm_addr ! 1), offset = 2, total = 2,
     slots = [vm_addr ! 0, vm_addr ! 1]\<rparr>"

theorem last_node_announces_witness:
  "\<exists>t u. on_route fine_env (Some example_last) (example_tour 1) = Inr t
    \<and> run tour_step t (replicate 5 (TourAlarm fine_env)) = Inr u
    \<and> last (t_done u) = Multicast (end_text 2)"
proof -
  have "on_tour example_last 1" using vm_in by (auto simp: on_tour_def example_last_def)
  then obtain t where t: "on_route fine_env (Some example_last) (example_tour 1) = Inr t"
    using on_route_ok [of "example_tour 1" 1 fine_env example_last 1] example_tour_ok by auto
  have "\<exists>u. run tour_step t (replicate 5 (TourAlarm fine_env)) = Inr u
      \<and> last (t_done u) = Multicast (end_text (t_node (example_tour 1)))"
    by (rule last_node_announces [OF t]) (simp_all add: example_last_def example_tour_def fine_env_def)
  with t show ?thesis by (auto simp: example_tour_def)
qed

text \<open>What goes on between two states without a multicast, while the first ping count is past 5.\<close>

definition silent :: "tour \<Rightarrow> tour \<Rightarrow> bool" where
  "silent s t \<longleftrightarrow> (pings s \<noteq> [] \<and> 5 < ping_cnt0 s \<and> \<not> t_option s \<longrightarrow>
     pings t \<noteq> [] \<and> 5 < ping_cnt0 t \<and> \<not> t_option t
     \<and> (\<exists>out. t_done t = t_done s @ out \<and> (\<forall>m. Multicast m \<notin> set out)))"

lemma silent_trans: "silent s t \<Longrightarrow> silent t u \<Longrightarrow> silent s u"
  by (force simp: silent_def)

lemma silent_same:
  assumes "pings t = pings s" and "t_option t = t_option s" and "t_done t = t_done s @ out"
    and "\<And>m. Multicast m \<notin> set out"
  shows "silent s t"
  using assms by (auto simp: silent_def ping_cnt0_def)

lemma silent_alarm: "sig_alrm E s = Inr t \<Longrightarrow> silent s t"
  by (cases "pings s") (auto simp: silent_def sig_alrm_def ping_cnt0_def split_def split: if_splits)

lemma silent_start_ping: "start_ping E src s = Inr t \<Longrightarrow> silent s t"
proof -
  assume *: "start_ping E src s = Inr t"
  let ?s = "s\<lparr>pings := pings s @ [(src, 0)]\<rparr>"
  have "silent s ?s" by (cases "pings s") (auto simp: silent_def ping_cnt0_def)
  moreover have "t = s \<or> sig_alrm E ?s = Inr t" using * by (auto simp: start_ping_def bind_iff split: if_splits)
  moreover have "silent s s" by (rule silent_same) auto
  ultimately show ?thesis using silent_alarm silent_trans by blast
qed

lemma silent_on_route: "on_route E pkt s = Inr t \<Longrightarrow> silent s t"
proof -
  assume *: "on_route E pkt s = Inr t"
  have "t = s \<or> (\<exists>v out src. start_ping E src v = Inr t \<and> pings v = pings s \<and> t_option v = t_option s
      \<and> t_done v = t_done s @ out \<and> (\<forall>m. Multicast m \<notin> set out))"
    using * by (auto simp: on_route_def bind_iff forward_def areq_def act_def join_group_def with_node_def
        send_route_def Let_def split: if_splits option.splits sum.splits)
  moreover have "silent s s" by (rule silent_same) auto
  ultimately show ?thesis using silent_start_ping silent_same silent_trans by blast
qed

text \<open>
  The end can be missed for ever: a node whose first ping count has gone past 5 when the tour
  reaches it as the last node tests for exactly 5, so whatever happens next short of a multicast
  from another node, it never announces the end.
\<close>
theorem end_missed:
  assumes "pings s \<noteq> []" and "5 < ping_cnt0 s" and "\<not> t_option s"
    and "\<forall>e \<in> set es. \<exists>E pkt. e = TourReady E pkt None \<or> e = TourAlarm E \<or> e = TourEintr"
    and "run tour_step s es = Inr t"
  shows "\<exists>out. t_done t = t_done s @ out \<and> (\<forall>m. Multicast m \<notin> set out)"
proof -
  have "silent s t"
    using assms(4,5)
  proof (induction es arbitrary: s)
    case Nil
    then show ?case by (intro silent_same) auto
  next
    case (Cons e es)
    then obtain u where u: "tour_step s e = Inr u" and t: "run tour_step u es = Inr t" by (auto simp: bind_iff)
    have same: "silent s s" by (rule silent_same) auto
    have disarmed: "silent s (s\<lparr>armed := 0\<rparr>)" by (rule silent_same) auto
    consider E pkt where "e = TourReady E pkt None" | E where "e = TourAlarm E" | "e = TourEintr"
      using Cons.prems(1) by auto
    then have "silent s u"
    proof cases
      case (1 E pkt)
      with u have "pkt = None \<and> u = s \<or> (\<exists>q. on_route E q s = Inr u)" by (cases pkt) (auto simp: bind_iff)
      then show ?thesis using same silent_on_route by blast
    next
      case (2 E)
      with u have "u = s \<or> sig_alrm E (s\<lparr>armed := 0\<rparr>) = Inr u" by (auto split: if_splits)
      then show ?thesis using same silent_trans [OF disarmed silent_alarm] by blast
    next
      case 3
      with u same show ?thesis by simp
    qed
    then show ?case using Cons.IH [of u] Cons.prems(1) t silent_trans by simp
  qed
  then show ?thesis using assms(1-3) by (simp add: silent_def)
qed

text \<open>Node 2 has pinged node 1 six times when it becomes the last node; three alarms follow.\<close>

theorem end_missed_witness:
  "\<exists>t out. run tour_step ((example_tour 1)\<lparr>visited := True, last_node := True, pings := [(vm_addr ! 0, 6)], armed := 1\<rparr>)
       (replicate 3 (TourAlarm fine_env)) = Inr t
    \<and> t_done t = out \<and> (\<forall>m. Multicast m \<notin> set out)"
proof -
  let ?s = "(example_tour 1)\<lparr>visited := True, last_node := True, pings := [(vm_addr ! 0, 6)], armed := 1\<rparr>"
  have three: "replicate 3 (TourAlarm fine_env) = [TourAlarm fine_env, TourAlarm fine_env, TourAlarm fine_env]"
    by (simp add: numeral_eq_Suc)
  obtain t where t: "run tour_step ?s (replicate 3 (TourAlarm fine_env)) = Inr t"
    unfolding three by (simp add: sig_alrm_def ping_cnt0_def example_tour_def)
  have "\<exists>out. t_done t = t_done ?s @ out \<and> (\<forall>m. Multicast m \<notin> set out)"
    by (rule end_missed [OF _ _ _ _ t]) (simp_all add: example_tour_def ping_cnt0_def)
  with t show ?thesis by (auto simp: example_tour_def)
qed

text \<open>
  A multicast stops a node: it identifies itself once, and the alarm it then sets ends the
  process with status 0.
\<close>
theorem multicast_stops_node:
  assumes "\<not> t_option s" and "mcast_ok E"
  shows "\<exists>t. on_multicast E (Some m) s = Inr t \<and> t_done t = t_done s @ [Multicast (member_text (t_node s))]
    \<and> on_multicast E' (Some m') t = Inr t
    \<and> tour_step t (TourAlarm E') = Inl (Exit 0 ''The TOUR process has all finished. GOODBYE!'', t\<lparr>armed := 0\<rparr>)"
  using assms by (simp add: on_multicast_def multicast_def act_def sig_alrm_def)

theorem multicast_stops_node_witness:
  "\<exists>t. on_multicast fine_env (Some (end_text 2)) (example_tour 0) = Inr t
    \<and> t_done t = [Multicast (member_text 1)]
    \<and> tour_step t (TourAlarm fine_env)
      = Inl (Exit 0 ''The TOUR process has all finished. GOODBYE!'', t\<lparr>armed := 0\<rparr>)"
proof -
  have facts: "\<not> t_option (example_tour 0)" "mcast_ok fine_env" "t_node (example_tour 0) = 1"
    "t_done (example_tour 0) = []"
    by (simp_all add: example_tour_def fine_env_def)
  from multicast_stops_node [OF facts(1,2), of "end_text 2" fine_env "[]"] show ?thesis
    unfolding facts(3,4) append_Nil by blast
qed

end
