(* ===== verification/InCksum.thy ===== *)
theory InCksum
  imports Prelude
begin

text \<open>
  \<^verbatim>\<open>unpv13e/libfree/in_cksum.c\<close>: the Internet checksum. Memory is a list of bytes, read in words of
  sixteen bits of a little-endian host.
\<close>

section \<open>The function\<close>

text \<open>\<open>cksum_add\<close> is the loop over the words and the odd byte behind it.\<close>

fun cksum_add :: "u8 list \<Rightarrow> u32 \<Rightarrow> u32" where
  "cksum_add [] acc = acc"
| "cksum_add [a] acc = acc + ucast a"
| "cksum_add (a # b # bs) acc = cksum_add bs (acc + (ucast a + 256 * ucast b))"

definition in_cksum :: "u8 list \<Rightarrow> u16" where
  "in_cksum bs =
     (let s = cksum_add bs 0;
          s = drop_bit 16 s + (s AND 0xffff);
          s = s + drop_bit 16 s
      in NOT (ucast s))"

section \<open>The sum it computes\<close>

text \<open>The reference: the sum of the words as a number, and its one's complement.\<close>

fun word_sum :: "u8 list \<Rightarrow> nat" where
  "word_sum [] = 0"
| "word_sum [a] = unat a"
| "word_sum (a # b # bs) = unat a + 256 * unat b + word_sum bs"

text \<open>A sum in one's complement arithmetic of sixteen bits: 0 only for 0, otherwise from 1 to 65535.\<close>

definition ones_sum :: "nat \<Rightarrow> nat" where
  "ones_sum n = (if n = 0 then 0 else (n - 1) mod 65535 + 1)"

lemma word_sum_bound: "word_sum bs \<le> 65535 * ((length bs + 1) div 2)"
proof (induction bs rule: word_sum.induct)
  case (2 a)
  have "unat a < 2 ^ LENGTH(8)" by (rule unsigned_less)
  then show ?case by simp
next
  case (3 a b bs)
  have "unat a < 2 ^ LENGTH(8)" "unat b < 2 ^ LENGTH(8)" by (rule unsigned_less)+
  with 3 show ?case by simp
qed simp

lemma word_sum_append: "even (length xs) \<Longrightarrow> word_sum (xs @ ys) = word_sum xs + word_sum ys"
  by (induction xs rule: word_sum.induct) auto

lemma cksum_add_sum: "cksum_add bs acc = acc + of_nat (word_sum bs)"
  by (induction bs acc rule: cksum_add.induct) (simp_all add: algebra_simps)

text \<open>Two additions of the carries are enough.\<close>

lemma fold_carries:
  fixes S :: nat
  assumes "S < 2 ^ 32"
  defines "s1 \<equiv> S div 65536 + S mod 65536"
  shows "(s1 + s1 div 65536) mod 65536 = ones_sum S"
proof -
  have "S div 65536 < 65536" using assms(1) by (simp add: div_less_iff_less_mult)
  then have s1: "s1 \<le> 2 * 65535" by (simp add: s1_def)
  have S: "S = 65535 * (S div 65536) + s1" by (simp add: s1_def)
  show ?thesis
  proof (cases "S = 0")
    case True
    then show ?thesis by (simp add: s1_def ones_sum_def)
  next
    case False
    then have "0 < s1" using S by (cases "s1 = 0") (auto simp: s1_def)
    then have "(S - 1) mod 65535 = (s1 - 1) mod 65535" using S by (metis Nat.add_diff_assoc Suc_leI One_nat_def mod_mult_self4)
    moreover have "(s1 + s1 div 65536) mod 65536 = (s1 - 1) mod 65535 + 1"
    proof (cases "s1 \<le> 65535")
      case True
      then show ?thesis using \<open>0 < s1\<close> by simp
    next
      case False
      then have "s1 div 65536 = 1" using s1 by simp
      moreover have "(s1 + 1) mod 65536 = s1 + 1 - 65536" using False s1 by (simp add: mod_if)
      moreover have "(s1 - 1) mod 65535 = s1 - 1 - 65535" using False s1 by (simp add: le_mod_geq)
      ultimately show ?thesis using False by simp
    qed
    ultimately show ?thesis using False by (simp add: ones_sum_def)
  qed
qed

lemma in_cksum_unat:
  assumes "word_sum bs < 2 ^ 32"
  shows "unat (in_cksum bs) = 65535 - ones_sum (word_sum bs)"
proof -
  let ?S = "word_sum bs" and ?s = "of_nat (word_sum bs) :: u32"
  define n1 where "n1 = ?S div 65536 + ?S mod 65536"
  define s1 where "s1 = drop_bit 16 ?s + (?s AND 0xffff)"
  have s: "unat ?s = ?S" using assms by (simp add: unat_of_nat)
  have hi: "unat (drop_bit 16 ?s) = ?S div 65536"
    by (simp add: drop_bit_eq_div unat_div_distrib s)
  have "(?s AND 0xffff) = take_bit 16 ?s" by (simp add: take_bit_eq_mask mask_eq_exp_minus_1)
  then have lo: "unat (?s AND 0xffff) = ?S mod 65536" by (simp add: take_bit_eq_mod unat_mod_distrib s)
  have "?S div 65536 < 65536" using assms by (simp add: div_less_iff_less_mult)
  then have n1: "n1 < 131072" by (simp add: n1_def)
  then have "unat (drop_bit 16 ?s) + unat (?s AND 0xffff) < 2 ^ LENGTH(32)" by (simp add: hi lo n1_def)
  then have s1: "unat s1 = n1" unfolding s1_def unat_add_lem by (simp only: hi lo n1_def)
  have c: "unat (drop_bit 16 s1) = n1 div 65536" by (simp add: drop_bit_eq_div unat_div_distrib s1)
  have "unat s1 + unat (drop_bit 16 s1) < 2 ^ LENGTH(32)" using n1 by (simp add: s1 c)
  then have s2: "unat (s1 + drop_bit 16 s1) = n1 + n1 div 65536" unfolding unat_add_lem by (simp only: s1 c)
  have "unat (ucast (s1 + drop_bit 16 s1) :: u16) = (n1 + n1 div 65536) mod 65536"
    by (simp add: unsigned_ucast_eq take_bit_eq_mod s2)
  also have "\<dots> = ones_sum ?S" unfolding n1_def by (rule fold_carries [OF assms])
  finally have r: "unat (ucast (s1 + drop_bit 16 s1) :: u16) = ones_sum ?S" .
  have n: "unat (NOT x) = 65535 - unat x" for x :: u16
  proof -
    have "NOT x = - 1 - x" by (simp add: not_eq_complement)
    also have "unat \<dots> = unat (- 1 :: u16) - unat x" by (rule unat_sub) simp
    finally show ?thesis by (simp add: unsigned_minus_1_eq_mask mask_eq_exp_minus_1)
  qed
  have "in_cksum bs = NOT (ucast (s1 + drop_bit 16 s1))"
    by (simp add: in_cksum_def Let_def cksum_add_sum s1_def)
  then show ?thesis by (simp add: n r)
qed

lemma ones_sum_complement: "ones_sum (n + (65535 - ones_sum n)) = 65535"
proof (cases "n = 0")
  case False
  define q where "q = (n - 1) div 65535"
  define m where "m = (n - 1) mod 65535 + 1"
  have "n = 65535 * q + m" using False by (simp add: q_def m_def)
  moreover have "m \<le> 65535" by (simp add: m_def Suc_leI)
  ultimately have "n + (65535 - m) = 65535 * q + 65534 + 1" by simp
  moreover have "ones_sum n = m" using False by (simp add: ones_sum_def m_def)
  ultimately show ?thesis by (simp add: ones_sum_def)
qed (simp add: ones_sum_def)

section \<open>Claims\<close>

text \<open>
  C33. The checksum is the one's complement of the one's complement sum of the words, for every
  message of up to 131074 bytes: the 32-bit accumulator does not overflow, and adding the carries
  twice is enough.
\<close>
theorem in_cksum_ones_complement:
  assumes "length bs \<le> 131074"
  shows "unat (in_cksum bs) = 65535 - ones_sum (word_sum bs)"
proof -
  have "(length bs + 1) div 2 \<le> 65537" using assms by simp
  then have "word_sum bs \<le> 65535 * 65537" using word_sum_bound [of bs] by (meson le_trans mult_le_mono2)
  then show ?thesis by (intro in_cksum_unat) simp
qed

theorem in_cksum_ones_complement_witness:
  "unat (in_cksum [0xff, 0xff, 1, 0, 7]) = 65535 - 8"
proof -
  have "word_sum [0xff, 0xff, 1, 0, 7] = 65543" by simp
  then have "ones_sum (word_sum [0xff, 0xff, 1, 0, 7]) = 8" by (simp only: ones_sum_def) simp
  moreover have "length [0xff, 0xff, 1, 0, 7 :: u8] \<le> 131074" by simp
  ultimately show ?thesis using in_cksum_ones_complement [of "[0xff, 0xff, 1, 0, 7]"] by (simp only:)
qed

text \<open>
  A receiver finds what a sender makes correct: when the checksum of a packet is computed with its
  two bytes of checksum, at an even offset, set to zero and is then stored there, the checksum of the
  whole packet is 0.
\<close>
theorem checksum_verifies:
  assumes "even (length pre)" and "length pre + length post + 2 \<le> 131072"
    and "r = in_cksum (pre @ [0, 0] @ post)"
  shows "in_cksum (pre @ [ucast r, ucast (drop_bit 8 r)] @ post) = 0"
proof -
  let ?S = "word_sum pre + word_sum post"
  have S: "word_sum (pre @ [0, 0] @ post) = ?S" using assms(1) by (simp add: word_sum_append)
  have len: "length (pre @ [0, 0] @ post) \<le> 131072" using assms(2) by simp
  have r: "unat r = 65535 - ones_sum ?S"
    using in_cksum_unat [of "pre @ [0, 0] @ post"] word_sum_bound [of "pre @ [0, 0] @ post"] len S assms(3)
    by simp
  have bytes: "unat (ucast r :: u8) + 256 * unat (ucast (drop_bit 8 r) :: u8) = unat r"
  proof -
    have "unat r < 2 ^ LENGTH(16)" by (rule unsigned_less)
    then have "unat r div 256 < 256" by (simp add: div_less_iff_less_mult)
    then show ?thesis
      by (simp add: unsigned_ucast_eq take_bit_eq_mod drop_bit_eq_div unat_div_distrib)
  qed
  let ?T = "?S + (65535 - ones_sum ?S)"
  have T: "word_sum (pre @ [ucast r, ucast (drop_bit 8 r)] @ post) = ?T"
    using assms(1) bytes r by (simp add: word_sum_append)
  have "(length (pre @ [0, 0] @ post) + 1) div 2 \<le> 65536" using len by linarith
  then have "?S \<le> 65535 * 65536" using word_sum_bound [of "pre @ [0, 0] @ post"] unfolding S by (meson le_trans mult_le_mono2)
  then have "?T < 2 ^ 32" by simp
  then have "unat (in_cksum (pre @ [ucast r, ucast (drop_bit 8 r)] @ post)) = 0"
    using in_cksum_unat [of "pre @ [ucast r, ucast (drop_bit 8 r)] @ post"] ones_sum_complement [of ?S] by (simp only: T)
  then show ?thesis by (simp add: unat_eq_0)
qed

theorem checksum_verifies_witness:
  "in_cksum [8, 0, 0xf6, 0xff, 1, 0] = 0"
proof -
  have r: "in_cksum ([8, 0] @ [0, 0] @ [1, 0]) = 0xfff6" by code_simp
  have b: "[ucast (0xfff6 :: u16), ucast (drop_bit 8 (0xfff6 :: u16))] = [0xf6, 0xff :: u8]" by code_simp
  show ?thesis using checksum_verifies [of "[8, 0]" "[1, 0]", OF _ _ r [symmetric]] unfolding b by simp
qed

end
