(* ===== verification/StreamIoProps.thy ===== *)
theory StreamIoProps
  imports StreamIo
begin

text \<open>
  The byte streams do not depend on how the kernel cuts them: \<^verbatim>\<open>readn\<close> and \<^verbatim>\<open>readline\<close> give what
  a reader of the whole stream would take, \<^verbatim>\<open>writen\<close> delivers everything or reports an error.
\<close>

section \<open>One call\<close>

text \<open>What one \<^verbatim>\<open>read\<close> does to the stream.\<close>

lemma sys_read_cases:
  assumes "sys_read n c = Some (r, c')" and "0 < n"
  obtains (bytes) b where "r = Bytes b" "b \<noteq> []" "length b \<le> n" "pending c = b @ pending c'"
  | (eof) "r = Eof" "pending c = []" "pending c' = []"
  | (intr) "r = Interrupted" "pending c' = pending c"
  | (error) "r = ReadError" "pending c' = pending c" "Fail \<in> set (turns c)"
proof -
  from assms(1) obtain t ts where t: "turns c = t # ts" by (auto simp: sys_read_def split: list.splits)
  show thesis
  proof (cases t)
    case (Deliver k)
    let ?m = "max 1 (min k n)"
    show thesis
    proof (cases "pending c = []")
      case True
      with assms(1) t Deliver show thesis by (intro eof) (auto simp: sys_read_def)
    next
      case False
      with assms t Deliver show thesis by (intro bytes [of "take ?m (pending c)"]) (auto simp: sys_read_def Let_def)
    qed
  next
    case Intr
    with assms(1) t show thesis by (intro intr) (auto simp: sys_read_def)
  next
    case Fail
    with assms(1) t show thesis by (intro error) (auto simp: sys_read_def)
  qed
qed

lemma sys_read_set: "sys_read n c = Some (r, c') \<Longrightarrow> set (turns c') \<subseteq> set (turns c)"
  by (auto simp: sys_read_def Let_def split: list.splits turn.splits if_splits)

section \<open>A given number of bytes\<close>

lemma readn_loop_result:
  assumes "readn_loop nleft got c = Some ((r, x), c')"
  shows "if r = - 1 then Fail \<in> set (turns c) \<and> (\<exists>y. x = got @ y \<and> pending c = y @ pending c' \<and> length y < nleft)
    else x = got @ take nleft (pending c) \<and> pending c' = drop nleft (pending c) \<and> r = int (length x)"
  using assms
proof (induction "length (turns c)" arbitrary: nleft got c rule: less_induct)
  case less
  show ?case
  proof (cases "nleft = 0")
    case True
    with less.prems show ?thesis by (subst (asm) readn_loop.simps) auto
  next
    case False
    then obtain q d where q: "sys_read nleft c = Some (q, d)"
      using less.prems by (subst (asm) readn_loop.simps) (auto split: option.splits)
    have sub: "set (turns d) \<subseteq> set (turns c)" using sys_read_set [OF q] .
    note IH = less.hyps [OF sys_read_turns [OF q]]
    have "0 < nleft" using False by simp
    with q show ?thesis
    proof (cases rule: sys_read_cases)
      case (bytes b)
      have "readn_loop (nleft - length b) (got @ b) d = Some ((r, x), c')"
        using less.prems q bytes False by (subst (asm) readn_loop.simps) simp
      from IH [OF this] bytes sub show ?thesis by (auto split: if_splits)
    next
      case eof
      with less.prems q False show ?thesis by (subst (asm) readn_loop.simps) auto
    next
      case intr
      have "readn_loop nleft got d = Some ((r, x), c')"
        using less.prems q intr False by (subst (asm) readn_loop.simps) simp
      from IH [OF this] intr sub show ?thesis by (auto split: if_splits)
    next
      case error
      with less.prems q False show ?thesis by (subst (asm) readn_loop.simps) auto
    qed
  qed
qed

text \<open>
  The turns that are enough: no failure, and \<open>k\<close> of them deliver something.
\<close>

definition serves :: "nat \<Rightarrow> chan \<Rightarrow> bool" where
  "serves k c \<longleftrightarrow> Fail \<notin> set (turns c) \<and> k \<le> length (filter (\<lambda>t. t \<noteq> Intr) (turns c))"

lemma serves_read:
  assumes "serves (Suc k) c"
  shows "\<exists>r c'. sys_read n c = Some (r, c') \<and> r \<noteq> ReadError \<and> (if r = Interrupted then serves (Suc k) c' else serves k c')"
proof -
  from assms obtain t ts where t: "turns c = t # ts" by (cases "turns c") (auto simp: serves_def)
  with assms show ?thesis by (cases t) (auto simp: serves_def sys_read_def Let_def)
qed

lemma readn_loop_returns:
  assumes "serves (Suc nleft) c"
  shows "\<exists>x c'. readn_loop nleft got c = Some ((int (length x), x), c') \<and> serves 0 c'"
  using assms
proof (induction "length (turns c)" arbitrary: nleft got c rule: less_induct)
  case less
  show ?case
  proof (cases "nleft = 0")
    case True
    with less.prems show ?thesis by (subst readn_loop.simps) (auto simp: serves_def)
  next
    case False
    obtain r d where r: "sys_read nleft c = Some (r, d)" "r \<noteq> ReadError"
        "if r = Interrupted then serves (Suc nleft) d else serves nleft d"
      using serves_read [OF less.prems] by blast
    note IH = less.hyps [OF sys_read_turns [OF r(1)]]
    have "0 < nleft" using False by simp
    with r(1) show ?thesis
    proof (cases rule: sys_read_cases)
      case (bytes b)
      then have "serves (Suc (nleft - length b)) d" using r(3) \<open>0 < nleft\<close> by (cases b) (auto simp: serves_def)
      from IH [OF this, of "got @ b"] show ?thesis using r(1) bytes False by (subst readn_loop.simps) simp
    next
      case eof
      with r False show ?thesis by (subst readn_loop.simps) (auto simp: serves_def)
    next
      case intr
      with r(3) have "serves (Suc nleft) d" by simp
      from IH [OF this, of got] show ?thesis using r(1) intr False by (subst readn_loop.simps) simp
    next
      case error
      with r(2) show ?thesis by simp
    qed
  qed
qed

section \<open>Writing\<close>

lemma sys_write_cases:
  assumes "sys_write b c = Some (r, c')"
  obtains (taken) k where "r = Taken k" "k \<le> length b" "pending c' = pending c @ take k b"
  | (intr) "r = WrInterrupted" "pending c' = pending c"
  | (error) "r = WriteError" "pending c' = pending c"
proof -
  from assms obtain t ts where t: "turns c = t # ts" by (auto simp: sys_write_def split: list.splits)
  show thesis
  proof (cases t)
    case (Deliver k)
    with assms t show thesis by (intro taken [of "min k (length b)"]) (auto simp: sys_write_def min_def)
  next
    case Intr
    with assms t show thesis by (intro intr) (auto simp: sys_write_def)
  next
    case Fail
    with assms t show thesis by (intro error) (auto simp: sys_write_def)
  qed
qed

lemma writen_loop_result:
  assumes "writen_loop n b c = Some (r, c')"
  shows "(r = n \<and> pending c' = pending c @ b) \<or> (r = - 1 \<and> (\<exists>k < length b. pending c' = pending c @ take k b))"
  using assms
proof (induction "length (turns c)" arbitrary: b c rule: less_induct)
  case less
  show ?case
  proof (cases "b = []")
    case True
    with less.prems show ?thesis by (subst (asm) writen_loop.simps) auto
  next
    case False
    then obtain q d where q: "sys_write b c = Some (q, d)"
      using less.prems by (subst (asm) writen_loop.simps) (auto split: option.splits)
    note IH = less.hyps [OF sys_write_turns [OF q]]
    from q show ?thesis
    proof (cases rule: sys_write_cases)
      case (taken k)
      show ?thesis
      proof (cases "k = 0")
        case True
        with less.prems q taken False show ?thesis by (subst (asm) writen_loop.simps) auto
      next
        case k: False
        have "writen_loop n (drop k b) d = Some (r, c')"
          using less.prems q taken False k by (subst (asm) writen_loop.simps) simp
        from IH [OF this] show ?thesis
        proof
          assume "r = n \<and> pending c' = pending d @ drop k b"
          then show ?thesis using taken by simp
        next
          assume "r = - 1 \<and> (\<exists>j < length (drop k b). pending c' = pending d @ take j (drop k b))"
          then obtain j where j: "r = - 1" "j < length b - k" "pending c' = pending c @ take k b @ take j (drop k b)"
            using taken by auto
          then have "k + j < length b" "pending c' = pending c @ take (k + j) b" by (auto simp: take_add)
          with j(1) show ?thesis by blast
        qed
      qed
    next
      case intr
      have "writen_loop n b d = Some (r, c')" using less.prems q intr False by (subst (asm) writen_loop.simps) simp
      from IH [OF this] intr show ?thesis by simp
    next
      case error
      with less.prems q False show ?thesis by (subst (asm) writen_loop.simps) (auto intro: exI [of _ 0])
    qed
  qed
qed

section \<open>Lines\<close>

text \<open>What is still in the buffer, and the whole of the stream that has not been given out.\<close>

definition buffered :: "rline \<Rightarrow> string" where
  "buffered s = take (nat (read_cnt s)) (drop (read_ptr s) (read_buf s))"

definition rline_ok :: "rline \<Rightarrow> bool" where
  "rline_ok s \<longleftrightarrow> read_cnt s > 0 \<longrightarrow> read_ptr s + nat (read_cnt s) \<le> length (read_buf s)"

definition unread :: "rline \<Rightarrow> chan \<Rightarrow> string" where
  "unread s c = buffered s @ pending c"

lemma buffered_empty: "read_cnt s \<le> 0 \<Longrightarrow> buffered s = []"
  by (simp add: buffered_def)

lemma next_char_unread:
  assumes "rline_ok s" and "read_cnt s > 0" and "next_char s = (r, s')"
  shows "\<exists>ch. r = OneChar ch \<and> unread s c = ch # unread s' c \<and> rline_ok s'"
proof -
  let ?i = "read_ptr s" and ?b = "read_buf s"
  have i: "?i < length ?b" "nat (read_cnt s) = Suc (nat (read_cnt s - 1))" using assms(1,2) by (auto simp: rline_ok_def)
  then have "buffered s = ?b ! ?i # take (nat (read_cnt s - 1)) (drop (Suc ?i) ?b)"
    by (simp add: buffered_def Cons_nth_drop_Suc [symmetric])
  then show ?thesis using assms by (auto simp: next_char_def unread_def buffered_def rline_ok_def)
qed

lemma fill_buf_result:
  assumes "fill_buf s c = Some (r, s', c')"
  shows "case r of
      None \<Rightarrow> rline_ok s' \<and> 0 < read_cnt s' \<and> unread s' c' = pending c
    | Some OneEof \<Rightarrow> rline_ok s' \<and> pending c = [] \<and> unread s' c' = []
    | Some OneError \<Rightarrow> rline_ok s' \<and> unread s' c' = pending c \<and> Fail \<in> set (turns c)
    | Some (OneChar ch) \<Rightarrow> False"
  using assms
proof (induction "length (turns c)" arbitrary: s c rule: less_induct)
  case less
  then obtain q d where q: "sys_read RL_SIZE c = Some (q, d)" by (subst (asm) (2) fill_buf.simps) (auto split: option.splits)
  have "0 < RL_SIZE" by (simp add: RL_SIZE_def)
  with q show ?case
  proof (cases rule: sys_read_cases)
    case (bytes b)
    with less.prems q show ?thesis
      by (subst (asm) fill_buf.simps) (auto simp: rline_ok_def unread_def buffered_def overwrite_def)
  next
    case eof
    with less.prems q show ?thesis by (subst (asm) fill_buf.simps) (auto simp: rline_ok_def unread_def buffered_def)
  next
    case intr
    with less.prems q have "fill_buf (s\<lparr>read_cnt := - 1\<rparr>) d = Some (r, s', c')" by (subst (asm) fill_buf.simps) simp
    from less.hyps [OF sys_read_turns [OF q] this] intr sys_read_set [OF q] show ?thesis
      by (auto split: option.splits one.splits)
  next
    case error
    with less.prems q show ?thesis by (subst (asm) fill_buf.simps) (auto simp: rline_ok_def unread_def buffered_def)
  qed
qed

lemma my_read_cases:
  assumes "my_read s c = Some (r, s', c')" and "rline_ok s"
  obtains (char) ch where "r = OneChar ch" "unread s c = ch # unread s' c'" "rline_ok s'"
  | (eof) "r = OneEof" "unread s c = []" "unread s' c' = []" "rline_ok s'"
  | (error) "r = OneError" "unread s' c' = unread s c" "Fail \<in> set (turns c)" "rline_ok s'"
proof (cases "read_cnt s \<le> 0")
  case False
  then obtain "next_char s = (r, s')" "c' = c" using assms(1) by (auto simp: my_read_def split: prod.splits)
  then show thesis using next_char_unread [OF assms(2)] False char by fastforce
next
  case True
  then have u: "unread s c = pending c" by (simp add: unread_def buffered_empty)
  from True assms(1) obtain q t d where q: "fill_buf s c = Some (q, t, d)" by (auto simp: my_read_def split: option.splits)
  note f = fill_buf_result [OF q]
  show thesis
  proof (cases q)
    case None
    then have "next_char t = (r, s')" "c' = d" using assms(1) True q by (auto simp: my_read_def split: prod.splits)
    then show thesis using next_char_unread [of t r s' d] f None u char by fastforce
  next
    case (Some x)
    then have "r = x" "s' = t" "c' = d" using assms(1) True q by (auto simp: my_read_def)
    then show thesis using f Some u eof error by (cases x) auto
  qed
qed

text \<open>The reference: the stream up to and including its first newline.\<close>

fun first_line :: "string \<Rightarrow> string" where
  "first_line [] = []"
| "first_line (ch # s) = (if ch = CHR 0x0A then [ch] else ch # first_line s)"

lemma my_read_set: "my_read s c = Some (r, s', c') \<Longrightarrow> set (turns c') \<subseteq> set (turns c)"
proof -
  have f: "fill_buf s c = Some (r, s', c') \<Longrightarrow> set (turns c') \<subseteq> set (turns c)" for s c r s' c'
  proof (induction "length (turns c)" arbitrary: s c rule: less_induct)
    case less
    then obtain q d where q: "sys_read RL_SIZE c = Some (q, d)" by (subst (asm) (2) fill_buf.simps) (auto split: option.splits)
    with less.prems have "c' = d \<or> (\<exists>s. fill_buf s d = Some (r, s', c'))"
      by (subst (asm) fill_buf.simps) (auto split: rd.splits)
    with less.hyps [OF sys_read_turns [OF q]] sys_read_set [OF q] show ?case by blast
  qed
  assume "my_read s c = Some (r, s', c')"
  then show ?thesis using f by (fastforce simp: my_read_def split: if_splits option.splits prod.splits)
qed

lemma readline_loop_result:
  assumes "readline_loop left n got s c = Some ((r, x), s', c')" and "rline_ok s" and "1 \<le> n"
  shows "rline_ok s' \<and> (if r = - 1 then Fail \<in> set (turns c)
    else let line = take left (first_line (unread s c)) in
      x = got @ line @ [NUL] \<and> unread s' c' = drop (length line) (unread s c)
      \<and> r = n - 1 + int (length line) + (if length line = left \<and> (line = [] \<or> last line \<noteq> CHR 0x0A) then 1 else 0))"
  using assms
proof (induction left n got s c rule: readline_loop.induct)
  case (1 n got s c)
  then show ?case by (auto simp: Let_def)
next
  case (2 left n got s c)
  obtain q t d where q: "my_read s c = Some (q, t, d)" using "2.prems"(1) by (auto split: option.splits)
  from q "2.prems"(2) show ?case
  proof (cases rule: my_read_cases)
    case (char ch)
    show ?thesis
    proof (cases "ch = CHR 0x0A")
      case True
      then show ?thesis using "2.prems" q char by (auto simp: Let_def)
    next
      case False
      then have "readline_loop left (n + 1) (got @ [ch]) t d = Some ((r, x), s', c')" using "2.prems"(1) q char by simp
      from "2.IH" [OF q refl char(1) refl False this char(3)] "2.prems"(3) char False my_read_set [OF q] show ?thesis
        by (auto simp: Let_def split: if_splits)
    qed
  next
    case eof
    then show ?thesis using "2.prems" q by (auto simp: Let_def)
  next
    case error
    then show ?thesis using "2.prems" q by (auto simp: Let_def)
  qed
qed

text \<open>Progress: a turn that delivers is used up by at most one call of \<^verbatim>\<open>my_read\<close>.\<close>

lemma fill_buf_returns:
  assumes "serves (Suc k) c"
  shows "\<exists>r s' c'. fill_buf s c = Some (r, s', c') \<and> serves k c' \<and> r \<noteq> Some OneError"
  using assms
proof (induction "length (turns c)" arbitrary: s c rule: less_induct)
  case less
  obtain r d where r: "sys_read RL_SIZE c = Some (r, d)" "r \<noteq> ReadError"
      "if r = Interrupted then serves (Suc k) d else serves k d"
    using serves_read [OF less.prems] by blast
  show ?case
  proof (cases "r = Interrupted")
    case True
    then show ?thesis using less.hyps [OF sys_read_turns [OF r(1)], of "s\<lparr>read_cnt := - 1\<rparr>"] r
      by (subst fill_buf.simps) simp
  next
    case False
    then show ?thesis using r by (subst fill_buf.simps) (cases r; auto)
  qed
qed

lemma serves_mono: "serves k c \<Longrightarrow> j \<le> k \<Longrightarrow> serves j c"
  by (simp add: serves_def)

lemma my_read_returns:
  assumes "serves (Suc k) c"
  shows "\<exists>r s' c'. my_read s c = Some (r, s', c') \<and> serves k c' \<and> r \<noteq> OneError"
proof (cases "read_cnt s \<le> 0")
  case True
  obtain r t d where r: "fill_buf s c = Some (r, t, d)" "serves k d" "r \<noteq> Some OneError"
    using fill_buf_returns [OF assms, of s] by blast
  then show ?thesis using True by (cases r) (auto simp: my_read_def next_char_def)
next
  case False
  then show ?thesis using assms serves_mono [of "Suc k" c k] by (auto simp: my_read_def next_char_def)
qed

lemma readline_loop_returns:
  assumes "serves left c"
  shows "\<exists>r x s' c'. readline_loop left n got s c = Some ((r, x), s', c')"
  using assms
proof (induction left arbitrary: n got s c)
  case (Suc left)
  then obtain r t d where r: "my_read s c = Some (r, t, d)" "serves left d" using my_read_returns by blast
  then show ?case using Suc.IH [of d] by (cases r) auto
qed simp

section \<open>Claims\<close>

text \<open>
  \<^verbatim>\<open>readn\<close> gives the next \<open>n\<close> bytes of the stream, fewer only at its end, whatever pieces the
  kernel delivers them in and however often it is interrupted, and leaves the rest unread; without a
  failure, and when the kernel delivers often enough, it returns.
\<close>
theorem readn_exact:
  assumes "serves (Suc n) c"
  shows "\<exists>c'. readn n c = Some ((int (min n (length (pending c))), take n (pending c)), c') \<and> pending c' = drop n (pending c)"
proof -
  obtain x c' where x: "readn_loop n [] c = Some ((int (length x), x), c')" using readn_loop_returns [OF assms] by blast
  moreover have "Fail \<notin> set (turns c)" using assms by (simp add: serves_def)
  ultimately have "x = take n (pending c)" "pending c' = drop n (pending c)" using readn_loop_result [OF x] by auto
  with x show ?thesis by (simp add: readn_def min.commute)
qed

theorem readn_exact_witness:
  "\<exists>c'. readn 4 \<lparr>pending = ''abcdef'', turns = [Deliver 1, Intr, Deliver 9, Deliver 2, Deliver 1, Deliver 1]\<rparr>
     = Some ((4, ''abcd''), c') \<and> pending c' = ''ef''"
  using readn_exact [of 4 "\<lparr>pending = ''abcdef'', turns = [Deliver 1, Intr, Deliver 9, Deliver 2, Deliver 1, Deliver 1]\<rparr>"]
  by (auto simp: serves_def)

text \<open>
  \<^verbatim>\<open>writen\<close> is all or nothing to its caller: it returns the number of bytes exactly when every
  byte has been taken, in order; otherwise it returns -1 and what was taken is a proper beginning.
\<close>
theorem writen_all_or_error:
  assumes "writen b c = Some (r, c')"
  shows "(r = int (length b) \<and> pending c' = pending c @ b) \<or> (r = - 1 \<and> (\<exists>k < length b. pending c' = pending c @ take k b))"
  using writen_loop_result assms by (simp add: writen_def)

theorem writen_all_or_error_witness:
  "\<exists>c'. writen ''abc'' \<lparr>pending = [], turns = [Deliver 1, Intr, Deliver 5]\<rparr> = Some (3, c') \<and> pending c' = ''abc''"
proof -
  let ?c = "\<lparr>pending = [], turns = [Deliver 1, Intr, Deliver 5]\<rparr>"
  obtain c' where c': "writen ''abc'' ?c = Some (3, c')"
    by (simp add: writen_def writen_loop.simps sys_write_def)
  from writen_all_or_error [OF this] c' show ?thesis by auto
qed

text \<open>
  C27. \<^verbatim>\<open>readline\<close> stores the next line of the stream with its newline, or its first \<open>maxlen - 1\<close>
  bytes, and a NUL, whatever pieces the kernel delivers and whatever was read ahead before; nothing
  of the rest is lost. It returns the number of bytes stored, except that a line that does not fit
  is reported one byte longer than what is stored.
\<close>
theorem readline_next_line:
  assumes "rline_ok s" and "serves maxlen c" and "1 \<le> maxlen"
  shows "\<exists>r s' c'. let line = take (maxlen - 1) (first_line (unread s c)) in
    readline maxlen s c = Some ((r, line @ [NUL]), s', c') \<and> rline_ok s' \<and> unread s' c' = drop (length line) (unread s c)
    \<and> r = int (length line) + (if length line = maxlen - 1 \<and> (line = [] \<or> last line \<noteq> CHR 0x0A) then 1 else 0)"
proof -
  have "serves (maxlen - 1) c" using assms(2) by (rule serves_mono) simp
  then obtain r x s' c' where r: "readline_loop (maxlen - 1) 1 [] s c = Some ((r, x), s', c')"
    using readline_loop_returns by blast
  have nofail: "Fail \<notin> set (turns c)" using assms(2) by (simp add: serves_def)
  note res = readline_loop_result [OF r assms(1)]
  have "r \<noteq> - 1" using res nofail by auto
  with res r show ?thesis
    unfolding readline_def Let_def by (intro exI [of _ r] exI [of _ s'] exI [of _ c']) (simp add: Let_def)
qed

theorem readline_next_line_witness:
  "\<exists>s' c'. readline 10 new_rline \<lparr>pending = ''ab'' @ [CHR 0x0A] @ ''cd'', turns = replicate 10 (Deliver 4)\<rparr>
     = Some ((3, ''ab'' @ [CHR 0x0A, NUL]), s', c') \<and> unread s' c' = ''cd''"
proof -
  let ?c = "\<lparr>pending = ''ab'' @ [CHR 0x0A] @ ''cd'', turns = replicate 10 (Deliver 4)\<rparr>"
  have "rline_ok new_rline" "serves 10 ?c" "unread new_rline ?c = ''ab'' @ [CHR 0x0A] @ ''cd''"
    by (simp_all add: rline_ok_def new_rline_def serves_def unread_def buffered_def)
  with readline_next_line [of new_rline 10 ?c] show ?thesis by (auto simp: Let_def)
qed

text \<open>
  Threads do not share what they have read ahead: a call by one thread leaves the buffers of the
  others as they are, and a thread's first call starts with an empty buffer.
\<close>
theorem readline_r_private:
  assumes "readline_r self maxlen tsd c = Some (r, tsd', c')"
  shows "(\<forall>t. t \<noteq> self \<longrightarrow> tsd' t = tsd t)
    \<and> (\<exists>s'. tsd' self = Some s' \<and> readline maxlen (case tsd self of None \<Rightarrow> new_rline | Some s \<Rightarrow> s) c = Some (r, s', c'))"
  using assms by (auto simp: readline_r_def Let_def split: option.splits)

end
