(* ===== verification/StrEcho.thy ===== *)
theory StrEcho
  imports StreamIoProps SockAddr
begin

text \<open>
  The echo service of the book library on its byte streams: \<^verbatim>\<open>str_echo.c\<close> and \<^verbatim>\<open>str_cli.c\<close>, and
  the versions for datagrams, \<^verbatim>\<open>dg_echo.c\<close> and \<^verbatim>\<open>dg_cli.c\<close>. \<open>maxline\<close> is \<^verbatim>\<open>MAXLINE\<close>. The client
  talks to an argument; \<open>echo_peer\<close> is the server at the other end, which reads only what has been
  written to it.
\<close>

section \<open>The server\<close>

text \<open>What has arrived and will arrive on the socket, and what is sent; \<open>None\<close>: a call blocks.\<close>

function str_echo :: "nat \<Rightarrow> chan \<Rightarrow> chan \<Rightarrow> (stop option \<times> chan \<times> chan) option" where
  "str_echo maxline cin cout =
     (case sys_read maxline cin of
        None \<Rightarrow> None
      | Some (Bytes b, cin') \<Rightarrow>
         (case Writen b cout of
            None \<Rightarrow> None
          | Some (Inl (e, cout')) \<Rightarrow> Some (Some e, cin', cout')
          | Some (Inr cout') \<Rightarrow> str_echo maxline cin' cout')
      | Some (Interrupted, cin') \<Rightarrow> str_echo maxline cin' cout
      | Some (ReadError, cin') \<Rightarrow> Some (Some (Exit 1 ''str_echo: read error''), cin', cout)
      | Some (Eof, cin') \<Rightarrow> Some (None, cin', cout))"
  by pat_completeness auto
termination
  by (relation "measure (\<lambda>(_, cin, _). length (turns cin))") (auto simp: sys_read_turns)

declare str_echo.simps [simp del]

section \<open>The client\<close>

text \<open>What the user will type before the end of the input or an error of it.\<close>

record user =
  us_text :: string
  us_error :: bool

definition Fgets :: "nat \<Rightarrow> user \<Rightarrow> stop + (string \<times> user) option" where
  "Fgets n u =
     (if us_text u = [] then (if us_error u then Inl (Exit 1 ''fgets error'') else Inr None)
      else let line = take (n - 1) (first_line (us_text u)) in
           Inr (Some (line, u\<lparr>us_text := drop (length line) (us_text u)\<rparr>)))"

record strcli =
  sc_user :: user
  sc_screen :: string
  sc_rline :: rline
  sc_to :: chan
  sc_from :: chan

text \<open>
  The other side answers what it is sent: \<open>peer w line c\<close> is its state, and the receiving socket with
  what arrives there, after \<open>line\<close> has been written. \<open>put\<close> says whether \<^verbatim>\<open>fputs\<close> succeeds. \<open>None\<close>: a
  call blocks and nothing more arrives.
\<close>

partial_function (option) str_cli ::
  "('w \<Rightarrow> string \<Rightarrow> chan \<Rightarrow> 'w \<times> chan) \<Rightarrow> nat \<Rightarrow> bool \<Rightarrow> 'w \<Rightarrow> strcli \<Rightarrow> strcli outcome option" where
  "str_cli peer maxline put w s =
     (case Fgets maxline (sc_user s) of
        Inl e \<Rightarrow> Some (Inl (e, s))
      | Inr None \<Rightarrow> Some (Inr s)
      | Inr (Some (sendline, u)) \<Rightarrow>
         (case Writen (cstr sendline) (sc_to s) of
            None \<Rightarrow> None
          | Some (Inl (e, c)) \<Rightarrow> Some (Inl (e, s\<lparr>sc_user := u, sc_to := c\<rparr>))
          | Some (Inr c) \<Rightarrow>
             (case peer w (cstr sendline) (sc_from s) of
                (w, from) \<Rightarrow>
             (case Readline maxline (sc_rline s) from of
                None \<Rightarrow> None
              | Some (Inl (e, rl, d)) \<Rightarrow> Some (Inl (e, s\<lparr>sc_user := u, sc_to := c, sc_rline := rl, sc_from := d\<rparr>))
              | Some (Inr ((n, recvline), rl, d)) \<Rightarrow>
                  if n = 0 then
                    Some (Inl (Exit 1 ''str_cli: server terminated prematurely'',
                      s\<lparr>sc_user := u, sc_to := c, sc_rline := rl, sc_from := d\<rparr>))
                  else if \<not> put then
                    Some (Inl (Exit 1 ''fputs error'', s\<lparr>sc_user := u, sc_to := c, sc_rline := rl, sc_from := d\<rparr>))
                  else str_cli peer maxline put w
                    (s\<lparr>sc_user := u, sc_to := c, sc_rline := rl, sc_from := d, sc_screen := sc_screen s @ cstr recvline\<rparr>)))))"

section \<open>Datagrams\<close>

text \<open>
  One pass of \<^verbatim>\<open>dg_echo\<close>: the datagram with its sender (\<open>None\<close>: \<^verbatim>\<open>recvfrom\<close> fails) is cut to
  the buffer and goes back; \<open>sent\<close> says whether \<^verbatim>\<open>sendto\<close> takes all of it.
\<close>

definition dg_echo_pass ::
  "nat \<Rightarrow> (string \<times> sockaddr) option \<times> bool \<Rightarrow> (string \<times> sockaddr) list \<Rightarrow> (string \<times> sockaddr) list outcome" where
  "dg_echo_pass maxline ev out =
     (case ev of (r, sent) \<Rightarrow>
        (case r of
           None \<Rightarrow> Inl (Exit 1 ''recvfrom error'', out)
         | Some (mesg, cli) \<Rightarrow> exit_if (\<not> sent) 1 ''sendto error'' (out @ [(take maxline mesg, cli)])))"

definition dg_echo ::
  "nat \<Rightarrow> ((string \<times> sockaddr) option \<times> bool) list \<Rightarrow> (string \<times> sockaddr) list \<Rightarrow> (string \<times> sockaddr) list outcome" where
  "dg_echo maxline evs out = run_list (dg_echo_pass maxline) evs out"

text \<open>
  \<^verbatim>\<open>dg_cli\<close>, with the datagrams it receives, one for each line; \<open>None\<close>: it waits for one.
\<close>

record dgcli =
  dc_user :: user
  dc_sent :: "string list"
  dc_screen :: string

fun dg_cli :: "nat \<Rightarrow> bool \<Rightarrow> string option list \<Rightarrow> dgcli \<Rightarrow> dgcli outcome option" where
  "dg_cli maxline ok replies s =
     (case Fgets maxline (dc_user s) of
        Inl e \<Rightarrow> Some (Inl (e, s))
      | Inr None \<Rightarrow> Some (Inr s)
      | Inr (Some (sendline, u)) \<Rightarrow>
          let s = s\<lparr>dc_user := u, dc_sent := dc_sent s @ [cstr sendline]\<rparr> in
          if \<not> ok then Some (Inl (Exit 1 ''sendto error'', s))
          else
            (case replies of
               [] \<Rightarrow> None
             | None # rs \<Rightarrow> Some (Inl (Exit 1 ''recvfrom error'', s))
             | Some b # rs \<Rightarrow> dg_cli maxline ok rs (s\<lparr>dc_screen := dc_screen s @ cstr (take maxline b)\<rparr>)))"

declare dg_cli.simps [simp del]

section \<open>Everything comes back\<close>

text \<open>A socket that takes what is written to it, if not always all at once: \<open>n\<close> writes are taken.\<close>

definition accepts :: "nat \<Rightarrow> chan \<Rightarrow> bool" where
  "accepts n c \<longleftrightarrow> Fail \<notin> set (turns c) \<and> Deliver 0 \<notin> set (turns c) \<and> n \<le> length (filter (\<lambda>t. t \<noteq> Intr) (turns c))"

lemma accepts_write:
  assumes "accepts (Suc n) c" and "b \<noteq> []"
  shows "\<exists>r c'. sys_write b c = Some (r, c') \<and> r \<noteq> WriteError
    \<and> (if r = WrInterrupted then accepts (Suc n) c' else accepts n c' \<and> (\<exists>k. r = Taken k \<and> 0 < k))"
proof -
  from assms(1) obtain t ts where t: "turns c = t # ts" by (cases "turns c") (auto simp: accepts_def)
  show ?thesis
  proof (cases t)
    case (Deliver k)
    with assms t have "0 < k" by (cases k) (auto simp: accepts_def)
    with assms t Deliver show ?thesis by (auto simp: accepts_def sys_write_def Let_def)
  qed (use assms t in \<open>auto simp: accepts_def sys_write_def Let_def\<close>)
qed

lemma writen_loop_accepted:
  assumes "accepts (length b + m) c"
  shows "\<exists>c'. writen_loop n b c = Some (n, c') \<and> pending c' = pending c @ b \<and> accepts m c'"
  using assms
proof (induction "length (turns c)" arbitrary: b c rule: less_induct)
  case less
  show ?case
  proof (cases "b = []")
    case True
    with less.prems show ?thesis by (subst writen_loop.simps) simp
  next
    case False
    then obtain j where j: "length b + m = Suc j" by (cases b) auto
    obtain r d where r: "sys_write b c = Some (r, d)" "r \<noteq> WriteError"
        "if r = WrInterrupted then accepts (Suc j) d else accepts j d \<and> (\<exists>k. r = Taken k \<and> 0 < k)"
      using accepts_write [OF _ False, of j c] less.prems by (auto simp: j)
    note IH = less.hyps [OF sys_write_turns [OF r(1)]]
    from r(1) show ?thesis
    proof (cases rule: sys_write_cases)
      case (taken k)
      then have "0 < k" using r(3) by simp
      then have "accepts (length (drop k b) + m) d" using r(3) taken j by (auto simp: accepts_def)
      from IH [OF this] obtain c' where "writen_loop n (drop k b) d = Some (n, c')" "pending c' = pending c @ b" "accepts m c'"
        using taken by auto
      with r(1) taken False \<open>0 < k\<close> show ?thesis by (subst writen_loop.simps) simp
    next
      case intr
      with r(3) have "accepts (length b + m) d" by (simp add: j)
      from IH [OF this] intr r(1) False show ?thesis by (subst writen_loop.simps) simp
    next
      case error
      with r(2) show ?thesis by simp
    qed
  qed
qed

lemma Writen_accepted:
  assumes "accepts (length b + m) c"
  shows "\<exists>c'. Writen b c = Some (Inr c') \<and> pending c' = pending c @ b \<and> accepts m c'"
  using writen_loop_accepted [OF assms, of "int (length b)"] by (auto simp: Writen_def writen_def)

lemma Writen_result:
  assumes "Writen b c = Some r"
  shows "case r of Inl (e, c') \<Rightarrow> \<exists>k. pending c' = pending c @ take k b | Inr c' \<Rightarrow> pending c' = pending c @ b"
proof -
  obtain n c' where w: "writen b c = Some (n, c')" using assms by (auto simp: Writen_def split: option.splits)
  then have "(n = int (length b) \<and> pending c' = pending c @ b) \<or> (n = - 1 \<and> (\<exists>k < length b. pending c' = pending c @ take k b))"
    using writen_loop_result by (simp add: writen_def)
  with w assms show ?thesis by (auto simp: Writen_def split: if_splits)
qed

text \<open>The server sends back a beginning of what it reads, and all of it when the stream ends.\<close>

lemma str_echo_result:
  assumes "str_echo maxline cin cout = Some (r, cin', cout')" and "0 < maxline"
  shows "(\<exists>k. pending cout' = pending cout @ take k (pending cin)) \<and> (r = None \<longrightarrow> pending cout' = pending cout @ pending cin)"
  using assms(1)
proof (induction "length (turns cin)" arbitrary: cin cout rule: less_induct)
  case less
  obtain q d where q: "sys_read maxline cin = Some (q, d)"
    using less.prems by (subst (asm) str_echo.simps) (auto split: option.splits)
  note IH = less.hyps [OF sys_read_turns [OF q]]
  from q assms(2) show ?case
  proof (cases rule: sys_read_cases)
    case (bytes b)
    then obtain w where w: "Writen b cout = Some w" using less.prems q by (subst (asm) str_echo.simps) (auto split: option.splits)
    show ?thesis
    proof (cases w)
      case (Inl x)
      then obtain e c where x: "w = Inl (e, c)" by (cases x) auto
      then obtain k where "pending c = pending cout @ take k b" using Writen_result [OF w] by auto
      then have k: "pending c = pending cout @ take (min k (length b)) (pending cin)" by (simp add: bytes(4) min_def)
      have "r = Some e" "cout' = c" using less.prems q bytes w x by (subst (asm) str_echo.simps, simp)+
      with k show ?thesis by blast
    next
      case (Inr c)
      then have "pending c = pending cout @ b" using Writen_result [OF w] by simp
      moreover have "str_echo maxline d c = Some (r, cin', cout')"
        using less.prems q bytes w Inr by (subst (asm) str_echo.simps) simp
      from IH [OF this] obtain j where "pending cout' = pending c @ take j (pending d)"
        "r = None \<longrightarrow> pending cout' = pending c @ pending d" by blast
      ultimately show ?thesis using bytes(4) by (auto intro: exI [of _ "length b + j"])
    qed
  next
    case eof
    then show ?thesis using less.prems q by (subst (asm) str_echo.simps) auto
  next
    case intr
    then have "str_echo maxline d cout = Some (r, cin', cout')" using less.prems q by (subst (asm) str_echo.simps) simp
    from IH [OF this] intr show ?thesis by simp
  next
    case error
    then show ?thesis using less.prems q by (subst (asm) str_echo.simps) (auto intro: exI [of _ 0])
  qed
qed

lemma str_echo_ends:
  assumes "serves (Suc (length (pending cin))) cin" and "accepts (length (pending cin)) cout" and "0 < maxline"
  shows "\<exists>cin' cout'. str_echo maxline cin cout = Some (None, cin', cout')"
  using assms(1,2)
proof (induction "length (turns cin)" arbitrary: cin cout rule: less_induct)
  case less
  obtain r d where r: "sys_read maxline cin = Some (r, d)" "r \<noteq> ReadError"
      "if r = Interrupted then serves (Suc (length (pending cin))) d else serves (length (pending cin)) d"
    using serves_read [OF less.prems(1)] by blast
  note IH = less.hyps [OF sys_read_turns [OF r(1)]]
  from r(1) assms(3) show ?case
  proof (cases rule: sys_read_cases)
    case (bytes b)
    then have "accepts (length b + length (pending d)) cout" using less.prems(2) by simp
    from Writen_accepted [OF this] obtain c where c: "Writen b cout = Some (Inr c)" "accepts (length (pending d)) c" by blast
    moreover have "serves (Suc (length (pending d))) d"
      using r(3) bytes by (auto simp: Suc_le_eq intro: serves_mono)
    ultimately show ?thesis using IH [of c] r(1) bytes by (subst str_echo.simps) simp
  next
    case intr
    with r(3) less.prems(2) IH [of cout] r(1) show ?thesis by (subst str_echo.simps) simp
  qed (use r in \<open>subst str_echo.simps, simp\<close>)+
qed

text \<open>
  The echo server of the library sends back exactly what it receives, in order, however the
  kernel cuts what is read and written and however often it is interrupted, and ends when the stream
  does.
\<close>
theorem str_echo_returns_all:
  assumes "serves (Suc (length (pending cin))) cin" and "accepts (length (pending cin)) cout" and "0 < maxline"
  shows "\<exists>cin' cout'. str_echo maxline cin cout = Some (None, cin', cout') \<and> pending cout' = pending cout @ pending cin"
  using str_echo_ends [OF assms] str_echo_result [OF _ assms(3)] by blast

theorem str_echo_returns_all_witness:
  "\<exists>cin' cout'. str_echo 2 \<lparr>pending = ''abc'', turns = [Deliver 2, Intr, Deliver 9, Deliver 1, Deliver 1]\<rparr>
      \<lparr>pending = [], turns = [Deliver 1, Deliver 1, Intr, Deliver 7]\<rparr> = Some (None, cin', cout') \<and> pending cout' = ''abc''"
  using str_echo_returns_all [of "\<lparr>pending = ''abc'', turns = [Deliver 2, Intr, Deliver 9, Deliver 1, Deliver 1]\<rparr>"
      "\<lparr>pending = [], turns = [Deliver 1, Deliver 1, Intr, Deliver 7]\<rparr>" 2]
  by (simp add: serves_def accepts_def)

section \<open>A conversation\<close>

text \<open>
  The server up to where it waits for more: what it ended with, if it did, and its two sockets.
  \<open>None\<close>: a write blocks.
\<close>

function echo_until_wait :: "nat \<Rightarrow> chan \<Rightarrow> chan \<Rightarrow> (stop option option \<times> chan \<times> chan) option" where
  "echo_until_wait maxline cin cout =
     (case sys_read maxline cin of
        None \<Rightarrow> Some (None, cin, cout)
      | Some (Bytes b, cin') \<Rightarrow>
         (case Writen b cout of
            None \<Rightarrow> None
          | Some (Inl (e, cout')) \<Rightarrow> Some (Some (Some e), cin', cout')
          | Some (Inr cout') \<Rightarrow> echo_until_wait maxline cin' cout')
      | Some (Interrupted, cin') \<Rightarrow> echo_until_wait maxline cin' cout
      | Some (ReadError, cin') \<Rightarrow> Some (Some (Some (Exit 1 ''str_echo: read error'')), cin', cout)
      | Some (Eof, cin') \<Rightarrow> Some (Some None, cin', cout))"
  by pat_completeness auto
termination
  by (relation "measure (\<lambda>(_, cin, _). length (turns cin))") (auto simp: sys_read_turns)

declare echo_until_wait.simps [simp del]

text \<open>It is the loop of \<open>str_echo\<close>, with the sockets it waits with.\<close>

lemma str_echo_until_wait:
  "str_echo maxline cin cout = (case echo_until_wait maxline cin cout of Some (Some r, c) \<Rightarrow> Some (r, c) | _ \<Rightarrow> None)"
proof (induction maxline cin cout rule: str_echo.induct)
  case (1 maxline cin cout)
  show ?case
    by (subst str_echo.simps, subst echo_until_wait.simps) (auto simp: 1 split: option.split rd.split sum.split)
qed

text \<open>
  The echo server at the other end of a connection: its receiving socket and, for each line it is
  sent, the turns of its reads and of its writes and those in which the answer arrives. A server
  that has ended or is blocked in a write sends nothing more.
\<close>

definition echo_peer ::
  "nat \<Rightarrow> chan \<times> (turn list \<times> turn list \<times> turn list) list \<Rightarrow> string \<Rightarrow> chan
    \<Rightarrow> (chan \<times> (turn list \<times> turn list \<times> turn list) list) \<times> chan" where
  "echo_peer maxline w line c =
     (case w of
        (cin, []) \<Rightarrow> ((cin\<lparr>pending := pending cin @ line\<rparr>, []), c)
      | (cin, (rs, wr, ds) # ws) \<Rightarrow>
          let cin = cin\<lparr>pending := pending cin @ line, turns := turns cin @ rs\<rparr> in
          (case echo_until_wait maxline cin \<lparr>pending = [], turns = wr\<rparr> of
             None \<Rightarrow> ((cin, []), c)
           | Some (r, cin', out) \<Rightarrow>
               ((cin', if r = None then ws else []), c\<lparr>pending := pending c @ pending out, turns := turns c @ ds\<rparr>)))"

text \<open>
  Turns that give exactly the \<open>n\<close> bytes that are there, in pieces of at most \<open>m\<close>, and then leave
  the reader waiting: the connection stays open.
\<close>

fun cuts :: "nat \<Rightarrow> nat \<Rightarrow> turn list \<Rightarrow> bool" where
  "cuts m n [] \<longleftrightarrow> n = 0"
| "cuts m n (Intr # ts) \<longleftrightarrow> cuts m n ts"
| "cuts m n (Fail # ts) \<longleftrightarrow> False"
| "cuts m n (Deliver k # ts) \<longleftrightarrow> 0 < k \<and> k \<le> m \<and> k \<le> n \<and> cuts m (n - k) ts"

abbreviation waits :: "nat \<Rightarrow> chan \<Rightarrow> bool" where
  "waits m c \<equiv> cuts m (length (pending c)) (turns c)"

lemma cuts_append: "cuts m n ts \<Longrightarrow> cuts m n' ts' \<Longrightarrow> cuts m (n + n') (ts @ ts')"
  by (induction m n ts rule: cuts.induct) auto

lemma cuts_no_fail: "cuts m n ts \<Longrightarrow> Fail \<notin> set ts"
  by (induction m n ts rule: cuts.induct) auto

lemma waits_read:
  assumes "waits m c"
  obtains (idle) "turns c = []" "pending c = []" "sys_read m c = None"
  | (intr) d where "sys_read m c = Some (Interrupted, d)" "waits m d" "pending d = pending c" "length (turns d) < length (turns c)"
  | (bytes) b d where "sys_read m c = Some (Bytes b, d)" "pending c = b @ pending d" "b \<noteq> []" "waits m d"
      "length (turns d) < length (turns c)"
proof (cases "turns c")
  case Nil
  with assms show thesis by (intro idle) (auto simp: sys_read_def)
next
  case (Cons t ts)
  show thesis
  proof (cases t)
    case (Deliver k)
    with Cons assms show thesis
      by (intro bytes [of "take k (pending c)" "c\<lparr>pending := drop k (pending c), turns := ts\<rparr>"])
        (auto simp: sys_read_def Let_def max_def min_def)
  next
    case Intr
    with Cons assms show thesis by (intro intr [of "c\<lparr>turns := ts\<rparr>"]) (auto simp: sys_read_def)
  next
    case Fail
    with Cons assms show thesis by simp
  qed
qed

text \<open>The server gives back what has arrived and waits.\<close>

lemma echo_gives_back:
  assumes "waits maxline cin" and "accepts (length (pending cin)) cout"
  shows "\<exists>cin' cout'. echo_until_wait maxline cin cout = Some (None, cin', cout') \<and> pending cin' = [] \<and> turns cin' = []
    \<and> pending cout' = pending cout @ pending cin"
  using assms
proof (induction "length (turns cin)" arbitrary: cin cout rule: less_induct)
  case less
  from less.prems(1) show ?case
  proof (cases rule: waits_read)
    case idle
    then show ?thesis by (subst echo_until_wait.simps) simp
  next
    case (intr d)
    with less.hyps [of d cout] less.prems(2) show ?thesis by (subst echo_until_wait.simps) simp
  next
    case (bytes b d)
    then have "accepts (length b + length (pending d)) cout" using less.prems(2) by simp
    from Writen_accepted [OF this] obtain c where c: "Writen b cout = Some (Inr c)" "pending c = pending cout @ b"
      "accepts (length (pending d)) c" by blast
    from less.hyps [OF bytes(5,4) c(3)] c bytes show ?thesis by (subst echo_until_wait.simps) auto
  qed
qed

text \<open>The client has what is unread, and waits when there is nothing.\<close>

lemma fill_buf_waits:
  assumes "waits RL_SIZE c"
  shows "if pending c = [] then fill_buf s c = None else \<exists>s' c'. fill_buf s c = Some (None, s', c') \<and> waits RL_SIZE c'"
  using assms
proof (induction "length (turns c)" arbitrary: s c rule: less_induct)
  case less
  from less.prems show ?case
  proof (cases rule: waits_read)
    case (intr d)
    with less.hyps [of d "s\<lparr>read_cnt := - 1\<rparr>"] show ?thesis by (subst (1 2) fill_buf.simps) simp
  qed (subst (1 2) fill_buf.simps, simp)+
qed

lemma my_read_waits:
  assumes "waits RL_SIZE c" and "rline_ok s"
  shows "case unread s c of
      [] \<Rightarrow> my_read s c = None
    | ch # u \<Rightarrow> \<exists>s' c'. my_read s c = Some (OneChar ch, s', c') \<and> rline_ok s' \<and> unread s' c' = u \<and> waits RL_SIZE c'"
proof (cases "unread s c")
  case Nil
  then have c: "pending c = []" and s: "buffered s = []" by (auto simp: unread_def)
  have "read_cnt s \<le> 0" using s assms(2) by (auto simp: buffered_def rline_ok_def)
  then show ?thesis using Nil fill_buf_waits [OF assms(1), of s] c by (simp add: my_read_def)
next
  case (Cons ch u)
  have "\<exists>r s' c'. my_read s c = Some (r, s', c') \<and> waits RL_SIZE c'"
  proof (cases "read_cnt s \<le> 0")
    case True
    then have "pending c \<noteq> []" using Cons by (simp add: unread_def buffered_empty)
    then show ?thesis using True fill_buf_waits [OF assms(1), of s] by (auto simp: my_read_def split: prod.splits)
  qed (use assms(1) in \<open>auto simp: my_read_def split: prod.splits\<close>)
  then obtain r s' c' where r: "my_read s c = Some (r, s', c')" "waits RL_SIZE c'" by blast
  from r(1) assms(2) show ?thesis
    by (cases rule: my_read_cases) (use r Cons cuts_no_fail [OF assms(1)] in auto)
qed

text \<open>A line that ends with a newline, or is as long as fits.\<close>

definition whole :: "nat \<Rightarrow> string \<Rightarrow> bool" where
  "whole n l \<longleftrightarrow> n \<le> length l \<or> (l \<noteq> [] \<and> last l = CHR 0x0A)"

lemma readline_loop_waits:
  assumes "waits RL_SIZE c" and "rline_ok s"
  shows "if whole left (first_line (unread s c))
    then \<exists>r x s' c'. readline_loop left n got s c = Some ((r, x), s', c') \<and> waits RL_SIZE c'
    else readline_loop left n got s c = None"
  using assms
proof (induction left arbitrary: n got s c)
  case 0
  then show ?case by (simp add: whole_def)
next
  case (Suc left)
  show ?case
  proof (cases "unread s c")
    case Nil
    then show ?thesis using my_read_waits [OF Suc.prems] by (simp add: whole_def)
  next
    case (Cons ch u)
    then obtain s' c' where m: "my_read s c = Some (OneChar ch, s', c')" "rline_ok s'" "unread s' c' = u" "waits RL_SIZE c'"
      using my_read_waits [OF Suc.prems] by auto
    have "whole (Suc left) (ch # first_line u) \<longleftrightarrow> whole left (first_line u)" if "ch \<noteq> CHR 0x0A"
      using that by (auto simp: whole_def)
    then show ?thesis using Suc.IH [OF m(4,2), of "n + 1" "got @ [ch]"] m Cons by (auto simp: whole_def)
  qed
qed

lemma Readline_waits:
  assumes "waits RL_SIZE c" and "rline_ok s" and "2 \<le> maxlen" and "unread s c = line" and "first_line line = line"
    and "line \<noteq> []" and "length line < maxlen"
  shows "if whole (maxlen - 1) line
    then \<exists>r s' c'. Readline maxlen s c = Some (Inr ((r, line @ [NUL]), s', c')) \<and> 0 < r
      \<and> rline_ok s' \<and> unread s' c' = [] \<and> waits RL_SIZE c'
    else Readline maxlen s c = None"
proof (cases "whole (maxlen - 1) line")
  case False
  then show ?thesis using readline_loop_waits [OF assms(1,2), of "maxlen - 1" 1 "[]"] assms(4,5)
    by (simp add: Readline_def readline_def)
next
  case True
  then obtain r x s' c' where r: "readline_loop (maxlen - 1) 1 [] s c = Some ((r, x), s', c')" "waits RL_SIZE c'"
    using readline_loop_waits [OF assms(1,2), of "maxlen - 1" 1 "[]"] assms(4,5) by auto
  moreover have "Fail \<notin> set (turns c)" using cuts_no_fail [OF assms(1)] .
  moreover have "take (maxlen - 1) line = line" "0 < length line" using assms(6,7) by auto
  ultimately show ?thesis using readline_loop_result [OF r(1) assms(2)] True assms(4,5)
    by (auto simp: Readline_def readline_def Let_def split: if_splits)
qed

section \<open>A session of the client\<close>

lemma first_line_nil [simp]: "first_line s = [] \<longleftrightarrow> s = []"
  by (cases s) auto

text \<open>The lines \<^verbatim>\<open>Fgets\<close> gives.\<close>

function fgets_lines :: "nat \<Rightarrow> string \<Rightarrow> string list" where
  "fgets_lines n t =
     (if n < 2 \<or> t = [] then []
      else let l = take (n - 1) (first_line t) in l # fgets_lines n (drop (length l) t))"
  by pat_completeness auto
termination
  by (relation "measure (\<lambda>(_, t). length t)") auto

declare fgets_lines.simps [simp del]

lemma first_line_take: "take (length (take n (first_line s))) s = take n (first_line s)"
proof -
  have "\<exists>t. s = first_line s @ t" by (induction s) auto
  then obtain t where "s = first_line s @ t" ..
  then show ?thesis by (metis append_take_drop_id append_assoc append_eq_conv_conj)
qed

lemma first_line_of_line: "first_line (take n (first_line s)) = take n (first_line s)"
  by (induction s arbitrary: n) (auto simp: take_Cons' split: if_splits)

text \<open>The turns for a line of some length: the server's reads and writes, and the client's reads.\<close>

definition turns_for :: "nat \<Rightarrow> turn list \<times> turn list \<times> turn list \<Rightarrow> string \<Rightarrow> bool" where
  "turns_for maxline p l = (case p of (rs, wr, ds) \<Rightarrow>
     cuts maxline (length l) rs \<and> accepts (length l) \<lparr>pending = [], turns = wr\<rparr> \<and> cuts RL_SIZE (length l) ds)"

definition echo_start :: "(turn list \<times> turn list \<times> turn list) list \<Rightarrow> chan \<times> (turn list \<times> turn list \<times> turn list) list" where
  "echo_start ws = (\<lparr>pending = [], turns = []\<rparr>, ws)"

lemma echo_peer_answers:
  assumes "turns_for maxline p l" and "waits RL_SIZE c"
  shows "\<exists>c'. echo_peer maxline (echo_start (p # ws)) l c = (echo_start ws, c') \<and> pending c' = pending c @ l \<and> waits RL_SIZE c'"
proof -
  obtain rs wr ds where p: "p = (rs, wr, ds)" by (cases p)
  then have ds: "waits maxline \<lparr>pending = l, turns = rs\<rparr>" "accepts (length l) \<lparr>pending = [], turns = wr\<rparr>"
      "cuts RL_SIZE (length l) ds"
    using assms(1) by (auto simp: turns_for_def)
  from echo_gives_back [OF ds(1), of "\<lparr>pending = [], turns = wr\<rparr>"] ds(2) obtain cin' cout' where
    "echo_until_wait maxline \<lparr>pending = l, turns = rs\<rparr> \<lparr>pending = [], turns = wr\<rparr> = Some (None, cin', cout')"
    "pending cin' = []" "turns cin' = []" "pending cout' = l" by auto
  then show ?thesis using cuts_append [OF assms(2) ds(3)] p
    by (cases cin') (auto simp: echo_peer_def echo_start_def)
qed

lemma str_cli_session:
  assumes "\<not> us_error (sc_user s)" and "NUL \<notin> set (us_text (sc_user s))" and "2 \<le> maxline"
    and "rline_ok (sc_rline s)" and "unread (sc_rline s) (sc_from s) = []" and "waits RL_SIZE (sc_from s)"
    and "list_all2 (turns_for maxline) ws (fgets_lines maxline (us_text (sc_user s)))"
    and "accepts (length (us_text (sc_user s))) (sc_to s)"
  shows "if list_all (whole (maxline - 1)) (fgets_lines maxline (us_text (sc_user s)))
    then \<exists>s'. str_cli (echo_peer maxline) maxline True (echo_start ws) s = Some (Inr s')
      \<and> sc_screen s' = sc_screen s @ us_text (sc_user s) \<and> pending (sc_to s') = pending (sc_to s) @ us_text (sc_user s)
    else str_cli (echo_peer maxline) maxline True (echo_start ws) s = None"
  using assms
proof (induction "length (us_text (sc_user s))" arbitrary: s ws rule: less_induct)
  case less
  let ?text = "us_text (sc_user s)"
  show ?case
  proof (cases "?text = []")
    case True
    then show ?thesis by (subst str_cli.simps, subst fgets_lines.simps) (simp add: Fgets_def less.prems(1))
  next
    case False
    define line where "line = take (maxline - 1) (first_line ?text)"
    have line: "take (length line) ?text = line" by (simp add: line_def first_line_take del: length_take)
    have pos: "line \<noteq> []" "length line < maxline" using False less.prems(3) by (cases ?text; auto simp: line_def)+
    have nul: "NUL \<notin> set line" using less.prems(2) set_take_subset [of "length line" ?text] by (auto simp: line)
    define u where "u = (sc_user s)\<lparr>us_text := drop (length line) ?text\<rparr>"
    have u: "Fgets maxline (sc_user s) = Inr (Some (line, u))" using False by (simp add: Fgets_def u_def line_def)
    have whole: "?text = line @ us_text u" using append_take_drop_id [of "length line" ?text] by (simp add: u_def line)
    have lines: "fgets_lines maxline ?text = line # fgets_lines maxline (us_text u)"
      using False less.prems(3) by (subst fgets_lines.simps) (simp add: Let_def line_def u_def)
    then obtain p ws' where ws: "ws = p # ws'" "turns_for maxline p line"
        "list_all2 (turns_for maxline) ws' (fgets_lines maxline (us_text u))"
      using less.prems(7) by (auto simp: list_all2_Cons2)
    have "accepts (length line + length (us_text u)) (sc_to s)" using less.prems(8) by (simp add: whole)
    then obtain c where c: "Writen line (sc_to s) = Some (Inr c)" "pending c = pending (sc_to s) @ line" "accepts (length (us_text u)) c"
      using Writen_accepted by blast
    obtain d where d: "echo_peer maxline (echo_start ws) line (sc_from s) = (echo_start ws', d)"
        "pending d = pending (sc_from s) @ line" "waits RL_SIZE d"
      using echo_peer_answers [OF ws(2) less.prems(6)] ws(1) by blast
    have "unread (sc_rline s) d = line" using less.prems(5) d(2) by (simp add: unread_def)
    note R = Readline_waits [OF d(3) less.prems(4,3) this _ pos]
    have "first_line line = line" by (simp add: line_def first_line_of_line)
    note R = R [OF this]
    have cs: "cstr line = line" "cstr (line @ [NUL]) = line" using nul by (simp_all add: cstr_no_nul cstr_append_nul)
    show ?thesis
    proof (cases "whole (maxline - 1) line")
      case False
      with R u c d cs lines show ?thesis by (subst str_cli.simps) simp
    next
      case True
      with R obtain r rl e where e: "Readline maxline (sc_rline s) d = Some (Inr ((r, line @ [NUL]), rl, e))" "0 < r"
        "rline_ok rl" "unread rl e = []" "waits RL_SIZE e" by auto
      let ?s = "s\<lparr>sc_user := u, sc_to := c, sc_rline := rl, sc_from := e, sc_screen := sc_screen s @ line\<rparr>"
      have go: "str_cli (echo_peer maxline) maxline True (echo_start ws) s
          = str_cli (echo_peer maxline) maxline True (echo_start ws') ?s"
        using u c d e cs by (subst str_cli.simps) simp
      have "length (us_text (sc_user ?s)) < length ?text" "\<not> us_error (sc_user ?s)" "NUL \<notin> set (us_text (sc_user ?s))"
        using pos less.prems(1,2) by (auto simp: whole) (simp add: u_def)
      note IH = less.hyps [OF this(1-3) less.prems(3), of ws']
      have "if list_all (whole (maxline - 1)) (fgets_lines maxline (us_text u))
        then \<exists>s'. str_cli (echo_peer maxline) maxline True (echo_start ws') ?s = Some (Inr s')
          \<and> sc_screen s' = sc_screen s @ line @ us_text u \<and> pending (sc_to s') = pending (sc_to s) @ line @ us_text u
        else str_cli (echo_peer maxline) maxline True (echo_start ws') ?s = None"
        using IH e c ws(3) by (simp cong: if_cong)
      moreover have "list_all (whole (maxline - 1)) (fgets_lines maxline ?text)
          \<longleftrightarrow> list_all (whole (maxline - 1)) (fgets_lines maxline (us_text u))"
        using True by (simp add: lines)
      ultimately show ?thesis unfolding go using whole by simp
    qed
  qed
qed

text \<open>A text that ends with a newline has whole lines only.\<close>

lemma newline_ends_lines:
  assumes "t = [] \<or> last t = CHR 0x0A"
  shows "list_all (whole (n - 1)) (fgets_lines n t)"
  using assms
proof (induction n t rule: fgets_lines.induct)
  case (1 n t)
  show ?case
  proof (cases "n < 2 \<or> t = []")
    case True
    then show ?thesis by (subst fgets_lines.simps) simp
  next
    case False
    let ?l = "take (n - 1) (first_line t)"
    have "last (first_line t) = CHR 0x0A" if "t \<noteq> []" "last t = CHR 0x0A" using that by (induction t) auto
    then have "whole (n - 1) ?l" using False "1.prems" by (cases t) (auto simp: whole_def min_def)
    moreover have "list_all (whole (n - 1)) (fgets_lines n (drop (length ?l) t))"
      using "1.IH" [OF False refl] "1.prems" False by (cases "drop (length ?l) t = []") (auto simp: last_drop)
    ultimately show ?thesis using False by (subst fgets_lines.simps) (simp add: Let_def)
  qed
qed

text \<open>
  C28. Talking to the library's echo server, which answers only what it has been sent and keeps the
  connection open, the client shows the user exactly what was typed and sends exactly that, line by
  line, lines longer than the buffer included, whatever pieces the calls read and write, and ends
  with the user's input - when every line that \<^verbatim>\<open>fgets\<close> gives ends with a newline or fills its buffer,
  so whenever the text ends with a newline. When the last line does not, the client waits for ever
  for the newline. No call fails and the text has no NUL in it.
\<close>
theorem str_cli_shows_input:
  assumes "\<not> us_error (sc_user s)" and "NUL \<notin> set (us_text (sc_user s))" and "2 \<le> maxline"
    and "sc_rline s = new_rline" and "sc_from s = \<lparr>pending = [], turns = []\<rparr>"
    and "list_all2 (turns_for maxline) ws (fgets_lines maxline (us_text (sc_user s)))"
    and "accepts (length (us_text (sc_user s))) (sc_to s)"
  shows "if list_all (whole (maxline - 1)) (fgets_lines maxline (us_text (sc_user s)))
    then \<exists>s'. str_cli (echo_peer maxline) maxline True (echo_start ws) s = Some (Inr s')
      \<and> sc_screen s' = sc_screen s @ us_text (sc_user s) \<and> pending (sc_to s') = pending (sc_to s) @ us_text (sc_user s)
    else str_cli (echo_peer maxline) maxline True (echo_start ws) s = None"
proof -
  have "rline_ok (sc_rline s)" "unread (sc_rline s) (sc_from s) = []" "waits RL_SIZE (sc_from s)"
    by (simp_all add: assms(4,5) rline_ok_def new_rline_def unread_def buffered_def)
  from str_cli_session [OF assms(1-3) this assms(6,7)] show ?thesis .
qed

text \<open>Three lines of a buffer of three bytes, and a text without a newline.\<close>

definition example_session :: "string \<Rightarrow> strcli" where
  "example_session t = \<lparr>sc_user = \<lparr>us_text = t, us_error = False\<rparr>, sc_screen = [], sc_rline = new_rline,
     sc_to = \<lparr>pending = [], turns = replicate 9 (Deliver 2)\<rparr>, sc_from = \<lparr>pending = [], turns = []\<rparr>\<rparr>"

definition example_turns :: "turn list \<times> turn list \<times> turn list" where
  "example_turns = ([Deliver 1, Intr, Deliver 1], [Deliver 1, Intr, Deliver 1], [Deliver 2])"

lemma example_lines:
  "fgets_lines 3 (''hello'' @ [CHR 0x0A]) = [''he'', ''ll'', ''o'' @ [CHR 0x0A]]" "fgets_lines 4 ''ab'' = [''ab'']"
  by code_simp+

theorem str_cli_shows_input_witness:
  "(\<exists>s'. str_cli (echo_peer 3) 3 True (echo_start [example_turns, example_turns, example_turns])
        (example_session (''hello'' @ [CHR 0x0A])) = Some (Inr s') \<and> sc_screen s' = ''hello'' @ [CHR 0x0A])
     \<and> str_cli (echo_peer 4) 4 True (echo_start [example_turns]) (example_session ''ab'') = None"
  using str_cli_shows_input [of "example_session (''hello'' @ [CHR 0x0A])" 3 "[example_turns, example_turns, example_turns]"]
    str_cli_shows_input [of "example_session ''ab''" 4 "[example_turns]"]
  by (auto simp: example_session_def example_turns_def turns_for_def accepts_def example_lines [simplified] whole_def RL_SIZE_def)

text \<open>The server for datagrams sends each one back to where it came from, cut to its buffer.\<close>

theorem dg_echo_answers:
  assumes "\<forall>ev \<in> set evs. fst ev \<noteq> None \<and> snd ev"
  shows "dg_echo maxline evs out = Inr (out @ map ((\<lambda>(mesg, cli). (take maxline mesg, cli)) \<circ> the \<circ> fst) evs)"
  using assms unfolding dg_echo_def
  by (induction evs arbitrary: out) (auto simp: dg_echo_pass_def)

end
