(* ===== verification/Connect.thy ===== *)
theory Connect
  imports SockAddr
begin

text \<open>
  How the book library finds an address that works (\<^verbatim>\<open>tcp_connect.c\<close>, \<^verbatim>\<open>tcp_listen.c\<close>,
  \<^verbatim>\<open>udp_client.c\<close>, \<^verbatim>\<open>udp_connect.c\<close>, \<^verbatim>\<open>udp_server.c\<close>) and how it waits for a connection with
  a time limit (\<^verbatim>\<open>connect_nonb.c\<close>, \<^verbatim>\<open>connect_timeo.c\<close>).
\<close>

section \<open>Sockets\<close>

datatype socktype = SOCK_STREAM | SOCK_DGRAM

record socket =
  so_type :: socktype
  so_local :: "sockaddr option"
  so_peer :: "sockaddr option"
  so_reuseaddr :: bool
  so_listening :: bool

type_synonym fds = "nat \<rightharpoonup> socket"

definition new_socket :: "socktype \<Rightarrow> socket" where
  "new_socket t = \<lparr>so_type = t, so_local = None, so_peer = None, so_reuseaddr = False, so_listening = False\<rparr>"

text \<open>
  An element of the list of \<^verbatim>\<open>getaddrinfo\<close> with what the calls made for it return: the descriptor
  of \<^verbatim>\<open>socket\<close>, and whether \<^verbatim>\<open>setsockopt\<close>, \<^verbatim>\<open>connect\<close> or \<^verbatim>\<open>bind\<close>, and \<^verbatim>\<open>close\<close>
  succeed.
\<close>

record attempt =
  ai_addr :: sockaddr
  ai_addrlen :: nat
  at_socket :: "nat option"
  at_setsockopt :: bool
  at_call :: bool
  at_close :: bool

text \<open>What is passed to \<^verbatim>\<open>getaddrinfo\<close>; its answer is the list or the text of an error.\<close>

record hints =
  ai_passive :: bool
  ai_socktype :: socktype

type_synonym resolver = "string \<Rightarrow> string \<Rightarrow> hints \<Rightarrow> string + attempt list"

section \<open>The loops over the addresses\<close>

text \<open>\<^verbatim>\<open>Close\<close> ends the process when \<^verbatim>\<open>close\<close> fails.\<close>

definition Close :: "attempt \<Rightarrow> nat \<Rightarrow> fds \<Rightarrow> fds outcome" where
  "Close a fd s = exit_if (\<not> at_close a) 1 ''close error'' (s(fd := None))"

text \<open>One pass of each loop: \<open>Some\<close> descriptor is the \<^verbatim>\<open>break\<close>, \<open>None\<close> goes on.\<close>

definition connect_pass :: "socktype \<Rightarrow> attempt \<Rightarrow> fds \<Rightarrow> (stop \<times> fds) + nat option \<times> fds" where
  "connect_pass t a s =
     (case at_socket a of
        None \<Rightarrow> Inr (None, s)
      | Some sockfd \<Rightarrow>
          let s = s(sockfd \<mapsto> new_socket t) in
          if at_call a then Inr (Some sockfd, s(sockfd \<mapsto> (new_socket t)\<lparr>so_peer := Some (ai_addr a)\<rparr>))
          else bindr (Close a sockfd s) (\<lambda>s. Inr (None, s)))"

definition socket_pass :: "attempt \<Rightarrow> fds \<Rightarrow> (stop \<times> fds) + nat option \<times> fds" where
  "socket_pass a s =
     (case at_socket a of
        None \<Rightarrow> Inr (None, s)
      | Some sockfd \<Rightarrow> Inr (Some sockfd, s(sockfd \<mapsto> new_socket SOCK_DGRAM)))"

definition bind_pass :: "attempt \<Rightarrow> fds \<Rightarrow> (stop \<times> fds) + nat option \<times> fds" where
  "bind_pass a s =
     (case at_socket a of
        None \<Rightarrow> Inr (None, s)
      | Some sockfd \<Rightarrow>
          let s = s(sockfd \<mapsto> new_socket SOCK_DGRAM) in
          if at_call a then Inr (Some sockfd, s(sockfd \<mapsto> (new_socket SOCK_DGRAM)\<lparr>so_local := Some (ai_addr a)\<rparr>))
          else bindr (Close a sockfd s) (\<lambda>s. Inr (None, s)))"

definition listen_pass_tcp :: "attempt \<Rightarrow> fds \<Rightarrow> (stop \<times> fds) + nat option \<times> fds" where
  "listen_pass_tcp a s =
     (case at_socket a of
        None \<Rightarrow> Inr (None, s)
      | Some listenfd \<Rightarrow>
          bindr (exit_if (\<not> at_setsockopt a) 1 ''setsockopt error'' (s(listenfd \<mapsto> new_socket SOCK_STREAM))) (\<lambda>s.
          let so = (new_socket SOCK_STREAM)\<lparr>so_reuseaddr := True\<rparr>; s = s(listenfd \<mapsto> so) in
          if at_call a then Inr (Some listenfd, s(listenfd \<mapsto> so\<lparr>so_local := Some (ai_addr a)\<rparr>))
          else bindr (Close a listenfd s) (\<lambda>s. Inr (None, s))))"

text \<open>
  The loop behind its first pass, and the whole of it: \<open>None\<close> where \<^verbatim>\<open>res\<close> is NULL in the end. The
  loop looks at the first element before it looks whether there is one.
\<close>

fun pass_rest ::
  "(attempt \<Rightarrow> fds \<Rightarrow> (stop \<times> fds) + nat option \<times> fds) \<Rightarrow> attempt list \<Rightarrow> fds
    \<Rightarrow> (stop \<times> fds) + (nat \<times> attempt) option \<times> fds" where
  "pass_rest f [] s = Inr (None, s)"
| "pass_rest f (a # as) s =
     bindr (f a s) (\<lambda>(r, s). case r of Some fd \<Rightarrow> Inr (Some (fd, a), s) | None \<Rightarrow> pass_rest f as s)"

definition pass_all ::
  "(attempt \<Rightarrow> fds \<Rightarrow> (stop \<times> fds) + nat option \<times> fds) \<Rightarrow> attempt list \<Rightarrow> fds
    \<Rightarrow> (stop \<times> fds) + (nat \<times> attempt) option \<times> fds" where
  "pass_all f as s = bindr (undef_if (as = []) ''res'' s) (\<lambda>s. pass_rest f as s)"

definition error_for :: "string \<Rightarrow> string \<Rightarrow> string \<Rightarrow> string" where
  "error_for f host serv = f @ '' error for '' @ host @ '', '' @ serv"

text \<open>The addresses of a host and a service, then the first of them that works.\<close>

definition first_working ::
  "string \<Rightarrow> (attempt \<Rightarrow> fds \<Rightarrow> (stop \<times> fds) + nat option \<times> fds) \<Rightarrow> resolver \<Rightarrow> hints \<Rightarrow> string \<Rightarrow> string \<Rightarrow> fds
    \<Rightarrow> (stop \<times> fds) + (nat \<times> attempt) \<times> fds" where
  "first_working name f getaddrinfo h host serv s =
     (case getaddrinfo host serv h of
        Inl text \<Rightarrow> Inl (Exit 1 (error_for name host serv @ '': '' @ text), s)
      | Inr as \<Rightarrow>
          bindr (pass_all f as s) (\<lambda>(r, s).
          case r of None \<Rightarrow> Inl (Exit 1 (error_for name host serv), s) | Some x \<Rightarrow> Inr (x, s)))"

definition tcp_connect :: "resolver \<Rightarrow> string \<Rightarrow> string \<Rightarrow> fds \<Rightarrow> (stop \<times> fds) + nat \<times> fds" where
  "tcp_connect getaddrinfo host serv s =
     bindr (first_working ''tcp_connect'' (connect_pass SOCK_STREAM) getaddrinfo
              \<lparr>ai_passive = False, ai_socktype = SOCK_STREAM\<rparr> host serv s) (\<lambda>((fd, a), s).
     Inr (fd, s))"

definition udp_connect :: "resolver \<Rightarrow> string \<Rightarrow> string \<Rightarrow> fds \<Rightarrow> (stop \<times> fds) + nat \<times> fds" where
  "udp_connect getaddrinfo host serv s =
     bindr (first_working ''udp_connect'' (connect_pass SOCK_DGRAM) getaddrinfo
              \<lparr>ai_passive = False, ai_socktype = SOCK_DGRAM\<rparr> host serv s) (\<lambda>((fd, a), s).
     Inr (fd, s))"

text \<open>The copy of the address and its length are returned with the descriptor (\<open>mem\<close>: \<^verbatim>\<open>malloc\<close> succeeds).\<close>

definition udp_client ::
  "resolver \<Rightarrow> bool \<Rightarrow> string \<Rightarrow> string \<Rightarrow> fds \<Rightarrow> (stop \<times> fds) + (nat \<times> sockaddr \<times> nat) \<times> fds" where
  "udp_client getaddrinfo mem host serv s =
     bindr (first_working ''udp_client'' socket_pass getaddrinfo
              \<lparr>ai_passive = False, ai_socktype = SOCK_DGRAM\<rparr> host serv s) (\<lambda>((fd, a), s).
     bindr (exit_if (\<not> mem) 1 ''malloc error'' s) (\<lambda>s.
     Inr ((fd, ai_addr a, ai_addrlen a), s)))"

definition udp_server :: "resolver \<Rightarrow> string \<Rightarrow> string \<Rightarrow> fds \<Rightarrow> (stop \<times> fds) + (nat \<times> nat) \<times> fds" where
  "udp_server getaddrinfo host serv s =
     bindr (first_working ''udp_server'' bind_pass getaddrinfo
              \<lparr>ai_passive = True, ai_socktype = SOCK_DGRAM\<rparr> host serv s) (\<lambda>((fd, a), s).
     Inr ((fd, ai_addrlen a), s))"

definition tcp_listen :: "resolver \<Rightarrow> bool \<Rightarrow> string \<Rightarrow> string \<Rightarrow> fds \<Rightarrow> (stop \<times> fds) + (nat \<times> nat) \<times> fds" where
  "tcp_listen getaddrinfo listens host serv s =
     bindr (first_working ''tcp_listen'' listen_pass_tcp getaddrinfo
              \<lparr>ai_passive = True, ai_socktype = SOCK_STREAM\<rparr> host serv s) (\<lambda>((fd, a), s).
     bindr (exit_if (\<not> listens) 1 ''listen error'' s) (\<lambda>s.
     Inr ((fd, ai_addrlen a), s(fd := map_option (so_listening_update (\<lambda>_. True)) (s fd)))))"

section \<open>The first address that works\<close>

text \<open>The descriptors given are not in use, and closing and setting options succeeds.\<close>

definition undisturbed :: "attempt list \<Rightarrow> fds \<Rightarrow> bool" where
  "undisturbed as s \<longleftrightarrow>
     (\<forall>a \<in> set as. at_setsockopt a \<and> at_close a \<and> (\<forall>fd. at_socket a = Some fd \<longrightarrow> fd \<notin> dom s))"

text \<open>
  The contract of a pass: for an address that works it leaves exactly one more socket, for one that
  does not it leaves the descriptors as they were.
\<close>

locale address_pass =
  fixes f :: "attempt \<Rightarrow> fds \<Rightarrow> (stop \<times> fds) + nat option \<times> fds"
    and works :: "attempt \<Rightarrow> bool"
    and made :: "attempt \<Rightarrow> socket"
  assumes works_socket: "works a \<Longrightarrow> \<exists>fd. at_socket a = Some fd"
    and pass_works: "works a \<Longrightarrow> at_socket a = Some fd \<Longrightarrow> at_setsockopt a
      \<Longrightarrow> f a s = Inr (Some fd, s(fd \<mapsto> made a))"
    and pass_fails: "\<not> works a \<Longrightarrow> at_setsockopt a \<Longrightarrow> at_close a \<Longrightarrow> \<forall>fd. at_socket a = Some fd \<longrightarrow> fd \<notin> dom s
      \<Longrightarrow> f a s = Inr (None, s)"
begin

lemma pass_rest_find:
  assumes "undisturbed as s"
  shows "pass_rest f as s =
    Inr (case find works as of
           None \<Rightarrow> (None, s)
         | Some a \<Rightarrow> (Some (the (at_socket a), a), s(the (at_socket a) \<mapsto> made a)))"
  using assms
proof (induction as)
  case (Cons a as)
  show ?case
  proof (cases "works a")
    case True
    then obtain fd where "at_socket a = Some fd" using works_socket by blast
    then show ?thesis using True pass_works [OF True] Cons.prems by (simp add: undisturbed_def)
  next
    case False
    then have "f a s = Inr (None, s)" using Cons.prems by (intro pass_fails) (auto simp: undisturbed_def)
    then show ?thesis using False Cons by (simp add: undisturbed_def)
  qed
qed simp

lemma first_working_find:
  assumes "getaddrinfo host serv h = Inr as" and "as \<noteq> []" and "undisturbed as s"
  shows "first_working name f getaddrinfo h host serv s =
    (case find works as of
       None \<Rightarrow> Inl (Exit 1 (error_for name host serv), s)
     | Some a \<Rightarrow> Inr ((the (at_socket a), a), s(the (at_socket a) \<mapsto> made a)))"
  using assms by (simp add: first_working_def pass_all_def pass_rest_find split: option.splits)

end

definition answers_call :: "attempt \<Rightarrow> bool" where
  "answers_call a \<longleftrightarrow> at_socket a \<noteq> None \<and> at_call a"

definition has_socket :: "attempt \<Rightarrow> bool" where
  "has_socket a \<longleftrightarrow> at_socket a \<noteq> None"

lemma upd_None: "fd \<notin> dom s \<Longrightarrow> s(fd := None) = s"
  by (auto simp: fun_eq_iff)

interpretation tcpc: address_pass "connect_pass SOCK_STREAM" answers_call
    "\<lambda>a. (new_socket SOCK_STREAM)\<lparr>so_peer := Some (ai_addr a)\<rparr>"
  by unfold_locales (auto simp: connect_pass_def answers_call_def Close_def upd_None Let_def split: option.splits)

interpretation udpc: address_pass "connect_pass SOCK_DGRAM" answers_call
    "\<lambda>a. (new_socket SOCK_DGRAM)\<lparr>so_peer := Some (ai_addr a)\<rparr>"
  by unfold_locales (auto simp: connect_pass_def answers_call_def Close_def upd_None Let_def split: option.splits)

interpretation udps: address_pass bind_pass answers_call "\<lambda>a. (new_socket SOCK_DGRAM)\<lparr>so_local := Some (ai_addr a)\<rparr>"
  by unfold_locales (auto simp: bind_pass_def answers_call_def Close_def upd_None Let_def split: option.splits)

interpretation udpn: address_pass socket_pass has_socket "\<lambda>a. new_socket SOCK_DGRAM"
  by unfold_locales (auto simp: socket_pass_def has_socket_def split: option.splits)

interpretation tcpl: address_pass listen_pass_tcp answers_call
    "\<lambda>a. (new_socket SOCK_STREAM)\<lparr>so_reuseaddr := True, so_local := Some (ai_addr a)\<rparr>"
  by unfold_locales (auto simp: listen_pass_tcp_def answers_call_def Close_def upd_None Let_def split: option.splits)

section \<open>Connecting with a time limit\<close>

text \<open>
  \<^verbatim>\<open>connect_nonb\<close>: the flags of the socket and whether it is open, and what the calls return. The
  result is the value returned with \<^verbatim>\<open>errno\<close>.
\<close>

definition O_NONBLOCK :: u32 where "O_NONBLOCK = 0x800"
definition EINTR :: int where "EINTR = 4"
definition ETIMEDOUT :: int where "ETIMEDOUT = 110"

record nb_sock =
  nb_flags :: u32
  nb_open :: bool

datatype connecting = Connected | InProgress | ConnectError int

datatype selected = SelectError | TimedOut | ReadyFor bool bool

record nb_calls =
  nb_getfl :: bool
  nb_setfl :: bool
  nb_connect :: connecting
  nb_select :: selected
  nb_so_error :: "int option"
  nb_getsockopt_errno :: int
  nb_restore :: bool

text \<open>From the label \<^verbatim>\<open>done\<close> on.\<close>

definition connect_done :: "nb_calls \<Rightarrow> u32 \<Rightarrow> int \<Rightarrow> int \<Rightarrow> nb_sock \<Rightarrow> (stop \<times> nb_sock) + int \<times> int \<times> nb_sock" where
  "connect_done C flags error errno s =
     bindr (exit_if (\<not> nb_restore C) 1 ''fcntl error'' s) (\<lambda>s.
     let s = s\<lparr>nb_flags := flags\<rparr> in
     if error \<noteq> 0 then Inr (- 1, error, s\<lparr>nb_open := False\<rparr>) else Inr (0, errno, s))"

definition connect_nonb :: "nb_calls \<Rightarrow> int \<Rightarrow> nb_sock \<Rightarrow> (stop \<times> nb_sock) + int \<times> int \<times> nb_sock" where
  "connect_nonb C errno s =
     bindr (exit_if (\<not> nb_getfl C) 1 ''fcntl error'' s) (\<lambda>s.
     let flags = nb_flags s in
     bindr (exit_if (\<not> nb_setfl C) 1 ''fcntl error'' s) (\<lambda>s.
     let s = s\<lparr>nb_flags := flags OR O_NONBLOCK\<rparr> in
     case nb_connect C of
       ConnectError e \<Rightarrow> Inr (- 1, e, s)
     | Connected \<Rightarrow> connect_done C flags 0 errno s
     | InProgress \<Rightarrow>
        (case nb_select C of
           SelectError \<Rightarrow> Inl (Exit 1 ''select error'', s)
         | TimedOut \<Rightarrow> Inr (- 1, ETIMEDOUT, s\<lparr>nb_open := False\<rparr>)
         | ReadyFor r w \<Rightarrow>
             if r \<or> w then
               (case nb_so_error C of
                  None \<Rightarrow> Inr (- 1, nb_getsockopt_errno C, s)
                | Some error \<Rightarrow> connect_done C flags error errno s)
             else Inl (Exit 1 ''select error: sockfd not set'', s))))"

text \<open>
  \<^verbatim>\<open>connect_timeo\<close>: the handler of \<^verbatim>\<open>SIGALRM\<close>, the alarm that is set, whether the socket is open
  and the messages. \<open>ct_connect\<close> is the error of \<^verbatim>\<open>connect\<close>, \<open>None\<close> if it succeeds.
\<close>

record 'h timed =
  tm_handler :: 'h
  tm_alarm :: nat
  tm_open :: bool
  tm_messages :: "string list"

record timeo_calls =
  ct_signal :: bool
  ct_connect :: "int option"
  ct_restore :: bool

definition connect_timeo ::
  "timeo_calls \<Rightarrow> 'h \<Rightarrow> nat \<Rightarrow> int \<Rightarrow> 'h timed \<Rightarrow> (stop \<times> 'h timed) + int \<times> int \<times> 'h timed" where
  "connect_timeo C connect_alarm nsec errno s =
     bindr (exit_if (\<not> ct_signal C) 1 ''signal error'' s) (\<lambda>s.
     let sigfunc = tm_handler s;
         s = s\<lparr>tm_handler := connect_alarm\<rparr>;
         s = s\<lparr>tm_alarm := nsec,
               tm_messages := tm_messages s @ (if tm_alarm s \<noteq> 0 then [''connect_timeo: alarm was already set''] else [])\<rparr>;
         (n, e, s) = (case ct_connect C of
            None \<Rightarrow> (0, errno, s)
          | Some x \<Rightarrow> (- 1, if x = EINTR then ETIMEDOUT else x, s\<lparr>tm_open := False\<rparr>));
         s = s\<lparr>tm_alarm := 0\<rparr>
     in bindr (exit_if (\<not> ct_restore C) 1 ''signal error'' s) (\<lambda>s.
        Inr (n, e, s\<lparr>tm_handler := sigfunc\<rparr>)))"

definition Connect_timeo ::
  "timeo_calls \<Rightarrow> 'h \<Rightarrow> nat \<Rightarrow> int \<Rightarrow> 'h timed \<Rightarrow> 'h timed outcome" where
  "Connect_timeo C connect_alarm nsec errno s =
     bindr (connect_timeo C connect_alarm nsec errno s) (\<lambda>(n, e, s).
     exit_if (n < 0) 1 ''connect_timeo error'' s)"

section \<open>Claims\<close>

text \<open>
  C35. \<^verbatim>\<open>tcp_connect\<close> uses the first address of the host that accepts a connection: when
  \<^verbatim>\<open>getaddrinfo\<close> gives a list, the descriptor returned is connected to the first address for which
  a socket can be made and connected, and it is the only descriptor that is new, every socket of an
  address that failed having been closed; when no address works the program stops with its message.
\<close>
theorem tcp_connect_first:
  assumes "getaddrinfo host serv \<lparr>ai_passive = False, ai_socktype = SOCK_STREAM\<rparr> = Inr as" and "as \<noteq> []"
    and "undisturbed as s"
  shows "tcp_connect getaddrinfo host serv s =
    (case find answers_call as of
       None \<Rightarrow> Inl (Exit 1 (''tcp_connect error for '' @ host @ '', '' @ serv), s)
     | Some a \<Rightarrow> Inr (the (at_socket a),
         s(the (at_socket a) \<mapsto> (new_socket SOCK_STREAM)\<lparr>so_peer := Some (ai_addr a)\<rparr>)))"
  using tcpc.first_working_find [where getaddrinfo = getaddrinfo and host = host and serv = serv, OF assms]
  by (simp add: tcp_connect_def error_for_def split: option.splits)

definition example_attempts :: "attempt list" where
  "example_attempts =
     [\<lparr>ai_addr = Sockaddr_in6 0 (replicate 16 0), ai_addrlen = 28, at_socket = None, at_setsockopt = True, at_call = False, at_close = True\<rparr>,
      \<lparr>ai_addr = Sockaddr_in 80 1, ai_addrlen = 16, at_socket = Some 4, at_setsockopt = True, at_call = False, at_close = True\<rparr>,
      \<lparr>ai_addr = Sockaddr_in 80 2, ai_addrlen = 16, at_socket = Some 4, at_setsockopt = True, at_call = True, at_close = True\<rparr>]"

theorem tcp_connect_first_witness:
  "\<exists>s. tcp_connect (\<lambda>_ _ _. Inr example_attempts) ''h'' ''http'' Map.empty = Inr (4, s)
    \<and> dom s = {4} \<and> so_peer (the (s 4)) = Some (Sockaddr_in 80 2)"
  using tcp_connect_first [of "\<lambda>_ _ _. Inr example_attempts" "''h''" "''http''" example_attempts Map.empty]
  by (auto simp: example_attempts_def undisturbed_def answers_call_def new_socket_def)

text \<open>
  \<^verbatim>\<open>tcp_listen\<close> listens on the first address that can be bound, with \<^verbatim>\<open>SO_REUSEADDR\<close> set, and
  returns the length of that address; the sockets of the addresses that failed are closed.
\<close>
theorem tcp_listen_first:
  assumes "getaddrinfo host serv \<lparr>ai_passive = True, ai_socktype = SOCK_STREAM\<rparr> = Inr as" and "as \<noteq> []"
    and "undisturbed as s"
  shows "tcp_listen getaddrinfo True host serv s =
    (case find answers_call as of
       None \<Rightarrow> Inl (Exit 1 (''tcp_listen error for '' @ host @ '', '' @ serv), s)
     | Some a \<Rightarrow> Inr ((the (at_socket a), ai_addrlen a),
         s(the (at_socket a) \<mapsto> \<lparr>so_type = SOCK_STREAM, so_local = Some (ai_addr a), so_peer = None,
             so_reuseaddr = True, so_listening = True\<rparr>)))"
  using tcpl.first_working_find [where getaddrinfo = getaddrinfo and host = host and serv = serv, OF assms]
  by (simp add: tcp_listen_def error_for_def new_socket_def split: option.splits)

theorem tcp_listen_first_witness:
  "\<exists>s. tcp_listen (\<lambda>_ _ _. Inr example_attempts) True ''h'' ''http'' Map.empty = Inr ((4, 16), s)
    \<and> dom s = {4} \<and> so_listening (the (s 4)) \<and> so_local (the (s 4)) = Some (Sockaddr_in 80 2)"
  using tcp_listen_first [of "\<lambda>_ _ _. Inr example_attempts" "''h''" "''http''" example_attempts Map.empty]
  by (auto simp: example_attempts_def undisturbed_def answers_call_def)

text \<open>The datagram versions; \<^verbatim>\<open>udp_client\<close> needs a socket only and returns the address for it.\<close>

theorem udp_first:
  assumes "\<And>h. getaddrinfo host serv h = Inr as" and "as \<noteq> []" and "undisturbed as s" and "find has_socket as = Some a"
  shows "udp_client getaddrinfo True host serv s =
      Inr ((the (at_socket a), ai_addr a, ai_addrlen a), s(the (at_socket a) \<mapsto> new_socket SOCK_DGRAM))"
    and "find answers_call as = Some b \<Longrightarrow> udp_connect getaddrinfo host serv s =
      Inr (the (at_socket b), s(the (at_socket b) \<mapsto> (new_socket SOCK_DGRAM)\<lparr>so_peer := Some (ai_addr b)\<rparr>))"
    and "find answers_call as = Some b \<Longrightarrow> udp_server getaddrinfo host serv s =
      Inr ((the (at_socket b), ai_addrlen b), s(the (at_socket b) \<mapsto> (new_socket SOCK_DGRAM)\<lparr>so_local := Some (ai_addr b)\<rparr>))"
  using udpn.first_working_find [where getaddrinfo = getaddrinfo and host = host and serv = serv, OF assms(1-3)]
    udpc.first_working_find [where getaddrinfo = getaddrinfo and host = host and serv = serv, OF assms(1-3)]
    udps.first_working_find [where getaddrinfo = getaddrinfo and host = host and serv = serv, OF assms(1-3)] assms(4)
  by (simp_all add: udp_client_def udp_connect_def udp_server_def)

text \<open>
  \<^verbatim>\<open>connect_nonb\<close> returns 0 exactly when the connection is there, at once or after waiting, and
  then the socket is open with the flags it had. When it returns -1 the socket is closed, except
  where the connection failed at once or its status could not be read: then it is left open, and
  non-blocking, whatever its flags were before.
\<close>
theorem connect_nonb_outcomes:
  assumes "nb_getfl C" and "nb_setfl C" and "nb_restore C" and "nb_open s"
    and "nb_select C \<notin> {SelectError, ReadyFor False False}"
  shows "\<exists>n e t. connect_nonb C errno s = Inr (n, e, t) \<and> n \<in> {0, - 1}
    \<and> (n = 0 \<longleftrightarrow> nb_connect C = Connected
         \<or> nb_connect C = InProgress \<and> nb_select C \<noteq> TimedOut \<and> nb_so_error C = Some 0)
    \<and> (n = 0 \<longrightarrow> t = s)
    \<and> (n = - 1 \<longrightarrow> (nb_open t \<longleftrightarrow> (\<exists>x. nb_connect C = ConnectError x)
           \<or> nb_connect C = InProgress \<and> nb_select C \<noteq> TimedOut \<and> nb_so_error C = None))
    \<and> (n = - 1 \<and> nb_open t \<longrightarrow> nb_flags t = nb_flags s OR O_NONBLOCK)"
  using assms
  by (cases "nb_connect C"; cases "nb_select C"; cases "nb_so_error C") (auto simp: connect_nonb_def connect_done_def)

theorem connect_nonb_outcomes_witness:
  "\<exists>n e t. connect_nonb \<lparr>nb_getfl = True, nb_setfl = True, nb_connect = ConnectError 111, nb_select = TimedOut,
      nb_so_error = None, nb_getsockopt_errno = 0, nb_restore = True\<rparr> 0 \<lparr>nb_flags = 2, nb_open = True\<rparr> = Inr (n, e, t)
    \<and> n = - 1 \<and> nb_open t \<and> nb_flags t = 0x802"
  using connect_nonb_outcomes [of "\<lparr>nb_getfl = True, nb_setfl = True, nb_connect = ConnectError 111, nb_select = TimedOut,
      nb_so_error = None, nb_getsockopt_errno = 0, nb_restore = True\<rparr>" "\<lparr>nb_flags = 2, nb_open = True\<rparr>" 0]
  by (auto simp: O_NONBLOCK_def)

text \<open>
  \<^verbatim>\<open>connect_timeo\<close> leaves no trace: whether the connection is made, fails or is interrupted by
  the alarm, the handler of the signal is the one from before and no alarm is pending, so an alarm the
  caller had set is lost; an interruption is reported as a time-out, and the socket is closed exactly
  when the call fails.
\<close>
theorem connect_timeo_restores:
  assumes "ct_signal C" and "ct_restore C"
  shows "\<exists>n e t. connect_timeo C h nsec errno s = Inr (n, e, t) \<and> tm_handler t = tm_handler s \<and> tm_alarm t = 0
    \<and> (n = 0 \<longleftrightarrow> ct_connect C = None) \<and> tm_open t = (tm_open s \<and> n = 0)
    \<and> (ct_connect C = Some EINTR \<longrightarrow> e = ETIMEDOUT) \<and> (\<forall>x. ct_connect C = Some x \<longrightarrow> x \<noteq> EINTR \<longrightarrow> e = x)"
  using assms by (cases "ct_connect C") (auto simp: connect_timeo_def Let_def)

theorem connect_timeo_restores_witness:
  "\<exists>n e t. connect_timeo \<lparr>ct_signal = True, ct_connect = Some EINTR, ct_restore = True\<rparr> (1 :: nat) 5 0
      \<lparr>tm_handler = 0, tm_alarm = 9, tm_open = True, tm_messages = []\<rparr> = Inr (n, e, t)
    \<and> tm_handler t = 0 \<and> tm_alarm t = 0 \<and> \<not> tm_open t \<and> e = ETIMEDOUT"
  using connect_timeo_restores [of "\<lparr>ct_signal = True, ct_connect = Some EINTR, ct_restore = True\<rparr>" "1 :: nat" 5 0
      "\<lparr>tm_handler = 0, tm_alarm = 9, tm_open = True, tm_messages = []\<rparr>"]
  by auto

end
