(* ===== verification/GetAddrInfo.thy ===== *)
theory GetAddrInfo
  imports SockAddr
begin

text \<open>
  \<^verbatim>\<open>unpv13e/libgai\<close>: the book's \<^verbatim>\<open>getaddrinfo\<close>, which turns the names of a host and a service into
  socket addresses, and \<^verbatim>\<open>getnameinfo\<close>, which turns an address into names. The functions of the
  system that look a name up are arguments. The variants compiled with IPv4, IPv6 and Unix domain
  sockets and without \<^verbatim>\<open>HAVE_SOCKADDR_SA_LEN\<close>, as on Linux, are modelled.
\<close>

section \<open>Constants\<close>

abbreviation AF_UNSPEC :: family where "AF_UNSPEC \<equiv> AF_OTHER 0"

definition AI_PASSIVE :: u32 where "AI_PASSIVE = 1"
definition AI_CANONNAME :: u32 where "AI_CANONNAME = 2"
definition AI_CLONE :: u32 where "AI_CLONE = 4"

definition STREAM :: int where "STREAM = 1"
definition DGRAM :: int where "DGRAM = 2"
definition RAW :: int where "RAW = 3"

definition EAI_ADDRFAMILY :: int where "EAI_ADDRFAMILY = 1"
definition EAI_AGAIN :: int where "EAI_AGAIN = 2"
definition EAI_BADFLAGS :: int where "EAI_BADFLAGS = 3"
definition EAI_FAIL :: int where "EAI_FAIL = 4"
definition EAI_FAMILY :: int where "EAI_FAMILY = 5"
definition EAI_MEMORY :: int where "EAI_MEMORY = 6"
definition EAI_NODATA :: int where "EAI_NODATA = 7"
definition EAI_NONAME :: int where "EAI_NONAME = 8"
definition EAI_SERVICE :: int where "EAI_SERVICE = 9"
definition EAI_SOCKTYPE :: int where "EAI_SOCKTYPE = 10"
definition EAI_SYSTEM :: int where "EAI_SYSTEM = 11"

lemmas gai_codes = EAI_ADDRFAMILY_def EAI_AGAIN_def EAI_BADFLAGS_def EAI_FAIL_def EAI_FAMILY_def EAI_MEMORY_def
  EAI_NODATA_def EAI_NONAME_def EAI_SERVICE_def EAI_SOCKTYPE_def EAI_SYSTEM_def

definition gai_strerror :: "int \<Rightarrow> string" where
  "gai_strerror err =
     (if err = EAI_ADDRFAMILY then ''address family for host not supported''
      else if err = EAI_AGAIN then ''temporary failure in name resolution''
      else if err = EAI_BADFLAGS then ''invalid flags value''
      else if err = EAI_FAIL then ''non-recoverable failure in name resolution''
      else if err = EAI_FAMILY then ''address family not supported''
      else if err = EAI_MEMORY then ''memory allocation failure''
      else if err = EAI_NODATA then ''no address associated with host''
      else if err = EAI_NONAME then ''host nor service provided, or not known''
      else if err = EAI_SERVICE then ''service not supported for socket type''
      else if err = EAI_SOCKTYPE then ''socket type not supported''
      else if err = EAI_SYSTEM then ''system error''
      else ''unknown getaddrinfo() error'')"

section \<open>Data\<close>

text \<open>
  An element of the list, which is also the form of the hints; \<open>None\<close> is a null pointer. A function
  returns its code, or its end ends the process.
\<close>

record addrinfo =
  info_flags :: u32
  info_family :: family
  info_socktype :: int
  info_protocol :: int
  info_addrlen :: nat
  info_canonname :: "string option"
  info_addr :: "sockaddr option"

datatype gai_error = Quits stop | Eai int

definition no_hints :: addrinfo where
  "no_hints = \<lparr>info_flags = 0, info_family = AF_UNSPEC, info_socktype = 0, info_protocol = 0, info_addrlen = 0,
     info_canonname = None, info_addr = None\<rparr>"

text \<open>
  The system: the addresses of a host, as \<^verbatim>\<open>gethostbyname2\<close> and \<^verbatim>\<open>gethostbyname\<close> give them (the latter
  with \<^verbatim>\<open>RES_USE_INET6\<close> or without, and \<^verbatim>\<open>h_errno\<close> where it fails), the port of a service in network
  byte order, the names of an address and of a port, the host's own name, and whether memory can be
  allocated during the call.
\<close>

record hostent =
  h_name :: string
  h_addrtype :: family
  h_addr_list :: "u8 list list"

record name_tables =
  rs_gethostbyname2 :: "string \<Rightarrow> family \<Rightarrow> hostent option"
  rs_gethostbyname :: "bool \<Rightarrow> string \<Rightarrow> int + hostent"
  rs_getservbyname :: "string \<Rightarrow> string \<Rightarrow> u16 option"
  rs_gethostbyaddr :: "u8 list \<Rightarrow> family \<Rightarrow> string option"
  rs_getservbyport :: "u16 \<Rightarrow> string option \<Rightarrow> string option"
  rs_uname :: "string option"
  rs_memory :: bool

text \<open>A string argument that is null or empty.\<close>

definition blank :: "string option \<Rightarrow> bool" where
  "blank s = (case s of None \<Rightarrow> True | Some t \<Rightarrow> t = [])"

section \<open>Checks and searches\<close>

definition ga_echeck :: "string option \<Rightarrow> string option \<Rightarrow> u32 \<Rightarrow> family \<Rightarrow> int \<Rightarrow> int" where
  "ga_echeck hostname servname flags family socktype =
     (if flags AND NOT (AI_PASSIVE OR AI_CANONNAME) \<noteq> 0 then EAI_BADFLAGS
      else if blank hostname \<and> blank servname then EAI_NONAME
      else if family = AF_UNSPEC then 0
      else if family = AF_INET \<or> family = AF_INET6 then
        (if socktype \<noteq> 0 \<and> socktype \<noteq> STREAM \<and> socktype \<noteq> DGRAM \<and> socktype \<noteq> RAW then EAI_SOCKTYPE else 0)
      else if family = AF_UNIX then
        (if socktype \<noteq> 0 \<and> socktype \<noteq> STREAM \<and> socktype \<noteq> DGRAM then EAI_SOCKTYPE else 0)
      else EAI_FAMILY)"

text \<open>The hosts and families that are looked up, in turn.\<close>

definition both :: "family \<Rightarrow> string \<Rightarrow> string \<Rightarrow> (string \<times> family) list" where
  "both family host6 host4 =
     (if family = AF_INET then [(host4, AF_INET)]
      else if family = AF_INET6 then [(host6, AF_INET6)]
      else if family = AF_UNSPEC then [(host6, AF_INET6), (host4, AF_INET)]
      else [])"

definition ga_nsearch :: "string option \<Rightarrow> addrinfo \<Rightarrow> stop + (string \<times> family) list" where
  "ga_nsearch hostname hints =
     (let search =
        (if blank hostname then
           if info_flags hints AND AI_PASSIVE \<noteq> 0 then both (info_family hints) ''0::0'' ''0.0.0.0''
           else both (info_family hints) ''0::1'' ''localhost''
         else both (info_family hints) (the hostname) (the hostname));
        nsearch = length search
      in if nsearch < 1 \<or> nsearch > 2 then Inl (Exit 1 (''nsearch = '' @ show_nat nsearch)) else Inr search)"

section \<open>The elements of the list\<close>

text \<open>What \<^verbatim>\<open>addr\<close> points at: the bytes of an address, or a path.\<close>

datatype ga_addr = Bytes "u8 list" | Path string

definition ga_aistruct :: "name_tables \<Rightarrow> addrinfo \<Rightarrow> ga_addr \<Rightarrow> family \<Rightarrow> gai_error + addrinfo" where
  "ga_aistruct R hints addr family =
     (if \<not> rs_memory R then Inl (Eai EAI_MEMORY)
      else
        let ai = no_hints\<lparr>info_flags := (if info_socktype hints = 0 then AI_CLONE else 0), info_socktype := info_socktype hints,
              info_protocol := info_protocol hints, info_family := family\<rparr>
        in case (family, addr) of
             (AF_INET, Bytes b) \<Rightarrow>
               if length b < INADDRSZ then Inl (Quits (Undefined ''addr''))
               else Inr (ai\<lparr>info_addr := Some (Sockaddr_in 0 (bytes_addr b)), info_addrlen := 16\<rparr>)
           | (AF_INET6, Bytes b) \<Rightarrow>
               if length b < IN6ADDRSZ then Inl (Quits (Undefined ''addr''))
               else Inr (ai\<lparr>info_addr := Some (Sockaddr_in6 0 (take IN6ADDRSZ b)), info_addrlen := 28\<rparr>)
           | (AF_UNIX, Path p) \<Rightarrow>
               if length p \<ge> 108 then Inl (Eai EAI_SERVICE)
               else Inr (ai\<lparr>info_addr := Some (Sockaddr_un p), info_addrlen := 110\<rparr>)
           | (AF_OTHER f, _) \<Rightarrow> Inr ai
           | _ \<Rightarrow> Inl (Quits (Undefined ''addr'')))"

definition ga_clone :: "name_tables \<Rightarrow> addrinfo \<Rightarrow> addrinfo option" where
  "ga_clone R ai = (if \<not> rs_memory R then None else Some (ai\<lparr>info_flags := 0, info_canonname := None\<rparr>))"

text \<open>
  Setting the port of an element, and whether it counts; then all elements, each clone behind the
  element it was made from. \<open>port\<close> is in network byte order. The value -1 without memory becomes
  \<^verbatim>\<open>EAI_MEMORY\<close> in every caller.
\<close>

definition put_port :: "u16 \<Rightarrow> addrinfo \<Rightarrow> stop + addrinfo \<times> nat" where
  "put_port port ai =
     (case info_family ai of
        AF_INET \<Rightarrow>
          (case info_addr ai of
             Some (Sockaddr_in p a) \<Rightarrow> Inr (ai\<lparr>info_addr := Some (Sockaddr_in port a)\<rparr>, 1)
           | _ \<Rightarrow> Inl (Undefined ''ai_addr''))
      | AF_INET6 \<Rightarrow>
          (case info_addr ai of
             Some (Sockaddr_in6 p a) \<Rightarrow> Inr (ai\<lparr>info_addr := Some (Sockaddr_in6 port a)\<rparr>, 1)
           | _ \<Rightarrow> Inl (Undefined ''ai_addr''))
      | _ \<Rightarrow> Inr (ai, 0))"

fun ga_port :: "name_tables \<Rightarrow> u16 \<Rightarrow> int \<Rightarrow> addrinfo list \<Rightarrow> gai_error + addrinfo list \<times> nat" where
  "ga_port R port socktype [] = Inr ([], 0)"
| "ga_port R port socktype (ai # ais) =
     (if info_flags ai AND AI_CLONE = 0 \<and> info_socktype ai \<noteq> socktype then
        bindr (ga_port R port socktype ais) (\<lambda>(rest, n). Inr (ai # rest, n))
      else if info_flags ai AND AI_CLONE \<noteq> 0 \<and> info_socktype ai \<noteq> 0 then
        (case ga_clone R ai of
           None \<Rightarrow> Inl (Eai EAI_MEMORY)
         | Some new \<Rightarrow>
             bindr (map_sum Quits id (put_port port (new\<lparr>info_socktype := socktype\<rparr>))) (\<lambda>(new, k).
             bindr (ga_port R port socktype ais) (\<lambda>(rest, n). Inr (ai # new # rest, k + n))))
      else
        bindr (map_sum Quits id (put_port port (ai\<lparr>info_socktype := socktype\<rparr>))) (\<lambda>(ai, k).
        bindr (ga_port R port socktype ais) (\<lambda>(rest, n). Inr (ai # rest, k + n))))"

text \<open>
  The service: a port number, or a name that is looked up for TCP and then for UDP. \<open>find\<close> is one call
  of \<^verbatim>\<open>ga_port\<close> that adds to \<^verbatim>\<open>nfound\<close>.
\<close>

definition find :: "name_tables \<Rightarrow> u16 \<Rightarrow> int \<Rightarrow> addrinfo list \<times> nat \<Rightarrow> gai_error + addrinfo list \<times> nat" where
  "find R port socktype s =
     (case s of (ais, nfound) \<Rightarrow> bindr (ga_port R port socktype ais) (\<lambda>(ais, rc). Inr (ais, nfound + rc)))"

definition find_name :: "name_tables \<Rightarrow> addrinfo \<Rightarrow> string \<Rightarrow> string \<Rightarrow> int \<Rightarrow> addrinfo list \<times> nat \<Rightarrow> gai_error + addrinfo list \<times> nat" where
  "find_name R hints serv proto socktype s =
     (if info_socktype hints = 0 \<or> info_socktype hints = socktype then
        (case rs_getservbyname R serv proto of None \<Rightarrow> Inr s | Some port \<Rightarrow> find R port socktype s)
      else Inr s)"

definition first_char :: "string \<Rightarrow> char" where
  "first_char s = (case s of [] \<Rightarrow> NUL | c # cs \<Rightarrow> c)"

definition ga_serv :: "name_tables \<Rightarrow> addrinfo \<Rightarrow> string \<Rightarrow> addrinfo list \<Rightarrow> gai_error + addrinfo list" where
  "ga_serv R hints serv aihead =
     bindr
       (if is_digit (first_char serv) then
          let port = htons (word_of_int (atoi serv)) in
          if info_socktype hints \<noteq> 0 then find R port (info_socktype hints) (aihead, 0)
          else bindr (find R port STREAM (aihead, 0)) (find R port DGRAM)
        else bindr (find_name R hints serv ''tcp'' STREAM (aihead, 0)) (find_name R hints serv ''udp'' DGRAM))
       (\<lambda>(ais, nfound).
        if nfound = 0 then Inl (Eai (if info_socktype hints = 0 then EAI_NONAME else EAI_SERVICE)) else Inr ais)"

section \<open>Hosts\<close>

text \<open>
  A host that is an address in printed form: \<open>None\<close> when it is none, \<open>Some []\<close> when it is one of the
  other family.
\<close>

definition ga_address :: "name_tables \<Rightarrow> addrinfo \<Rightarrow> family \<Rightarrow> string \<times> family \<Rightarrow> gai_error + addrinfo list option" where
  "ga_address R hints af search =
     (case search of (host, family) \<Rightarrow>
        bindr (map_sum Quits id (inet_pton af host [])) (\<lambda>(n, addr).
        if n \<noteq> 1 then Inr None
        else if info_family hints \<noteq> AF_UNSPEC \<and> info_family hints \<noteq> af then Inl (Eai EAI_ADDRFAMILY)
        else if family \<noteq> af then Inr (Some [])
        else bindr (ga_aistruct R hints (Bytes addr) af) (\<lambda>ai. Inr (Some [ai]))))"

definition ga_numeric :: "name_tables \<Rightarrow> addrinfo \<Rightarrow> string \<times> family \<Rightarrow> gai_error + addrinfo list option" where
  "ga_numeric R hints search =
     (let host = fst search in
      bindr (if is_digit (first_char host) then ga_address R hints AF_INET search else Inr None) (\<lambda>r.
      case r of
        Some ais \<Rightarrow> Inr (Some ais)
      | None \<Rightarrow>
          if (xdigit (first_char host) \<noteq> None \<or> first_char host = CHR '':'') \<and> CHR '':'' \<in> set host
          then ga_address R hints AF_INET6 search
          else Inr None))"

text \<open>The error for a value of \<^verbatim>\<open>h_errno\<close>.\<close>

definition host_error :: "int \<Rightarrow> int" where
  "host_error h_errno =
     (if h_errno = 1 then EAI_NONAME else if h_errno = 2 then EAI_AGAIN else if h_errno = 3 then EAI_FAIL
      else if h_errno = 4 then EAI_NODATA else EAI_NONAME)"

text \<open>A host that is looked up, \<open>two\<close> when there are two searches, and one element for each of its addresses.\<close>

fun ga_addrs :: "name_tables \<Rightarrow> addrinfo \<Rightarrow> family \<Rightarrow> u8 list list \<Rightarrow> gai_error + addrinfo list" where
  "ga_addrs R hints family [] = Inr []"
| "ga_addrs R hints family (a # as) =
     bindr (ga_aistruct R hints (Bytes a) family) (\<lambda>ai.
     bindr (ga_addrs R hints family as) (\<lambda>ais. Inr (ai # ais)))"

definition ga_lookup ::
  "name_tables \<Rightarrow> string option \<Rightarrow> addrinfo \<Rightarrow> bool \<Rightarrow> string \<times> family \<Rightarrow> string option \<Rightarrow> gai_error + addrinfo list \<times> string option" where
  "ga_lookup R hostname hints two search canon =
     (case search of (host, family) \<Rightarrow>
        let hptr = (if two then (case rs_gethostbyname2 R host family of None \<Rightarrow> Inl 0 | Some h \<Rightarrow> Inr h)
                    else rs_gethostbyname R (family = AF_INET6) host)
        in case hptr of
             Inl h_errno \<Rightarrow> if two then Inr ([], canon) else Inl (Eai (host_error h_errno))
           | Inr h \<Rightarrow>
               if info_family hints \<noteq> AF_UNSPEC \<and> info_family hints \<noteq> h_addrtype h then Inl (Eai EAI_ADDRFAMILY)
               else
                 bindr (if \<not> blank hostname \<and> info_flags hints AND AI_CANONNAME \<noteq> 0 \<and> canon = None
                        then (if rs_memory R then Inr (Some (h_name h)) else Inl (Eai EAI_MEMORY))
                        else Inr canon) (\<lambda>canon.
                 bindr (ga_addrs R hints (h_addrtype h) (h_addr_list h)) (\<lambda>ais. Inr (ais, canon))))"

fun ga_hosts ::
  "name_tables \<Rightarrow> string option \<Rightarrow> addrinfo \<Rightarrow> bool \<Rightarrow> (string \<times> family) list \<Rightarrow> string option
    \<Rightarrow> gai_error + addrinfo list \<times> string option" where
  "ga_hosts R hostname hints two [] canon = Inr ([], canon)"
| "ga_hosts R hostname hints two (search # rest) canon =
     bindr (ga_numeric R hints search) (\<lambda>r.
     bindr (case r of Some ais \<Rightarrow> Inr (ais, canon) | None \<Rightarrow> ga_lookup R hostname hints two search canon) (\<lambda>(ais, canon).
     bindr (ga_hosts R hostname hints two rest canon) (\<lambda>(ais', canon). Inr (ais @ ais', canon))))"

section \<open>Unix domain sockets\<close>

text \<open>With \<^verbatim>\<open>AI_PASSIVE\<close> the path is removed; the first component is what has been removed.\<close>

definition ga_local :: "name_tables \<Rightarrow> addrinfo \<Rightarrow> string \<Rightarrow> string list \<times> (gai_error + addrinfo)" where
  "ga_local R hints path =
     (let r = ga_aistruct R hints (Path path) AF_UNIX in
      (case r of Inl e \<Rightarrow> [] | Inr ai \<Rightarrow> if info_flags hints AND AI_PASSIVE \<noteq> 0 then [path] else [], r))"

definition ga_unix :: "name_tables \<Rightarrow> string \<Rightarrow> addrinfo \<Rightarrow> string list \<times> (gai_error + addrinfo list)" where
  "ga_unix R path hints =
     (if info_family hints \<noteq> AF_UNSPEC \<and> info_family hints \<noteq> AF_UNIX then ([], Inl (Eai EAI_ADDRFAMILY))
      else
        let (gone, first) = (if info_socktype hints = 0
               then map_prod id (\<lambda>r. bindr r (\<lambda>ai. Inr [ai])) (ga_local R (hints\<lparr>info_socktype := STREAM\<rparr>) path)
               else ([], Inr []));
            hints = (if info_socktype hints = 0 then hints\<lparr>info_socktype := DGRAM\<rparr> else hints)
        in case first of
             Inl e \<Rightarrow> (gone, Inl e)
           | Inr ais \<Rightarrow>
               let (gone', second) = ga_local R hints path in
               (gone @ gone',
                bindr second (\<lambda>ai.
                let ais = ais @ [ai] in
                if info_flags hints AND AI_CANONNAME = 0 then Inr ais
                else
                  (case rs_uname R of
                     None \<Rightarrow> Inl (Eai EAI_SYSTEM)
                   | Some name \<Rightarrow> Inr ((hd ais)\<lparr>info_canonname := Some name\<rparr> # tl ais)))))"

section \<open>The function\<close>

definition ga_inet :: "name_tables \<Rightarrow> string option \<Rightarrow> string option \<Rightarrow> addrinfo \<Rightarrow> gai_error + addrinfo list" where
  "ga_inet R hostname servname hints =
     bindr (map_sum Quits id (ga_nsearch hostname hints)) (\<lambda>search.
     bindr (ga_hosts R hostname hints (length search = 2) search None) (\<lambda>(ais, canon).
     if ais = [] then Inl (Eai EAI_NONAME)
     else
       let ais = (if \<not> blank hostname \<and> info_flags hints AND AI_CANONNAME \<noteq> 0
         then (hd ais)\<lparr>info_canonname := Some (case canon of Some c \<Rightarrow> c | None \<Rightarrow> fst (hd search))\<rparr> # tl ais
         else ais)
       in if blank servname then Inr ais else ga_serv R hints (the servname) ais))"

definition getaddrinfo ::
  "name_tables \<Rightarrow> string option \<Rightarrow> string option \<Rightarrow> addrinfo option \<Rightarrow> string list \<times> (gai_error + addrinfo list)" where
  "getaddrinfo R hostname servname hintsp =
     (let hints = (case hintsp of None \<Rightarrow> no_hints | Some h \<Rightarrow> h);
          rc = ga_echeck hostname servname (info_flags hints) (info_family hints) (info_socktype hints)
      in if rc \<noteq> 0 then ([], Inl (Eai rc))
         else if hostname \<in> {Some ''/local'', Some ''/unix''} \<and> servname \<noteq> None \<and> first_char (the servname) = CHR ''/''
         then ga_unix R (the servname) hints
         else ([], ga_inet R hostname servname hints))"

section \<open>From an address to names\<close>

definition NI_NOFQDN :: u32 where "NI_NOFQDN = 1"
definition NI_NUMERICHOST :: u32 where "NI_NUMERICHOST = 2"
definition NI_NAMEREQD :: u32 where "NI_NAMEREQD = 4"
definition NI_NUMERICSERV :: u32 where "NI_NUMERICSERV = 8"
definition NI_DGRAM :: u32 where "NI_DGRAM = 16"

text \<open>
  The texts written to \<^verbatim>\<open>host\<close> and \<^verbatim>\<open>serv\<close> (\<open>None\<close>: nothing is written); \<open>Inr None\<close> is the value 1.
\<close>

definition gn_host :: "name_tables \<Rightarrow> nat \<Rightarrow> u8 list \<Rightarrow> family \<Rightarrow> u32 \<Rightarrow> stop + string option" where
  "gn_host R hostlen aptr family flags =
     (if flags AND NI_NUMERICHOST \<noteq> 0 then inet_ntop family aptr hostlen
      else
        (case rs_gethostbyaddr R aptr family of
           Some name \<Rightarrow> Inr (Some (snprintf hostlen (if flags AND NI_NOFQDN \<noteq> 0 then takeWhile (\<lambda>c. c \<noteq> CHR ''.'') name else name)))
         | None \<Rightarrow> if flags AND NI_NAMEREQD \<noteq> 0 then Inr None else inet_ntop family aptr hostlen))"

definition gn_serv :: "name_tables \<Rightarrow> nat \<Rightarrow> u16 \<Rightarrow> u32 \<Rightarrow> string" where
  "gn_serv R servlen port flags =
     (let number = snprintf servlen (show_nat (unat (ntohs port))) in
      if flags AND NI_NUMERICSERV \<noteq> 0 then number
      else
        (case rs_getservbyport R port (if flags AND NI_DGRAM \<noteq> 0 then Some ''udp'' else None) of
           Some name \<Rightarrow> snprintf servlen name
         | None \<Rightarrow> number))"

definition gn_ipv46 ::
  "name_tables \<Rightarrow> nat \<Rightarrow> nat \<Rightarrow> u8 list \<Rightarrow> family \<Rightarrow> u16 \<Rightarrow> u32 \<Rightarrow> stop + (string option \<times> string option) option" where
  "gn_ipv46 R hostlen servlen aptr family port flags =
     (let serv = (if servlen > 0 then Some (gn_serv R servlen port flags) else None) in
      if hostlen > 0 then
        bindr (gn_host R hostlen aptr family flags) (\<lambda>r.
        Inr (case r of None \<Rightarrow> None | Some host \<Rightarrow> Some (Some host, serv)))
      else Inr (Some (None, serv)))"

definition getnameinfo :: "name_tables \<Rightarrow> sockaddr \<Rightarrow> nat \<Rightarrow> nat \<Rightarrow> u32 \<Rightarrow> stop + (string option \<times> string option) option" where
  "getnameinfo R sa hostlen servlen flags =
     (case sa of
        Sockaddr_in p a \<Rightarrow> gn_ipv46 R hostlen servlen (addr_bytes a) AF_INET p flags
      | Sockaddr_in6 p a \<Rightarrow> gn_ipv46 R hostlen servlen a AF_INET6 p flags
      | Sockaddr_un path \<Rightarrow>
          Inr (Some (if hostlen > 0 then Some (snprintf hostlen ''/local'') else None,
                     if servlen > 0 then Some (snprintf servlen (cstr path)) else None))
      | Sockaddr_other f \<Rightarrow> Inr None)"

lemma quits_Inr_iff [bind_iff]: "map_sum Quits id m = Inr x \<longleftrightarrow> m = Inr x"
  by (cases m) auto

end
