(* ===== verification/GetAddrInfoProps.thy ===== *)
theory GetAddrInfoProps
  imports GetAddrInfo SockAddrProps
begin

text \<open>
  Properties of \<^verbatim>\<open>getaddrinfo\<close> and \<^verbatim>\<open>getnameinfo\<close>: they are inverse to each other on numeric names, a
  successful answer is a list as its callers rely on, and an address without a socket type is returned
  for both.
\<close>

section \<open>Printed addresses and ports\<close>

lemma split_dots_chars: "c \<in> set s \<Longrightarrow> c = CHR ''.'' \<or> (\<exists>p \<in> set (split_dots s). c \<in> set p)"
  by (induction s) (auto split: list.splits)

lemma colon_no_quad:
  assumes "CHR '':'' \<in> set s"
  shows "dotted_quad s = None"
proof (rule ccontr)
  assume "dotted_quad s \<noteq> None"
  then have "list_all octet (split_dots s)" by (simp add: dotted_quad_def Let_def split: if_splits)
  moreover obtain p where "p \<in> set (split_dots s)" "CHR '':'' \<in> set p" using split_dots_chars [OF assms] by auto
  ultimately have "is_digit CHR '':''" by (auto simp: octet_def list_all_iff)
  then show False by (simp add: is_digit_def)
qed

lemma show6_starts: "xdigit (first_char (show6 a)) \<noteq> None \<or> first_char (show6 a) = CHR '':''"
  and show6_colon: "CHR '':'' \<in> set (show6 a)"
proof -
  obtain w rest where w: "show6 a = w @ CHR '':'' # rest" "CHR ''.'' \<notin> set w" using show6_first by blast
  then show "CHR '':'' \<in> set (show6 a)" by simp
  show "xdigit (first_char (show6 a)) \<noteq> None \<or> first_char (show6 a) = CHR '':''"
    using w show6_chars [of "first_char (show6 a)" a] by (cases w) (auto simp: first_char_def)
qed

lemma show6_no_nul: "NUL \<notin> set (show6 a)"
  using show6_chars [of NUL a] xdigit_nul by auto

lemma show4_starts: "is_digit (first_char (show4 b))"
  using show_nat_hd [of "unat (b ! 0)"] by (cases "show_nat (unat (b ! 0))") (auto simp: show4_def first_char_def)

lemma atoi_show_nat: "atoi (show_nat n) = int n"
proof -
  have "scan_int (show_int (int n) @ []) = Some (int n, [])" by (rule scan_show_int) simp
  then show ?thesis by (simp add: atoi_def show_int_def)
qed

lemma port_read_back: "htons (word_of_int (atoi (show_nat (unat (ntohs p))))) = p"
  by (simp add: atoi_show_nat)

lemma show_nat_starts: "is_digit (first_char (show_nat n))"
  using show_nat_hd [of n] by (cases "show_nat n") (auto simp: first_char_def)

section \<open>An address in printed form\<close>

text \<open>The text of an address, and its family and bytes.\<close>

definition numeric_host :: "sockaddr \<Rightarrow> string" where
  "numeric_host sa = (case sa of Sockaddr_in p a \<Rightarrow> show4 (addr_bytes a) | Sockaddr_in6 p a \<Rightarrow> show6 a | _ \<Rightarrow> [])"

definition at_port :: "u16 \<Rightarrow> sockaddr \<Rightarrow> sockaddr" where
  "at_port port sa = (case sa of Sockaddr_in p a \<Rightarrow> Sockaddr_in port a | Sockaddr_in6 p a \<Rightarrow> Sockaddr_in6 port a | _ \<Rightarrow> sa)"

definition sa_port :: "sockaddr \<Rightarrow> u16" where
  "sa_port sa = (case sa of Sockaddr_in p a \<Rightarrow> p | Sockaddr_in6 p a \<Rightarrow> p | _ \<Rightarrow> 0)"

text \<open>What \<^verbatim>\<open>ga_aistruct\<close> makes for it.\<close>

definition entry :: "addrinfo \<Rightarrow> sockaddr \<Rightarrow> addrinfo" where
  "entry hints sa = no_hints\<lparr>info_flags := (if info_socktype hints = 0 then AI_CLONE else 0), info_socktype := info_socktype hints,
     info_protocol := info_protocol hints, info_family := sa_family sa, info_addr := Some (at_port 0 sa),
     info_addrlen := (case sa of Sockaddr_in6 p a \<Rightarrow> 28 | _ \<Rightarrow> 16)\<rparr>"

lemma ga_numeric_printed:
  assumes "internet sa" and "rs_memory R" and "info_family hints \<in> {AF_UNSPEC, sa_family sa}"
  shows "ga_numeric R hints (numeric_host sa, f) = Inr (Some (if f = sa_family sa then [entry hints sa] else []))"
proof (cases sa)
  case (Sockaddr_in p a)
  have "inet_pton AF_INET (show4 (addr_bytes a)) [] = Inr (1, addr_bytes a)"
    by (simp add: inet_pton_def inet_pton4_eq cstr_no_nul [OF show4_no_nul] show4_quad overwrite_def)
  with assms show ?thesis
    by (auto simp: Sockaddr_in ga_numeric_def ga_address_def numeric_host_def show4_starts ga_aistruct_def entry_def
        INADDRSZ_def at_port_def Let_def)
next
  case (Sockaddr_in6 p a)
  have a: "length a = 16" using assms(1) by (simp add: internet_def Sockaddr_in6)
  have four: "inet_pton AF_INET (show6 a) [] = Inr (0, [])"
    by (simp add: inet_pton_def inet_pton4_eq cstr_no_nul [OF show6_no_nul] colon_no_quad [OF show6_colon])
  have six: "inet_pton AF_INET6 (show6 a) [] = Inr (1, a)" by (simp add: inet_pton_def read_back [OF a] overwrite_def)
  show ?thesis
    using assms show6_starts [of a] a
    by (auto simp: Sockaddr_in6 ga_numeric_def ga_address_def numeric_host_def show6_colon four six ga_aistruct_def
        entry_def IN6ADDRSZ_def at_port_def Let_def)
qed (use assms in \<open>auto simp: internet_def\<close>)

lemma numeric_host_nonempty: "internet sa \<Longrightarrow> numeric_host sa \<noteq> []"
  using show6_colon [of "case sa of Sockaddr_in6 p a \<Rightarrow> a | _ \<Rightarrow> []"]
  by (cases sa) (auto simp: internet_def numeric_host_def show4_def)

lemma ga_hosts_printed:
  assumes "internet sa" and "rs_memory R" and "info_family hints \<in> {AF_UNSPEC, sa_family sa}"
  shows "\<exists>search. ga_nsearch (Some (numeric_host sa)) hints = Inr search \<and> fst (hd search) = numeric_host sa
    \<and> (\<forall>hostname two canon. ga_hosts R hostname hints two search canon = Inr ([entry hints sa], canon))"
proof -
  have "sa_family sa = AF_INET \<or> sa_family sa = AF_INET6" using assms(1) by (simp add: internet_def)
  with assms(3) numeric_host_nonempty [OF assms(1)] show ?thesis
    by (auto simp: ga_nsearch_def both_def blank_def ga_numeric_printed [OF assms] Let_def)
qed

text \<open>Without a service, a printed address is its own answer, and no name is looked up.\<close>

lemma getaddrinfo_printed:
  assumes "internet sa" and "rs_memory R" and "info_family hints \<in> {AF_UNSPEC, sa_family sa}"
    and "info_flags hints AND NOT (AI_PASSIVE OR AI_CANONNAME) = 0" and "info_socktype hints \<in> {0, STREAM, DGRAM, RAW}"
    and "servname = None \<or> (\<exists>n. servname = Some (show_nat n))"
  shows "getaddrinfo R (Some (numeric_host sa)) servname (Some hints) =
    ([], let ais = [(entry hints sa)\<lparr>info_canonname :=
                 (if info_flags hints AND AI_CANONNAME \<noteq> 0 then Some (numeric_host sa) else None)\<rparr>]
         in if blank servname then Inr ais else ga_serv R hints (the servname) ais)"
proof -
  let ?h = "Some (numeric_host sa)"
  have fam: "sa_family sa = AF_INET \<or> sa_family sa = AF_INET6" using assms(1) by (simp add: internet_def)
  have ne: "\<not> blank ?h" using numeric_host_nonempty [OF assms(1)] by (simp add: blank_def)
  have "ga_echeck ?h servname (info_flags hints) (info_family hints) (info_socktype hints) = 0"
    using assms(3-5) fam ne by (auto simp: ga_echeck_def)
  moreover have "\<not> (servname \<noteq> None \<and> first_char (the servname) = CHR ''/'')"
  proof
    assume "servname \<noteq> None \<and> first_char (the servname) = CHR ''/''"
    then obtain n where "first_char (show_nat n) = CHR ''/''" using assms(6) by auto
    then have "is_digit CHR ''/''" by (metis show_nat_starts)
    then show False by (simp add: is_digit_def)
  qed
  moreover obtain search where "ga_nsearch ?h hints = Inr search" "fst (hd search) = numeric_host sa"
    "ga_hosts R ?h hints (length search = 2) search None = Inr ([entry hints sa], None)"
    using ga_hosts_printed [OF assms(1-3)] by blast
  moreover have "(entry hints sa)\<lparr>info_canonname := None\<rparr> = entry hints sa" by (simp add: entry_def no_hints_def)
  ultimately show ?thesis using ne
    by (cases "info_flags hints AND AI_CANONNAME = 0") (simp_all only: getaddrinfo_def ga_inet_def Let_def bindr_simps
        map_sum.simps id_apply prod.case if_False if_True simp_thms list.simps list.sel option.case not_False_eq_True)
qed

lemma ga_serv_entry:
  assumes "internet sa" and "info_socktype hints \<noteq> 0" and "canon = info_canonname ai" and "ai = (entry hints sa)\<lparr>info_canonname := canon\<rparr>"
  shows "ga_serv R hints (show_nat (unat (ntohs p))) [ai] = Inr [ai\<lparr>info_addr := Some (at_port p sa)\<rparr>]"
  using assms(1,2)
  by (cases sa) (auto simp: assms(4) internet_def ga_serv_def show_nat_starts port_read_back find_def entry_def no_hints_def put_port_def
      at_port_def Let_def)

lemma getaddrinfo_printed_port:
  assumes "internet sa" and "rs_memory R" and "info_family hints \<in> {AF_UNSPEC, sa_family sa}"
    and "info_flags hints AND NOT AI_PASSIVE = 0" and "info_socktype hints \<in> {STREAM, DGRAM, RAW}"
  shows "\<exists>ai. getaddrinfo R (Some (numeric_host sa)) (Some (show_nat (unat (ntohs (sa_port sa))))) (Some hints) = ([], Inr [ai])
    \<and> info_addr ai = Some sa \<and> info_family ai = sa_family sa \<and> info_socktype ai = info_socktype hints
    \<and> info_addrlen ai = (case sa of Sockaddr_in6 p a \<Rightarrow> 28 | _ \<Rightarrow> 16)"
proof -
  let ?serv = "show_nat (unat (ntohs (sa_port sa)))" and ?ai = "(entry hints sa)\<lparr>info_canonname := None\<rparr>"
  have st: "info_socktype hints \<noteq> 0" using assms(5) by (auto simp: STREAM_def DGRAM_def RAW_def)
  have canon: "info_flags hints AND AI_CANONNAME = 0"
  proof -
    have "info_flags hints AND AI_CANONNAME = (info_flags hints AND NOT AI_PASSIVE) AND AI_CANONNAME"
      by (simp add: AI_PASSIVE_def AI_CANONNAME_def and.assoc)
    then show ?thesis by (simp add: assms(4))
  qed
  have flags: "info_flags hints AND NOT (AI_PASSIVE OR AI_CANONNAME) = 0"
  proof -
    have "info_flags hints AND NOT (AI_PASSIVE OR AI_CANONNAME) = (info_flags hints AND NOT AI_PASSIVE) AND NOT AI_CANONNAME"
      by (simp add: bit.de_Morgan_disj and.assoc)
    then show ?thesis by (simp add: assms(4))
  qed
  have "getaddrinfo R (Some (numeric_host sa)) (Some ?serv) (Some hints) = ([], ga_serv R hints ?serv [?ai])"
    using getaddrinfo_printed [OF assms(1-3) flags, of "Some ?serv"] assms(5) canon by (auto simp: blank_def)
  also have "\<dots> = ([], Inr [?ai\<lparr>info_addr := Some (at_port (sa_port sa) sa)\<rparr>])"
    using ga_serv_entry [OF assms(1) st, of None ?ai R "sa_port sa"] by simp
  also have "at_port (sa_port sa) sa = sa" by (cases sa) (auto simp: at_port_def sa_port_def)
  finally show ?thesis by (auto simp: entry_def)
qed

section \<open>What callers rely on\<close>

text \<open>The system's answers: every address has the family it is said to have.\<close>

inductive replied :: "name_tables \<Rightarrow> hostent \<Rightarrow> bool" for R where
  replied2: "rs_gethostbyname2 R n f = Some h \<Longrightarrow> replied R h"
| replied1: "rs_gethostbyname R b n = Inr h \<Longrightarrow> replied R h"

definition lawful :: "name_tables \<Rightarrow> bool" where
  "lawful R \<longleftrightarrow> (\<forall>h. replied R h
     \<longrightarrow> h_addrtype h = AF_INET \<and> (\<forall>a \<in> set (h_addr_list h). length a = 4)
       \<or> h_addrtype h = AF_INET6 \<and> (\<forall>a \<in> set (h_addr_list h). length a = 16))"

definition sa_size :: "sockaddr \<Rightarrow> nat" where
  "sa_size sa = (case sa of Sockaddr_in p a \<Rightarrow> 16 | Sockaddr_in6 p a \<Rightarrow> 28 | _ \<Rightarrow> 110)"

text \<open>An element that answers the hints: an address of its family and length, and the family and socket type asked for.\<close>

definition answers_to :: "addrinfo \<Rightarrow> addrinfo \<Rightarrow> bool" where
  "answers_to hints ai \<longleftrightarrow>
     (case info_addr ai of None \<Rightarrow> False | Some sa \<Rightarrow> sa_family sa = info_family ai \<and> info_addrlen ai = sa_size sa)
     \<and> info_family ai \<in> {AF_INET, AF_INET6, AF_UNIX}
     \<and> info_family hints \<in> {AF_UNSPEC, info_family ai} \<and> (info_socktype hints \<noteq> 0 \<longrightarrow> info_socktype ai = info_socktype hints)"

lemma ga_aistruct_answers:
  assumes "ga_aistruct R hints addr f = Inr ai" and "f \<in> {AF_INET, AF_INET6, AF_UNIX}" and "info_family hints \<in> {AF_UNSPEC, f}"
  shows "answers_to hints ai"
  using assms
  by (auto simp: ga_aistruct_def answers_to_def sa_size_def no_hints_def Let_def split: if_splits ga_addr.splits)

lemma put_port_answers:
  assumes "put_port port ai = Inr (ai', k)" and "answers_to hints ai"
  shows "answers_to hints ai' \<and> info_socktype ai' = info_socktype ai"
  using assms
  by (auto simp: put_port_def answers_to_def sa_size_def split: family.splits option.splits sockaddr.splits)

lemma answers_to_socktype:
  "answers_to hints ai \<Longrightarrow> info_socktype hints \<in> {0, st} \<Longrightarrow> answers_to hints (ai\<lparr>info_socktype := st\<rparr>)"
  "answers_to hints ai \<Longrightarrow> info_socktype hints \<in> {0, st} \<Longrightarrow>
     answers_to hints (ai\<lparr>info_flags := fl, info_socktype := st, info_canonname := c\<rparr>)"
  "answers_to hints ai \<Longrightarrow> answers_to hints (ai\<lparr>info_canonname := c\<rparr>)"
  by (auto simp: answers_to_def split: option.splits)

lemma ga_port_answers:
  assumes "ga_port R port st ais = Inr (ais', n)" and "\<forall>ai \<in> set ais. answers_to hints ai" and "info_socktype hints \<in> {0, st}"
  shows "(\<forall>ai \<in> set ais'. answers_to hints ai) \<and> length ais \<le> length ais'"
  using assms
proof (induction ais arbitrary: ais' n)
  case (Cons ai ais)
  have ai: "answers_to hints ai" using Cons.prems(2) by simp
  have rest: "(\<forall>ai \<in> set r. answers_to hints ai) \<and> length ais \<le> length r" if "ga_port R port st ais = Inr (r, m)" for r m
    using Cons.IH [OF that _ Cons.prems(3)] Cons.prems(2) by simp
  have put: "answers_to hints y" if "put_port port (x\<lparr>info_socktype := st\<rparr>) = Inr (y, k)" "answers_to hints x" for x y k
    using put_port_answers [OF that(1)] answers_to_socktype(1) [OF that(2) Cons.prems(3)] by simp
  have clone: "answers_to hints new" if "ga_clone R ai = Some new" for new
    using that ai by (auto simp: ga_clone_def answers_to_def split: if_splits option.splits)
  show ?case using Cons.prems(1) ai
    by (auto simp: bind_iff split: if_splits option.splits dest!: rest put clone)
qed simp

definition all_answer :: "addrinfo \<Rightarrow> addrinfo list \<Rightarrow> bool" where
  "all_answer hints ais \<longleftrightarrow> ais \<noteq> [] \<and> (\<forall>ai \<in> set ais. answers_to hints ai)"

lemma find_answers:
  assumes "find R port st (ais, n) = Inr (ais', n')" and "all_answer hints ais" and "info_socktype hints \<in> {0, st}"
  shows "all_answer hints ais'"
  using assms ga_port_answers [of R port st ais _ _ hints] by (fastforce simp: find_def all_answer_def bind_iff)

lemma find_name_answers:
  assumes "find_name R hints serv proto st (ais, n) = Inr (ais', n')" and "all_answer hints ais"
  shows "all_answer hints ais'"
  using assms find_answers [of R _ st ais n ais' n' hints] by (auto simp: find_name_def split: if_splits option.splits)

lemma ga_serv_answers:
  assumes "ga_serv R hints serv ais = Inr ais'" and "all_answer hints ais"
  shows "all_answer hints ais'"
  using assms
  by (auto simp: ga_serv_def bind_iff Let_def split: if_splits intro: find_answers find_name_answers)

lemma ga_address_answers:
  "ga_address R hints af search = Inr (Some ais) \<Longrightarrow> af \<in> {AF_INET, AF_INET6} \<Longrightarrow> \<forall>ai \<in> set ais. answers_to hints ai"
  by (auto simp: ga_address_def bind_iff split: prod.splits if_splits intro!: ga_aistruct_answers)

lemma ga_numeric_answers: "ga_numeric R hints search = Inr (Some ais) \<Longrightarrow> \<forall>ai \<in> set ais. answers_to hints ai"
  using ga_address_answers [of R hints AF_INET search ais] ga_address_answers [of R hints AF_INET6 search ais]
  by (auto simp: ga_numeric_def bind_iff Let_def split: if_splits option.splits)

lemma ga_addrs_answers:
  "ga_addrs R hints f as = Inr ais \<Longrightarrow> f \<in> {AF_INET, AF_INET6} \<Longrightarrow> info_family hints \<in> {AF_UNSPEC, f}
     \<Longrightarrow> \<forall>ai \<in> set ais. answers_to hints ai"
proof (induction as arbitrary: ais)
  case (Cons a as)
  then obtain ai r where r: "ga_aistruct R hints (Bytes a) f = Inr ai" "ga_addrs R hints f as = Inr r" "ais = ai # r"
    by (auto simp: bind_iff)
  have "answers_to hints ai" by (rule ga_aistruct_answers [OF r(1)]) (use Cons.prems in auto)
  with Cons.IH [OF r(2) Cons.prems(2,3)] r(3) show ?case by simp
qed simp

lemma ga_lookup_answers:
  assumes "ga_lookup R hostname hints two search canon = Inr (ais, c)" and "lawful R"
  shows "\<forall>ai \<in> set ais. answers_to hints ai"
proof (cases "ais = []")
  case False
  then obtain h where h: "ga_addrs R hints (h_addrtype h) (h_addr_list h) = Inr ais"
    "info_family hints \<in> {AF_UNSPEC, h_addrtype h}"
    "replied R h"
    using assms(1)
    by (auto simp: ga_lookup_def bind_iff Let_def intro: replied1 replied2 split: prod.splits if_splits option.splits sum.splits)
  then have "h_addrtype h \<in> {AF_INET, AF_INET6}" using assms(2) unfolding lawful_def by blast
  with ga_addrs_answers [OF h(1) _ h(2)] show ?thesis by blast
qed simp

lemma ga_hosts_answers:
  assumes "ga_hosts R hostname hints two searches canon = Inr (ais, c)" and "lawful R"
  shows "\<forall>ai \<in> set ais. answers_to hints ai"
  using assms(1)
proof (induction searches arbitrary: canon ais c)
  case (Cons search searches)
  then obtain r a c' b where r: "ga_numeric R hints search = Inr r"
    "(case r of Some ais \<Rightarrow> Inr (ais, canon) | None \<Rightarrow> ga_lookup R hostname hints two search canon) = Inr (a, c')"
    "ga_hosts R hostname hints two searches c' = Inr (b, c)" "ais = a @ b"
    by (auto simp: bind_iff)
  have "\<forall>ai \<in> set a. answers_to hints ai"
    using r(1,2) ga_numeric_answers [of R hints search a] ga_lookup_answers [of R hostname hints two search canon a c'] assms(2)
    by (cases r) auto
  with Cons.IH [OF r(3)] r(4) show ?case by auto
qed simp

lemma all_answer_canon: "all_answer hints ais \<Longrightarrow> all_answer hints ((hd ais)\<lparr>info_canonname := c\<rparr> # tl ais)"
  using answers_to_socktype(3) by (cases ais) (auto simp: all_answer_def)

lemma ga_inet_answers:
  assumes "ga_inet R hostname servname hints = Inr ais" and "lawful R"
  shows "all_answer hints ais"
proof -
  obtain search b c d where b: "ga_hosts R hostname hints (length search = 2) search None = Inr (b, c)" "b \<noteq> []"
    "d = (if \<not> blank hostname \<and> info_flags hints AND AI_CANONNAME \<noteq> 0
         then (hd b)\<lparr>info_canonname := Some (case c of Some c \<Rightarrow> c | None \<Rightarrow> fst (hd search))\<rparr> # tl b else b)"
    "(if blank servname then Inr d else ga_serv R hints (the servname) d) = Inr ais"
    using assms(1) by (auto simp: ga_inet_def bind_iff Let_def split: if_splits)
  have "all_answer hints b" using ga_hosts_answers [OF b(1) assms(2)] b(2) by (simp add: all_answer_def)
  then have "all_answer hints d" using all_answer_canon b(3) by auto
  then show ?thesis using b(4) ga_serv_answers by (auto split: if_splits)
qed

lemma ga_local_answers:
  "snd (ga_local R hints path) = Inr ai \<Longrightarrow> info_family hints \<in> {AF_UNSPEC, AF_UNIX} \<Longrightarrow> answers_to hints ai"
  by (auto simp: ga_local_def Let_def intro!: ga_aistruct_answers)

lemma ga_unix_answers:
  assumes "snd (ga_unix R path hints) = Inr ais"
  shows "all_answer hints ais"
proof -
  have fam: "info_family hints \<in> {AF_UNSPEC, AF_UNIX}"
    using assms by (auto simp: ga_unix_def Let_def split: if_splits prod.splits)
  have st: "answers_to hints ai" if "answers_to (hints\<lparr>info_socktype := t\<rparr>) ai" "info_socktype hints = 0" for t ai
    using that by (auto simp: answers_to_def split: option.splits)
  define first where "first = (if info_socktype hints = 0
    then map_prod id (\<lambda>r. bindr r (\<lambda>ai. Inr [ai])) (ga_local R (hints\<lparr>info_socktype := STREAM\<rparr>) path) else ([], Inr []))"
  define hints' where "hints' = (if info_socktype hints = 0 then hints\<lparr>info_socktype := DGRAM\<rparr> else hints)"
  obtain as ai where as: "snd first = Inr as" and ai: "snd (ga_local R hints' path) = Inr ai"
    and ais: "ais = as @ [ai] \<or> (\<exists>c. ais = (hd (as @ [ai]))\<lparr>info_canonname := c\<rparr> # tl (as @ [ai]))"
    using assms fam unfolding ga_unix_def first_def [symmetric] hints'_def [symmetric]
    by (auto simp: bind_iff Let_def split: if_splits prod.splits sum.splits option.splits)
  have "\<forall>x \<in> set as. answers_to hints x"
  proof (cases "info_socktype hints = 0")
    case True
    then obtain x where "snd (ga_local R (hints\<lparr>info_socktype := STREAM\<rparr>) path) = Inr x" "as = [x]"
      using as by (auto simp: first_def bind_iff)
    then show ?thesis using ga_local_answers st [OF _ True] fam by fastforce
  qed (use as in \<open>simp add: first_def\<close>)
  moreover have "info_family hints' \<in> {AF_UNSPEC, AF_UNIX}" using fam by (simp add: hints'_def)
  then have "answers_to hints' ai" by (rule ga_local_answers [OF ai])
  then have "answers_to hints ai" using st [of DGRAM ai] by (cases "info_socktype hints = 0") (simp_all add: hints'_def)
  ultimately have "all_answer hints (as @ [ai])" by (auto simp: all_answer_def)
  then show ?thesis using ais all_answer_canon by blast
qed

section \<open>Both transports\<close>

definition sa_of :: "family \<Rightarrow> u8 list \<Rightarrow> sockaddr" where
  "sa_of f a = (if f = AF_INET then Sockaddr_in 0 (bytes_addr a) else Sockaddr_in6 0 a)"

lemma ga_addrs_entries:
  assumes "rs_memory R" and "f = AF_INET \<and> (\<forall>a \<in> set as. length a = 4) \<or> f = AF_INET6 \<and> (\<forall>a \<in> set as. length a = 16)"
  shows "ga_addrs R hints f as = Inr (map (\<lambda>a. entry hints (sa_of f a)) as)"
  using assms(2)
  by (induction as) (auto simp: ga_aistruct_def assms(1) sa_of_def entry_def at_port_def INADDRSZ_def IN6ADDRSZ_def Let_def)

text \<open>The two uses of an element without a socket type: as it is, and cloned.\<close>

definition first_use :: "u16 \<Rightarrow> addrinfo \<Rightarrow> sockaddr \<Rightarrow> addrinfo" where
  "first_use p hints sa = (entry hints sa)\<lparr>info_socktype := STREAM, info_addr := Some (at_port p sa)\<rparr>"

definition second_use :: "u16 \<Rightarrow> addrinfo \<Rightarrow> sockaddr \<Rightarrow> addrinfo" where
  "second_use p hints sa = (entry hints sa)\<lparr>info_flags := 0, info_socktype := DGRAM, info_addr := Some (at_port p sa)\<rparr>"

lemma ga_port_first:
  assumes "info_socktype hints = 0" and "\<forall>sa \<in> set sas. sa_family sa \<in> {AF_INET, AF_INET6}"
  shows "ga_port R p STREAM (map (entry hints) sas) = Inr (map (first_use p hints) sas, length sas)"
  using assms(2)
proof (induction sas)
  case (Cons sa sas)
  then show ?case using assms(1)
    by (cases sa) (auto simp: entry_def first_use_def put_port_def at_port_def AI_CLONE_def)
qed simp

lemma ga_port_second:
  assumes "info_socktype hints = 0" and "\<forall>sa \<in> set sas. sa_family sa \<in> {AF_INET, AF_INET6}" and "rs_memory R"
  shows "ga_port R q DGRAM (map (first_use p hints) sas)
    = Inr (concat (map (\<lambda>sa. [first_use p hints sa, second_use q hints sa]) sas), length sas)"
  using assms(2)
proof (induction sas)
  case (Cons sa sas)
  then show ?case using assms(1,3)
    by (cases sa) (auto simp: entry_def first_use_def second_use_def put_port_def at_port_def AI_CLONE_def STREAM_def ga_clone_def
        no_hints_def)
qed simp

section \<open>Claims\<close>

text \<open>A host with empty tables.\<close>

definition no_tables :: name_tables where
  "no_tables = \<lparr>rs_gethostbyname2 = (\<lambda>n f. None), rs_gethostbyname = (\<lambda>b n. Inl 1), rs_getservbyname = (\<lambda>s p. None),
     rs_gethostbyaddr = (\<lambda>a f. None), rs_getservbyport = (\<lambda>p s. None), rs_uname = None, rs_memory = True\<rparr>"

text \<open>
  C30. \<^verbatim>\<open>getaddrinfo\<close> undoes \<^verbatim>\<open>getnameinfo\<close>: the numeric host and service that \<^verbatim>\<open>getnameinfo\<close> writes
  for an IPv4 or IPv6 address and port are turned by \<^verbatim>\<open>getaddrinfo\<close> into one element with exactly that
  address and port and the socket type asked for, whether the family is given or not, and whatever
  the system's tables of hosts and services say.
\<close>
theorem names_give_address_back:
  assumes "internet sa" and "rs_memory R" and "46 \<le> hostlen" and "6 \<le> servlen"
    and "info_family hints \<in> {AF_UNSPEC, sa_family sa}" and "info_flags hints = 0"
    and "info_socktype hints \<in> {STREAM, DGRAM, RAW}"
  shows "\<exists>host serv ai. getnameinfo R sa hostlen servlen (NI_NUMERICHOST OR NI_NUMERICSERV) = Inr (Some (Some host, Some serv))
    \<and> getaddrinfo R (Some host) (Some serv) (Some hints) = ([], Inr [ai])
    \<and> info_addr ai = Some sa \<and> info_family ai = sa_family sa \<and> info_socktype ai = info_socktype hints"
proof -
  have flags: "(NI_NUMERICHOST OR NI_NUMERICSERV) AND NI_NUMERICHOST \<noteq> 0" "(NI_NUMERICHOST OR NI_NUMERICSERV) AND NI_NUMERICSERV \<noteq> 0"
    by (simp_all add: NI_NUMERICHOST_def NI_NUMERICSERV_def)
  let ?serv = "show_nat (unat (ntohs (sa_port sa)))"
  have serv: "gn_serv R servlen (sa_port sa) (NI_NUMERICHOST OR NI_NUMERICSERV) = ?serv"
    using flags(2) show_port_length [of "ntohs (sa_port sa)"] assms(4) by (simp add: gn_serv_def snprintf_def)
  have named: "getnameinfo R sa hostlen servlen (NI_NUMERICHOST OR NI_NUMERICSERV) = Inr (Some (Some (numeric_host sa), Some ?serv))"
  proof (cases sa)
    case (Sockaddr_in p a)
    then show ?thesis using assms(3,4) flags(1) serv show4_length [of "addr_bytes a"]
      by (simp add: getnameinfo_def gn_ipv46_def gn_host_def inet_ntop_def inet_ntop4_def numeric_host_def sa_port_def Let_def)
  next
    case (Sockaddr_in6 p a)
    then show ?thesis using assms(3,4) flags(1) serv show6_length [of a]
      by (simp add: getnameinfo_def gn_ipv46_def gn_host_def inet_ntop_def inet_ntop6_def numeric_host_def sa_port_def Let_def)
  qed (use assms(1) in \<open>auto simp: internet_def\<close>)
  have "info_flags hints AND NOT AI_PASSIVE = 0" using assms(6) by simp
  then show ?thesis using named getaddrinfo_printed_port [OF assms(1,2,5) _ assms(7)] by blast
qed

theorem names_give_address_back_witness:
  "\<exists>host serv ai. getnameinfo no_tables (Sockaddr_in6 (htons 443) (replicate 15 0 @ [1])) 46 6 (NI_NUMERICHOST OR NI_NUMERICSERV)
      = Inr (Some (Some host, Some serv))
    \<and> getaddrinfo no_tables (Some host) (Some serv) (Some (no_hints\<lparr>info_socktype := STREAM\<rparr>)) = ([], Inr [ai])
    \<and> info_addr ai = Some (Sockaddr_in6 (htons 443) (replicate 15 0 @ [1]))"
  using names_give_address_back [of "Sockaddr_in6 (htons 443) (replicate 15 0 @ [1])" no_tables 46 6 "no_hints\<lparr>info_socktype := STREAM\<rparr>"]
  by (simp add: internet_def no_tables_def no_hints_def) blast

lemma getaddrinfo_all_answer:
  assumes "snd (getaddrinfo R hostname servname hintsp) = Inr ais" and "lawful R"
  shows "all_answer (case hintsp of None \<Rightarrow> no_hints | Some h \<Rightarrow> h) ais"
  using assms(1) ga_inet_answers [OF _ assms(2)] ga_unix_answers
  by (auto simp: getaddrinfo_def Let_def split: if_splits)

text \<open>
  C32. A successful answer is one its callers can use: it is not empty, and each element has an address
  of its family and of the length it states, in the family and with the socket type of the hints.
\<close>
theorem getaddrinfo_answers:
  assumes "snd (getaddrinfo R hostname servname hintsp) = Inr ais" and "lawful R"
    and "hints = (case hintsp of None \<Rightarrow> no_hints | Some h \<Rightarrow> h)"
  shows "all_answer hints ais"
  unfolding assms(3) by (rule getaddrinfo_all_answer [OF assms(1,2)])

theorem getaddrinfo_answers_witness:
  "\<exists>ais. snd (getaddrinfo no_tables (Some ''10.0.0.1'') (Some ''80'') None) = Inr ais \<and> length ais = 2 \<and> all_answer no_hints ais"
proof -
  have "case snd (getaddrinfo no_tables (Some ''10.0.0.1'') (Some ''80'') None) of Inl e \<Rightarrow> False | Inr ais \<Rightarrow> length ais = 2"
    by code_simp
  then obtain ais where ais: "snd (getaddrinfo no_tables (Some ''10.0.0.1'') (Some ''80'') None) = Inr ais" "length ais = 2"
    by (auto split: sum.splits)
  have "lawful no_tables" by (auto simp: lawful_def no_tables_def elim: replied.cases)
  from getaddrinfo_answers [OF ais(1) this] ais show ?thesis by simp
qed

text \<open>
  A host with several addresses and a service over both transports: when no socket type is asked for,
  each address is returned for TCP with its port and then for UDP with its port, so two elements for each
  address, as the comment at \<^verbatim>\<open>ga_port\<close> describes.
\<close>
theorem both_transports_returned:
  assumes "rs_memory R" and "info_socktype hints = 0" and "info_flags hints = 0" and "info_family hints = f"
    and "f = AF_INET \<and> (\<forall>a \<in> set (h_addr_list h). length a = 4) \<or> f = AF_INET6 \<and> (\<forall>a \<in> set (h_addr_list h). length a = 16)"
    and "rs_gethostbyname R (f = AF_INET6) host = Inr h" and "h_addrtype h = f" and "h_addr_list h \<noteq> []"
    and "\<not> is_digit (first_char host)" and "CHR '':'' \<notin> set host" and "host \<noteq> []"
    and "\<not> is_digit (first_char serv)" and "first_char serv \<noteq> CHR ''/''" and "serv \<noteq> []"
    and "rs_getservbyname R serv ''tcp'' = Some p" and "rs_getservbyname R serv ''udp'' = Some q"
  shows "\<exists>ais. getaddrinfo R (Some host) (Some serv) (Some hints) = ([], Inr ais)
    \<and> map (\<lambda>ai. (info_addr ai, info_socktype ai)) ais
      = concat (map (\<lambda>a. [(Some (at_port p (sa_of f a)), STREAM), (Some (at_port q (sa_of f a)), DGRAM)]) (h_addr_list h))"
proof -
  let ?sas = "map (sa_of f) (h_addr_list h)"
  have fam: "f = AF_INET \<or> f = AF_INET6" and sas: "\<forall>sa \<in> set ?sas. sa_family sa \<in> {AF_INET, AF_INET6}"
    using assms(5) by (auto simp: sa_of_def)
  have search: "ga_nsearch (Some host) hints = Inr [(host, f)]"
    using fam assms(4,11) by (auto simp: ga_nsearch_def both_def blank_def Let_def)
  have "ga_numeric R hints (host, f) = Inr None" using assms(9,10) by (simp add: ga_numeric_def Let_def)
  then have hosts: "ga_hosts R (Some host) hints False [(host, f)] None = Inr (map (entry hints) ?sas, None)"
    using assms(3,4,6,7) ga_addrs_entries [OF assms(1,5), of hints] by (simp add: ga_lookup_def comp_def)
  have serv: "ga_serv R hints serv (map (entry hints) ?sas)
      = Inr (concat (map (\<lambda>sa. [first_use p hints sa, second_use q hints sa]) ?sas))"
    using ga_port_first [OF assms(2) sas, of R p] ga_port_second [OF assms(2) sas assms(1), of q p] assms(2,8,12,15,16)
    by (simp add: ga_serv_def find_name_def find_def del: map_map)
  have "ga_echeck (Some host) (Some serv) (info_flags hints) (info_family hints) (info_socktype hints) = 0"
    using assms(2,3,4,11) fam by (auto simp: ga_echeck_def blank_def)
  then have "getaddrinfo R (Some host) (Some serv) (Some hints) = ([], ga_serv R hints serv (map (entry hints) ?sas))"
    using search hosts assms(3,8,13,14) by (simp add: getaddrinfo_def ga_inet_def blank_def)
  with serv show ?thesis by (auto simp: map_concat comp_def first_use_def second_use_def)
qed

text \<open>
  A host that is not named \<^verbatim>\<open>/local\<close>, asked for in the family of Unix domain sockets, passes the checks and
  then ends the calling process, as nothing is put into the array of searches.
\<close>
theorem local_family_quits:
  assumes "info_family hints = AF_UNIX" and "info_flags hints = 0" and "info_socktype hints = 0" and "host \<noteq> []"
    and "host \<noteq> ''/local''" and "host \<noteq> ''/unix''"
  shows "getaddrinfo R (Some host) servname (Some hints) = ([], Inl (Quits (Exit 1 ''nsearch = 0'')))"
proof -
  have "show_nat 0 = ''0''" by code_simp
  with assms show ?thesis
    by (simp add: getaddrinfo_def ga_echeck_def blank_def ga_inet_def ga_nsearch_def both_def Let_def)
qed

text \<open>With \<^verbatim>\<open>AI_PASSIVE\<close> the path of a Unix domain socket is removed, whatever file it names.\<close>

theorem local_passive_removes:
  assumes "rs_memory R" and "length path < 108" and "info_family hints = AF_UNIX" and "info_flags hints = AI_PASSIVE"
    and "info_socktype hints = STREAM" and "first_char path = CHR ''/''"
  shows "fst (getaddrinfo R (Some ''/local'') (Some path) (Some hints)) = [path]"
  using assms
  by (simp add: getaddrinfo_def ga_echeck_def blank_def ga_unix_def ga_local_def ga_aistruct_def AI_PASSIVE_def AI_CANONNAME_def
      STREAM_def DGRAM_def Let_def)

end
