(* ===== verification/ConnectNames.thy ===== *)
theory ConnectNames
  imports Connect GetAddrInfoProps
begin

text \<open>
  The connecting functions of the library on its own \<^verbatim>\<open>getaddrinfo\<close>: what they rely on holds, and a host and
  a service in printed form lead to that address and port.
\<close>

text \<open>
  The hints as \<^verbatim>\<open>tcp_connect\<close> and its relatives set them, and the list with the outcomes of the calls that
  will be made for each address.
\<close>

definition gai_hints :: "hints \<Rightarrow> addrinfo" where
  "gai_hints h = no_hints\<lparr>info_flags := (if ai_passive h then AI_PASSIVE else 0),
     info_socktype := (case ai_socktype h of SOCK_STREAM \<Rightarrow> STREAM | SOCK_DGRAM \<Rightarrow> DGRAM)\<rparr>"

record call_results =
  cr_socket :: "nat option"
  cr_setsockopt :: bool
  cr_call :: bool
  cr_close :: bool

definition attempt_of :: "(sockaddr \<Rightarrow> call_results) \<Rightarrow> addrinfo \<Rightarrow> attempt" where
  "attempt_of calls ai =
     (let sa = the (info_addr ai); c = calls sa in
      \<lparr>ai_addr = sa, ai_addrlen = info_addrlen ai, at_socket = cr_socket c, at_setsockopt = cr_setsockopt c,
       at_call = cr_call c, at_close = cr_close c\<rparr>)"

text \<open>\<open>gai\<close> is the library's \<^verbatim>\<open>getaddrinfo\<close> wherever that returns to its caller.\<close>

definition on_libgai :: "name_tables \<Rightarrow> (sockaddr \<Rightarrow> call_results) \<Rightarrow> Connect.resolver \<Rightarrow> bool" where
  "on_libgai R calls gai \<longleftrightarrow> (\<forall>host serv h.
     (case snd (getaddrinfo R (Some host) (Some serv) (Some (gai_hints h))) of
        Inl (Quits e) \<Rightarrow> True
      | Inl (Eai n) \<Rightarrow> gai host serv h = Inl (gai_strerror n)
      | Inr ais \<Rightarrow> gai host serv h = Inr (map (attempt_of calls) ais)))"

lemma on_libgai_exists: "\<exists>gai. on_libgai R calls gai"
  by (rule exI [of _ "\<lambda>host serv h. case snd (getaddrinfo R (Some host) (Some serv) (Some (gai_hints h))) of
      Inl (Quits e) \<Rightarrow> Inl [] | Inl (Eai n) \<Rightarrow> Inl (gai_strerror n) | Inr ais \<Rightarrow> Inr (map (attempt_of calls) ais)"])
    (auto simp: on_libgai_def split: sum.splits gai_error.splits)

lemma on_libgai_answer:
  assumes "on_libgai R calls gai" and "getaddrinfo R (Some host) (Some serv) (Some (gai_hints h)) = (g, Inr ais)"
  shows "gai host serv h = Inr (map (attempt_of calls) ais)"
proof -
  let ?ga = "getaddrinfo R (Some host) (Some serv) (Some (gai_hints h))"
  have "case snd ?ga of Inl (Quits e) \<Rightarrow> True | Inl (Eai n) \<Rightarrow> gai host serv h = Inl (gai_strerror n)
      | Inr l \<Rightarrow> gai host serv h = Inr (map (attempt_of calls) l)"
    using assms(1) unfolding on_libgai_def by blast
  then show ?thesis by (simp add: assms(2))
qed

lemma on_libgai_printed:
  assumes "on_libgai R calls gai" and "internet sa" and "rs_memory R"
  shows "gai (numeric_host sa) (show_nat (unat (ntohs (sa_port sa)))) h =
    Inr [\<lparr>ai_addr = sa, ai_addrlen = (case sa of Sockaddr_in6 p a \<Rightarrow> 28 | _ \<Rightarrow> 16), at_socket = cr_socket (calls sa),
      at_setsockopt = cr_setsockopt (calls sa), at_call = cr_call (calls sa), at_close = cr_close (calls sa)\<rparr>]"
proof -
  have hints: "info_family (gai_hints h) \<in> {AF_UNSPEC, sa_family sa}" "info_flags (gai_hints h) AND NOT AI_PASSIVE = 0"
    "info_socktype (gai_hints h) \<in> {STREAM, DGRAM, RAW}"
    by (cases "ai_socktype h"; simp add: gai_hints_def no_hints_def)+
  obtain ai where ai: "getaddrinfo R (Some (numeric_host sa)) (Some (show_nat (unat (ntohs (sa_port sa))))) (Some (gai_hints h)) = ([], Inr [ai])"
    "info_addr ai = Some sa" "info_addrlen ai = (case sa of Sockaddr_in6 p a \<Rightarrow> 28 | _ \<Rightarrow> 16)"
    using getaddrinfo_printed_port [OF assms(2,3) hints] by blast
  show ?thesis using on_libgai_answer [OF assms(1) ai(1)] ai(2,3) by (simp add: attempt_of_def Let_def)
qed

text \<open>
  Named by its printed address and port, a server that accepts is the one \<^verbatim>\<open>tcp_connect\<close> connects to.
\<close>
theorem tcp_connect_printed:
  assumes "on_libgai R calls gai" and "internet sa" and "rs_memory R"
    and "calls sa = \<lparr>cr_socket = Some fd, cr_setsockopt = True, cr_call = True, cr_close = True\<rparr>"
  shows "tcp_connect gai (numeric_host sa) (show_nat (unat (ntohs (sa_port sa)))) s
    = Inr (fd, s(fd \<mapsto> (new_socket SOCK_STREAM)\<lparr>so_peer := Some sa\<rparr>))"
  by (simp add: tcp_connect_def first_working_def on_libgai_printed [OF assms(1-3)] pass_all_def connect_pass_def assms(4) Let_def)

text \<open>A server named in this way listens on that address and port.\<close>

theorem tcp_listen_printed:
  assumes "on_libgai R calls gai" and "internet sa" and "rs_memory R"
    and "calls sa = \<lparr>cr_socket = Some fd, cr_setsockopt = True, cr_call = True, cr_close = True\<rparr>"
  shows "\<exists>n. tcp_listen gai True (numeric_host sa) (show_nat (unat (ntohs (sa_port sa)))) s
    = Inr ((fd, n), s(fd \<mapsto> (new_socket SOCK_STREAM)\<lparr>so_reuseaddr := True, so_local := Some sa, so_listening := True\<rparr>))"
  by (simp add: tcp_listen_def first_working_def on_libgai_printed [OF assms(1-3)] pass_all_def listen_pass_tcp_def assms(4) Let_def)

text \<open>
  The connecting functions look at the first element of the list before they look whether there is one;
  the library never gives them an empty list.
\<close>
lemma pass_rest_defined: "pass_rest (connect_pass ty) as u \<noteq> Inl (Undefined m, t)"
  by (induction as arbitrary: u)
    (auto simp: connect_pass_def Close_def exit_if_def bind_iff Let_def split: option.splits if_splits)

theorem list_never_empty:
  assumes "on_libgai R calls gai" and "lawful R"
    and "getaddrinfo R (Some host) (Some serv) (Some (gai_hints \<lparr>ai_passive = False, ai_socktype = SOCK_STREAM\<rparr>)) = (g, Inr ais)"
  shows "tcp_connect gai host serv s \<noteq> Inl (Undefined m, t)"
proof -
  have "snd (getaddrinfo R (Some host) (Some serv) (Some (gai_hints \<lparr>ai_passive = False, ai_socktype = SOCK_STREAM\<rparr>))) = Inr ais"
    by (simp add: assms(3))
  from getaddrinfo_all_answer [OF this assms(2)] have "ais \<noteq> []" by (simp add: all_answer_def)
  then have "map (attempt_of calls) ais \<noteq> []" by simp
  then show ?thesis using on_libgai_answer [OF assms(1,3)] pass_rest_defined
    by (auto simp: tcp_connect_def first_working_def pass_all_def bind_iff split: option.splits)
qed

end
