(* ===== verification/Mcast.thy ===== *)
theory Mcast
  imports SockAddr
begin

text \<open>
  The multicast functions of the book library (\<^verbatim>\<open>unpv13e/lib/mcast_*.c\<close>,
  \<^verbatim>\<open>family_to_level.c\<close>, \<^verbatim>\<open>sockfd_to_family.c\<close>), in the variants compiled where
  \<^verbatim>\<open>MCAST_JOIN_GROUP\<close> is defined: they turn a family, an interface and a value into one call of
  \<^verbatim>\<open>setsockopt\<close> or \<^verbatim>\<open>getsockopt\<close>.
\<close>

section \<open>Options of a socket\<close>

definition ENXIO :: int where "ENXIO = 6"
definition EINVAL :: int where "EINVAL = 22"
definition EAFNOSUPPORT :: int where "EAFNOSUPPORT = 97"
definition IPPROTO_IP :: int where "IPPROTO_IP = 0"
definition IPPROTO_IPV6 :: int where "IPPROTO_IPV6 = 41"

record group_req =
  gr_interface :: u32
  gr_group :: sockaddr

record group_source_req =
  gsr_interface :: u32
  gsr_group :: sockaddr
  gsr_source :: sockaddr

datatype set_option =
    MCAST_JOIN_GROUP group_req
  | MCAST_LEAVE_GROUP group_req
  | MCAST_JOIN_SOURCE_GROUP group_source_req
  | MCAST_LEAVE_SOURCE_GROUP group_source_req
  | MCAST_BLOCK_SOURCE group_source_req
  | MCAST_UNBLOCK_SOURCE group_source_req
  | IP_MULTICAST_TTL u8
  | IPV6_MULTICAST_HOPS u32
  | IP_MULTICAST_LOOP u8
  | IPV6_MULTICAST_LOOP u32
  | IP_MULTICAST_IF u32
  | IPV6_MULTICAST_IF u32

text \<open>
  The kernel of a host, \<open>'k\<close> being the state of the socket: \<^verbatim>\<open>setsockopt\<close> at a level gives a new
  state or an error, \<^verbatim>\<open>getsockopt\<close> the option as it is set (\<open>None\<close>: it fails) and
  \<^verbatim>\<open>getsockname\<close> the family of the socket.
\<close>

record 'k host =
  setsockopt :: "int \<Rightarrow> set_option \<Rightarrow> 'k \<Rightarrow> int + 'k"
  get_ttl :: "'k \<Rightarrow> u8 option"
  get_hops :: "'k \<Rightarrow> u32 option"
  get_loop4 :: "'k \<Rightarrow> u8 option"
  get_loop6 :: "'k \<Rightarrow> u32 option"
  get_if6 :: "'k \<Rightarrow> u32 option"
  getsockname :: "'k \<Rightarrow> family option"
  if_nametoindex :: "string \<Rightarrow> u32"
  if_indextoname :: "u32 \<Rightarrow> string option"
  siocgifaddr :: "string \<Rightarrow> int + u32"

definition family_to_level :: "family \<Rightarrow> int" where
  "family_to_level f = (case f of AF_INET \<Rightarrow> IPPROTO_IP | AF_INET6 \<Rightarrow> IPPROTO_IPV6 | _ \<Rightarrow> - 1)"

definition Family_to_level :: "family \<Rightarrow> stop + int" where
  "Family_to_level f =
     (let rc = family_to_level f in if rc < 0 then Inl (Exit 1 ''family_to_level error'') else Inr rc)"

text \<open>\<open>None\<close>: \<^verbatim>\<open>getsockname\<close> fails and -1 is returned.\<close>

definition sockfd_to_family :: "'k host \<Rightarrow> 'k \<Rightarrow> family option" where
  "sockfd_to_family K k = getsockname K k"

section \<open>Joining and leaving\<close>

text \<open>
  The result is the state of the socket where 0 is returned and \<^verbatim>\<open>errno\<close> where -1 is. The
  interface is given by number, by name, or left to the kernel (0).
\<close>

definition interface_of :: "'k host \<Rightarrow> string option \<Rightarrow> u32 \<Rightarrow> int + u32" where
  "interface_of K ifname ifindex =
     (if ifindex > 0 then Inr ifindex
      else
        (case ifname of
           Some name \<Rightarrow> (let i = if_nametoindex K name in if i = 0 then Inl ENXIO else Inr i)
         | None \<Rightarrow> Inr 0))"

definition storage_size :: nat where "storage_size = 128"

definition mcast_join :: "'k host \<Rightarrow> sockaddr \<Rightarrow> nat \<Rightarrow> string option \<Rightarrow> u32 \<Rightarrow> 'k \<Rightarrow> int + 'k" where
  "mcast_join K grp grplen ifname ifindex k =
     bindr (interface_of K ifname ifindex) (\<lambda>i.
     if grplen > storage_size then Inl EINVAL
     else setsockopt K (family_to_level (sa_family grp)) (MCAST_JOIN_GROUP \<lparr>gr_interface = i, gr_group = grp\<rparr>) k)"

definition mcast_leave :: "'k host \<Rightarrow> sockaddr \<Rightarrow> nat \<Rightarrow> 'k \<Rightarrow> int + 'k" where
  "mcast_leave K grp grplen k =
     (if grplen > storage_size then Inl EINVAL
      else setsockopt K (family_to_level (sa_family grp)) (MCAST_LEAVE_GROUP \<lparr>gr_interface = 0, gr_group = grp\<rparr>) k)"

definition source_req :: "u32 \<Rightarrow> sockaddr \<Rightarrow> nat \<Rightarrow> sockaddr \<Rightarrow> nat \<Rightarrow> int + group_source_req" where
  "source_req i src srclen grp grplen =
     (if grplen > storage_size \<or> srclen > storage_size then Inl EINVAL
      else Inr \<lparr>gsr_interface = i, gsr_group = grp, gsr_source = src\<rparr>)"

definition mcast_join_source_group ::
  "'k host \<Rightarrow> sockaddr \<Rightarrow> nat \<Rightarrow> sockaddr \<Rightarrow> nat \<Rightarrow> string option \<Rightarrow> u32 \<Rightarrow> 'k \<Rightarrow> int + 'k" where
  "mcast_join_source_group K src srclen grp grplen ifname ifindex k =
     bindr (interface_of K ifname ifindex) (\<lambda>i.
     bindr (source_req i src srclen grp grplen) (\<lambda>r.
     setsockopt K (family_to_level (sa_family grp)) (MCAST_JOIN_SOURCE_GROUP r) k))"

definition mcast_leave_source_group :: "'k host \<Rightarrow> sockaddr \<Rightarrow> nat \<Rightarrow> sockaddr \<Rightarrow> nat \<Rightarrow> 'k \<Rightarrow> int + 'k" where
  "mcast_leave_source_group K src srclen grp grplen k =
     bindr (source_req 0 src srclen grp grplen) (\<lambda>r.
     setsockopt K (family_to_level (sa_family grp)) (MCAST_LEAVE_SOURCE_GROUP r) k)"

definition mcast_block_source :: "'k host \<Rightarrow> sockaddr \<Rightarrow> nat \<Rightarrow> sockaddr \<Rightarrow> nat \<Rightarrow> 'k \<Rightarrow> int + 'k" where
  "mcast_block_source K src srclen grp grplen k =
     bindr (source_req 0 src srclen grp grplen) (\<lambda>r.
     setsockopt K (family_to_level (sa_family grp)) (MCAST_BLOCK_SOURCE r) k)"

definition mcast_unblock_source :: "'k host \<Rightarrow> sockaddr \<Rightarrow> nat \<Rightarrow> sockaddr \<Rightarrow> nat \<Rightarrow> 'k \<Rightarrow> int + 'k" where
  "mcast_unblock_source K src srclen grp grplen k =
     bindr (source_req 0 src srclen grp grplen) (\<lambda>r.
     setsockopt K (family_to_level (sa_family grp)) (MCAST_UNBLOCK_SOURCE r) k)"

text \<open>The wrappers, one for each message.\<close>

definition or_exit :: "string \<Rightarrow> int + 'k \<Rightarrow> stop + 'k" where
  "or_exit msg r = (case r of Inl errno \<Rightarrow> Inl (Exit 1 msg) | Inr k \<Rightarrow> Inr k)"

definition Mcast_join :: "'k host \<Rightarrow> sockaddr \<Rightarrow> nat \<Rightarrow> string option \<Rightarrow> u32 \<Rightarrow> 'k \<Rightarrow> stop + 'k" where
  "Mcast_join K grp grplen ifname ifindex k = or_exit ''mcast_join error'' (mcast_join K grp grplen ifname ifindex k)"

definition Mcast_leave :: "'k host \<Rightarrow> sockaddr \<Rightarrow> nat \<Rightarrow> 'k \<Rightarrow> stop + 'k" where
  "Mcast_leave K grp grplen k = or_exit ''mcast_leave error'' (mcast_leave K grp grplen k)"

section \<open>Limits, loops and interfaces\<close>

definition mcast_set_ttl :: "'k host \<Rightarrow> int \<Rightarrow> 'k \<Rightarrow> int + 'k" where
  "mcast_set_ttl K val k =
     (case sockfd_to_family K k of
        Some AF_INET \<Rightarrow> setsockopt K IPPROTO_IP (IP_MULTICAST_TTL (word_of_int val)) k
      | Some AF_INET6 \<Rightarrow> setsockopt K IPPROTO_IPV6 (IPV6_MULTICAST_HOPS (word_of_int val)) k
      | _ \<Rightarrow> Inl EAFNOSUPPORT)"

definition Mcast_set_ttl :: "'k host \<Rightarrow> int \<Rightarrow> 'k \<Rightarrow> stop + 'k" where
  "Mcast_set_ttl K val k = or_exit ''mcast_set_ttl error'' (mcast_set_ttl K val k)"

text \<open>The value returned; an \<^verbatim>\<open>int\<close> holds the limit of IPv6.\<close>

definition mcast_get_ttl :: "'k host \<Rightarrow> 'k \<Rightarrow> int" where
  "mcast_get_ttl K k =
     (case sockfd_to_family K k of
        Some AF_INET \<Rightarrow> (case get_ttl K k of None \<Rightarrow> - 1 | Some t \<Rightarrow> uint t)
      | Some AF_INET6 \<Rightarrow> (case get_hops K k of None \<Rightarrow> - 1 | Some h \<Rightarrow> sint h)
      | _ \<Rightarrow> - 1)"

definition Mcast_get_ttl :: "'k host \<Rightarrow> 'k \<Rightarrow> stop + int" where
  "Mcast_get_ttl K k =
     (let rc = mcast_get_ttl K k in if rc < 0 then Inl (Exit 1 ''mcast_get_ttl error'') else Inr rc)"

definition mcast_set_loop :: "'k host \<Rightarrow> int \<Rightarrow> 'k \<Rightarrow> int + 'k" where
  "mcast_set_loop K onoff k =
     (case sockfd_to_family K k of
        Some AF_INET \<Rightarrow> setsockopt K IPPROTO_IP (IP_MULTICAST_LOOP (word_of_int onoff)) k
      | Some AF_INET6 \<Rightarrow> setsockopt K IPPROTO_IPV6 (IPV6_MULTICAST_LOOP (word_of_int onoff)) k
      | _ \<Rightarrow> Inl EAFNOSUPPORT)"

text \<open>The flag of IPv6 is unsigned and converted to the signed result.\<close>

definition mcast_get_loop :: "'k host \<Rightarrow> 'k \<Rightarrow> int" where
  "mcast_get_loop K k =
     (case sockfd_to_family K k of
        Some AF_INET \<Rightarrow> (case get_loop4 K k of None \<Rightarrow> - 1 | Some f \<Rightarrow> uint f)
      | Some AF_INET6 \<Rightarrow> (case get_loop6 K k of None \<Rightarrow> - 1 | Some f \<Rightarrow> sint f)
      | _ \<Rightarrow> - 1)"

text \<open>For IPv4 the interface is set by its address, which is asked for by name.\<close>

definition address_of :: "'k host \<Rightarrow> string option \<Rightarrow> u32 \<Rightarrow> int + u32" where
  "address_of K ifname ifindex =
     (if ifindex > 0 then
        (case if_indextoname K ifindex of None \<Rightarrow> Inl ENXIO | Some name \<Rightarrow> siocgifaddr K name)
      else (case ifname of Some name \<Rightarrow> siocgifaddr K (take 16 (cstr name)) | None \<Rightarrow> Inr (htonl 0)))"

definition mcast_set_if :: "'k host \<Rightarrow> string option \<Rightarrow> u32 \<Rightarrow> 'k \<Rightarrow> int + 'k" where
  "mcast_set_if K ifname ifindex k =
     (case sockfd_to_family K k of
        Some AF_INET \<Rightarrow> bindr (address_of K ifname ifindex) (\<lambda>a. setsockopt K IPPROTO_IP (IP_MULTICAST_IF a) k)
      | Some AF_INET6 \<Rightarrow>
          bindr (if ifindex = 0 \<and> ifname = None then Inl EINVAL else interface_of K ifname ifindex) (\<lambda>idx.
          setsockopt K IPPROTO_IPV6 (IPV6_MULTICAST_IF idx) k)
      | _ \<Rightarrow> Inl EAFNOSUPPORT)"

definition mcast_get_if :: "'k host \<Rightarrow> 'k \<Rightarrow> int" where
  "mcast_get_if K k =
     (case sockfd_to_family K k of
        Some AF_INET6 \<Rightarrow> (case get_if6 K k of None \<Rightarrow> - 1 | Some i \<Rightarrow> sint i)
      | _ \<Rightarrow> - 1)"

section \<open>What is set is what is read\<close>

text \<open>A kernel in which an option that could be set is read back as it was set, and no call changes the family.\<close>

definition keeps_options :: "'k host \<Rightarrow> bool" where
  "keeps_options K \<longleftrightarrow>
     (\<forall>lv k k' t. setsockopt K lv (IP_MULTICAST_TTL t) k = Inr k' \<longrightarrow> get_ttl K k' = Some t)
   \<and> (\<forall>lv k k' h. setsockopt K lv (IPV6_MULTICAST_HOPS h) k = Inr k' \<longrightarrow> get_hops K k' = Some h)
   \<and> (\<forall>lv k k' f. setsockopt K lv (IP_MULTICAST_LOOP f) k = Inr k' \<longrightarrow> get_loop4 K k' = Some f)
   \<and> (\<forall>lv k k' f. setsockopt K lv (IPV6_MULTICAST_LOOP f) k = Inr k' \<longrightarrow> get_loop6 K k' = Some f)
   \<and> (\<forall>lv k k' x. setsockopt K lv x k = Inr k' \<longrightarrow> getsockname K k' = getsockname K k)"

lemma sint_word_of_int: "- (2 ^ 31) \<le> v \<Longrightarrow> v < 2 ^ 31 \<Longrightarrow> sint (word_of_int v :: u32) = v"
  by (simp add: sint_sbintrunc' signed_take_bit_int_eq_self_iff)

text \<open>
  On a kernel that keeps its options, the time to live that was set is read back: for IPv6 as it
  was given, for IPv4 its lowest eight bits, so that 256 becomes 0; and the loop flag in the same way.
\<close>
theorem ttl_read_back:
  assumes "keeps_options K" and "getsockname K k = Some f" and "f = AF_INET \<or> f = AF_INET6"
    and "- (2 ^ 31) \<le> v" and "v < 2 ^ 31"
  shows "(mcast_set_ttl K v k = Inr k' \<longrightarrow> mcast_get_ttl K k' = (if f = AF_INET then v mod 256 else v))
    \<and> (mcast_set_loop K v k = Inr k' \<longrightarrow> mcast_get_loop K k' = (if f = AF_INET then v mod 256 else v))"
proof -
  have byte: "uint (word_of_int v :: u8) = v mod 256" by (simp add: unsigned_of_int take_bit_eq_mod)
  have kept: "getsockname K k' = Some f" if "setsockopt K lv x k = Inr k'" for lv x
    using assms(1,2) that unfolding keeps_options_def by metis
  note defs = mcast_set_ttl_def mcast_get_ttl_def mcast_set_loop_def mcast_get_loop_def sockfd_to_family_def
  from assms(3) show ?thesis
  proof
    assume "f = AF_INET"
    then show ?thesis using assms(1,2) kept byte unfolding keeps_options_def
      by (auto simp: defs dest!: kept)
  next
    assume "f = AF_INET6"
    then show ?thesis using assms(1,2) kept sint_word_of_int [OF assms(4,5)] unfolding keeps_options_def
      by (auto simp: defs dest!: kept)
  qed
qed

definition example_host :: "u8 host" where
  "example_host =
     \<lparr>setsockopt = (\<lambda>lv x k. case x of IP_MULTICAST_TTL t \<Rightarrow> Inr t | _ \<Rightarrow> Inl EINVAL), get_ttl = Some, get_hops = (\<lambda>_. None),
      get_loop4 = (\<lambda>_. None), get_loop6 = (\<lambda>_. None), get_if6 = (\<lambda>_. None), getsockname = (\<lambda>_. Some AF_INET),
      if_nametoindex = (\<lambda>_. 0), if_indextoname = (\<lambda>_. None), siocgifaddr = (\<lambda>_. Inl ENXIO)\<rparr>"

theorem ttl_read_back_witness: "\<exists>k. mcast_set_ttl example_host 257 1 = Inr k \<and> mcast_get_ttl example_host k = 1"
proof -
  have "keeps_options example_host" by (auto simp: keeps_options_def example_host_def split: set_option.splits)
  moreover have "mcast_set_ttl example_host 257 1 = Inr 1"
    by (simp add: mcast_set_ttl_def sockfd_to_family_def example_host_def)
  ultimately show ?thesis using ttl_read_back [of example_host 1 AF_INET 257 1] by (simp add: example_host_def)
qed

end
