(* ===== verification/ListFree.thy ===== *)
theory ListFree
  imports Prelude
begin

text \<open>
  How the lists of interfaces are released: \<^verbatim>\<open>free_ifi_info_plus\<close>
  (\<^verbatim>\<open>Assignment 2/Code/get_ifi_info_plus.c\<close>; \<^verbatim>\<open>free_ifi_info\<close> of the book library is the same) and \<^verbatim>\<open>free_hwa_info\<close>
  (\<^verbatim>\<open>Assignment 3/Code/get_hw_addrs.c\<close>, the same file in assignment 4),
  and the library's \<^verbatim>\<open>freeaddrinfo\<close> (\<^verbatim>\<open>unpv13e/libgai/freeaddrinfo.c\<close>). The memory is a map from
  addresses to blocks; reading or freeing what is not allocated is undefined behaviour.
\<close>

section \<open>Memory\<close>

text \<open>Addresses of blocks, 0 being the null pointer, and the pointers in the elements of the lists.\<close>

record ifi_cell =
  p_addr :: nat
  p_brdaddr :: nat
  p_dstaddr :: nat
  p_ntmaddr :: nat
  ifi_next :: nat

record hwa_cell =
  p_ip_addr :: nat
  hwa_next :: nat

record info_cell =
  p_info_addr :: nat
  p_canonname :: nat
  info_next :: nat

datatype mblock = IfiBlock ifi_cell | HwaBlock hwa_cell | InfoBlock info_cell | AddrBlock

type_synonym mem = "nat \<rightharpoonup> mblock"

definition free_block :: "nat \<Rightarrow> mem \<Rightarrow> stop + mem" where
  "free_block p m =
     (if p = 0 then Inr m else if m p = None then Inl (Undefined ''free'') else Inr (m(p := None)))"

definition ifi_at :: "nat \<Rightarrow> mem \<Rightarrow> stop + ifi_cell" where
  "ifi_at p m = (case m p of Some (IfiBlock c) \<Rightarrow> Inr c | _ \<Rightarrow> Inl (Undefined ''ifi''))"

definition hwa_at :: "nat \<Rightarrow> mem \<Rightarrow> stop + hwa_cell" where
  "hwa_at p m = (case m p of Some (HwaBlock c) \<Rightarrow> Inr c | _ \<Rightarrow> Inl (Undefined ''hwa''))"

definition info_at :: "nat \<Rightarrow> mem \<Rightarrow> stop + info_cell" where
  "info_at p m = (case m p of Some (InfoBlock c) \<Rightarrow> Inr c | _ \<Rightarrow> Inl (Undefined ''ai''))"

section \<open>The loops\<close>

text \<open>
  The bodies: the memory and the next element. A pointer is fetched from the element each time it is
  used.
\<close>

definition free_field :: "(ifi_cell \<Rightarrow> nat) \<Rightarrow> nat \<Rightarrow> mem \<Rightarrow> stop + mem" where
  "free_field fld ifi m =
     bindr (ifi_at ifi m) (\<lambda>c.
     if fld c \<noteq> 0 then bindr (ifi_at ifi m) (\<lambda>c. free_block (fld c) m) else Inr m)"

definition free_ifi :: "nat \<Rightarrow> mem \<Rightarrow> stop + nat \<times> mem" where
  "free_ifi ifi m =
     bindr (free_field p_addr ifi m) (\<lambda>m.
     bindr (free_field p_brdaddr ifi m) (\<lambda>m.
     bindr (free_field p_dstaddr ifi m) (\<lambda>m.
     bindr (free_field p_ntmaddr ifi m) (\<lambda>m.
     bindr (ifi_at ifi m) (\<lambda>c.
     bindr (free_block ifi m) (\<lambda>m.
     Inr (ifi_next c, m)))))))"

definition free_hwa :: "nat \<Rightarrow> mem \<Rightarrow> stop + nat \<times> mem" where
  "free_hwa hwa m =
     bindr (hwa_at hwa m) (\<lambda>c.
     bindr (free_block (p_ip_addr c) m) (\<lambda>m.
     bindr (hwa_at hwa m) (\<lambda>c.
     bindr (free_block hwa m) (\<lambda>m.
     Inr (hwa_next c, m)))))"

definition free_info :: "nat \<Rightarrow> mem \<Rightarrow> stop + nat \<times> mem" where
  "free_info ai m =
     bindr (info_at ai m) (\<lambda>c.
     bindr (if p_info_addr c \<noteq> 0 then free_block (p_info_addr c) m else Inr m) (\<lambda>m.
     bindr (info_at ai m) (\<lambda>c.
     bindr (if p_canonname c \<noteq> 0 then free_block (p_canonname c) m else Inr m) (\<lambda>m.
     bindr (info_at ai m) (\<lambda>c.
     bindr (free_block ai m) (\<lambda>m.
     Inr (info_next c, m)))))))"

partial_function (option) free_loop :: "(nat \<Rightarrow> mem \<Rightarrow> stop + nat \<times> mem) \<Rightarrow> nat \<Rightarrow> mem \<Rightarrow> (stop + mem) option" where
  "free_loop body p m =
     (if p = 0 then Some (Inr m)
      else (case body p m of Inl e \<Rightarrow> Some (Inl e) | Inr (q, m') \<Rightarrow> free_loop body q m'))"

definition free_ifi_info_plus :: "nat \<Rightarrow> mem \<Rightarrow> (stop + mem) option" where
  "free_ifi_info_plus ifihead m = free_loop free_ifi ifihead m"

definition free_ifi_info :: "nat \<Rightarrow> mem \<Rightarrow> (stop + mem) option" where
  "free_ifi_info ifihead m = free_loop free_ifi ifihead m"

definition free_hwa_info :: "nat \<Rightarrow> mem \<Rightarrow> (stop + mem) option" where
  "free_hwa_info hwahead m = free_loop free_hwa hwahead m"

definition freeaddrinfo :: "nat \<Rightarrow> mem \<Rightarrow> (stop + mem) option" where
  "freeaddrinfo aihead m = free_loop free_info aihead m"

section \<open>The contract of a body\<close>

text \<open>
  \<open>owned p m q bs\<close>: at \<open>p\<close> there is an element followed by \<open>q\<close>, and \<open>bs\<close> are its blocks. Freeing it
  releases exactly these, and whatever a body does, it leaves less memory allocated.
\<close>

locale cell_body =
  fixes body :: "nat \<Rightarrow> mem \<Rightarrow> stop + nat \<times> mem"
    and owned :: "nat \<Rightarrow> mem \<Rightarrow> nat \<Rightarrow> nat list \<Rightarrow> bool"
  assumes body_frees: "owned p m q bs \<Longrightarrow> distinct bs \<Longrightarrow> set bs \<subseteq> dom m \<Longrightarrow> body p m = Inr (q, m |` (- set bs))"
    and body_shrinks: "p \<noteq> 0 \<Longrightarrow> body p m = Inr (q, m') \<Longrightarrow> dom m' \<subset> dom m"
    and owned_local: "owned p m q bs \<Longrightarrow> p \<in> A \<Longrightarrow> owned p (m |` A) q bs"
    and owned_self: "owned p m q bs \<Longrightarrow> p \<in> set bs \<and> p \<noteq> 0"
begin

text \<open>A list of elements from \<open>p\<close> on, with the blocks of each.\<close>

fun chain :: "nat \<Rightarrow> nat list list \<Rightarrow> mem \<Rightarrow> bool" where
  "chain p [] m \<longleftrightarrow> p = 0"
| "chain p (bs # bss) m \<longleftrightarrow> (\<exists>q. owned p m q bs \<and> chain q bss m)"

lemma chain_local: "chain p bss m \<Longrightarrow> set (concat bss) \<subseteq> A \<Longrightarrow> chain p bss (m |` A)"
  by (induction bss arbitrary: p) (auto, metis owned_local owned_self subset_iff)

lemma all_freed:
  assumes "chain p bss m" and "distinct (concat bss)" and "set (concat bss) \<subseteq> dom m"
  shows "free_loop body p m = Some (Inr (m |` (- set (concat bss))))"
  using assms
proof (induction bss arbitrary: p m)
  case Nil
  then show ?case by (simp add: free_loop.simps restrict_map_def)
next
  case (Cons bs bss)
  from Cons.prems(1) obtain q where q: "owned p m q bs" "chain q bss m" by auto
  then have b: "body p m = Inr (q, m |` (- set bs))" using Cons.prems by (intro body_frees) auto
  have disj: "set (concat bss) \<subseteq> - set bs" using Cons.prems(2) by auto
  have "free_loop body q (m |` (- set bs)) = Some (Inr ((m |` (- set bs)) |` (- set (concat bss))))"
    using Cons.prems disj by (intro Cons.IH chain_local q) auto
  moreover have "p \<noteq> 0" using owned_self [OF q(1)] by simp
  ultimately show ?case by (subst free_loop.simps) (simp add: b Int_commute)
qed

lemma always_ends:
  assumes "finite (dom m)"
  shows "\<exists>r. free_loop body p m = Some r"
  using assms
proof (induction "card (dom m)" arbitrary: p m rule: less_induct)
  case less
  show ?case
  proof (cases "p = 0")
    case True
    then show ?thesis by (simp add: free_loop.simps)
  next
    case False
    have "\<exists>r. free_loop body q m' = Some r" if "body p m = Inr (q, m')" for q m'
    proof -
      have "dom m' \<subset> dom m" using body_shrinks [OF False that] .
      with less.prems show ?thesis using less.hyps [of m'] by (meson finite_subset psubset_card_mono psubset_imp_subset)
    qed
    with False show ?thesis by (subst free_loop.simps) (auto split: sum.splits)
  qed
qed

end

section \<open>The lists\<close>

definition owned_ifi :: "nat \<Rightarrow> mem \<Rightarrow> nat \<Rightarrow> nat list \<Rightarrow> bool" where
  "owned_ifi p m q bs \<longleftrightarrow> p \<noteq> 0 \<and> (\<exists>c. m p = Some (IfiBlock c) \<and> ifi_next c = q
     \<and> bs = filter (\<lambda>a. a \<noteq> 0) [p_addr c, p_brdaddr c, p_dstaddr c, p_ntmaddr c] @ [p])"

definition owned_hwa :: "nat \<Rightarrow> mem \<Rightarrow> nat \<Rightarrow> nat list \<Rightarrow> bool" where
  "owned_hwa p m q bs \<longleftrightarrow> p \<noteq> 0 \<and> (\<exists>c. m p = Some (HwaBlock c) \<and> hwa_next c = q
     \<and> bs = filter (\<lambda>a. a \<noteq> 0) [p_ip_addr c] @ [p])"

definition owned_info :: "nat \<Rightarrow> mem \<Rightarrow> nat \<Rightarrow> nat list \<Rightarrow> bool" where
  "owned_info p m q bs \<longleftrightarrow> p \<noteq> 0 \<and> (\<exists>c. m p = Some (InfoBlock c) \<and> info_next c = q
     \<and> bs = filter (\<lambda>a. a \<noteq> 0) [p_info_addr c, p_canonname c] @ [p])"

lemma free_block_restrict:
  "a \<noteq> 0 \<Longrightarrow> a \<in> dom m \<Longrightarrow> a \<notin> A \<Longrightarrow> free_block a (m |` (- A)) = Inr (m |` (- insert a A))"
  "free_block 0 m = Inr m"
  by (auto simp: free_block_def restrict_map_def fun_eq_iff)

lemma free_field_restrict:
  assumes "m p = Some (IfiBlock c)" and "p \<notin> A" and "fld c \<noteq> 0 \<Longrightarrow> fld c \<in> dom m \<and> fld c \<notin> A"
  shows "free_field fld p (m |` (- A)) = Inr (m |` (- (A \<union> ({fld c} - {0}))))"
  using assms by (cases "fld c = 0") (simp_all add: free_field_def ifi_at_def free_block_restrict)

lemma free_ifi_frees:
  assumes "owned_ifi p m q bs" and "distinct bs" and "set bs \<subseteq> dom m"
  shows "free_ifi p m = Inr (q, m |` (- set bs))"
proof -
  obtain c where c: "p \<noteq> 0" "m p = Some (IfiBlock c)" "ifi_next c = q"
    "bs = filter (\<lambda>a. a \<noteq> 0) [p_addr c, p_brdaddr c, p_dstaddr c, p_ntmaddr c] @ [p]"
    using assms(1) by (auto simp: owned_ifi_def)
  let ?A = "\<lambda>xs. {a \<in> set xs. a \<noteq> 0}"
  have all_of: "m |` UNIV = m" by (simp add: restrict_map_def)
  have sets: "?A xs \<union> ({a} - {0}) = ?A (xs @ [a])" for xs a by auto
  have bs: "set bs = insert p (?A [p_addr c, p_brdaddr c, p_dstaddr c, p_ntmaddr c])" by (auto simp: c(4))
  have p: "p \<notin> ?A [p_addr c, p_brdaddr c, p_dstaddr c, p_ntmaddr c]" using assms(2) by (auto simp: c(4) split: if_splits)
  note step = free_field_restrict [of m p c "?A xs" fld for xs fld, OF c(2), unfolded sets]
  have "free_field p_addr p m = Inr (m |` (- ?A [p_addr c]))"
    using step [of "[]" p_addr] assms(3) by (auto simp: bs all_of)
  moreover have "free_field p_brdaddr p (m |` (- ?A [p_addr c])) = Inr (m |` (- ?A [p_addr c, p_brdaddr c]))"
    using step [of "[p_addr c]" p_brdaddr] assms(2,3) p by (auto simp: bs c(4) split: if_splits)
  moreover have "free_field p_dstaddr p (m |` (- ?A [p_addr c, p_brdaddr c])) = Inr (m |` (- ?A [p_addr c, p_brdaddr c, p_dstaddr c]))"
    using step [of "[p_addr c, p_brdaddr c]" p_dstaddr] assms(2,3) p by (auto simp: bs c(4) split: if_splits)
  moreover have "free_field p_ntmaddr p (m |` (- ?A [p_addr c, p_brdaddr c, p_dstaddr c])) =
      Inr (m |` (- ?A [p_addr c, p_brdaddr c, p_dstaddr c, p_ntmaddr c]))"
    using step [of "[p_addr c, p_brdaddr c, p_dstaddr c]" p_ntmaddr] assms(2,3) p by (auto simp: bs c(4) split: if_splits)
  moreover have "ifi_at p (m |` (- ?A [p_addr c, p_brdaddr c, p_dstaddr c, p_ntmaddr c])) = Inr c"
    using p c(2) by (simp add: ifi_at_def)
  moreover have "free_block p (m |` (- ?A [p_addr c, p_brdaddr c, p_dstaddr c, p_ntmaddr c])) = Inr (m |` (- set bs))"
    using p c(1,2) unfolding bs by (intro free_block_restrict) auto
  ultimately show ?thesis by (simp add: free_ifi_def c(3))
qed

lemma free_hwa_frees:
  assumes "owned_hwa p m q bs" and "distinct bs" and "set bs \<subseteq> dom m"
  shows "free_hwa p m = Inr (q, m |` (- set bs))"
  using assms
  by (auto simp: owned_hwa_def free_hwa_def hwa_at_def free_block_def restrict_map_def fun_eq_iff split: if_splits)

lemma free_info_frees:
  assumes "owned_info p m q bs" and "distinct bs" and "set bs \<subseteq> dom m"
  shows "free_info p m = Inr (q, m |` (- set bs))"
proof -
  obtain c where "p \<noteq> 0" "m p = Some (InfoBlock c)" "info_next c = q" "bs = filter (\<lambda>a. a \<noteq> 0) [p_info_addr c, p_canonname c] @ [p]"
    using assms(1) by (auto simp: owned_info_def)
  with assms(2,3) show ?thesis
    by (cases "p_info_addr c = 0"; cases "p_canonname c = 0")
      (auto simp: free_info_def info_at_def free_block_def restrict_map_def fun_eq_iff)
qed

lemma free_block_subset: "free_block a m = Inr m' \<Longrightarrow> dom m' \<subseteq> dom m"
  by (auto simp: free_block_def split: if_splits)

lemma free_field_subset: "free_field fld a m = Inr m' \<Longrightarrow> dom m' \<subseteq> dom m"
  by (auto simp: free_field_def bind_iff split: if_splits dest: free_block_subset)

lemma free_block_psubset: "p \<noteq> 0 \<Longrightarrow> free_block p m = Inr m' \<Longrightarrow> dom m' \<subset> dom m"
  by (auto simp: free_block_def split: if_splits)

interpretation ifis: cell_body free_ifi owned_ifi
proof
  show "dom m' \<subset> dom m" if "p \<noteq> 0" "free_ifi p m = Inr (q, m')" for p m q m'
  proof -
    have "\<exists>s. dom s \<subseteq> dom m \<and> free_block p s = Inr m'"
      using that(2) by (simp add: free_ifi_def bind_iff) (meson free_field_subset order.trans)
    then show ?thesis using free_block_psubset [OF that(1)] by blast
  qed
qed (auto simp: free_ifi_frees owned_ifi_def)

interpretation hwas: cell_body free_hwa owned_hwa
proof
  show "dom m' \<subset> dom m" if "p \<noteq> 0" "free_hwa p m = Inr (q, m')" for p m q m'
  proof -
    have "\<exists>s. dom s \<subseteq> dom m \<and> free_block p s = Inr m'"
      using that(2) by (simp add: free_hwa_def bind_iff) (meson free_block_subset)
    then show ?thesis using free_block_psubset [OF that(1)] by blast
  qed
qed (auto simp: free_hwa_frees owned_hwa_def)

interpretation infos: cell_body free_info owned_info
proof
  show "dom m' \<subset> dom m" if "p \<noteq> 0" "free_info p m = Inr (q, m')" for p m q m'
  proof -
    have "\<exists>s. dom s \<subseteq> dom m \<and> free_block p s = Inr m'"
      using that(2) by (auto simp: free_info_def bind_iff split: if_splits) (meson free_block_subset order.trans)+
    then show ?thesis using free_block_psubset [OF that(1)] by blast
  qed
qed (auto simp: free_info_frees owned_info_def)

section \<open>Claims\<close>

text \<open>
  C36. The list of interfaces is released exactly: when each element and each of its addresses is a
  block of its own, all of them are freed once, nothing else is, and no element is read after it was
  freed, by the function of assignment 2 and by that of the library.
\<close>
theorem interface_list_released:
  assumes "ifis.chain p bss m" and "distinct (concat bss)" and "set (concat bss) \<subseteq> dom m"
  shows "free_ifi_info_plus p m = Some (Inr (m |` (- set (concat bss))))
    \<and> free_ifi_info p m = Some (Inr (m |` (- set (concat bss))))"
  unfolding free_ifi_info_plus_def free_ifi_info_def using ifis.all_freed [OF assms] by simp

definition example_mem :: mem where
  "example_mem = [1 \<mapsto> IfiBlock \<lparr>p_addr = 2, p_brdaddr = 3, p_dstaddr = 0, p_ntmaddr = 4, ifi_next = 5\<rparr>,
     2 \<mapsto> AddrBlock, 3 \<mapsto> AddrBlock, 4 \<mapsto> AddrBlock,
     5 \<mapsto> IfiBlock \<lparr>p_addr = 6, p_brdaddr = 0, p_dstaddr = 0, p_ntmaddr = 0, ifi_next = 0\<rparr>, 6 \<mapsto> AddrBlock, 7 \<mapsto> AddrBlock]"

theorem interface_list_released_witness: "\<exists>m. free_ifi_info_plus 1 example_mem = Some (Inr m) \<and> dom m = {7}"
proof -
  let ?bss = "[[2, 3, 4, 1], [6, 5]]"
  have "ifis.chain 1 ?bss example_mem" by (simp add: owned_ifi_def example_mem_def)
  from interface_list_released [OF this] show ?thesis by (auto simp: example_mem_def)
qed

text \<open>The list of \<^verbatim>\<open>getaddrinfo\<close> is released in the same way, and the release always ends.\<close>

theorem addresses_released:
  assumes "finite (dom m)"
  shows "(\<exists>r. freeaddrinfo p m = Some r)
    \<and> (\<forall>bss. infos.chain p bss m \<longrightarrow> distinct (concat bss) \<longrightarrow> set (concat bss) \<subseteq> dom m
        \<longrightarrow> freeaddrinfo p m = Some (Inr (m |` (- set (concat bss)))))"
  unfolding freeaddrinfo_def using infos.always_ends [OF assms] infos.all_freed by blast

text \<open>
  Releasing the list of interfaces with their hardware addresses always ends, even when the list
  is damaged, in freed memory or in undefined behaviour; and a list in which no two elements share a
  block is released completely.
\<close>
theorem hardware_list_released:
  assumes "finite (dom m)"
  shows "(\<exists>r. free_hwa_info p m = Some r)
    \<and> (\<forall>bss. hwas.chain p bss m \<longrightarrow> distinct (concat bss) \<longrightarrow> set (concat bss) \<subseteq> dom m
        \<longrightarrow> free_hwa_info p m = Some (Inr (m |` (- set (concat bss)))))"
  unfolding free_hwa_info_def using hwas.always_ends [OF assms] hwas.all_freed by blast

definition example_hwa_mem :: mem where
  "example_hwa_mem = [1 \<mapsto> HwaBlock \<lparr>p_ip_addr = 2, hwa_next = 3\<rparr>, 2 \<mapsto> AddrBlock,
     3 \<mapsto> HwaBlock \<lparr>p_ip_addr = 4, hwa_next = 0\<rparr>, 4 \<mapsto> AddrBlock]"

theorem hardware_list_released_witness: "free_hwa_info 1 example_hwa_mem = Some (Inr Map.empty)"
proof -
  have "hwas.chain 1 [[2, 1], [4, 3]] example_hwa_mem" by (simp add: owned_hwa_def example_hwa_mem_def)
  moreover have "set (concat [[2, 1], [4, 3]]) \<subseteq> dom example_hwa_mem" by (simp add: example_hwa_mem_def)
  moreover have "finite (dom example_hwa_mem)" by (simp add: example_hwa_mem_def)
  ultimately have "free_hwa_info 1 example_hwa_mem = Some (Inr (example_hwa_mem |` (- {2, 1, 4, 3})))"
    using hardware_list_released [of example_hwa_mem 1] by fastforce
  moreover have "example_hwa_mem |` (- {2, 1, 4, 3}) = Map.empty"
    by (auto simp: example_hwa_mem_def restrict_map_def fun_eq_iff)
  ultimately show ?thesis by simp
qed

end
