(* ===== verification/Ping.thy ===== *)
theory Ping
  imports Rtt InCksum SockAddrProps Mcast
begin

text \<open>
  The \<^verbatim>\<open>ping\<close> program of the book (\<^verbatim>\<open>unpv13e/ping\<close>), on the library's checksum, addresses
  and \<^verbatim>\<open>tv_sub\<close>: requests, replies and the loop, for IPv4 and IPv6. Packets are the bytes a little-endian host with 64-bit \<^verbatim>\<open>long\<close> has in memory.
\<close>

section \<open>Times and bytes\<close>

definition tv_sub :: "timeval \<Rightarrow> timeval \<Rightarrow> timeval" where
  "tv_sub out in' =
     (let out = out\<lparr>tv_usec := tv_usec out - tv_usec in'\<rparr>;
          out = (if tv_usec out < 0 then out\<lparr>tv_sec := tv_sec out - 1, tv_usec := tv_usec out + 1000000\<rparr> else out)
      in out\<lparr>tv_sec := tv_sec out - tv_sec in'\<rparr>)"

text \<open>Integers of \<open>k\<close> bytes in memory.\<close>

fun le :: "nat \<Rightarrow> nat \<Rightarrow> u8 list" where
  "le 0 n = []"
| "le (Suc k) n = of_nat (n mod 256) # le k (n div 256)"

fun unle :: "u8 list \<Rightarrow> nat" where
  "unle [] = 0"
| "unle (b # bs) = unat b + 256 * unle bs"

definition put_long :: "int \<Rightarrow> u8 list" where
  "put_long i = le 8 (unat (word_of_int i :: 64 word))"

definition get_long :: "u8 list \<Rightarrow> int" where
  "get_long bs = sint (of_nat (unle (take 8 bs)) :: 64 word)"

definition put_time :: "timeval \<Rightarrow> u8 list" where
  "put_time t = put_long (tv_sec t) @ put_long (tv_usec t)"

definition get_time :: "u8 list \<Rightarrow> timeval" where
  "get_time bs = \<lparr>tv_sec = get_long bs, tv_usec = get_long (drop 8 bs)\<rparr>"

section \<open>The program\<close>

definition BUFSIZE :: nat where "BUFSIZE = 1500"
definition datalen :: nat where "datalen = 56"
definition ICMP_ECHO :: u8 where "ICMP_ECHO = 8"
definition ICMP_ECHOREPLY :: u8 where "ICMP_ECHOREPLY = 0"
definition IPPROTO_ICMP :: u8 where "IPPROTO_ICMP = 1"
definition ICMP6_ECHO_REQUEST :: u8 where "ICMP6_ECHO_REQUEST = 128"
definition ICMP6_ECHO_REPLY :: u8 where "ICMP6_ECHO_REPLY = 129"
definition IPV6_HOPLIMIT :: int where "IPV6_HOPLIMIT = 52"

text \<open>
  A line of output, the round trip time in microseconds where the program prints milliseconds with
  three decimals. A hop limit of -1 is printed as \<^verbatim>\<open>???\<close>.
\<close>

datatype shown =
    Title string string nat
  | Reply int string u16 u8 int
  | Reply6 int string u16 int int
  | Other int string u8 u8

record ping =
  sendbuf :: "u8 list"
  nsent :: int
  pg_pid :: u16
  pg_verbose :: bool
  pg_sent :: "u8 list list"
  pg_screen :: "shown list"

text \<open>The ICMP header with its checksum field: type, code, checksum, identifier and sequence number.\<close>

definition icmp_header :: "u8 \<Rightarrow> u16 \<Rightarrow> u16 \<Rightarrow> u16 \<Rightarrow> u8 list" where
  "icmp_header type cksum ident seq = [type, 0] @ le 2 (unat cksum) @ le 2 (unat ident) @ le 2 (unat seq)"

definition send_v4 :: "timeval \<Rightarrow> bool \<Rightarrow> ping \<Rightarrow> ping outcome" where
  "send_v4 now sent s =
     (let seq = word_of_int (nsent s);
          data = overwrite (replicate datalen 0xa5) (put_time now);
          len = 8 + datalen;
          buf = overwrite (sendbuf s) (icmp_header ICMP_ECHO 0 (pg_pid s) seq @ data);
          cksum = in_cksum (take len buf);
          buf = overwrite buf (icmp_header ICMP_ECHO cksum (pg_pid s) seq);
          s = s\<lparr>sendbuf := buf, nsent := nsent s + 1\<rparr>
      in exit_if (\<not> sent) 1 ''sendto error'' (s\<lparr>pg_sent := pg_sent s @ [take len buf]\<rparr>))"

text \<open>
  A packet of \<open>len\<close> bytes in the receive buffer \<open>buf\<close>, which keeps older bytes behind it; \<open>from\<close> is
  the printed address of the sender.
\<close>

definition proc_v4 :: "u8 list \<Rightarrow> nat \<Rightarrow> string \<Rightarrow> timeval \<Rightarrow> ping \<Rightarrow> ping" where
  "proc_v4 buf len from tvrecv s =
     (let hlen1 = unat ((buf ! 0) AND 0xf) * 4; icmp = drop hlen1 buf; icmplen = int len - int hlen1 in
      if buf ! 9 \<noteq> IPPROTO_ICMP then s
      else if icmplen < 8 then s
      else if icmp ! 0 = ICMP_ECHOREPLY then
        (if unle (take 2 (drop 4 icmp)) \<noteq> unat (pg_pid s) then s
         else if icmplen < 16 then s
         else
           let t = tv_sub tvrecv (get_time (drop 8 icmp)) in
           s\<lparr>pg_screen := pg_screen s @
              [Reply icmplen from (of_nat (unle (take 2 (drop 6 icmp)))) (buf ! 8) (tv_sec t * 1000000 + tv_usec t)]\<rparr>)
      else if pg_verbose s then s\<lparr>pg_screen := pg_screen s @ [Other icmplen from (icmp ! 0) (icmp ! 1)]\<rparr>
      else s)"

text \<open>
  IPv6: the kernel puts the checksum in, so its field keeps what the buffer has there. The hop limit
  comes with the packet as ancillary data, where the kernel gives it.
\<close>

definition send_v6 :: "timeval \<Rightarrow> bool \<Rightarrow> ping \<Rightarrow> ping outcome" where
  "send_v6 now sent s =
     (let data = overwrite (replicate datalen 0xa5) (put_time now);
          len = 8 + datalen;
          buf = overwrite (sendbuf s) ([ICMP6_ECHO_REQUEST, 0] @ take 2 (drop 2 (sendbuf s)) @ le 2 (unat (pg_pid s))
                  @ le 2 (unat (word_of_int (nsent s) :: u16)) @ data);
          s = s\<lparr>sendbuf := buf, nsent := nsent s + 1\<rparr>
      in exit_if (\<not> sent) 1 ''sendto error'' (s\<lparr>pg_sent := pg_sent s @ [take len buf]\<rparr>))"

record cmsg =
  cmsg_level :: int
  cmsg_type :: int
  cmsg_data :: u32

fun hop_limit :: "cmsg list \<Rightarrow> int" where
  "hop_limit [] = - 1"
| "hop_limit (c # cs) =
     (if cmsg_level c = IPPROTO_IPV6 \<and> cmsg_type c = IPV6_HOPLIMIT then sint (cmsg_data c) else hop_limit cs)"

definition proc_v6 :: "u8 list \<Rightarrow> nat \<Rightarrow> string \<Rightarrow> cmsg list \<Rightarrow> timeval \<Rightarrow> ping \<Rightarrow> ping" where
  "proc_v6 buf len from msg tvrecv s =
     (if len < 8 then s
      else if buf ! 0 = ICMP6_ECHO_REPLY then
        (if unle (take 2 (drop 4 buf)) \<noteq> unat (pg_pid s) then s
         else if len < 16 then s
         else
           let t = tv_sub tvrecv (get_time (drop 8 buf)) in
           s\<lparr>pg_screen := pg_screen s @
              [Reply6 (int len) from (of_nat (unle (take 2 (drop 6 buf)))) (hop_limit msg) (tv_sec t * 1000000 + tv_usec t)]\<rparr>)
      else if pg_verbose s then s\<lparr>pg_screen := pg_screen s @ [Other (int len) from (buf ! 0) (buf ! 1)]\<rparr>
      else s)"

text \<open>
  The functions of a protocol (\<^verbatim>\<open>struct proto\<close>), with the address the requests go to and its
  length. What \<^verbatim>\<open>init_v6\<close> asks the kernel for may fail: a filter that passes replies only, unless the
  output is verbose, and the hop limit of packets.
\<close>

datatype proto = Proto_v4 | Proto_v6

record pinger =
  pi_ping :: ping
  pi_recvbuf :: "u8 list"
  pi_proto :: proto
  pi_sasend :: sockaddr
  pi_salen :: nat
  pi_filter :: bool
  pi_hops :: bool

definition lift_ping :: "pinger \<Rightarrow> ping outcome \<Rightarrow> pinger outcome" where
  "lift_ping s r = (case r of Inl (e, p) \<Rightarrow> Inl (e, s\<lparr>pi_ping := p\<rparr>) | Inr p \<Rightarrow> Inr (s\<lparr>pi_ping := p\<rparr>))"

definition init_v6 :: "bool \<Rightarrow> bool \<Rightarrow> pinger \<Rightarrow> pinger" where
  "init_v6 filter_set hops_set s =
     (let s = (if pg_verbose (pi_ping s) then s else s\<lparr>pi_filter := filter_set\<rparr>) in s\<lparr>pi_hops := hops_set\<rparr>)"

definition ping_alrm :: "timeval \<Rightarrow> bool \<Rightarrow> pinger \<Rightarrow> pinger outcome" where
  "ping_alrm now sent s =
     lift_ping s (case pi_proto s of Proto_v4 \<Rightarrow> send_v4 now sent (pi_ping s) | Proto_v6 \<Rightarrow> send_v6 now sent (pi_ping s))"

text \<open>
  A pass of the loop: the alarm interrupts \<^verbatim>\<open>recvmsg\<close> and sends the next request, or a packet
  arrives with its ancillary data, cut to the buffer, or the call fails.
\<close>

datatype ping_event = Alarm timeval bool | Packet "u8 list" sockaddr "cmsg list" timeval | RecvError

definition ping_step :: "ping_event \<Rightarrow> pinger \<Rightarrow> pinger outcome" where
  "ping_step ev s =
     (case ev of
        RecvError \<Rightarrow> Inl (Exit 1 ''recvmsg error'', s)
      | Alarm now sent \<Rightarrow> ping_alrm now sent s
      | Packet b from msg now \<Rightarrow>
          let b = take BUFSIZE b; s = s\<lparr>pi_recvbuf := overwrite (pi_recvbuf s) b\<rparr> in
         (case Sock_ntop_host from (pi_salen s) of
            Inl e \<Rightarrow> Inl (e, s)
          | Inr host \<Rightarrow>
              Inr (s\<lparr>pi_ping := (case pi_proto s of
                 Proto_v4 \<Rightarrow> proc_v4 (pi_recvbuf s) (length b) host now (pi_ping s)
               | Proto_v6 \<Rightarrow> proc_v6 (pi_recvbuf s) (length b) host msg now (pi_ping s))\<rparr>)))"

section \<open>Bytes and numbers\<close>

lemma length_le [simp]: "length (le k n) = k"
  by (induction k arbitrary: n) auto

lemma unle_le: "unle (le k n) = n mod 256 ^ k"
proof (induction k arbitrary: n)
  case (Suc k)
  have "unat (of_nat (n mod 256) :: u8) = n mod 256" by (simp add: unsigned_of_nat take_bit_eq_mod)
  with Suc show ?case by (simp add: mod_mult2_eq [of n 256])
qed simp

lemma unle_append: "unle (xs @ ys) = unle xs + 256 ^ length xs * unle ys"
  by (induction xs) (auto simp: algebra_simps)

lemma length_put_long [simp]: "length (put_long i) = 8"
  by (simp add: put_long_def)

lemma get_put_long:
  assumes "- (2 ^ 63) \<le> i" and "i < 2 ^ 63"
  shows "get_long (put_long i @ rest) = i"
proof -
  have "unat (word_of_int i :: 64 word) < 2 ^ LENGTH(64)" by (rule unsigned_less)
  then have "unle (put_long i) = unat (word_of_int i :: 64 word)" by (simp add: put_long_def unle_le)
  then have "get_long (put_long i @ rest) = sint (word_of_int i :: 64 word)" by (simp add: get_long_def)
  also have "\<dots> = i" using assms by (simp add: sint_sbintrunc' signed_take_bit_int_eq_self_iff)
  finally show ?thesis .
qed

definition in_range :: "timeval \<Rightarrow> bool" where
  "in_range t \<longleftrightarrow> - (2 ^ 63) \<le> tv_sec t \<and> tv_sec t < 2 ^ 63 \<and> - (2 ^ 63) \<le> tv_usec t \<and> tv_usec t < 2 ^ 63"

lemma get_put_time: "in_range t \<Longrightarrow> get_time (put_time t @ rest) = t"
  by (simp add: get_time_def put_time_def in_range_def get_put_long)

lemma length_put_time [simp]: "length (put_time t) = 16"
  by (simp add: put_time_def)

text \<open>Subtracting normalised times gives the normalised difference.\<close>

theorem tv_sub_difference:
  assumes "0 \<le> tv_usec a \<and> tv_usec a < 1000000" and "0 \<le> tv_usec b \<and> tv_usec b < 1000000"
  shows "tv_sec (tv_sub a b) * 1000000 + tv_usec (tv_sub a b)
      = (tv_sec a * 1000000 + tv_usec a) - (tv_sec b * 1000000 + tv_usec b)"
    and "0 \<le> tv_usec (tv_sub a b) \<and> tv_usec (tv_sub a b) < 1000000"
  using assms by (auto simp: tv_sub_def Let_def algebra_simps)

section \<open>Requests and replies\<close>

lemma length_icmp_header [simp]: "length (icmp_header t c i q) = 8"
  by (simp add: icmp_header_def)

text \<open>What one call of \<^verbatim>\<open>send_v4\<close> sends.\<close>

definition request :: "u16 \<Rightarrow> u16 \<Rightarrow> timeval \<Rightarrow> u8 list" where
  "request ident seq now =
     (let data = put_time now @ replicate 40 0xa5 in
      icmp_header ICMP_ECHO (in_cksum (icmp_header ICMP_ECHO 0 ident seq @ data)) ident seq @ data)"

lemma length_request [simp]: "length (request i q t) = 64"
  by (simp add: request_def Let_def)

lemma send_v4_request:
  "send_v4 now True s = Inr (s\<lparr>sendbuf := overwrite (sendbuf s) (request (pg_pid s) (word_of_int (nsent s)) now),
     nsent := nsent s + 1, pg_sent := pg_sent s @ [request (pg_pid s) (word_of_int (nsent s)) now]\<rparr>)"
proof -
  let ?q = "word_of_int (nsent s) :: u16" and ?data = "put_time now @ replicate 40 (0xa5 :: u8)"
  have data: "overwrite (replicate datalen 0xa5) (put_time now) = ?data" by (simp add: overwrite_def datalen_def)
  have len: "8 + datalen = 64" by (simp add: datalen_def)
  have twice: "overwrite (overwrite b (h @ d)) h' = overwrite b (h' @ d)" if "length h' = length h" for b h h' d :: "u8 list"
    using that by (simp add: overwrite_def)
  have first: "take 64 (overwrite b (h @ ?data)) = h @ ?data" if "length h = 8" for b h
    using that by (simp add: overwrite_def)
  show ?thesis
    by (simp add: send_v4_def data len first twice request_def Let_def)
qed

lemma le_two: "le 2 (unat (w :: u16)) = [ucast w, ucast (drop_bit 8 w)]"
proof -
  have "(of_nat (unat w mod 256) :: u8) = ucast w"
    by (rule unsigned_word_eqI [where 'a = nat]) (simp add: unsigned_of_nat take_bit_eq_mod unsigned_ucast_eq)
  moreover have "(of_nat (unat w div 256 mod 256) :: u8) = ucast (drop_bit 8 w)"
    by (rule unsigned_word_eqI [where 'a = nat])
      (simp add: unsigned_of_nat take_bit_eq_mod unsigned_ucast_eq drop_bit_eq_div unat_div_distrib)
  ultimately show ?thesis by (simp add: numeral_2_eq_2)
qed

text \<open>The request verifies: the checksum of all of it is 0.\<close>

lemma request_checksum: "in_cksum (request ident seq now) = 0"
proof -
  let ?post = "le 2 (unat ident) @ le 2 (unat seq) @ put_time now @ replicate 40 (0xa5 :: u8)"
  have "icmp_header ICMP_ECHO c ident seq @ put_time now @ replicate 40 0xa5
      = [ICMP_ECHO, 0] @ [ucast c, ucast (drop_bit 8 c)] @ ?post" for c :: u16
    by (simp add: icmp_header_def le_two)
  note shape = this [of 0] this
  have "in_cksum ([ICMP_ECHO, 0] @ [ucast r, ucast (drop_bit 8 r)] @ ?post) = 0"
    if "r = in_cksum ([ICMP_ECHO, 0] @ [0, 0] @ ?post)" for r
    using that by (intro checksum_verifies) simp_all
  then show ?thesis unfolding request_def Let_def using shape by simp
qed

text \<open>
  The answer of a host: an IP header with its options, and the request with another type and checksum.
\<close>

definition reply_to :: "u8 list \<Rightarrow> u16 \<Rightarrow> u8 list \<Rightarrow> u8 list" where
  "reply_to ip cksum req = ip @ [ICMP_ECHOREPLY, 0] @ le 2 (unat cksum) @ drop 4 req"

definition ip_header :: "u8 list \<Rightarrow> bool" where
  "ip_header ip \<longleftrightarrow> 20 \<le> length ip \<and> length ip = unat ((ip ! 0) AND 0xf) * 4 \<and> ip ! 9 = IPPROTO_ICMP"

lemma ip_header_length: "ip_header ip \<Longrightarrow> length ip \<le> 60"
proof -
  have "(ip ! 0) AND 0xf \<le> 0xf" by (rule word_and_le1)
  then have "unat ((ip ! 0) AND 0xf) \<le> 15" by (simp add: word_le_nat_alt)
  then show "ip_header ip \<Longrightarrow> length ip \<le> 60" by (simp add: ip_header_def)
qed

lemma Sock_ntop_host_in: "Sock_ntop_host (Sockaddr_in p a) n = Inr (show4 (addr_bytes a))"
  using show4_length [of "addr_bytes a"]
  by (simp add: Sock_ntop_host_def sock_ntop_host_def inet_ntop_def inet_ntop4_def Let_def)

lemma unle_le_u16: "unle (le 2 (unat (w :: u16))) = unat w"
proof -
  have "unat w < 2 ^ LENGTH(16)" by (rule unsigned_less)
  then show ?thesis by (simp add: unle_le)
qed

lemma drop_request: "drop 4 (request i q now) = le 2 (unat i) @ le 2 (unat q) @ put_time now @ replicate 40 0xa5"
  by (simp add: request_def icmp_header_def Let_def)

text \<open>A reply of at least 16 bytes of ICMP to this process.\<close>

lemma proc_v4_own_reply:
  assumes "ip_header ip" and "in_range now" and "buf = ip @ icmp_header ICMP_ECHOREPLY c (pg_pid s) q @ put_time now @ rest"
    and "length ip + 16 \<le> len"
  shows "proc_v4 buf len sndr later s = s\<lparr>pg_screen := pg_screen s @
    [Reply (int len - int (length ip)) sndr q (ip ! 8) (tv_sec (tv_sub later now) * 1000000 + tv_usec (tv_sub later now))]\<rparr>"
proof -
  have ip: "20 \<le> length ip" "unat ((ip ! 0) AND 0xf) * 4 = length ip" "ip ! 9 = IPPROTO_ICMP"
    using assms(1) by (auto simp: ip_header_def)
  define icmp where "icmp = [ICMP_ECHOREPLY, 0] @ le 2 (unat c) @ le 2 (unat (pg_pid s)) @ le 2 (unat q) @ put_time now @ rest"
  have buf: "buf = ip @ icmp" by (simp add: assms(3) icmp_header_def icmp_def)
  have at: "buf ! i = ip ! i" if "i < 20" for i using that ip(1) by (simp add: buf nth_append)
  have icmp: "drop (length ip) buf = icmp" by (simp add: buf)
  have type: "icmp ! 0 = ICMP_ECHOREPLY" by (simp add: icmp_def)
  have ident: "unle (take 2 (drop 4 icmp)) = unat (pg_pid s)" and seq: "of_nat (unle (take 2 (drop 6 icmp))) = q"
    and time: "get_time (drop 8 icmp) = now"
    by (simp_all add: icmp_def unle_le_u16 get_put_time [OF assms(2)])
  have hlen: "unat ((buf ! 0) AND 0xf) * 4 = length ip" using at [of 0] ip(2) by simp
  have "buf ! 9 = IPPROTO_ICMP" "buf ! 8 = ip ! 8" using at [of 8] at [of 9] ip(3) by simp_all
  then show ?thesis using assms(4) unfolding proc_v4_def Let_def hlen icmp by (simp add: type ident seq time)
qed

lemma proc_v4_reply:
  assumes "ip_header ip" and "in_range now" and "buf = reply_to ip c (request (pg_pid s) q now) @ rest"
  shows "proc_v4 buf (length ip + 64) sndr later s = s\<lparr>pg_screen := pg_screen s @
    [Reply 64 sndr q (ip ! 8) (tv_sec (tv_sub later now) * 1000000 + tv_usec (tv_sub later now))]\<rparr>"
  using proc_v4_own_reply [OF assms(1,2), of buf c s q "replicate 40 0xa5 @ rest" "length ip + 64"]
  by (simp add: assms(3) reply_to_def drop_request icmp_header_def)

text \<open>The same for IPv6, where the packet has no IP header and the checksum is the kernel's.\<close>

definition request6 :: "u8 list \<Rightarrow> u16 \<Rightarrow> u16 \<Rightarrow> timeval \<Rightarrow> u8 list" where
  "request6 cks ident seq now =
     [ICMP6_ECHO_REQUEST, 0] @ cks @ le 2 (unat ident) @ le 2 (unat seq) @ put_time now @ replicate 40 0xa5"

lemma send_v6_request:
  assumes "length (sendbuf s) = BUFSIZE"
  shows "send_v6 now True s =
    (let req = request6 (take 2 (drop 2 (sendbuf s))) (pg_pid s) (word_of_int (nsent s)) now in
     Inr (s\<lparr>sendbuf := overwrite (sendbuf s) req, nsent := nsent s + 1, pg_sent := pg_sent s @ [req]\<rparr>))"
proof -
  have data: "overwrite (replicate datalen 0xa5) (put_time now) = put_time now @ replicate 40 (0xa5 :: u8)"
    by (simp add: overwrite_def datalen_def)
  have "length (take 2 (drop 2 (sendbuf s))) = 2" using assms by (simp add: BUFSIZE_def)
  then show ?thesis
    unfolding send_v6_def Let_def data by (simp add: request6_def overwrite_def datalen_def)
qed

lemma proc_v6_own_reply:
  assumes "in_range now" and "buf = [ICMP6_ECHO_REPLY, 0] @ cks @ le 2 (unat (pg_pid s)) @ le 2 (unat q) @ put_time now @ rest"
    and "length cks = 2" and "16 \<le> len"
  shows "proc_v6 buf len sndr msg later s = s\<lparr>pg_screen := pg_screen s @
    [Reply6 (int len) sndr q (hop_limit msg) (tv_sec (tv_sub later now) * 1000000 + tv_usec (tv_sub later now))]\<rparr>"
proof -
  have "buf ! 0 = ICMP6_ECHO_REPLY" "unle (take 2 (drop 4 buf)) = unat (pg_pid s)"
    "of_nat (unle (take 2 (drop 6 buf))) = q" "get_time (drop 8 buf) = now"
    using assms(3) by (simp_all add: assms(2) unle_le_u16 get_put_time [OF assms(1)])
  then show ?thesis using assms(4) by (simp add: proc_v6_def Let_def)
qed

definition reply6_to :: "u8 list \<Rightarrow> u8 list \<Rightarrow> u8 list" where
  "reply6_to cks req = [ICMP6_ECHO_REPLY, 0] @ cks @ drop 4 req"

section \<open>Claims\<close>

text \<open>
  C37. A reply is matched with its request and timed: when the host returns the data of the request
  \<^verbatim>\<open>ping\<close> sends at an alarm in a reply, the program prints the sequence number of that request, the
  sender, and exactly the time that has passed since it was sent. With IPv4 the request has a checksum
  that verifies and the reply an IP header of any legal length; with IPv6 the checksum is the kernel's
  and the printed hop limit that of the ancillary data. The clock gives normalised times, the sender's
  address can be printed, and no call fails.
\<close>
theorem ping_times_replies:
  assumes "ip_header ip" and "0 \<le> tv_usec now \<and> tv_usec now < 1000000" and "0 \<le> tv_usec later \<and> tv_usec later < 1000000"
    and "0 \<le> tv_sec now \<and> tv_sec now < 2 ^ 63" and "length (pi_recvbuf s) = BUFSIZE" and "length (sendbuf (pi_ping s)) = BUFSIZE"
    and "Sock_ntop_host sender (pi_salen s) = Inr host"
  shows "\<exists>req. (pi_proto s = Proto_v4 \<longrightarrow> in_cksum req = 0) \<and>
    (\<exists>t. run_list ping_step [Alarm now True,
          Packet (if pi_proto s = Proto_v4 then reply_to ip c req else reply6_to (le 2 (unat c)) req) sender msg later] s = Inr t
      \<and> pg_sent (pi_ping t) = pg_sent (pi_ping s) @ [req] \<and> nsent (pi_ping t) = nsent (pi_ping s) + 1
      \<and> pg_screen (pi_ping t) = pg_screen (pi_ping s) @
          [let q = word_of_int (nsent (pi_ping s));
               rtt = (tv_sec later * 1000000 + tv_usec later) - (tv_sec now * 1000000 + tv_usec now) in
           if pi_proto s = Proto_v4 then Reply 64 host q (ip ! 8) rtt else Reply6 64 host q (hop_limit msg) rtt])"
proof (cases "pi_proto s")
  case Proto_v4
  let ?p = "pi_ping s" and ?q = "word_of_int (nsent (pi_ping s)) :: u16"
  let ?req = "request (pg_pid ?p) ?q now"
  have now: "in_range now" using assms(2,4) by (auto simp: in_range_def)
  have len: "length (reply_to ip c ?req) = length ip + 64" by (simp add: reply_to_def)
  let ?b = "overwrite (pi_recvbuf s) (reply_to ip c ?req)"
  have b: "take BUFSIZE (reply_to ip c ?req) = reply_to ip c ?req"
    using len ip_header_length [OF assms(1)] by (simp add: BUFSIZE_def)
  have "proc_v4 ?b (length ip + 64) host later (u :: ping) = u\<lparr>pg_screen := pg_screen u @
      [Reply 64 host ?q (ip ! 8) (tv_sec (tv_sub later now) * 1000000 + tv_usec (tv_sub later now))]\<rparr>"
    if "pg_pid u = pg_pid ?p" for u
    using proc_v4_reply [OF assms(1) now, of ?b c u ?q] that by (simp add: overwrite_def)
  then show ?thesis
    using tv_sub_difference(1) [OF assms(3,2)] request_checksum [of "pg_pid ?p" ?q now]
    by (intro exI [of _ ?req])
      (simp add: ping_step_def ping_alrm_def lift_ping_def Proto_v4 send_v4_request assms(7) b len Let_def)
next
  case Proto_v6
  let ?p = "pi_ping s"
  let ?req = "request6 (take 2 (drop 2 (sendbuf ?p))) (pg_pid ?p) (word_of_int (nsent ?p)) now"
  have now: "in_range now" using assms(2,4) by (auto simp: in_range_def)
  have four: "drop 4 ?req = le 2 (unat (pg_pid ?p)) @ le 2 (unat (word_of_int (nsent ?p) :: u16)) @ put_time now @ replicate 40 0xa5"
    using assms(6) by (simp add: request6_def BUFSIZE_def)
  let ?reply = "reply6_to (le 2 (unat c)) ?req"
  have len: "length ?reply = 64" by (simp add: reply6_to_def four)
  have b: "take BUFSIZE ?reply = ?reply" using len by (simp add: BUFSIZE_def)
  have "proc_v6 (overwrite (pi_recvbuf s) ?reply) 64 host msg later (u :: ping) = u\<lparr>pg_screen := pg_screen u @
      [Reply6 64 host (word_of_int (nsent ?p)) (hop_limit msg) (tv_sec (tv_sub later now) * 1000000 + tv_usec (tv_sub later now))]\<rparr>"
    if "pg_pid u = pg_pid ?p" for u
    using proc_v6_own_reply [OF now, of _ "le 2 (unat c)" u "word_of_int (nsent ?p)" _ 64] that
    by (simp add: overwrite_def reply6_to_def four)
  then show ?thesis
    using tv_sub_difference(1) [OF assms(3,2)]
    by (intro exI [of _ ?req])
      (simp add: ping_step_def ping_alrm_def lift_ping_def Proto_v6 send_v6_request [OF assms(6)] assms(7) b len Let_def)
qed

definition example_pinger :: "proto \<Rightarrow> nat \<Rightarrow> pinger" where
  "example_pinger p salen = \<lparr>pi_ping = \<lparr>sendbuf = replicate BUFSIZE 0, nsent = 7, pg_pid = 42, pg_verbose = False, pg_sent = [], pg_screen = []\<rparr>,
     pi_recvbuf = replicate BUFSIZE 0, pi_proto = p, pi_sasend = Sockaddr_in 0 (htonl 0x0A000001), pi_salen = salen,
     pi_filter = False, pi_hops = False\<rparr>"

theorem ping_times_replies_witness:
  "\<exists>req t. run_list ping_step [Alarm \<lparr>tv_sec = 10, tv_usec = 999000\<rparr> True,
      Packet (reply_to ([0x45] @ replicate 7 0 @ [64, 1] @ replicate 10 0) 0 req) (Sockaddr_in 0 (htonl 0x0A000001)) []
        \<lparr>tv_sec = 11, tv_usec = 1000\<rparr>] (example_pinger Proto_v4 16) = Inr t
    \<and> pg_screen (pi_ping t) = [Reply 64 (show4 (addr_bytes (htonl 0x0A000001))) 7 64 2000]"
  using ping_times_replies [of "[0x45] @ replicate 7 0 @ [64, 1] @ replicate 10 0" "\<lparr>tv_sec = 10, tv_usec = 999000\<rparr>"
      "\<lparr>tv_sec = 11, tv_usec = 1000\<rparr>" "example_pinger Proto_v4 16" "Sockaddr_in 0 (htonl 0x0A000001)"
      "show4 (addr_bytes (htonl 0x0A000001))" 0 "[]"]
  by (auto simp: ip_header_def IPPROTO_ICMP_def example_pinger_def nth_append Sock_ntop_host_in)

text \<open>A packet with another identifier is not taken for a reply.\<close>

theorem others_replies_ignored:
  assumes "icmp = drop (unat ((buf ! 0) AND 0xf) * 4) buf" and "icmp ! 0 = ICMP_ECHOREPLY"
    and "unle (take 2 (drop 4 icmp)) \<noteq> unat (pg_pid s)"
  shows "proc_v4 buf len sndr now s = s"
  using assms by (simp add: proc_v4_def Let_def)

text \<open>
  With a reply of 16 bytes of ICMP the time comes from bytes that were not received: the test asks for
  the eight bytes of a 32-bit \<^verbatim>\<open>struct timeval\<close>, which has sixteen, and the microseconds are those
  an earlier packet left in the buffer.
\<close>

theorem short_reply_timed_by_old_bytes:
  assumes "ip_header ip" and "in_range \<lparr>tv_sec = x, tv_usec = old\<rparr>"
    and "received = ip @ icmp_header ICMP_ECHOREPLY c (pg_pid s) q @ put_long x"
  shows "length received = length ip + 16
    \<and> proc_v4 (received @ put_long old @ rest) (length received) sndr later s =
      (let t = tv_sub later \<lparr>tv_sec = x, tv_usec = old\<rparr> in
       s\<lparr>pg_screen := pg_screen s @ [Reply 16 sndr q (ip ! 8) (tv_sec t * 1000000 + tv_usec t)]\<rparr>)"
proof -
  have len: "length received = length ip + 16" by (simp add: assms(3))
  then show ?thesis using proc_v4_own_reply [OF assms(1,2) refl, of "length ip + 16" c s q rest]
    by (simp add: assms(3) put_time_def Let_def)
qed

end
