(* ===== verification/PingMain.thy ===== *)
theory PingMain
  imports Ping GetAddrInfoProps
begin

text \<open>
  The start of the book's \<^verbatim>\<open>ping\<close> (\<^verbatim>\<open>main.c\<close>, the beginning of \<^verbatim>\<open>readloop.c\<close>): the command line,
  the address of the host by the library's \<^verbatim>\<open>host_serv.c\<close>, the choice of the protocol and the first
  request.
\<close>

section \<open>The address of a host\<close>

text \<open>A \<^verbatim>\<open>getaddrinfo\<close>, as its callers see it: the book's own is \<open>libgai\<close> below.\<close>

type_synonym gai = "string option \<Rightarrow> string option \<Rightarrow> addrinfo option \<Rightarrow> gai_error + addrinfo list"

definition serv_hints :: "family \<Rightarrow> int \<Rightarrow> addrinfo" where
  "serv_hints family socktype = no_hints\<lparr>info_flags := AI_CANONNAME, info_family := family, info_socktype := socktype\<rparr>"

definition host_serv :: "gai \<Rightarrow> string option \<Rightarrow> string option \<Rightarrow> family \<Rightarrow> int \<Rightarrow> stop + addrinfo list option" where
  "host_serv gai host serv family socktype =
     (case gai host serv (Some (serv_hints family socktype)) of
        Inl (Quits e) \<Rightarrow> Inl e
      | Inl (Eai n) \<Rightarrow> Inr None
      | Inr res \<Rightarrow> Inr (Some res))"

definition Host_serv :: "gai \<Rightarrow> string option \<Rightarrow> string option \<Rightarrow> family \<Rightarrow> int \<Rightarrow> stop + addrinfo list" where
  "Host_serv gai host serv family socktype =
     (case gai host serv (Some (serv_hints family socktype)) of
        Inl (Quits e) \<Rightarrow> Inl e
      | Inl (Eai n) \<Rightarrow>
          Inl (Exit 1 (''host_serv error for '' @ (case host of None \<Rightarrow> ''(no hostname)'' | Some h \<Rightarrow> h) @ '', '' @
            (case serv of None \<Rightarrow> ''(no service name)'' | Some v \<Rightarrow> v) @ '': '' @ gai_strerror n))
      | Inr res \<Rightarrow> Inr res)"

definition libgai :: "name_tables \<Rightarrow> gai" where
  "libgai R host serv hints = snd (getaddrinfo R host serv hints)"

section \<open>The command line\<close>

text \<open>
  \<^verbatim>\<open>getopt(argc, argv, "v")\<close> until it returns -1, as the C library of Linux has it: what it returns,
  and the arguments that are no options, from \<^verbatim>\<open>argv[optind]\<close> on in the end.
\<close>

fun getopt_v :: "string list \<Rightarrow> string \<times> string list" where
  "getopt_v [] = ([], [])"
| "getopt_v (a # as) =
     (if a = ''--'' then ([], as)
      else
        let (opts, rest) = getopt_v as in
        if length a > 1 \<and> hd a = CHR ''-'' then (map (\<lambda>c. if c = CHR ''v'' then c else CHR ''?'') (tl a) @ opts, rest)
        else (opts, a # rest))"

text \<open>The \<^verbatim>\<open>switch\<close>: how often \<^verbatim>\<open>verbose\<close> is increased.\<close>

fun read_options :: "string \<Rightarrow> nat \<Rightarrow> stop + nat" where
  "read_options [] verbose = Inr verbose"
| "read_options (c # cs) verbose =
     (if c = CHR ''v'' then read_options cs (verbose + 1)
      else if c = CHR ''?'' then Inl (Exit 1 (''unrecognized option: '' @ [c]))
      else read_options cs verbose)"

section \<open>The start\<close>

text \<open>\<^verbatim>\<open>IN6_IS_ADDR_V4MAPPED\<close>, and the number of a family.\<close>

definition v4mapped :: "u8 list \<Rightarrow> bool" where
  "v4mapped a \<longleftrightarrow> take 12 a = replicate 10 0 @ [0xff, 0xff]"

definition af_number :: "family \<Rightarrow> int" where
  "af_number f = (case f of AF_UNIX \<Rightarrow> 1 | AF_INET \<Rightarrow> 2 | AF_INET6 \<Rightarrow> 10 | AF_OTHER n \<Rightarrow> n)"

definition choose_proto :: "addrinfo \<Rightarrow> stop + proto" where
  "choose_proto ai =
     (case info_family ai of
        AF_INET \<Rightarrow> Inr Proto_v4
      | AF_INET6 \<Rightarrow>
          (case info_addr ai of
             Some (Sockaddr_in6 _ a) \<Rightarrow>
               if v4mapped a then Inl (Exit 1 ''cannot ping IPv4-mapped IPv6 address'') else Inr Proto_v6
           | _ \<Rightarrow> Inl (Undefined ''ai_addr''))
      | f \<Rightarrow> Inl (Exit 1 (''unknown address family '' @ show_int (af_number f))))"

text \<open>The results of the system calls: \<^verbatim>\<open>getpid\<close>, \<^verbatim>\<open>socket\<close>, the options of \<^verbatim>\<open>init_v6\<close>, the time and \<^verbatim>\<open>sendto\<close>.\<close>

record ping_calls =
  pc_getpid :: nat
  pc_socket :: bool
  pc_filter :: bool
  pc_hops :: bool
  pc_now :: timeval
  pc_sendto :: bool

text \<open>
  \<^verbatim>\<open>readloop\<close> up to its loop: the socket, the initialisation of the protocol, the first request.
\<close>

definition start_loop :: "ping_calls \<Rightarrow> pinger \<Rightarrow> pinger outcome" where
  "start_loop K s =
     bindr (exit_if (\<not> pc_socket K) 1 ''socket error'' s) (\<lambda>s.
     ping_alrm (pc_now K) (pc_sendto K) (case pi_proto s of Proto_v4 \<Rightarrow> s | Proto_v6 \<Rightarrow> init_v6 (pc_filter K) (pc_hops K) s))"

text \<open>\<open>stack\<close> is what the receive buffer of \<^verbatim>\<open>readloop\<close> holds at first.\<close>

definition at_main :: "stop + 'a \<Rightarrow> (stop \<times> pinger option) + 'a" where
  "at_main r = map_sum (\<lambda>e. (e, None)) id r"

definition ping_main ::
  "gai \<Rightarrow> ping_calls \<Rightarrow> u8 list \<Rightarrow> string list \<Rightarrow> (stop \<times> pinger option) + pinger" where
  "ping_main gai K stack args =
     (let (opts, operands) = getopt_v args in
      bindr (at_main (read_options opts 0)) (\<lambda>verbose.
      bindr (exit_if (length operands \<noteq> 1) 1 ''usage: ping [ -v ] <hostname>'' None) (\<lambda>_.
      bindr (at_main (Host_serv gai (Some (hd operands)) None AF_UNSPEC 0)) (\<lambda>res.
      bindr (undef_if (res = [] \<or> info_addr (hd res) = None) ''ai_addr'' None) (\<lambda>_.
      let ai = hd res; sa = the (info_addr ai) in
      bindr (at_main (Sock_ntop_host sa (info_addrlen ai))) (\<lambda>h.
      bindr (at_main (choose_proto ai)) (\<lambda>pr.
      map_sum (apsnd Some) id (start_loop K
        \<lparr>pi_ping = \<lparr>sendbuf = replicate BUFSIZE 0, nsent = 0, pg_pid = of_nat (pc_getpid K), pg_verbose = (verbose \<noteq> 0),
           pg_sent = [], pg_screen = [Title (case info_canonname ai of None \<Rightarrow> h | Some c \<Rightarrow> c) h datalen]\<rparr>,
         pi_recvbuf = stack, pi_proto = pr, pi_sasend = sa, pi_salen = info_addrlen ai,
         pi_filter = False, pi_hops = False\<rparr>))))))))"

section \<open>From the command line to the first request\<close>

lemma Sock_ntop_host_in6: "Sock_ntop_host (Sockaddr_in6 p a) n = Inr (show6 a)"
  using show6_length [of a] by (simp add: Sock_ntop_host_def sock_ntop_host_def inet_ntop_def inet_ntop6_def Let_def)

lemma read_options_v: "read_options (replicate k CHR ''v'') n = Inr (n + k)"
  by (induction k arbitrary: n) auto

lemma read_options_other:
  "set opts \<subseteq> {CHR ''v'', CHR ''?''} \<Longrightarrow> CHR ''?'' \<in> set opts \<Longrightarrow> read_options opts n = Inl (Exit 1 ''unrecognized option: ?'')"
  by (induction opts "n" rule: read_options.induct) auto

lemma getopt_v_codes: "set (fst (getopt_v args)) \<subseteq> {CHR ''v'', CHR ''?''}"
  by (induction args rule: getopt_v.induct) (auto simp: Let_def split: prod.splits if_splits)

definition pingable :: "sockaddr \<Rightarrow> bool" where
  "pingable sa \<longleftrightarrow> (case sa of Sockaddr_in _ _ \<Rightarrow> True | Sockaddr_in6 _ a \<Rightarrow> \<not> v4mapped a | _ \<Rightarrow> False)"

definition first_request :: "ping_calls \<Rightarrow> sockaddr \<Rightarrow> u8 list" where
  "first_request K sa =
     (case sa of
        Sockaddr_in _ _ \<Rightarrow> request (of_nat (pc_getpid K)) 0 (pc_now K)
      | _ \<Rightarrow> request6 [0, 0] (of_nat (pc_getpid K)) 0 (pc_now K))"

text \<open>
  Called with the name of a host that has an address, and with any number of options \<^verbatim>\<open>-v\<close> before or
  behind it, the program sends request 0 under the lowest 16 bits of its process number to the first
  address of the host.
\<close>
theorem ping_sends_first_request:
  assumes "getopt_v args = (replicate k CHR ''v'', [host])"
    and "gai (Some host) None (Some (serv_hints AF_UNSPEC 0)) = Inr (ai # rest)"
    and "info_addr ai = Some sa" and "info_family ai = sa_family sa" and "pingable sa" and "pc_socket K" and "pc_sendto K"
  shows "\<exists>s. ping_main gai K stack args = Inr s \<and> pi_sasend s = sa \<and> pi_recvbuf s = stack
    \<and> pg_sent (pi_ping s) = [first_request K sa] \<and> nsent (pi_ping s) = 1
    \<and> pg_pid (pi_ping s) = of_nat (pc_getpid K) \<and> (pg_verbose (pi_ping s) \<longleftrightarrow> k > 0)"
proof (cases sa)
  case (Sockaddr_in p a)
  then show ?thesis using assms(1-4,6,7)
    by (simp add: ping_main_def at_main_def read_options_v Host_serv_def choose_proto_def Sock_ntop_host_in start_loop_def
        ping_alrm_def lift_ping_def send_v4_request first_request_def)
next
  case (Sockaddr_in6 p a)
  have b: "replicate (min 2 (BUFSIZE - 2)) (0 :: u8) = [0, 0]" by (simp add: BUFSIZE_def numeral_2_eq_2)
  from Sockaddr_in6 show ?thesis using assms
    by (simp add: ping_main_def at_main_def read_options_v Host_serv_def choose_proto_def Sock_ntop_host_in6 start_loop_def
        ping_alrm_def lift_ping_def send_v6_request init_v6_def first_request_def pingable_def b Let_def)
qed (use assms(5) in \<open>auto simp: pingable_def\<close>)

text \<open>
  With the book's own \<^verbatim>\<open>getaddrinfo\<close>, pinging a printed address, IPv4 or IPv6, sends the first
  request to that very address, whatever the tables of the system say.
\<close>
theorem ping_printed_address:
  assumes "getopt_v args = (replicate k CHR ''v'', [numeric_host sa])" and "internet sa" and "pingable sa"
    and "rs_memory R" and "pc_socket K" and "pc_sendto K"
  shows "\<exists>s. ping_main (libgai R) K stack args = Inr s \<and> pi_sasend s = at_port 0 sa
    \<and> pg_sent (pi_ping s) = [first_request K sa] \<and> nsent (pi_ping s) = 1"
proof -
  let ?ai = "(entry (serv_hints AF_UNSPEC 0) sa)\<lparr>info_canonname := Some (numeric_host sa)\<rparr>"
  have "getaddrinfo R (Some (numeric_host sa)) None (Some (serv_hints AF_UNSPEC 0)) = ([], Inr [?ai])"
    using getaddrinfo_printed [OF assms(2,4), of "serv_hints AF_UNSPEC 0" None]
    by (simp add: serv_hints_def AI_CANONNAME_def AI_PASSIVE_def blank_def)
  then have "libgai R (Some (numeric_host sa)) None (Some (serv_hints AF_UNSPEC 0)) = Inr [?ai]" by (simp add: libgai_def)
  moreover have "info_addr ?ai = Some (at_port 0 sa)" "info_family ?ai = sa_family (at_port 0 sa)"
    "pingable (at_port 0 sa)" "first_request K (at_port 0 sa) = first_request K sa"
    using assms(3) by (cases sa; simp add: entry_def at_port_def pingable_def first_request_def)+
  ultimately show ?thesis using ping_sends_first_request [OF assms(1) _ _ _ _ assms(5,6)] by metis
qed

text \<open>Another option than \<^verbatim>\<open>-v\<close>, no host or two of them, or an IPv4-mapped address end it before anything is sent.\<close>

theorem ping_refuses:
  shows "CHR ''?'' \<in> set (fst (getopt_v args)) \<Longrightarrow> ping_main gai K stack args = Inl (Exit 1 ''unrecognized option: ?'', None)"
    and "getopt_v args = (replicate k CHR ''v'', hosts) \<Longrightarrow> length hosts \<noteq> 1
      \<Longrightarrow> ping_main gai K stack args = Inl (Exit 1 ''usage: ping [ -v ] <hostname>'', None)"
    and "getopt_v args = (replicate k CHR ''v'', [host])
      \<Longrightarrow> gai (Some host) None (Some (serv_hints AF_UNSPEC 0)) = Inr (ai # rest)
      \<Longrightarrow> info_addr ai = Some (Sockaddr_in6 p a) \<Longrightarrow> info_family ai = AF_INET6 \<Longrightarrow> v4mapped a
      \<Longrightarrow> ping_main gai K stack args = Inl (Exit 1 ''cannot ping IPv4-mapped IPv6 address'', None)"
  using read_options_other [OF getopt_v_codes, of args 0]
  by (auto simp: ping_main_def at_main_def read_options_v Host_serv_def choose_proto_def Sock_ntop_host_in6 exit_if_def Let_def
      split: prod.splits)

end
