(* ===== verification/NonbCli.thy ===== *)
theory NonbCli
  imports Prelude
begin

text \<open>
  The book's \<^verbatim>\<open>str_cli\<close> with nonblocking I/O (\<^verbatim>\<open>unpv13e/nonblock/strclinonb.c\<close>): one \<^verbatim>\<open>select\<close> loop
  that copies standard input to the socket and the socket to standard output through two buffers.
\<close>

section \<open>The buffers\<close>

text \<open>
  An array of \<^verbatim>\<open>MAXLINE\<close> bytes with the pointers to the next byte that is read into it
  (\<^verbatim>\<open>toiptr\<close>, \<^verbatim>\<open>friptr\<close>) and the next one that is written from it (\<^verbatim>\<open>tooptr\<close>, \<^verbatim>\<open>froptr\<close>).
\<close>

record nbuf =
  b_mem :: string
  b_iptr :: nat
  b_optr :: nat

definition room_left :: "nbuf \<Rightarrow> nat" where
  "room_left b = MAXLINE - b_iptr b"

definition pending :: "nbuf \<Rightarrow> string" where
  "pending b = take (b_iptr b - b_optr b) (drop (b_optr b) (b_mem b))"

definition fill :: "string \<Rightarrow> nbuf \<Rightarrow> nbuf" where
  "fill d b = b\<lparr>b_mem := take (b_iptr b) (b_mem b) @ d @ drop (b_iptr b + length d) (b_mem b), b_iptr := b_iptr b + length d\<rparr>"

definition drain :: "nat \<Rightarrow> nbuf \<Rightarrow> nbuf" where
  "drain n b =
     (let b = b\<lparr>b_optr := b_optr b + n\<rparr> in if b_optr b = b_iptr b then b\<lparr>b_optr := 0, b_iptr := 0\<rparr> else b)"

section \<open>The loop\<close>

text \<open>
  What the calls return: \<^verbatim>\<open>read\<close> and \<^verbatim>\<open>write\<close> fail, would block, or return the bytes that have come
  (none at the end of the stream) or the number of bytes taken.
\<close>

datatype nb_read = ReadFails | ReadBlocks | ReadBytes string
datatype nb_write = WriteFails | WriteBlocks | WriteTakes nat

text \<open>
  What happens in one pass: which descriptors \<^verbatim>\<open>select\<close> finds ready, should they be in its sets, and
  the results of the calls.
\<close>

record nb_pass =
  np_select :: bool
  np_in_ready :: bool
  np_sock_ready :: bool
  np_send_ready :: bool
  np_out_ready :: bool
  np_in :: nb_read
  np_sock :: nb_read
  np_out :: nb_write
  np_send :: nb_write
  np_shutdown :: bool

text \<open>
  The state, with the streams that have passed: what was read from standard input and from the socket,
  what was written to the socket and to standard output, and how many FINs were sent.
\<close>

record nonb =
  nb_to :: nbuf
  nb_fr :: nbuf
  nb_stdineof :: bool
  nb_returned :: bool
  nb_typed :: string
  nb_sent :: string
  nb_received :: string
  nb_shown :: string
  nb_fins :: nat

definition send_fin :: "nb_pass \<Rightarrow> nonb \<Rightarrow> nonb outcome" where
  "send_fin p s = exit_if (\<not> np_shutdown p) 1 ''shutdown error'' (s\<lparr>nb_fins := nb_fins s + 1\<rparr>)"

text \<open>
  The four parts of a pass. The first two also say whether they put the descriptor into the set of those
  to be written, the second whether the function returns.
\<close>

definition read_stdin :: "nb_pass \<Rightarrow> nonb \<Rightarrow> (stop \<times> nonb) + bool \<times> nonb" where
  "read_stdin p s =
     (case np_in p of
        ReadFails \<Rightarrow> Inl (Exit 1 ''read error on stdin'', s)
      | ReadBlocks \<Rightarrow> Inr (False, s)
      | ReadBytes d \<Rightarrow>
          let d = take (room_left (nb_to s)) d in
          if d = [] then
            let s = s\<lparr>nb_stdineof := True\<rparr> in
            if b_optr (nb_to s) = b_iptr (nb_to s) then bindr (send_fin p s) (\<lambda>s. Inr (False, s)) else Inr (False, s)
          else Inr (True, s\<lparr>nb_to := fill d (nb_to s), nb_typed := nb_typed s @ d\<rparr>))"

definition read_socket :: "nb_pass \<Rightarrow> nonb \<Rightarrow> (stop \<times> nonb) + bool \<times> nonb" where
  "read_socket p s =
     (case np_sock p of
        ReadFails \<Rightarrow> Inl (Exit 1 ''read error on socket'', s)
      | ReadBlocks \<Rightarrow> Inr (False, s)
      | ReadBytes d \<Rightarrow>
          let d = take (room_left (nb_fr s)) d in
          if d = [] then
            if nb_stdineof s then Inr (False, s\<lparr>nb_returned := True\<rparr>)
            else Inl (Exit 1 ''str_cli: server terminated prematurely'', s)
          else Inr (True, s\<lparr>nb_fr := fill d (nb_fr s), nb_received := nb_received s @ d\<rparr>))"

definition write_stdout :: "nb_pass \<Rightarrow> nonb \<Rightarrow> nonb outcome" where
  "write_stdout p s =
     (if b_iptr (nb_fr s) - b_optr (nb_fr s) = 0 then Inr s
      else
        (case np_out p of
           WriteFails \<Rightarrow> Inl (Exit 1 ''write error to stdout'', s)
         | WriteBlocks \<Rightarrow> Inr s
         | WriteTakes k \<Rightarrow>
             let d = take k (pending (nb_fr s)) in
             Inr (s\<lparr>nb_fr := drain (length d) (nb_fr s), nb_shown := nb_shown s @ d\<rparr>)))"

definition write_socket :: "nb_pass \<Rightarrow> nonb \<Rightarrow> nonb outcome" where
  "write_socket p s =
     (if b_iptr (nb_to s) - b_optr (nb_to s) = 0 then Inr s
      else
        (case np_send p of
           WriteFails \<Rightarrow> Inl (Exit 1 ''write error to socket'', s)
         | WriteBlocks \<Rightarrow> Inr s
         | WriteTakes k \<Rightarrow>
             let d = take k (pending (nb_to s)); all = (b_optr (nb_to s) + length d = b_iptr (nb_to s));
                 s = s\<lparr>nb_to := drain (length d) (nb_to s), nb_sent := nb_sent s @ d\<rparr>
             in if all \<and> nb_stdineof s then send_fin p s else Inr s))"

text \<open>
  A pass of the loop; \<open>nb_step\<close> does nothing once the function has returned.
\<close>

definition one_pass :: "nb_pass \<Rightarrow> nonb \<Rightarrow> nonb outcome" where
  "one_pass p s =
     (if \<not> np_select p then Inl (Exit 1 ''select error'', s)
      else let in_set = (\<not> nb_stdineof s \<and> b_iptr (nb_to s) < MAXLINE \<and> np_in_ready p);
          sock_set = (b_iptr (nb_fr s) < MAXLINE \<and> np_sock_ready p);
          send_set = (b_optr (nb_to s) \<noteq> b_iptr (nb_to s) \<and> np_send_ready p);
          out_set = (b_optr (nb_fr s) \<noteq> b_iptr (nb_fr s) \<and> np_out_ready p)
      in
      bindr (if in_set then read_stdin p s else Inr (False, s)) (\<lambda>(send_now, s).
      bindr (if sock_set then read_socket p s else Inr (False, s)) (\<lambda>(out_now, s).
      if nb_returned s then Inr s
      else
        bindr (if out_set \<or> out_now then write_stdout p s else Inr s) (\<lambda>s.
        if send_set \<or> send_now then write_socket p s else Inr s))))"

definition nb_step :: "nonb \<Rightarrow> nb_pass \<Rightarrow> nonb outcome" where
  "nb_step s p = (if nb_returned s then Inr s else one_pass p s)"

text \<open>The buffers hold anything at first.\<close>

definition nonb_start :: "string \<Rightarrow> string \<Rightarrow> nonb" where
  "nonb_start to fr =
     \<lparr>nb_to = \<lparr>b_mem = to, b_iptr = 0, b_optr = 0\<rparr>, nb_fr = \<lparr>b_mem = fr, b_iptr = 0, b_optr = 0\<rparr>,
      nb_stdineof = False, nb_returned = False, nb_typed = [], nb_sent = [], nb_received = [], nb_shown = [], nb_fins = 0\<rparr>"

section \<open>Buffers\<close>

text \<open>The pointers are in order and an empty buffer begins at the start of the array.\<close>

definition wf_nbuf :: "nbuf \<Rightarrow> bool" where
  "wf_nbuf b \<longleftrightarrow> length (b_mem b) = MAXLINE \<and> b_optr b \<le> b_iptr b \<and> b_iptr b \<le> MAXLINE
     \<and> (b_optr b = b_iptr b \<longrightarrow> b_iptr b = 0)"

lemma pending_Nil: "wf_nbuf b \<Longrightarrow> pending b = [] \<longleftrightarrow> b_optr b = b_iptr b"
  by (auto simp: wf_nbuf_def pending_def)

lemma length_pending: "wf_nbuf b \<Longrightarrow> length (pending b) = b_iptr b - b_optr b"
  by (auto simp: wf_nbuf_def pending_def)

lemma fill_ok:
  assumes "wf_nbuf b" and "length d \<le> room_left b" and "d \<noteq> []"
  shows "wf_nbuf (fill d b)" and "pending (fill d b) = pending b @ d"
  using assms by (auto simp: wf_nbuf_def fill_def room_left_def pending_def drop_take)

lemma drain_ok:
  assumes "wf_nbuf b" and "pending b = d @ r" and "pending b \<noteq> []"
  shows "wf_nbuf (drain (length d) b)" and "pending (drain (length d) b) = r"
proof -
  have l: "length d + length r = b_iptr b - b_optr b" using assms(1,2) by (metis length_append length_pending)
  have "r = drop (length d) (pending b)" using assms(2) by simp
  then show "pending (drain (length d) b) = r" "wf_nbuf (drain (length d) b)"
    using assms(1) l by (auto simp: drain_def pending_def wf_nbuf_def drop_take Let_def add.commute)
qed

section \<open>The invariant\<close>

text \<open>
  What was read is what was written followed by what is in the buffer, in both directions, and the
  FIN has been sent once standard input has ended and nothing is left to send.
\<close>

definition nb_inv :: "nonb \<Rightarrow> bool" where
  "nb_inv s \<longleftrightarrow> wf_nbuf (nb_to s) \<and> wf_nbuf (nb_fr s)
     \<and> nb_typed s = nb_sent s @ pending (nb_to s) \<and> nb_received s = nb_shown s @ pending (nb_fr s)
     \<and> nb_fins s = of_bool (nb_stdineof s \<and> pending (nb_to s) = []) \<and> (nb_returned s \<longrightarrow> nb_stdineof s)"

lemma read_stdin_inv:
  assumes "nb_inv s" and "\<not> nb_stdineof s" and "read_stdin p s = Inr (w, t)"
  shows "nb_inv t"
proof (cases "np_in p")
  case (ReadBytes d)
  let ?d = "take (room_left (nb_to s)) d"
  show ?thesis
  proof (cases "?d = []")
    case True
    then show ?thesis using assms ReadBytes
      by (auto simp: read_stdin_def send_fin_def nb_inv_def bind_iff pending_Nil Let_def split: if_splits)
  next
    case False
    then show ?thesis using assms ReadBytes fill_ok [of "nb_to s" ?d]
      by (auto simp: read_stdin_def nb_inv_def Let_def)
  qed
qed (use assms in \<open>auto simp: read_stdin_def\<close>)

lemma read_socket_inv:
  assumes "nb_inv s" and "read_socket p s = Inr (w, t)"
  shows "nb_inv t"
proof (cases "np_sock p")
  case (ReadBytes d)
  let ?d = "take (room_left (nb_fr s)) d"
  show ?thesis using assms ReadBytes fill_ok [of "nb_fr s" ?d]
    by (cases "?d = []") (auto simp: read_socket_def nb_inv_def Let_def split: if_splits)
qed (use assms in \<open>auto simp: read_socket_def\<close>)

lemma write_stdout_inv:
  assumes "nb_inv s" and "write_stdout p s = Inr t"
  shows "nb_inv t"
proof (cases "b_iptr (nb_fr s) - b_optr (nb_fr s) = 0")
  case False
  then have "pending (nb_fr s) \<noteq> []" using assms(1) by (auto simp: nb_inv_def pending_Nil)
  with False show ?thesis
    using assms drain_ok [of "nb_fr s" "take k (pending (nb_fr s))" "drop k (pending (nb_fr s))" for k]
    by (cases "np_out p") (auto simp: write_stdout_def nb_inv_def Let_def)
qed (use assms in \<open>simp add: write_stdout_def\<close>)

lemma write_socket_inv:
  assumes "nb_inv s" and "write_socket p s = Inr t"
  shows "nb_inv t"
proof (cases "b_iptr (nb_to s) - b_optr (nb_to s) = 0")
  case False
  have wf: "wf_nbuf (nb_to s)" using assms(1) by (simp add: nb_inv_def)
  show ?thesis
  proof (cases "np_send p")
    case (WriteTakes k)
    obtain d r where d: "take k (pending (nb_to s)) = d" and r: "pending (nb_to s) = d @ r" by (metis append_take_drop_id)
    have ne: "d @ r \<noteq> []" using False wf r by (metis diff_self_eq_0 pending_Nil)
    have "b_optr (nb_to s) + length d = b_iptr (nb_to s) \<longleftrightarrow> r = []"
      using length_pending [OF wf] False r by (cases r) auto
    with WriteTakes False ne d r assms drain_ok [OF wf r] show ?thesis
      by (auto simp: write_socket_def send_fin_def nb_inv_def bind_iff Let_def split: if_splits)
  qed (use assms False in \<open>auto simp: write_socket_def\<close>)
qed (use assms in \<open>simp add: write_socket_def\<close>)

text \<open>The stages of a pass that does not end the process.\<close>

lemma nb_step_stages:
  assumes "nb_step s p = Inr t" and "\<not> nb_returned s"
  obtains send_now u out_now v where
    "(if \<not> nb_stdineof s \<and> b_iptr (nb_to s) < MAXLINE \<and> np_in_ready p then read_stdin p s else Inr (False, s)) = Inr (send_now, u)"
    and "(if b_iptr (nb_fr s) < MAXLINE \<and> np_sock_ready p then read_socket p u else Inr (False, u)) = Inr (out_now, v)"
    and "nb_returned v \<Longrightarrow> t = v"
    and "\<not> nb_returned v \<Longrightarrow> \<exists>w.
      (if b_optr (nb_fr s) \<noteq> b_iptr (nb_fr s) \<and> np_out_ready p \<or> out_now then write_stdout p v else Inr v) = Inr w
      \<and> (if b_optr (nb_to s) \<noteq> b_iptr (nb_to s) \<and> np_send_ready p \<or> send_now then write_socket p w else Inr w) = Inr t"
proof -
  have "np_select p" using assms by (cases "np_select p") (simp_all add: nb_step_def one_pass_def)
  with assms obtain send_now u where
    1: "(if \<not> nb_stdineof s \<and> b_iptr (nb_to s) < MAXLINE \<and> np_in_ready p then read_stdin p s else Inr (False, s)) = Inr (send_now, u)"
    and rest: "bindr (if b_iptr (nb_fr s) < MAXLINE \<and> np_sock_ready p then read_socket p u else Inr (False, u)) (\<lambda>(out_now, s').
      if nb_returned s' then Inr s'
      else bindr (if b_optr (nb_fr s) \<noteq> b_iptr (nb_fr s) \<and> np_out_ready p \<or> out_now then write_stdout p s' else Inr s') (\<lambda>s'.
        if b_optr (nb_to s) \<noteq> b_iptr (nb_to s) \<and> np_send_ready p \<or> send_now then write_socket p s' else Inr s')) = Inr t"
    by (auto simp: nb_step_def one_pass_def bind_iff Let_def)
  from rest obtain out_now v where
    2: "(if b_iptr (nb_fr s) < MAXLINE \<and> np_sock_ready p then read_socket p u else Inr (False, u)) = Inr (out_now, v)"
    and 3: "(if nb_returned v then Inr v
      else bindr (if b_optr (nb_fr s) \<noteq> b_iptr (nb_fr s) \<and> np_out_ready p \<or> out_now then write_stdout p v else Inr v) (\<lambda>s'.
        if b_optr (nb_to s) \<noteq> b_iptr (nb_to s) \<and> np_send_ready p \<or> send_now then write_socket p s' else Inr s')) = Inr t"
    by (auto simp: bind_iff)
  from 3 have r: "nb_returned v \<Longrightarrow> t = v" by simp
  from 3 have w: "\<exists>w. (if b_optr (nb_fr s) \<noteq> b_iptr (nb_fr s) \<and> np_out_ready p \<or> out_now then write_stdout p v else Inr v) = Inr w
      \<and> (if b_optr (nb_to s) \<noteq> b_iptr (nb_to s) \<and> np_send_ready p \<or> send_now then write_socket p w else Inr w) = Inr t"
    if "\<not> nb_returned v" using that by (simp only: if_False bind_iff)
  show thesis by (rule that [OF 1 2 r w])
qed

lemma nb_step_inv:
  assumes "nb_inv s" and "nb_step s p = Inr t"
  shows "nb_inv t"
proof (cases "nb_returned s")
  case False
  from assms(2) False show ?thesis
  proof (rule nb_step_stages)
    fix send_now u out_now v
    assume 1: "(if \<not> nb_stdineof s \<and> b_iptr (nb_to s) < MAXLINE \<and> np_in_ready p then read_stdin p s else Inr (False, s)) = Inr (send_now, u)"
      and 2: "(if b_iptr (nb_fr s) < MAXLINE \<and> np_sock_ready p then read_socket p u else Inr (False, u)) = Inr (out_now, v)"
      and 3: "nb_returned v \<Longrightarrow> t = v"
      and 4: "\<not> nb_returned v \<Longrightarrow> \<exists>w.
        (if b_optr (nb_fr s) \<noteq> b_iptr (nb_fr s) \<and> np_out_ready p \<or> out_now then write_stdout p v else Inr v) = Inr w
        \<and> (if b_optr (nb_to s) \<noteq> b_iptr (nb_to s) \<and> np_send_ready p \<or> send_now then write_socket p w else Inr w) = Inr t"
    have "nb_inv u" using 1 assms(1) read_stdin_inv [of s p send_now u] by (auto split: if_splits)
    then have "nb_inv v" using 2 read_socket_inv [of u p out_now v] by (auto split: if_splits)
    then show ?thesis using 3 4 write_stdout_inv [of v p] write_socket_inv [of _ p t] by (metis Inr_inject)
  qed
qed (use assms in \<open>simp add: nb_step_def\<close>)

interpretation nonb: step_system nb_step "\<lambda>_. True" nb_inv
  by unfold_locales (rule nb_step_inv)

lemma nonb_start_inv: "length to = MAXLINE \<Longrightarrow> length fr = MAXLINE \<Longrightarrow> nb_inv (nonb_start to fr)"
  by (simp add: nb_inv_def nonb_start_def wf_nbuf_def pending_def)

lemma nonb_run_inv:
  "length to = MAXLINE \<Longrightarrow> length fr = MAXLINE \<Longrightarrow> run nb_step (nonb_start to fr) ps = Inr s \<Longrightarrow> nb_inv s"
  using nonb.run_inv [OF nonb_start_inv, of to fr ps s] by (simp add: list_all_iff)

section \<open>Properties\<close>

text \<open>
  C31. The nonblocking client relays both streams: after any passes of the loop, whatever the calls
  returned, what was read from standard input is what was sent, followed by at most \<^verbatim>\<open>MAXLINE\<close> bytes
  waiting in the buffer, the same holds from the socket to standard output, and the FIN has been sent
  exactly once if standard input has ended and everything typed is sent, and not at all otherwise.
\<close>
theorem nonblocking_relay:
  assumes "length to = MAXLINE" and "length fr = MAXLINE" and "run nb_step (nonb_start to fr) ps = Inr s"
  shows "nb_typed s = nb_sent s @ pending (nb_to s) \<and> length (pending (nb_to s)) \<le> MAXLINE
    \<and> nb_received s = nb_shown s @ pending (nb_fr s) \<and> length (pending (nb_fr s)) \<le> MAXLINE
    \<and> nb_fins s = of_bool (nb_stdineof s \<and> nb_sent s = nb_typed s)"
proof -
  have inv: "nb_inv s" by (rule nonb_run_inv [OF assms])
  then have "length (pending (nb_to s)) \<le> MAXLINE" "length (pending (nb_fr s)) \<le> MAXLINE"
    by (simp_all add: nb_inv_def wf_nbuf_def pending_def)
  with inv show ?thesis by (auto simp: nb_inv_def)
qed

definition example_pass :: nb_pass where
  "example_pass = \<lparr>np_select = True, np_in_ready = True, np_sock_ready = False, np_send_ready = True, np_out_ready = False,
     np_in = ReadBytes ''hello'', np_sock = ReadBlocks, np_out = WriteBlocks, np_send = WriteTakes 2, np_shutdown = True\<rparr>"

theorem nonblocking_relay_witness:
  "\<exists>s. run nb_step (nonb_start (replicate MAXLINE NUL) (replicate MAXLINE NUL)) [example_pass] = Inr s
     \<and> nb_typed s = ''hello'' \<and> nb_sent s = ''he'' \<and> pending (nb_to s) = ''llo'' \<and> nb_fins s = 0"
proof -
  let ?s = "nonb_start (replicate MAXLINE NUL) (replicate MAXLINE NUL)"
  obtain s where s: "run nb_step ?s [example_pass] = Inr s" "nb_typed s = ''hello''" "nb_sent s = ''he''" "\<not> nb_stdineof s"
    by (simp add: nb_step_def one_pass_def example_pass_def nonb_start_def read_stdin_def write_socket_def room_left_def MAXLINE_def
        fill_def drain_def pending_def Let_def)
  with nonblocking_relay [OF _ _ s(1)] show ?thesis by auto
qed

text \<open>
  \<^verbatim>\<open>select\<close> always has something to wait for: when the buffer for what comes from the socket is full,
  there is something to be written to standard output.
\<close>

lemma nb_inv_waits: "nb_inv s \<Longrightarrow> b_iptr (nb_fr s) < MAXLINE \<or> b_optr (nb_fr s) \<noteq> b_iptr (nb_fr s)"
  by (auto simp: nb_inv_def wf_nbuf_def MAXLINE_def)

text \<open>The function returns only where the server has closed the connection: no \<^verbatim>\<open>read\<close> is made without room.\<close>

theorem nb_returns_at_eof:
  assumes "nb_step s p = Inr t" and "\<not> nb_returned s" and "nb_returned t"
  shows "np_sock p = ReadBytes [] \<and> nb_stdineof t"
  using assms(1,2)
proof (rule nb_step_stages)
  fix send_now u out_now v
  assume 1: "(if \<not> nb_stdineof s \<and> b_iptr (nb_to s) < MAXLINE \<and> np_in_ready p then read_stdin p s else Inr (False, s)) = Inr (send_now, u)"
    and 2: "(if b_iptr (nb_fr s) < MAXLINE \<and> np_sock_ready p then read_socket p u else Inr (False, u)) = Inr (out_now, v)"
    and 3: "nb_returned v \<Longrightarrow> t = v"
    and 4: "\<not> nb_returned v \<Longrightarrow> \<exists>w.
      (if b_optr (nb_fr s) \<noteq> b_iptr (nb_fr s) \<and> np_out_ready p \<or> out_now then write_stdout p v else Inr v) = Inr w
      \<and> (if b_optr (nb_to s) \<noteq> b_iptr (nb_to s) \<and> np_send_ready p \<or> send_now then write_socket p w else Inr w) = Inr t"
  have w: "nb_returned y = nb_returned x" if "write_stdout p x = Inr y \<or> write_socket p x = Inr y" for x y
    using that by (auto simp: write_stdout_def write_socket_def send_fin_def bind_iff Let_def split: if_splits nb_write.splits)
  have v: "nb_returned v" using 4 w assms(3) by (metis Inr_inject)
  have u: "\<not> nb_returned u \<and> nb_fr u = nb_fr s"
    using 1 assms(2) by (auto simp: read_stdin_def send_fin_def bind_iff Let_def split: if_splits nb_read.splits)
  show ?thesis using 2 3 u v by (auto simp: read_socket_def room_left_def Let_def split: if_splits nb_read.splits)
qed

text \<open>
  Nothing is lost when standard output takes all bytes at once: then everything received has been
  shown after each pass, also after the last one.
\<close>

definition prompt :: "nb_pass \<Rightarrow> bool" where
  "prompt p \<longleftrightarrow> (case np_out p of WriteTakes k \<Rightarrow> MAXLINE \<le> k | _ \<Rightarrow> False)"

lemma write_stdout_all:
  assumes "nb_inv s" and "prompt p" and "write_stdout p s = Inr t"
  shows "pending (nb_fr t) = []"
proof -
  obtain k where k: "np_out p = WriteTakes k" "MAXLINE \<le> k" using assms(2) by (auto simp: prompt_def split: nb_write.splits)
  have wf: "wf_nbuf (nb_fr s)" using assms(1) by (simp add: nb_inv_def)
  then have "length (pending (nb_fr s)) \<le> k" using k(2) length_pending [OF wf] by (auto simp: wf_nbuf_def)
  then have all: "take k (pending (nb_fr s)) = pending (nb_fr s)" by simp
  show ?thesis
  proof (cases "pending (nb_fr s) = []")
    case True
    then show ?thesis using assms(3) wf by (simp add: write_stdout_def pending_Nil)
  next
    case False
    then have "\<not> b_iptr (nb_fr s) - b_optr (nb_fr s) = 0" using length_pending [OF wf] by auto
    then have "t = s\<lparr>nb_fr := drain (length (pending (nb_fr s))) (nb_fr s), nb_shown := nb_shown s @ pending (nb_fr s)\<rparr>"
      using assms(3) by (simp add: write_stdout_def k(1) all Let_def)
    then show ?thesis using drain_ok(2) [OF wf, of "pending (nb_fr s)" "[]"] False by simp
  qed
qed

lemma nb_step_prompt:
  assumes "nb_inv s" and "pending (nb_fr s) = []" and "prompt p" and "nb_step s p = Inr t"
  shows "pending (nb_fr t) = []"
proof (cases "nb_returned s")
  case False
  from assms(4) False show ?thesis
  proof (rule nb_step_stages)
    fix send_now u out_now v
    assume 1: "(if \<not> nb_stdineof s \<and> b_iptr (nb_to s) < MAXLINE \<and> np_in_ready p then read_stdin p s else Inr (False, s)) = Inr (send_now, u)"
      and 2: "(if b_iptr (nb_fr s) < MAXLINE \<and> np_sock_ready p then read_socket p u else Inr (False, u)) = Inr (out_now, v)"
      and 3: "nb_returned v \<Longrightarrow> t = v"
      and 4: "\<not> nb_returned v \<Longrightarrow> \<exists>w.
        (if b_optr (nb_fr s) \<noteq> b_iptr (nb_fr s) \<and> np_out_ready p \<or> out_now then write_stdout p v else Inr v) = Inr w
        \<and> (if b_optr (nb_to s) \<noteq> b_iptr (nb_to s) \<and> np_send_ready p \<or> send_now then write_socket p w else Inr w) = Inr t"
    have "nb_inv u" using 1 assms(1) read_stdin_inv [of s p send_now u] by (auto split: if_splits)
    then have v: "nb_inv v" using 2 read_socket_inv [of u p out_now v] by (auto split: if_splits)
    have u: "\<not> nb_returned u \<and> nb_fr u = nb_fr s"
      using 1 False by (auto simp: read_stdin_def send_fin_def bind_iff Let_def split: if_splits nb_read.splits)
    have quiet: "nb_fr v = nb_fr s" if "\<not> out_now"
      using 2 u that by (auto simp: read_socket_def Let_def split: if_splits nb_read.splits)
    have returned: "\<not> out_now" if "nb_returned v"
      using 2 u that by (auto simp: read_socket_def Let_def split: if_splits nb_read.splits)
    have sock: "nb_fr y = nb_fr x" if "write_socket p x = Inr y" for x y
      using that by (auto simp: write_socket_def send_fin_def bind_iff Let_def split: if_splits nb_write.splits)
    show ?thesis
    proof (cases "nb_returned v")
      case True
      then show ?thesis using 3 quiet returned assms(2) by simp
    next
      case False
      then obtain w where w: "(if b_optr (nb_fr s) \<noteq> b_iptr (nb_fr s) \<and> np_out_ready p \<or> out_now then write_stdout p v else Inr v) = Inr w"
        "nb_fr t = nb_fr w"
        using 4 sock by (metis Inr_inject)
      then show ?thesis
        using write_stdout_all [OF v assms(3)] quiet assms(2) by (cases out_now) (auto split: if_splits)
    qed
  qed
qed (use assms in \<open>simp add: nb_step_def\<close>)

interpretation nonb_prompt: step_system nb_step prompt "\<lambda>s. nb_inv s \<and> pending (nb_fr s) = []"
  by unfold_locales (use nb_step_inv nb_step_prompt in blast)

theorem prompt_output_complete:
  assumes "length to = MAXLINE" and "length fr = MAXLINE" and "list_all prompt ps" and "run nb_step (nonb_start to fr) ps = Inr s"
  shows "nb_shown s = nb_received s"
proof -
  have "nb_inv s \<and> pending (nb_fr s) = []"
    by (rule nonb_prompt.run_inv [OF _ assms(3,4)]) (use assms(1,2) in \<open>simp add: nonb_start_inv, simp add: nonb_start_def pending_def\<close>)
  then show ?thesis by (simp add: nb_inv_def)
qed

text \<open>
  When standard output would block, what is still in the buffer is lost as the function returns at the end
  of what the server sends: it does not look whether \<^verbatim>\<open>froptr\<close> has reached \<^verbatim>\<open>friptr\<close>.
\<close>
theorem output_lost_at_eof:
  assumes "length to = MAXLINE" and "length fr = MAXLINE"
    and "ps = [example_pass\<lparr>np_in := ReadBytes []\<rparr>, example_pass\<lparr>np_sock_ready := True, np_sock := ReadBytes ''answer''\<rparr>,
      example_pass\<lparr>np_sock_ready := True, np_sock := ReadBytes []\<rparr>]"
  shows "\<exists>s. run nb_step (nonb_start to fr) ps = Inr s \<and> nb_returned s \<and> nb_received s = ''answer'' \<and> nb_shown s = []"
  by (simp add: assms(3) nb_step_def one_pass_def example_pass_def nonb_start_def read_stdin_def read_socket_def send_fin_def
      write_stdout_def write_socket_def room_left_def MAXLINE_def fill_def Let_def)

end
