(* ===== verification/SelectServer.thy ===== *)
theory SelectServer
  imports Prelude
begin

text \<open>
  The book's echo server for many clients in one process (\<^verbatim>\<open>unpv13e/tcpcliserv/tcpservselect01.c\<close>):
  a table of the clients' descriptors and a descriptor set that \<^verbatim>\<open>select\<close> is called with.
\<close>

section \<open>What the server promises\<close>

text \<open>A connection is what was read from it and what was written to it.\<close>

record conn =
  cn_in :: string
  cn_out :: string

type_synonym conns = "int \<rightharpoonup> conn"

definition fresh_conn :: conn where "fresh_conn = \<lparr>cn_in = [], cn_out = []\<rparr>"

text \<open>
  What happens in a pass of the loop: the descriptors that are readable, the results of \<^verbatim>\<open>accept\<close>,
  \<^verbatim>\<open>read\<close> (\<open>None\<close>: it fails), \<^verbatim>\<open>writen\<close> and \<^verbatim>\<open>close\<close>, and whether \<^verbatim>\<open>select\<close> fails.
\<close>

record sv_pass =
  sp_fails :: bool
  sp_ready :: "int set"
  sp_accept :: "int option"
  sp_read :: "int \<Rightarrow> string option"
  sp_writen :: "int \<Rightarrow> bool"
  sp_close :: "int \<Rightarrow> bool"

text \<open>
  The contract: of every connection that is readable what has come is sent back, and it is closed at its
  end; the others stay as they are; and a new one is taken.
\<close>

definition echoed :: "sv_pass \<Rightarrow> int \<Rightarrow> conn \<Rightarrow> conn option" where
  "echoed p fd c =
     (case sp_read p fd of
        None \<Rightarrow> Some c
      | Some d \<Rightarrow>
          let d = take MAXLINE d in
          if d = [] then None else Some (c\<lparr>cn_in := cn_in c @ d, cn_out := cn_out c @ d\<rparr>))"

definition echo_spec :: "int \<Rightarrow> sv_pass \<Rightarrow> conns \<Rightarrow> conns" where
  "echo_spec listenfd p C fd =
     (if listenfd \<in> sp_ready p \<and> sp_accept p = Some fd then Some fresh_conn
      else
        (case C fd of
           None \<Rightarrow> None
         | Some c \<Rightarrow> if fd \<in> sp_ready p then echoed p fd c else Some c))"

section \<open>The server\<close>

definition FD_SETSIZE :: nat where "FD_SETSIZE = 1024"

record sv =
  sv_client :: "int list"
  sv_maxi :: int
  sv_maxfd :: int
  sv_allset :: "int set"
  sv_conns :: conns

definition sv_start :: "int \<Rightarrow> sv" where
  "sv_start listenfd =
     \<lparr>sv_client = replicate FD_SETSIZE (- 1), sv_maxi = - 1, sv_maxfd = listenfd, sv_allset = {listenfd}, sv_conns = Map.empty\<rparr>"

text \<open>A new connection. \<^verbatim>\<open>FD_SET\<close> is defined for descriptors below \<^verbatim>\<open>FD_SETSIZE\<close> only.\<close>

definition new_client :: "sv_pass \<Rightarrow> sv \<Rightarrow> sv outcome" where
  "new_client p s =
     (case sp_accept p of
        None \<Rightarrow> Inl (Exit 1 ''accept error'', s)
      | Some connfd \<Rightarrow>
          let s = s\<lparr>sv_conns := (sv_conns s)(connfd \<mapsto> fresh_conn)\<rparr>;
              i = index_of (\<lambda>c. c < 0) (sv_client s);
              s = s\<lparr>sv_client := (sv_client s)[i := connfd]\<rparr>
          in
          bindr (exit_if (i = FD_SETSIZE) 1 ''too many clients'' s) (\<lambda>s.
          bindr (undef_if (connfd \<ge> int FD_SETSIZE) ''allset'' s) (\<lambda>s.
          Inr (s\<lparr>sv_allset := insert connfd (sv_allset s), sv_maxfd := max (sv_maxfd s) connfd,
                 sv_maxi := max (sv_maxi s) (int i)\<rparr>))))"

text \<open>A client that is readable.\<close>

definition serve_client :: "sv_pass \<Rightarrow> nat \<Rightarrow> int \<Rightarrow> sv \<Rightarrow> sv outcome" where
  "serve_client p i sockfd s =
     (case sp_read p sockfd of
        None \<Rightarrow> Inl (Exit 1 ''read error'', s)
      | Some d \<Rightarrow>
          let d = take MAXLINE d in
          if d = [] then
            bindr (exit_if (\<not> sp_close p sockfd) 1 ''close error'' s) (\<lambda>s.
            Inr (s\<lparr>sv_conns := (sv_conns s)(sockfd := None), sv_allset := sv_allset s - {sockfd},
                   sv_client := (sv_client s)[i := - 1]\<rparr>))
          else
            bindr (exit_if (\<not> sp_writen p sockfd) 1 ''writen error'' s) (\<lambda>s.
            Inr (s\<lparr>sv_conns := (sv_conns s)(sockfd := map_option (\<lambda>c. c\<lparr>cn_in := cn_in c @ d, cn_out := cn_out c @ d\<rparr>)
                                                (sv_conns s sockfd))\<rparr>)))"

text \<open>The loop over the table; it ends early when all \<open>nready\<close> descriptors have been seen to.\<close>

fun serve_all :: "sv_pass \<Rightarrow> int set \<Rightarrow> nat list \<Rightarrow> int \<Rightarrow> sv \<Rightarrow> sv outcome" where
  "serve_all p rset [] nready s = Inr s"
| "serve_all p rset (i # is) nready s =
     (let sockfd = sv_client s ! i in
      if sockfd < 0 then serve_all p rset is nready s
      else if sockfd \<in> rset then
        bindr (serve_client p i sockfd s) (\<lambda>s.
        if nready - 1 \<le> 0 then Inr s else serve_all p rset is (nready - 1) s)
      else serve_all p rset is nready s)"

definition table :: "sv \<Rightarrow> nat list" where
  "table s = [0..<nat (sv_maxi s + 1)]"

text \<open>A pass of the loop. \<^verbatim>\<open>select\<close> leaves those descriptors of the set that are readable and not above \<^verbatim>\<open>maxfd\<close>.\<close>

definition sv_rset :: "sv_pass \<Rightarrow> sv \<Rightarrow> int set" where
  "sv_rset p s = {fd \<in> sv_allset s. fd \<le> sv_maxfd s \<and> fd \<in> sp_ready p}"

definition sv_step :: "int \<Rightarrow> sv \<Rightarrow> sv_pass \<Rightarrow> sv outcome" where
  "sv_step listenfd s p =
     bindr (exit_if (sp_fails p) 1 ''select error'' s) (\<lambda>s.
     let rset = sv_rset p s; nready = int (card rset) in
     if listenfd \<in> rset then
       bindr (new_client p s) (\<lambda>s. if nready - 1 \<le> 0 then Inr s else serve_all p rset (table s) (nready - 1) s)
     else serve_all p rset (table s) nready s)"

section \<open>The table\<close>

text \<open>The descriptors in a table.\<close>

definition live :: "int list \<Rightarrow> int list" where
  "live xs = filter (\<lambda>x. 0 \<le> x) xs"

lemma live_clear:
  assumes "i < length xs" and "0 \<le> xs ! i" and "distinct (live xs)"
  shows "distinct (live (xs[i := - 1]))" and "set (live (xs[i := - 1])) = set (live xs) - {xs ! i}"
proof -
  have "live xs = live (take i xs) @ xs ! i # live (drop (Suc i) xs)"
    using assms(2) id_take_nth_drop [OF assms(1)] by (metis (mono_tags, lifting) filter.simps(2) filter_append live_def)
  moreover have "live (xs[i := - 1]) = live (take i xs) @ live (drop (Suc i) xs)"
    by (simp add: live_def upd_conv_take_nth_drop [OF assms(1)])
  ultimately show "distinct (live (xs[i := - 1]))" "set (live (xs[i := - 1])) = set (live xs) - {xs ! i}"
    using assms(3) by auto
qed

lemma live_place:
  assumes "i < length xs" and "xs ! i < 0" and "0 \<le> fd" and "fd \<notin> set (live xs)" and "distinct (live xs)"
  shows "distinct (live (xs[i := fd]))" and "set (live (xs[i := fd])) = insert fd (set (live xs))"
proof -
  have "live xs = live (take i xs) @ live (drop (Suc i) xs)"
    using assms(2) id_take_nth_drop [OF assms(1)] by (metis (mono_tags, lifting) filter.simps(2) filter_append live_def not_le)
  moreover have "live (xs[i := fd]) = live (take i xs) @ fd # live (drop (Suc i) xs)"
    using assms(3) by (simp add: live_def upd_conv_take_nth_drop [OF assms(1)])
  ultimately show "distinct (live (xs[i := fd]))" "set (live (xs[i := fd])) = insert fd (set (live xs))"
    using assms(4,5) by auto
qed

lemma live_once:
  assumes "distinct (live xs)" and "i < length xs" and "j < length xs" and "xs ! i = xs ! j" and "0 \<le> xs ! i"
  shows "i = j"
proof (rule ccontr)
  assume "i \<noteq> j"
  then have "xs[j := - 1] ! i = xs ! i" by simp
  then have "xs ! i \<in> set (xs[j := - 1])" using assms(2) by (metis length_list_update nth_mem)
  then have "xs ! i \<in> set (live (xs[j := - 1]))" using assms(5) by (simp add: live_def)
  then show False using live_clear(2) [OF assms(3)] assms(1,4,5) by simp
qed

text \<open>
  The table and the set agree with the connections that are open: each stands in exactly one place, at
  an index up to \<open>sv_maxi\<close>, and \<open>sv_maxfd\<close> is not below any of them; and each has been echoed so far.
\<close>

definition sv_table :: "sv \<Rightarrow> bool" where
  "sv_table s \<longleftrightarrow> length (sv_client s) = FD_SETSIZE \<and> distinct (live (sv_client s)) \<and> sv_maxi s < int FD_SETSIZE
     \<and> (\<forall>i < FD_SETSIZE. 0 \<le> sv_client s ! i \<longrightarrow> int i \<le> sv_maxi s) \<and> dom (sv_conns s) = set (live (sv_client s))"

definition sv_inv :: "int \<Rightarrow> sv \<Rightarrow> bool" where
  "sv_inv listenfd s \<longleftrightarrow> sv_table s \<and> sv_allset s = insert listenfd (dom (sv_conns s)) \<and> listenfd \<notin> dom (sv_conns s)
     \<and> (\<forall>fd \<in> sv_allset s. fd \<le> sv_maxfd s \<and> fd < int FD_SETSIZE) \<and> (\<forall>fd c. sv_conns s fd = Some c \<longrightarrow> cn_out c = cn_in c)"

lemma sv_start_inv: "listenfd < int FD_SETSIZE \<Longrightarrow> sv_inv listenfd (sv_start listenfd)"
  by (auto simp: sv_inv_def sv_table_def sv_start_def live_def filter_replicate FD_SETSIZE_def)

lemma table_indices: "sv_inv l s \<Longrightarrow> i \<in> set (table s) \<Longrightarrow> i < FD_SETSIZE"
  by (auto simp: table_def sv_inv_def sv_table_def)

lemma serve_client_close:
  assumes "sv_inv l s" and "i < FD_SETSIZE" and "0 \<le> sv_client s ! i"
  shows "sv_inv l (s\<lparr>sv_conns := (sv_conns s)(sv_client s ! i := None), sv_allset := sv_allset s - {sv_client s ! i},
    sv_client := (sv_client s)[i := - 1]\<rparr>)" (is "sv_inv l ?t")
proof -
  let ?fd = "sv_client s ! i"
  have T: "sv_table s" and len: "i < length (sv_client s)" using assms(1,2) by (simp_all add: sv_inv_def sv_table_def)
  then have d: "distinct (live (sv_client s))" by (simp add: sv_table_def)
  have "\<forall>j < FD_SETSIZE. 0 \<le> sv_client ?t ! j \<longrightarrow> int j \<le> sv_maxi s"
    using T len by (auto simp: sv_table_def nth_list_update split: if_splits)
  moreover have "dom (sv_conns ?t) = set (live (sv_client ?t))"
    using T live_clear(2) [OF len assms(3) d] by (simp add: sv_table_def)
  ultimately have "sv_table ?t" using T live_clear(1) [OF len assms(3) d] by (simp add: sv_table_def)
  moreover have "?fd \<in> set (live (sv_client s))" using len assms(3) by (simp add: live_def)
  then have "?fd \<noteq> l" using assms(1) T by (auto simp: sv_inv_def sv_table_def)
  ultimately show ?thesis using assms(1) by (auto simp: sv_inv_def)
qed

lemma serve_client_echo:
  assumes "sv_inv l s"
  shows "sv_inv l (s\<lparr>sv_conns := (sv_conns s)(fd := map_option (\<lambda>c. c\<lparr>cn_in := cn_in c @ d, cn_out := cn_out c @ d\<rparr>) (sv_conns s fd))\<rparr>)"
    (is "sv_inv l ?t")
proof -
  have "dom (sv_conns ?t) = dom (sv_conns s)" by (auto split: if_splits)
  then show ?thesis using assms by (auto simp: sv_inv_def sv_table_def)
qed

lemma serve_client_inv:
  assumes "sv_inv l s" and "i < FD_SETSIZE" and "0 \<le> sv_client s ! i" and "serve_client p i (sv_client s ! i) s = Inr t"
  shows "sv_inv l t"
  using assms(4) serve_client_close [OF assms(1-3)] serve_client_echo [OF assms(1)]
  by (auto simp: serve_client_def bind_iff Let_def split: option.splits if_splits)

lemma serve_all_inv:
  assumes "sv_inv l s" and "\<forall>i \<in> set is. i < FD_SETSIZE" and "serve_all p rset is n s = Inr t"
  shows "sv_inv l t"
  using assms
proof (induction p rset "is" n s rule: serve_all.induct)
  case (2 p rset i "is" n s)
  show ?case
  proof (cases "0 \<le> sv_client s ! i \<and> sv_client s ! i \<in> rset")
    case True
    then obtain u where u: "serve_client p i (sv_client s ! i) s = Inr u"
      and r: "(if n - 1 \<le> 0 then Inr u else serve_all p rset is (n - 1) u) = Inr t"
      using 2(6) by (auto simp: bind_iff Let_def)
    have "sv_inv l u" using serve_client_inv [OF 2(4) _ _ u] 2(5) True by simp
    then show ?thesis using r 2(2) [OF refl] True 2(5) by (auto split: if_splits)
  qed (use 2 in \<open>auto simp: Let_def split: if_splits\<close>)
qed simp

text \<open>\<^verbatim>\<open>accept\<close> returns a descriptor that is not in use.\<close>

definition unused :: "sv \<Rightarrow> sv_pass \<Rightarrow> bool" where
  "unused s p \<longleftrightarrow> (\<forall>fd. sp_accept p = Some fd \<longrightarrow> 0 \<le> fd \<and> fd \<notin> sv_allset s)"

lemma new_client_inv:
  assumes "sv_inv l s" and "unused s p" and "new_client p s = Inr t"
  shows "sv_inv l t \<and> (\<exists>fd. sp_accept p = Some fd \<and> sv_conns t = (sv_conns s)(fd \<mapsto> fresh_conn)
    \<and> (\<forall>i < FD_SETSIZE. 0 \<le> sv_client s ! i \<longrightarrow> sv_client t ! i = sv_client s ! i) \<and> sv_maxi s \<le> sv_maxi t)"
proof -
  obtain fd where fd: "sp_accept p = Some fd" using assms(3) by (cases "sp_accept p") (auto simp: new_client_def)
  let ?i = "index_of (\<lambda>c. c < 0) (sv_client s)"
  from assms(3) fd have neq: "?i \<noteq> FD_SETSIZE" and small: "fd < int FD_SETSIZE"
    and t: "t = s\<lparr>sv_conns := (sv_conns s)(fd \<mapsto> fresh_conn), sv_client := (sv_client s)[?i := fd],
      sv_allset := insert fd (sv_allset s), sv_maxfd := max (sv_maxfd s) fd, sv_maxi := max (sv_maxi s) (int ?i)\<rparr>"
    by (auto simp: new_client_def bind_iff Let_def)
  have T: "sv_table s" using assms(1) by (simp add: sv_inv_def)
  then have i: "?i < length (sv_client s)" using neq index_of_le [of "\<lambda>c. c < 0" "sv_client s"] by (simp add: sv_table_def)
  then have free: "sv_client s ! ?i < 0" by (rule index_of_nth)
  have new: "0 \<le> fd" "fd \<notin> sv_allset s" using assms(2) fd by (auto simp: unused_def)
  then have out: "fd \<notin> set (live (sv_client s))" "fd \<noteq> l" using assms(1) by (auto simp: sv_inv_def sv_table_def)
  have d: "distinct (live (sv_client s))" using T by (simp add: sv_table_def)
  note placed = live_place [OF i free new(1) out(1) d]
  have "\<forall>j < FD_SETSIZE. 0 \<le> sv_client t ! j \<longrightarrow> int j \<le> sv_maxi t"
    using T by (auto simp: t sv_table_def nth_list_update le_max_iff_disj)
  moreover have "dom (sv_conns t) = set (live (sv_client t))" using T placed(2) by (simp add: t sv_table_def)
  ultimately have "sv_table t" using T placed(1) i by (simp add: t sv_table_def)
  then have "sv_inv l t" using assms(1) out(2) small by (auto simp: sv_inv_def t fresh_conn_def le_max_iff_disj)
  moreover have "\<forall>j < FD_SETSIZE. 0 \<le> sv_client s ! j \<longrightarrow> sv_client t ! j = sv_client s ! j"
    using free by (auto simp: t) (metis not_le nth_list_update_neq)
  ultimately show ?thesis by (simp add: fd t)
qed

section \<open>One pass and the contract\<close>

lemma serve_client_conns:
  assumes "serve_client p i fd s = Inr t"
  shows "sv_conns t = (sv_conns s)(fd := Option.bind (sv_conns s fd) (echoed p fd))" and "sv_maxi t = sv_maxi s"
    and "j \<noteq> i \<Longrightarrow> sv_client t ! j = sv_client s ! j"
proof -
  obtain d where d: "sp_read p fd = Some d" using assms by (cases "sp_read p fd") (auto simp: serve_client_def)
  show "sv_maxi t = sv_maxi s" "j \<noteq> i \<Longrightarrow> sv_client t ! j = sv_client s ! j"
    using assms by (auto simp: serve_client_def d bind_iff Let_def split: if_splits)
  have "Option.bind (sv_conns s fd) (echoed p fd) = (if take MAXLINE d = [] then None
      else map_option (\<lambda>c. c\<lparr>cn_in := cn_in c @ take MAXLINE d, cn_out := cn_out c @ take MAXLINE d\<rparr>) (sv_conns s fd))"
    by (cases "sv_conns s fd") (simp_all add: echoed_def d Let_def)
  then show "sv_conns t = (sv_conns s)(fd := Option.bind (sv_conns s fd) (echoed p fd))"
    using assms by (auto simp: serve_client_def d bind_iff Let_def split: if_splits)
qed

text \<open>
  The loop sees to each descriptor of \<open>rset\<close> in the table once, when \<open>nready\<close> is their number: ending
  early misses none.
\<close>

lemma serve_all_conns:
  assumes "sv_inv l s" and "distinct is" and "\<forall>i \<in> set is. i < FD_SETSIZE" and "\<forall>fd \<in> rset. 0 \<le> fd"
    and "n = int (length (filter (\<lambda>i. sv_client s ! i \<in> rset) is))" and "serve_all p rset is n s = Inr t"
  shows "sv_conns t = (\<lambda>fd. if fd \<in> rset \<and> fd \<in> (\<lambda>i. sv_client s ! i) ` set is
      then Option.bind (sv_conns s fd) (echoed p fd) else sv_conns s fd)"
  using assms
proof (induction p rset "is" n s rule: serve_all.induct)
  case (2 p rset i "is" n s)
  let ?fd = "sv_client s ! i"
  show ?case
  proof (cases "?fd \<in> rset")
    case True
    then have pos: "0 \<le> ?fd" using 2(7) by simp
    obtain u where u: "serve_client p i ?fd s = Inr u"
      and r: "(if n - 1 \<le> 0 then Inr u else serve_all p rset is (n - 1) u) = Inr t"
      using 2(9) True pos by (auto simp: bind_iff Let_def)
    have inv: "sv_inv l u" using serve_client_inv [OF 2(4) _ pos u] 2(6) by simp
    have same: "sv_client u ! j = sv_client s ! j" if "j \<in> set is" for j
    proof -
      have "j \<noteq> i" using that 2(5) by auto
      then show ?thesis by (rule serve_client_conns(3) [OF u])
    qed
    have other: "sv_client s ! j \<noteq> ?fd" if "j \<in> set is" for j
    proof
      assume "sv_client s ! j = ?fd"
      then have "j = i" using live_once [of "sv_client s" j i] 2(4,6) that pos by (auto simp: sv_inv_def sv_table_def)
      then show False using that 2(5) by simp
    qed
    have count: "filter (\<lambda>i. sv_client u ! i \<in> rset) is = filter (\<lambda>i. sv_client s ! i \<in> rset) is"
      by (rule filter_cong) (simp_all add: same)
    have image: "(\<lambda>i. sv_client u ! i) ` set is = (\<lambda>i. sv_client s ! i) ` set is" by (rule image_cong) (simp_all add: same)
    have n: "n - 1 = int (length (filter (\<lambda>i. sv_client s ! i \<in> rset) is))" using 2(8) True by simp
    have "sv_conns t = (\<lambda>fd. if fd \<in> rset \<and> fd \<in> (\<lambda>i. sv_client s ! i) ` set is
      then Option.bind (sv_conns u fd) (echoed p fd) else sv_conns u fd)"
    proof (cases "n - 1 \<le> 0")
      case True
      then have "\<forall>j \<in> set is. sv_client s ! j \<notin> rset" using n by (simp add: filter_empty_conv)
      then show ?thesis using r True by (auto simp: fun_eq_iff)
    next
      case False
      then have "serve_all p rset is (n - 1) u = Inr t" using r by simp
      from 2(2) [OF refl _ True False inv _ _ 2(7) _ this] show ?thesis using pos 2(5,6) n count image by simp
    qed
    moreover have "?fd \<notin> (\<lambda>i. sv_client s ! i) ` set is" using other by (metis imageE)
    ultimately show ?thesis using True by (auto simp: fun_eq_iff serve_client_conns(1) [OF u])
  next
    case False
    have "serve_all p rset is n s = Inr t" using 2(9) False by (auto simp: Let_def split: if_splits)
    moreover have "n = int (length (filter (\<lambda>i. sv_client s ! i \<in> rset) is))" using 2(8) False by simp
    ultimately have "sv_conns t = (\<lambda>fd. if fd \<in> rset \<and> fd \<in> (\<lambda>i. sv_client s ! i) ` set is
      then Option.bind (sv_conns s fd) (echoed p fd) else sv_conns s fd)"
      using 2(1) [OF refl _ 2(4) _ _ 2(7)] 2(3) [OF refl _ False 2(4) _ _ 2(7)] 2(5,6) by (cases "?fd < 0") auto
    then show ?thesis using False by (auto simp: fun_eq_iff)
  qed
qed auto

lemma table_count:
  assumes "sv_table s" and "rset \<subseteq> set (live (sv_client s))"
  shows "length (filter (\<lambda>i. sv_client s ! i \<in> rset) (table s)) = card rset"
    and "rset \<subseteq> (\<lambda>i. sv_client s ! i) ` set (table s)"
proof -
  let ?is = "filter (\<lambda>i. sv_client s ! i \<in> rset) (table s)"
  have len: "length (sv_client s) = FD_SETSIZE" and max: "sv_maxi s < int FD_SETSIZE" using assms(1) by (simp_all add: sv_table_def)
  have pos: "0 \<le> fd" if "fd \<in> rset" for fd using assms(2) that by (auto simp: live_def)
  show sub: "rset \<subseteq> (\<lambda>i. sv_client s ! i) ` set (table s)"
  proof
    fix fd assume fd: "fd \<in> rset"
    then obtain i where i: "i < FD_SETSIZE" "sv_client s ! i = fd" using assms(2) len by (auto simp: live_def in_set_conv_nth)
    then have "int i \<le> sv_maxi s" using assms(1) pos [OF fd] by (auto simp: sv_table_def)
    then show "fd \<in> (\<lambda>i. sv_client s ! i) ` set (table s)" using i by (auto simp: table_def intro!: image_eqI [of _ _ i])
  qed
  have "inj_on (\<lambda>i. sv_client s ! i) (set ?is)"
  proof (rule inj_onI)
    fix i j assume "i \<in> set ?is" "j \<in> set ?is" and e: "sv_client s ! i = sv_client s ! j"
    then have "i < length (sv_client s)" "j < length (sv_client s)" "0 \<le> sv_client s ! i"
      using pos len max by (auto simp: table_def)
    then show "i = j" using live_once [OF _ _ _ e] assms(1) by (simp add: sv_table_def)
  qed
  moreover have "(\<lambda>i. sv_client s ! i) ` set ?is = rset" using sub by auto
  moreover have "distinct ?is" by (simp add: table_def)
  ultimately show "length ?is = card rset" by (metis card_image distinct_card)
qed

lemma sv_step_inv:
  assumes "sv_inv l s" and "unused s p" and "sv_step l s p = Inr t"
  shows "sv_inv l t"
proof (cases "l \<in> sv_rset p s")
  case True
  then obtain u where u: "new_client p s = Inr u"
    and r: "(if int (card (sv_rset p s)) - 1 \<le> 0 then Inr u else serve_all p (sv_rset p s) (table u) (int (card (sv_rset p s)) - 1) u) = Inr t"
    using assms(3) by (auto simp: sv_step_def bind_iff Let_def)
  have "sv_inv l u" using new_client_inv [OF assms(1,2) u] by simp
  with r show ?thesis using serve_all_inv [of l u "table u"] table_indices [of l u] by (auto split: if_splits)
next
  case False
  then have "serve_all p (sv_rset p s) (table s) (int (card (sv_rset p s))) s = Inr t"
    using assms(3) by (auto simp: sv_step_def bind_iff Let_def)
  then show ?thesis using serve_all_inv [OF assms(1), of "table s"] table_indices [OF assms(1)] by blast
qed

text \<open>The loop over the whole table: \<open>l\<close> is not in it, so the rest of \<open>rset\<close> is counted.\<close>

lemma serve_table_conns:
  assumes "sv_inv l s" and "\<forall>fd \<in> r. 0 \<le> fd" and "r - {l} \<subseteq> dom (sv_conns s)"
    and "serve_all p r (table s) (int (card (r - {l}))) s = Inr t"
  shows "sv_conns t = (\<lambda>fd. if fd \<in> r - {l} then Option.bind (sv_conns s fd) (echoed p fd) else sv_conns s fd)"
proof -
  have T: "sv_table s" and dom: "dom (sv_conns s) = set (live (sv_client s))" and l: "l \<notin> set (live (sv_client s))"
    using assms(1) by (auto simp: sv_inv_def sv_table_def)
  have indices: "\<forall>i \<in> set (table s). i < FD_SETSIZE" using table_indices [OF assms(1)] by simp
  have sub: "r - {l} \<subseteq> set (live (sv_client s))" using assms(3) dom by simp
  have slot: "sv_client s ! i \<in> r \<longleftrightarrow> sv_client s ! i \<in> r - {l}" if "i \<in> set (table s)" for i
    using l assms(2) indices that T by (auto simp: live_def sv_table_def)
  have n: "int (card (r - {l})) = int (length (filter (\<lambda>i. sv_client s ! i \<in> r) (table s)))"
    using table_count(1) [OF T sub] slot by (metis (no_types, lifting) filter_cong)
  have "fd \<in> r \<and> fd \<in> (\<lambda>i. sv_client s ! i) ` set (table s) \<longleftrightarrow> fd \<in> r - {l}" for fd
    using table_count(2) [OF T sub] slot by blast
  moreover have "distinct (table s)" by (simp add: table_def)
  ultimately show ?thesis using serve_all_conns [OF assms(1) _ indices assms(2) n assms(4)] by simp
qed

lemma serve_or_stop:
  assumes "(if int (card (r - {l})) \<le> 0 then Inr s else serve_all p r (table s) (int (card (r - {l}))) s) = Inr t"
    and "sv_inv l s" and "\<forall>fd \<in> r. 0 \<le> fd" and "r - {l} \<subseteq> dom (sv_conns s)" and "finite r"
  shows "sv_conns t = (\<lambda>fd. if fd \<in> r - {l} then Option.bind (sv_conns s fd) (echoed p fd) else sv_conns s fd)"
proof (cases "r - {l} = {}")
  case True
  then have "t = s" using assms(1) by (simp add: True)
  then show ?thesis unfolding True by simp
next
  case False
  then have "0 < card (r - {l})" using assms(5) by (simp add: card_gt_0_iff)
  then show ?thesis using assms(1) serve_table_conns [OF assms(2-4)] by auto
qed

lemma sv_step_spec:
  assumes "sv_inv l s" and "unused s p" and "0 \<le> l" and "sv_step l s p = Inr t"
  shows "sv_conns t = echo_spec l p (sv_conns s)"
proof -
  let ?r = "sv_rset p s"
  have r: "?r = {fd \<in> sv_allset s. fd \<in> sp_ready p}" and all: "sv_allset s = insert l (dom (sv_conns s))"
    and l: "l \<notin> dom (sv_conns s)" and dom: "dom (sv_conns s) = set (live (sv_client s))"
    using assms(1) by (auto simp: sv_rset_def sv_inv_def sv_table_def)
  have fin: "finite ?r" using dom by (simp add: r all)
  have pos: "\<forall>fd \<in> ?r. 0 \<le> fd" using assms(3) dom by (auto simp: r all live_def)
  have ready: "?r - {l} = dom (sv_conns s) \<inter> sp_ready p" using l by (auto simp: r all)
  show ?thesis
  proof (cases "l \<in> ?r")
    case True
    have "card ?r = Suc (card (?r - {l}))" by (rule card.remove [OF fin True])
    then have cnt: "int (card ?r) - 1 = int (card (?r - {l}))" by simp
    from True obtain u where u: "new_client p s = Inr u"
      and "(if int (card ?r) - 1 \<le> 0 then Inr u else serve_all p ?r (table u) (int (card ?r) - 1) u) = Inr t"
      using assms(4) by (auto simp: sv_step_def bind_iff Let_def)
    note rest = this(2) [unfolded cnt]
    from new_client_inv [OF assms(1,2) u] obtain c where inv: "sv_inv l u" and c: "sp_accept p = Some c"
      "sv_conns u = (sv_conns s)(c \<mapsto> fresh_conn)" by auto
    have "c \<notin> sv_allset s" using assms(2) c(1) by (auto simp: unused_def)
    moreover have "sv_conns t = (\<lambda>fd. if fd \<in> ?r - {l} then Option.bind (sv_conns u fd) (echoed p fd) else sv_conns u fd)"
      by (rule serve_or_stop [OF rest inv pos _ fin]) (use ready c(2) in auto)
    ultimately have "c \<notin> dom (sv_conns s)" and t: "sv_conns t = (\<lambda>fd. if fd \<in> dom (sv_conns s) \<inter> sp_ready p
        then Option.bind (sv_conns u fd) (echoed p fd) else sv_conns u fd)" using all ready by auto
    moreover have "l \<in> sp_ready p" using True by (simp add: r)
    ultimately have "sv_conns t fd = echo_spec l p (sv_conns s) fd" for fd
      by (cases "fd = c"; cases "sv_conns s fd") (auto simp: echo_spec_def c t)
    then show ?thesis by (rule ext)
  next
    case False
    then have "serve_all p ?r (table s) (int (card ?r)) s = Inr t"
      using assms(4) by (auto simp: sv_step_def bind_iff Let_def)
    moreover have "?r - {l} = ?r" using False by blast
    ultimately have rest: "serve_all p ?r (table s) (int (card (?r - {l}))) s = Inr t" by (simp only:)
    have quiet: "l \<notin> sp_ready p" using False by (simp add: r all)
    have "sv_conns t = (\<lambda>fd. if fd \<in> ?r - {l} then Option.bind (sv_conns s fd) (echoed p fd) else sv_conns s fd)"
      by (rule serve_table_conns [OF assms(1) pos _ rest]) (use ready in blast)
    then have "sv_conns t fd = echo_spec l p (sv_conns s) fd" for fd
      using quiet ready by (cases "sv_conns s fd") (auto simp: echo_spec_def)
    then show ?thesis by (rule ext)
  qed
qed

section \<open>The server goes on\<close>

text \<open>
  The calls succeed and the system gives no descriptor from \<^verbatim>\<open>FD_SETSIZE\<close> on.
\<close>

definition obliging :: "int \<Rightarrow> sv_pass \<Rightarrow> bool" where
  "obliging l p \<longleftrightarrow> \<not> sp_fails p \<and> (l \<in> sp_ready p \<longrightarrow> sp_accept p \<noteq> None) \<and> (\<forall>c. sp_accept p = Some c \<longrightarrow> c < int FD_SETSIZE)
     \<and> (\<forall>fd. sp_read p fd \<noteq> None \<and> sp_writen p fd \<and> sp_close p fd)"

text \<open>Then the table always has a free place: there are fewer descriptors than places.\<close>

lemma table_has_place:
  assumes "sv_inv l s" and "0 \<le> c" and "c < int FD_SETSIZE" and "c \<notin> sv_allset s"
  shows "index_of (\<lambda>c. c < 0) (sv_client s) < FD_SETSIZE"
proof (rule ccontr)
  have len: "length (sv_client s) = FD_SETSIZE" and d: "distinct (live (sv_client s))"
    and dom: "sv_allset s = insert l (set (live (sv_client s)))" and small: "\<forall>fd \<in> sv_allset s. fd < int FD_SETSIZE"
    using assms(1) by (auto simp: sv_inv_def sv_table_def)
  assume "\<not> index_of (\<lambda>c. c < 0) (sv_client s) < FD_SETSIZE"
  then have "\<forall>x \<in> set (sv_client s). 0 \<le> x" using index_of_less_iff [of "\<lambda>c. c < 0" "sv_client s"] len by (auto simp: not_less)
  then have live: "live (sv_client s) = sv_client s" by (simp add: live_def)
  then have "card (set (sv_client s)) = FD_SETSIZE" using d len by (metis distinct_card)
  moreover have "set (sv_client s) \<subseteq> {0..<int FD_SETSIZE} - {c}"
    using live dom small assms(4) \<open>\<forall>x \<in> set (sv_client s). 0 \<le> x\<close> by auto
  then have "card (set (sv_client s)) \<le> card ({0..<int FD_SETSIZE} - {c})" by (rule card_mono [rotated]) simp
  ultimately show False using assms(2,3) by (simp add: FD_SETSIZE_def)
qed

lemma serve_all_goes: "obliging l p \<Longrightarrow> \<exists>t. serve_all p r is n s = Inr t"
proof (induction p r "is" n s rule: serve_all.induct)
  case (2 p r i "is" n s)
  have calls: "sp_read p (sv_client s ! i) \<noteq> None" "sp_writen p (sv_client s ! i)" "sp_close p (sv_client s ! i)"
    using 2(4) by (simp_all add: obliging_def)
  then obtain d where "sp_read p (sv_client s ! i) = Some d" by blast
  with calls obtain u where "serve_client p i (sv_client s ! i) s = Inr u"
    by (cases "take MAXLINE d = []") (simp_all add: serve_client_def exit_if_def Let_def)
  with 2 show ?case by (auto simp: Let_def)
qed simp

lemma sv_step_goes:
  assumes "sv_inv l s" and "unused s p" and "obliging l p"
  shows "\<exists>t. sv_step l s p = Inr t"
proof -
  have "\<exists>u. new_client p s = Inr u" if "l \<in> sp_ready p"
  proof -
    have "sp_accept p \<noteq> None" using assms(3) that by (simp add: obliging_def)
    then obtain c where c: "sp_accept p = Some c" by blast
    then have "c < int FD_SETSIZE" using assms(3) by (simp add: obliging_def)
    have "0 \<le> c" "c \<notin> sv_allset s" using assms(2) c by (auto simp: unused_def)
    with \<open>c < int FD_SETSIZE\<close> c table_has_place [OF assms(1)] show ?thesis by (fastforce simp: new_client_def Let_def exit_if_def)
  qed
  moreover have "sv_step l s p = (let rset = sv_rset p s; nready = int (card rset) in
     if l \<in> rset then bindr (new_client p s) (\<lambda>s. if nready - 1 \<le> 0 then Inr s else serve_all p rset (table s) (nready - 1) s)
     else serve_all p rset (table s) nready s)" using assms(3) by (simp add: sv_step_def obliging_def)
  moreover have "l \<in> sv_rset p s \<Longrightarrow> l \<in> sp_ready p" by (simp add: sv_rset_def)
  ultimately show ?thesis using serve_all_goes [OF assms(3)]
    by (cases "l \<in> sv_rset p s"; cases "int (card (sv_rset p s)) - 1 \<le> 0") (auto simp: Let_def)
qed

interpretation server: refined_system "sv_step l" "\<lambda>s p. unused s p \<and> obliging l p" "\<lambda>s. sv_inv l s \<and> 0 \<le> l" sv_conns "echo_spec l"
  by unfold_locales (use sv_step_inv sv_step_spec in blast)+

interpretation server_goes: live_system "sv_step l" "\<lambda>s p. unused s p \<and> obliging l p" "\<lambda>s. sv_inv l s \<and> 0 \<le> l"
  by unfold_locales (use sv_step_goes in blast)

section \<open>Claims\<close>

text \<open>
  C29. The server echoes to all its clients: from its start, as long as the calls succeed and
  \<^verbatim>\<open>accept\<close> gives unused descriptors below \<^verbatim>\<open>FD_SETSIZE\<close>, it runs without end, and in each pass every
  connection that is readable gets its own bytes back, or is closed at its end, the others are left
  alone and a new connection is taken: no client is missed by the count of ready descriptors that ends
  the loop early, and the table never fills up.
\<close>
theorem select_server_echoes:
  assumes "0 \<le> l" and "l < int FD_SETSIZE"
    and "admissible (\<lambda>s p. unused s p \<and> obliging l p) (sv_step l) (sv_start l) ps"
  shows "\<exists>s. run (sv_step l) (sv_start l) ps = Inr s \<and> sv_conns s = fold (echo_spec l) ps Map.empty
    \<and> sv_allset s = insert l (dom (sv_conns s)) \<and> (\<forall>fd c. sv_conns s fd = Some c \<longrightarrow> cn_out c = cn_in c)"
proof -
  have start: "sv_inv l (sv_start l) \<and> 0 \<le> l" using sv_start_inv [OF assms(2)] assms(1) by simp
  obtain s where s: "run (sv_step l) (sv_start l) ps = Inr s" using server_goes.run_goes [OF start assms(3)] by blast
  have "sv_inv l s" using server.guarded_run_inv [OF start assms(3) s] by simp
  moreover have "sv_conns s = fold (echo_spec l) ps Map.empty"
    using server.run_spec [OF start assms(3) s] by (simp add: sv_start_def)
  ultimately show ?thesis using s by (simp add: sv_inv_def)
qed

definition example_arrival :: sv_pass where
  "example_arrival = \<lparr>sp_fails = False, sp_ready = {3}, sp_accept = Some 4, sp_read = (\<lambda>_. Some ''hi''), sp_writen = (\<lambda>_. True),
     sp_close = (\<lambda>_. True)\<rparr>"

theorem select_server_echoes_witness:
  "\<exists>s. run (sv_step 3) (sv_start 3) [example_arrival, example_arrival\<lparr>sp_ready := {4}, sp_accept := None\<rparr>] = Inr s
    \<and> sv_conns s 4 = Some \<lparr>cn_in = ''hi'', cn_out = ''hi''\<rparr>"
proof -
  let ?ps = "[example_arrival, example_arrival\<lparr>sp_ready := {4}, sp_accept := None\<rparr>]"
  have "admissible (\<lambda>s p. unused s p \<and> obliging 3 p) (sv_step 3) (sv_start 3) ?ps"
    by (simp add: unused_def obliging_def example_arrival_def sv_start_def FD_SETSIZE_def split: sum.split)
  then obtain s where s: "run (sv_step 3) (sv_start 3) ?ps = Inr s" "sv_conns s = fold (echo_spec 3) ?ps Map.empty"
    using select_server_echoes [of 3 ?ps] by (auto simp: FD_SETSIZE_def)
  have "fold (echo_spec 3) ?ps Map.empty 4 = Some \<lparr>cn_in = ''hi'', cn_out = ''hi''\<rparr>"
    by (simp add: example_arrival_def echo_spec_def echoed_def fresh_conn_def MAXLINE_def Let_def)
  with s show ?thesis by auto
qed

end
