(* ===== verification/PollServer.thy ===== *)
theory PollServer
  imports SelectServer
begin

unbundle bit_operations_syntax

text \<open>
  The same echo server on \<^verbatim>\<open>poll\<close> (\<^verbatim>\<open>unpv13e/tcpcliserv/tcpservpoll01.c\<close>): one array holds the
  descriptors, what to wait for and what has happened.
\<close>

section \<open>The server\<close>

definition POLLRDNORM :: u16 where "POLLRDNORM = 0x40"
definition POLLERR :: u16 where "POLLERR = 0x08"
definition POLLHUP :: u16 where "POLLHUP = 0x10"
definition POLLNVAL :: u16 where "POLLNVAL = 0x20"
definition ECONNRESET :: int where "ECONNRESET = 104"

record pollfd =
  pf_fd :: int
  pf_events :: u16
  pf_revents :: u16

text \<open>
  What happens in a pass: the conditions that hold of each descriptor, and the results of the calls;
  \<^verbatim>\<open>read\<close> returns its \<^verbatim>\<open>errno\<close> or the bytes that have come.
\<close>

record pv_pass =
  pp_fails :: bool
  pp_state :: "int \<Rightarrow> u16"
  pp_accept :: "int option"
  pp_read :: "int \<Rightarrow> int + string"
  pp_writen :: "int \<Rightarrow> bool"
  pp_close :: "int \<Rightarrow> bool"

record pv =
  pv_client :: "pollfd list"
  pv_maxi :: nat
  pv_conns :: conns

text \<open>
  The array is on the stack: what it holds before is \<open>junk\<close>, and of a free place only \<^verbatim>\<open>fd\<close> is set.
  \<^verbatim>\<open>OPEN_MAX\<close> is the system's and an argument here.
\<close>

definition pv_start :: "nat \<Rightarrow> (nat \<Rightarrow> pollfd) \<Rightarrow> int \<Rightarrow> pv" where
  "pv_start OPEN_MAX junk listenfd =
     \<lparr>pv_client = map (\<lambda>i. if i = 0 then (junk i)\<lparr>pf_fd := listenfd, pf_events := POLLRDNORM\<rparr> else (junk i)\<lparr>pf_fd := - 1\<rparr>) [0..<OPEN_MAX],
      pv_maxi = 0, pv_conns = Map.empty\<rparr>"

text \<open>
  \<^verbatim>\<open>poll\<close> reports what was asked for, and the last three unasked; nothing of a negative descriptor. It
  returns how many places it has reported something of.
\<close>

definition poll_entry :: "pv_pass \<Rightarrow> pollfd \<Rightarrow> pollfd" where
  "poll_entry p e = e\<lparr>pf_revents :=
     (if pf_fd e < 0 then 0 else pp_state p (pf_fd e) AND (pf_events e OR POLLERR OR POLLHUP OR POLLNVAL))\<rparr>"

definition polled :: "pv_pass \<Rightarrow> pv \<Rightarrow> pv" where
  "polled p s = s\<lparr>pv_client := map (poll_entry p) (take (pv_maxi s + 1) (pv_client s)) @ drop (pv_maxi s + 1) (pv_client s)\<rparr>"

definition reported :: "pv \<Rightarrow> nat" where
  "reported s = length (filter (\<lambda>e. pf_revents e \<noteq> 0) (take (pv_maxi s + 1) (pv_client s)))"

definition take_client :: "nat \<Rightarrow> pv_pass \<Rightarrow> pv \<Rightarrow> pv outcome" where
  "take_client OPEN_MAX p s =
     (case pp_accept p of
        None \<Rightarrow> Inl (Exit 1 ''accept error'', s)
      | Some connfd \<Rightarrow>
          let s = s\<lparr>pv_conns := (pv_conns s)(connfd \<mapsto> fresh_conn)\<rparr>;
              i = Suc (index_of (\<lambda>e. pf_fd e < 0) (tl (pv_client s)));
              e = pv_client s ! i
          in
          bindr (exit_if (i = OPEN_MAX) 1 ''too many clients'' s) (\<lambda>s.
          Inr (s\<lparr>pv_client := (pv_client s)[i := e\<lparr>pf_fd := connfd, pf_events := POLLRDNORM\<rparr>], pv_maxi := max (pv_maxi s) i\<rparr>)))"

text \<open>A client. \<^verbatim>\<open>read\<close> waits where nothing has come; then no other client is seen to.\<close>

definition free_place :: "nat \<Rightarrow> pv \<Rightarrow> pv" where
  "free_place i s = s\<lparr>pv_client := (pv_client s)[i := (pv_client s ! i)\<lparr>pf_fd := - 1\<rparr>]\<rparr>"

definition close_client :: "pv_pass \<Rightarrow> nat \<Rightarrow> int \<Rightarrow> pv \<Rightarrow> pv outcome" where
  "close_client p i sockfd s =
     bindr (exit_if (\<not> pp_close p sockfd) 1 ''close error'' s) (\<lambda>s.
     Inr (free_place i (s\<lparr>pv_conns := (pv_conns s)(sockfd := None)\<rparr>)))"

definition poll_client :: "pv_pass \<Rightarrow> nat \<Rightarrow> int \<Rightarrow> pv \<Rightarrow> pv outcome" where
  "poll_client p i sockfd s =
     (if pp_state p sockfd AND (POLLRDNORM OR POLLERR OR POLLHUP) = 0 then Inl (Hang ''read'', s)
      else case pp_read p sockfd of
        Inl errno \<Rightarrow> if errno = ECONNRESET then close_client p i sockfd s else Inl (Exit 1 ''read error'', s)
      | Inr d \<Rightarrow>
          let d = take MAXLINE d in
          if d = [] then close_client p i sockfd s
          else
            bindr (exit_if (\<not> pp_writen p sockfd) 1 ''writen error'' s) (\<lambda>s.
            Inr (s\<lparr>pv_conns := (pv_conns s)(sockfd := map_option (\<lambda>c. c\<lparr>cn_in := cn_in c @ d, cn_out := cn_out c @ d\<rparr>)
                                                (pv_conns s sockfd))\<rparr>)))"

fun poll_all :: "pv_pass \<Rightarrow> nat list \<Rightarrow> int \<Rightarrow> pv \<Rightarrow> pv outcome" where
  "poll_all p [] nready s = Inr s"
| "poll_all p (i # is) nready s =
     (let e = pv_client s ! i in
      if pf_fd e < 0 then poll_all p is nready s
      else if pf_revents e AND (POLLRDNORM OR POLLERR) \<noteq> 0 then
        bindr (poll_client p i (pf_fd e) s) (\<lambda>s.
        if nready - 1 \<le> 0 then Inr s else poll_all p is (nready - 1) s)
      else poll_all p is nready s)"

definition pv_step :: "nat \<Rightarrow> pv \<Rightarrow> pv_pass \<Rightarrow> pv outcome" where
  "pv_step OPEN_MAX s p =
     bindr (exit_if (pp_fails p) 1 ''poll error'' s) (\<lambda>s.
     let s = polled p s; nready = int (reported s) in
     if pf_revents (pv_client s ! 0) AND POLLRDNORM \<noteq> 0 then
       bindr (take_client OPEN_MAX p s) (\<lambda>s.
       if nready - 1 \<le> 0 then Inr s else poll_all p [1..<pv_maxi s + 1] (nready - 1) s)
     else poll_all p [1..<pv_maxi s + 1] nready s)"

section \<open>The array\<close>

text \<open>
  The contract is that of the other server: a descriptor is ready when it is readable or has an error,
  and a reset is an end.
\<close>

definition sees :: "pv_pass \<Rightarrow> int \<Rightarrow> bool" where
  "sees p fd \<longleftrightarrow> pp_state p fd AND (POLLRDNORM OR POLLERR) \<noteq> 0"

definition as_select :: "int \<Rightarrow> pv_pass \<Rightarrow> sv_pass" where
  "as_select l p =
     \<lparr>sp_fails = pp_fails p,
      sp_ready = {fd. if fd = l then pp_state p l AND POLLRDNORM \<noteq> 0 else sees p fd},
      sp_accept = pp_accept p,
      sp_read = (\<lambda>fd. case pp_read p fd of Inl e \<Rightarrow> if e = ECONNRESET then Some [] else None | Inr d \<Rightarrow> Some d),
      sp_writen = pp_writen p, sp_close = pp_close p\<rparr>"

definition fds :: "pv \<Rightarrow> int list" where "fds s = map pf_fd (pv_client s)"

definition pv_inv :: "nat \<Rightarrow> int \<Rightarrow> pv \<Rightarrow> bool" where
  "pv_inv om l s \<longleftrightarrow> length (pv_client s) = om \<and> pv_maxi s < om \<and> fds s ! 0 = l \<and> 0 \<le> l \<and> distinct (live (fds s))
     \<and> (\<forall>i < om. 0 \<le> fds s ! i \<longrightarrow> i \<le> pv_maxi s \<and> pf_events (pv_client s ! i) = POLLRDNORM)
     \<and> set (live (fds s)) = insert l (dom (pv_conns s)) \<and> l \<notin> dom (pv_conns s)
     \<and> (\<forall>fd \<in> set (live (fds s)). fd < int om) \<and> (\<forall>fd c. pv_conns s fd = Some c \<longrightarrow> cn_out c = cn_in c)"

lemma pv_start_inv:
  assumes "0 < om" and "0 \<le> l" and "l < int om"
  shows "pv_inv om l (pv_start om junk l)"
proof -
  obtain n where n: "om = Suc n" using assms(1) by (cases om) auto
  have "fds (pv_start om junk l) = l # replicate n (- 1)"
    by (simp add: fds_def pv_start_def n upt_conv_Cons map_replicate_const del: upt_Suc) (auto intro!: replicate_eqI)
  moreover from this have "live (fds (pv_start om junk l)) = [l]" using assms(2) by (simp add: live_def)
  ultimately show ?thesis using assms
    by (auto simp: pv_inv_def nth_Cons' n) (auto simp: pv_start_def simp del: upt_Suc)
qed

text \<open>A place that is reported on, and what \<^verbatim>\<open>poll\<close> leaves behind.\<close>

definition flagged :: "pv \<Rightarrow> nat \<Rightarrow> bool" where
  "flagged s i \<longleftrightarrow> 0 \<le> fds s ! i \<and> pf_revents (pv_client s ! i) AND (POLLRDNORM OR POLLERR) \<noteq> 0"

lemma nth_fds: "pv_inv om l s \<Longrightarrow> i < om \<Longrightarrow> fds s ! i = pf_fd (pv_client s ! i)"
  by (simp add: pv_inv_def fds_def)

lemma fds_polled [simp]: "fds (polled p s) = fds s"
proof -
  have "pf_fd \<circ> poll_entry p = pf_fd" by (simp add: fun_eq_iff poll_entry_def)
  then have "fds (polled p s) = map pf_fd (take (pv_maxi s + 1) (pv_client s) @ drop (pv_maxi s + 1) (pv_client s))"
    by (simp add: fds_def polled_def del: append_take_drop_id)
  then show ?thesis by (simp add: fds_def)
qed

lemma polled_nth:
  assumes "pv_inv om l s" and "i < om"
  shows "pv_client (polled p s) ! i = (if i \<le> pv_maxi s then poll_entry p (pv_client s ! i) else pv_client s ! i)"
  using assms by (auto simp: pv_inv_def polled_def nth_append min_def)

lemma polled_inv:
  assumes "pv_inv om l s"
  shows "pv_inv om l (polled p s)"
proof -
  have "pv_maxi (polled p s) = pv_maxi s" "pv_conns (polled p s) = pv_conns s" "length (pv_client (polled p s)) = length (pv_client s)"
    by (simp_all add: polled_def)
  moreover have "pf_events (pv_client (polled p s) ! i) = pf_events (pv_client s ! i)" if "i < om" for i
    using that by (simp add: polled_nth [OF assms] poll_entry_def)
  ultimately show ?thesis using assms by (simp add: pv_inv_def)
qed

lemma mask_report:
  fixes x :: u16
  shows "(x AND (POLLRDNORM OR POLLERR OR POLLHUP OR POLLNVAL)) AND (POLLRDNORM OR POLLERR) = x AND (POLLRDNORM OR POLLERR)"
    "(x AND (POLLRDNORM OR POLLERR OR POLLHUP OR POLLNVAL)) AND POLLRDNORM = x AND POLLRDNORM"
    "(x AND (POLLRDNORM OR POLLERR OR POLLHUP)) AND (POLLRDNORM OR POLLERR) = x AND (POLLRDNORM OR POLLERR)"
    "(x AND (POLLRDNORM OR POLLERR)) AND POLLRDNORM = x AND POLLRDNORM"
  by (simp_all add: and.assoc POLLRDNORM_def POLLERR_def POLLHUP_def POLLNVAL_def)

lemma polled_flagged:
  assumes "pv_inv om l s" and "i < om" and "i \<le> pv_maxi s"
  shows "flagged (polled p s) i \<longleftrightarrow> 0 \<le> fds s ! i \<and> sees p (fds s ! i)"
    and "0 \<le> fds s ! i \<Longrightarrow> pf_revents (pv_client (polled p s) ! i) AND POLLRDNORM = pp_state p (fds s ! i) AND POLLRDNORM"
proof -
  have ev: "0 \<le> fds s ! i \<Longrightarrow> pf_events (pv_client s ! i) = POLLRDNORM" using assms by (simp add: pv_inv_def)
  have e: "pv_client (polled p s) ! i = poll_entry p (pv_client s ! i)" using polled_nth [OF assms(1,2)] assms(3) by simp
  note F = nth_fds [OF assms(1,2)]
  show "flagged (polled p s) i \<longleftrightarrow> 0 \<le> fds s ! i \<and> sees p (fds s ! i)"
    using ev by (cases "0 \<le> fds s ! i") (simp_all add: flagged_def sees_def e poll_entry_def F mask_report)
  show "0 \<le> fds s ! i \<Longrightarrow> pf_revents (pv_client (polled p s) ! i) AND POLLRDNORM = pp_state p (fds s ! i) AND POLLRDNORM"
    using ev by (simp add: e poll_entry_def F mask_report)
qed

lemma free_place_simps [simp]:
  "pv_maxi (free_place i s) = pv_maxi s" "pv_conns (free_place i s) = pv_conns s"
  "fds (free_place i s) = (fds s)[i := - 1]" "length (pv_client (free_place i s)) = length (pv_client s)"
  "j \<noteq> i \<Longrightarrow> pv_client (free_place i s) ! j = pv_client s ! j"
  by (simp_all add: free_place_def fds_def map_update)

lemma free_place_events: "pf_events (pv_client (free_place i s) ! j) = pf_events (pv_client s ! j)"
  by (cases "j = i"; cases "i < length (pv_client s)") (simp_all add: free_place_def list_update_beyond)

lemma close_inv:
  assumes "pv_inv om l s" and "0 < i" and "i < om" and "0 \<le> fds s ! i"
  shows "pv_inv om l (free_place i (s\<lparr>pv_conns := (pv_conns s)(fds s ! i := None)\<rparr>))" (is "pv_inv om l ?t")
proof -
  let ?s = "s\<lparr>pv_conns := (pv_conns s)(fds s ! i := None)\<rparr>"
  have F: "fds ?s = fds s" by (simp add: fds_def)
  have len: "length (fds s) = om" and d: "distinct (live (fds s))" and l: "fds s ! 0 = l" "0 \<le> l"
    using assms(1) by (simp_all add: pv_inv_def fds_def)
  have "fds s ! i \<noteq> l" using live_once [OF d, of i 0] l assms(2-4) len by auto
  moreover have "i < length (fds s)" using len assms(3) by simp
  note live_clear [OF this assms(4) d]
  moreover have "fds ?t ! 0 = l" using assms(2) l by (simp add: F)
  moreover have "\<forall>j < om. 0 \<le> fds ?t ! j \<longrightarrow> j \<le> pv_maxi ?t \<and> pf_events (pv_client ?t ! j) = POLLRDNORM"
  proof (intro allI impI)
    fix j assume j: "j < om" and "0 \<le> fds ?t ! j"
    then have "0 \<le> fds s ! j" using len by (cases "j = i") (simp_all add: F)
    with j assms(1) show "j \<le> pv_maxi ?t \<and> pf_events (pv_client ?t ! j) = POLLRDNORM"
      by (simp add: pv_inv_def free_place_events)
  qed
  ultimately show ?thesis using assms(1) unfolding pv_inv_def by (auto simp: F)
qed

lemma echo_inv:
  assumes "pv_inv om l s"
  shows "pv_inv om l (s\<lparr>pv_conns := (pv_conns s)(fd := map_option (\<lambda>c. c\<lparr>cn_in := cn_in c @ d, cn_out := cn_out c @ d\<rparr>) (pv_conns s fd))\<rparr>)"
    (is "pv_inv om l ?t")
proof -
  have "dom (pv_conns ?t) = dom (pv_conns s)" by (auto split: if_splits)
  moreover have "fds ?t = fds s" by (simp add: fds_def)
  ultimately show ?thesis using assms by (auto simp: pv_inv_def)
qed

section \<open>A pass\<close>

text \<open>
  The calls succeed, a read that fails is reset, and the system, whose descriptors are below
  \<^verbatim>\<open>OPEN_MAX\<close>, never reports a hang-up or a bad descriptor alone.
\<close>

definition poll_obliging :: "nat \<Rightarrow> int \<Rightarrow> pv_pass \<Rightarrow> bool" where
  "poll_obliging om l p \<longleftrightarrow> \<not> pp_fails p \<and> (pp_state p l AND POLLRDNORM \<noteq> 0 \<longrightarrow> pp_accept p \<noteq> None)
     \<and> (\<forall>c. pp_accept p = Some c \<longrightarrow> 0 \<le> c \<and> c < int om)
     \<and> (\<forall>fd. (\<forall>e. pp_read p fd = Inl e \<longrightarrow> e = ECONNRESET) \<and> pp_writen p fd \<and> pp_close p fd)
     \<and> (\<forall>fd. pp_state p fd AND (POLLHUP OR POLLNVAL) \<noteq> 0 \<longrightarrow> sees p fd)"

lemma sees_reads: "sees p fd \<Longrightarrow> pp_state p fd AND (POLLRDNORM OR POLLERR OR POLLHUP) \<noteq> 0"
  using mask_report(3) [of "pp_state p fd"] by (auto simp: sees_def)

definition served :: "nat \<Rightarrow> int \<Rightarrow> pv_pass \<Rightarrow> nat \<Rightarrow> pv \<Rightarrow> pv \<Rightarrow> bool" where
  "served om l p i s t \<longleftrightarrow> pv_inv om l t \<and> pv_maxi t = pv_maxi s
    \<and> pv_conns t = (pv_conns s)(fds s ! i := Option.bind (pv_conns s (fds s ! i)) (echoed (as_select l p) (fds s ! i)))
    \<and> (\<forall>j. j \<noteq> i \<longrightarrow> pv_client t ! j = pv_client s ! j \<and> fds t ! j = fds s ! j)"

lemma close_served:
  assumes "pv_inv om l s" and "0 < i" and "i < om" and "0 \<le> fds s ! i" and "pp_close p (fds s ! i)"
    and "\<And>c. echoed (as_select l p) (fds s ! i) c = None"
  shows "\<exists>t. close_client p i (fds s ! i) s = Inr t \<and> served om l p i s t"
proof -
  let ?s = "s\<lparr>pv_conns := (pv_conns s)(fds s ! i := None)\<rparr>"
  have F: "fds ?s = fds s" by (simp add: fds_def)
  have "Option.bind (pv_conns s (fds s ! i)) (echoed (as_select l p) (fds s ! i)) = None"
    by (cases "pv_conns s (fds s ! i)") (simp_all add: assms(6))
  then have "served om l p i s (free_place i ?s)" using close_inv [OF assms(1-4)] by (simp add: served_def F)
  then show ?thesis using assms(5) by (simp add: close_client_def)
qed

lemma poll_client_goes:
  assumes "pv_inv om l s" and "0 < i" and "i < om" and "0 \<le> fds s ! i" and "sees p (fds s ! i)" and "poll_obliging om l p"
  shows "\<exists>t. poll_client p i (fds s ! i) s = Inr t \<and> served om l p i s t"
proof -
  let ?fd = "fds s ! i"
  have ok: "pp_writen p ?fd" "pp_close p ?fd" and err: "\<And>e. pp_read p ?fd = Inl e \<Longrightarrow> e = ECONNRESET"
    using assms(6) by (simp_all add: poll_obliging_def)
  note go = sees_reads [OF assms(5)] and gone = close_served [OF assms(1-4) ok(2)]
  show ?thesis
  proof (cases "pp_read p ?fd")
    case (Inl e)
    then have "e = ECONNRESET" by (rule err)
    with Inl have "poll_client p i ?fd s = close_client p i ?fd s" using go by (simp add: poll_client_def)
    moreover have "echoed (as_select l p) ?fd c = None" for c using Inl \<open>e = ECONNRESET\<close> by (simp add: echoed_def as_select_def)
    ultimately show ?thesis using gone by simp
  next
    case (Inr d)
    then have e: "echoed (as_select l p) ?fd c = (if take MAXLINE d = [] then None
        else Some (c\<lparr>cn_in := cn_in c @ take MAXLINE d, cn_out := cn_out c @ take MAXLINE d\<rparr>))" for c
      by (simp add: echoed_def as_select_def Let_def del: take_eq_Nil)
    show ?thesis
    proof (cases "take MAXLINE d = []")
      case True
      then have "poll_client p i ?fd s = close_client p i ?fd s" using go Inr by (simp add: poll_client_def)
      then show ?thesis using gone e True by simp
    next
      case False
      let ?t = "s\<lparr>pv_conns := (pv_conns s)(?fd := map_option (\<lambda>c. c\<lparr>cn_in := cn_in c @ take MAXLINE d, cn_out := cn_out c @ take MAXLINE d\<rparr>) (pv_conns s ?fd))\<rparr>"
      have "poll_client p i ?fd s = Inr ?t" using go Inr ok False by (simp add: poll_client_def Let_def del: take_eq_Nil)
      moreover have "Option.bind (pv_conns s ?fd) (echoed (as_select l p) ?fd) = pv_conns ?t ?fd"
        using e False by (cases "pv_conns s ?fd") simp_all
      then have "served om l p i s ?t" using echo_inv [OF assms(1)] by (simp add: served_def fds_def)
      ultimately show ?thesis by blast
    qed
  qed
qed

text \<open>
  The loop sees to each place that is reported on, when \<open>nready\<close> counts them; and it does not come to
  the places behind, \<open>js\<close>, when \<open>nready\<close> is their exact number.
\<close>

lemma poll_all_goes:
  assumes "pv_inv om l s" and "poll_obliging om l p" and "distinct is" and "\<forall>i \<in> set is. 0 < i \<and> i < om"
    and "\<forall>i \<in> set is. flagged s i \<longrightarrow> sees p (fds s ! i)" and "int (length (filter (flagged s) is)) \<le> n"
    and "js = [] \<or> 0 < n \<and> n = int (length (filter (flagged s) is))"
  shows "\<exists>t. poll_all p (is @ js) n s = Inr t \<and> pv_inv om l t
    \<and> pv_conns t = (\<lambda>fd. if \<exists>i \<in> set is. flagged s i \<and> fds s ! i = fd
         then Option.bind (pv_conns s fd) (echoed (as_select l p) fd) else pv_conns s fd)"
  using assms
proof (induction "is" arbitrary: s n)
  case Nil
  then show ?case by auto
next
  case (Cons i "is")
  have i: "0 < i" "i < om" using Cons.prems(4) by auto
  note F = nth_fds [OF Cons.prems(1) i(2)]
  show ?case
  proof (cases "flagged s i")
    case True
    then have pos: "0 \<le> fds s ! i" and see: "sees p (fds s ! i)" using Cons.prems(5) by (auto simp: flagged_def)
    from poll_client_goes [OF Cons.prems(1) i pos see Cons.prems(2)]
    obtain u where u: "poll_client p i (fds s ! i) s = Inr u" and sv: "served om l p i s u" by blast
    have step: "poll_all p ((i # is) @ js) n s = (if n - 1 \<le> 0 then Inr u else poll_all p (is @ js) (n - 1) u)"
      using True u by (simp add: flagged_def F Let_def)
    have inv: "pv_inv om l u" using sv by (simp add: served_def)
    have fl: "flagged u j = flagged s j" and fd: "fds u ! j = fds s ! j" if "j \<in> set is" for j
    proof -
      have "j \<noteq> i" using that Cons.prems(3) by auto
      with sv show "flagged u j = flagged s j" "fds u ! j = fds s ! j" by (simp_all add: served_def flagged_def)
    qed
    have other: "fds s ! j \<noteq> fds s ! i" if "j \<in> set is" for j
    proof
      assume e: "fds s ! j = fds s ! i"
      have "distinct (live (fds s))" "length (fds s) = om" using Cons.prems(1) by (simp_all add: pv_inv_def fds_def)
      then have "j = i" using live_once [of "fds s" j i] e pos i Cons.prems(4) that by auto
      then show False using that Cons.prems(3) by simp
    qed
    have count: "filter (flagged u) is = filter (flagged s) is" by (rule filter_cong) (simp_all add: fl)
    have conns: "pv_conns u = (pv_conns s)(fds s ! i := Option.bind (pv_conns s (fds s ! i)) (echoed (as_select l p) (fds s ! i)))"
      using sv by (simp add: served_def)
    show ?thesis
    proof (cases "n - 1 \<le> 0")
      case True
      have "length (filter (flagged s) (i # is)) = Suc (length (filter (flagged s) is))" using \<open>flagged s i\<close> by simp
      then have "length (filter (flagged s) is) = 0" using True Cons.prems(6) by linarith
      then have none: "\<forall>j \<in> set is. \<not> flagged s j" by (simp add: filter_empty_conv)
      have "poll_all p ((i # is) @ js) n s = Inr u" using step True by simp
      with inv conns none \<open>flagged s i\<close> show ?thesis by (auto simp: fun_eq_iff)
    next
      case False
      have ok: "int (length (filter (flagged u) is)) \<le> n - 1" "js = [] \<or> 0 < n - 1 \<and> n - 1 = int (length (filter (flagged u) is))"
        using Cons.prems(6,7) False \<open>flagged s i\<close> count by auto
      have see: "\<forall>j \<in> set is. flagged u j \<longrightarrow> sees p (fds u ! j)" using Cons.prems(5) fl fd by simp
      have "distinct is" "\<forall>j \<in> set is. 0 < j \<and> j < om" using Cons.prems(3,4) by simp_all
      from Cons.IH [OF inv Cons.prems(2) this see ok] obtain t where t: "poll_all p (is @ js) (n - 1) u = Inr t" "pv_inv om l t"
        "pv_conns t = (\<lambda>fd. if \<exists>j \<in> set is. flagged u j \<and> fds u ! j = fd
           then Option.bind (pv_conns u fd) (echoed (as_select l p) fd) else pv_conns u fd)" by blast
      have "(\<exists>j \<in> set is. flagged u j \<and> fds u ! j = fd) \<longleftrightarrow> (\<exists>j \<in> set is. flagged s j \<and> fds s ! j = fd)" for fd
        using fl fd by auto
      then have "pv_conns t = (\<lambda>fd. if \<exists>j \<in> set (i # is). flagged s j \<and> fds s ! j = fd
         then Option.bind (pv_conns s fd) (echoed (as_select l p) fd) else pv_conns s fd)"
        using other \<open>flagged s i\<close> by (auto simp: fun_eq_iff t(3) conns)
      with step False t show ?thesis by auto
    qed
  next
    case False
    then have "poll_all p ((i # is) @ js) n s = poll_all p (is @ js) n s" by (auto simp: flagged_def F Let_def)
    moreover have "filter (flagged s) (i # is) = filter (flagged s) is" using False by simp
    ultimately show ?thesis using Cons.IH [OF Cons.prems(1,2)] Cons.prems(3-7) False by simp
  qed
qed

definition spare :: "pv \<Rightarrow> pv_pass \<Rightarrow> bool" where
  "spare s p \<longleftrightarrow> (\<forall>fd. pp_accept p = Some fd \<longrightarrow> fd \<notin> set (live (fds s)))"

lemma free_after_listener:
  assumes "pv_inv om l s" and "0 \<le> c" and "c < int om" and "c \<notin> set (live (fds s))"
    and "i = Suc (index_of (\<lambda>e. pf_fd e < 0) (tl (pv_client s)))"
  shows "i < om" and "fds s ! i < 0" and "i \<le> pv_maxi s + 1"
proof -
  have len: "length (pv_client s) = om" "length (fds s) = om" and d: "distinct (live (fds s))" and small: "\<forall>fd \<in> set (live (fds s)). fd < int om"
    and l: "fds s ! 0 = l" "0 \<le> l" and max: "\<forall>i < om. 0 \<le> fds s ! i \<longrightarrow> i \<le> pv_maxi s"
    using assms(1) by (simp_all add: pv_inv_def fds_def)
  have om: "0 < om" using assms(2,3) by linarith
  then have tl: "length (tl (pv_client s)) = om - 1" using len by simp
  have nth: "tl (pv_client s) ! j = pv_client s ! Suc j" if "j < om - 1" for j using that tl by (simp add: nth_tl)
  show i: "i < om"
  proof (rule ccontr)
    assume "\<not> i < om"
    then have all: "\<forall>e \<in> set (tl (pv_client s)). 0 \<le> pf_fd e"
      using assms(5) index_of_less_iff [of "\<lambda>e. pf_fd e < 0" "tl (pv_client s)"] tl by (auto simp: not_less)
    have "0 \<le> fds s ! j" if "j < om" for j
    proof (cases j)
      case (Suc k)
      then have "pv_client s ! j \<in> set (tl (pv_client s))" using that nth [of k] tl by (metis Suc_lessE diff_Suc_1 nth_mem)
      then show ?thesis using all that by (simp add: fds_def len)
    qed (use l in simp)
    then have "live (fds s) = fds s" by (auto simp: live_def filter_id_conv in_set_conv_nth len)
    then have "card (set (fds s)) = om" and sub: "set (fds s) \<subseteq> {0..<int om} - {c}"
      using d len small assms(4) distinct_card [of "fds s"] by (auto simp: live_def) (metis filter_id_conv)
    moreover have "card (set (fds s)) \<le> card ({0..<int om} - {c})" by (rule card_mono [OF _ sub]) simp
    ultimately show False using assms(2,3) by simp
  qed
  then have "index_of (\<lambda>e. pf_fd e < 0) (tl (pv_client s)) < length (tl (pv_client s))" using assms(5) tl by simp
  then have "pf_fd (pv_client s ! i) < 0" using index_of_nth nth tl assms(5) by metis
  with i show "fds s ! i < 0" by (simp add: fds_def len)
  show "i \<le> pv_maxi s + 1"
  proof (rule ccontr)
    assume "\<not> i \<le> pv_maxi s + 1"
    then have j: "pv_maxi s < index_of (\<lambda>e. pf_fd e < 0) (tl (pv_client s))" and small: "Suc (pv_maxi s) < om"
      using assms(5) i by simp_all
    from index_of_first [OF j] have "0 \<le> fds s ! Suc (pv_maxi s)"
      using nth [of "pv_maxi s"] small by (simp add: fds_def len)
    then have "Suc (pv_maxi s) \<le> pv_maxi s" using max small by blast
    then show False by simp
  qed
qed

lemma take_client_goes:
  assumes "pv_inv om l s" and "pp_accept p = Some c" and "0 \<le> c" and "c < int om" and "c \<notin> set (live (fds s))"
  shows "\<exists>i t. take_client om p s = Inr t \<and> pv_inv om l t \<and> pv_conns t = (pv_conns s)(c \<mapsto> fresh_conn) \<and> 0 < i \<and> i \<le> pv_maxi s + 1
    \<and> fds s ! i < 0 \<and> pv_maxi t = max (pv_maxi s) i \<and> pf_revents (pv_client t ! i) = pf_revents (pv_client s ! i)
    \<and> (\<forall>j. j \<noteq> i \<longrightarrow> pv_client t ! j = pv_client s ! j \<and> fds t ! j = fds s ! j)"
proof -
  define i where "i = Suc (index_of (\<lambda>e. pf_fd e < 0) (tl (pv_client s)))"
  note free = free_after_listener [OF assms(1,3-5) i_def]
  let ?e = "(pv_client s ! i)\<lparr>pf_fd := c, pf_events := POLLRDNORM\<rparr>"
  let ?t = "s\<lparr>pv_conns := (pv_conns s)(c \<mapsto> fresh_conn), pv_client := (pv_client s)[i := ?e], pv_maxi := max (pv_maxi s) i\<rparr>"
  have i: "0 < i" by (simp add: i_def)
  have len: "length (pv_client s) = om" "length (fds s) = om" and d: "distinct (live (fds s))" and max: "pv_maxi s < om"
    using assms(1) by (simp_all add: pv_inv_def fds_def)
  have F: "fds ?t = (fds s)[i := c]" by (simp add: fds_def map_update)
  have "take_client om p s = Inr ?t" using free(1) by (simp add: take_client_def assms(2) flip: i_def)
  moreover have "i < length (fds s)" using free(1) len by simp
  note live_place [OF this free(2) assms(3,5) d]
  then have "pv_inv om l ?t"
    using assms(1,4,5) free(1) i len max unfolding pv_inv_def F
    by (auto simp: nth_list_update fresh_conn_def le_max_iff_disj split: if_splits)
  moreover have "pf_revents (pv_client ?t ! i) = pf_revents (pv_client s ! i)" using free(1) len by simp
  moreover have "\<forall>j. j \<noteq> i \<longrightarrow> pv_client ?t ! j = pv_client s ! j \<and> fds ?t ! j = fds s ! j" by (simp add: F)
  ultimately show ?thesis using i free by (intro exI [of _ i] exI [of _ ?t]) simp
qed

text \<open>What \<^verbatim>\<open>poll\<close> returns is the number of places the loop will see to, and one for a new connection.\<close>

lemma take_nths: "n \<le> length xs \<Longrightarrow> take n xs = map (\<lambda>i. xs ! i) [0..<n]"
  by (simp add: list_eq_iff_nth_eq)

lemma reported_count:
  assumes "pv_inv om l s" and "poll_obliging om l p"
  shows "reported (polled p s) = (if flagged (polled p s) 0 then 1 else 0) + length (filter (flagged (polled p s)) [1..<pv_maxi s + 1])"
proof -
  let ?s = "polled p s"
  have max: "pv_maxi s < om" and len: "length (pv_client ?s) = om" using polled_inv [OF assms(1)] assms(1) by (simp_all add: pv_inv_def)
  have "pf_revents (pv_client ?s ! i) \<noteq> 0 \<longleftrightarrow> flagged ?s i" if i: "i \<le> pv_maxi s" for i
  proof (cases "0 \<le> fds s ! i")
    case True
    have om: "i < om" using i max by simp
    let ?x = "pp_state p (fds s ! i)"
    have "pf_revents (pv_client ?s ! i) = ?x AND (POLLRDNORM OR POLLERR OR POLLHUP OR POLLNVAL)"
      using assms(1) True om by (simp add: polled_nth [OF assms(1) om] i poll_entry_def nth_fds [OF assms(1) om] pv_inv_def)
    moreover have "sees p (fds s ! i)" if "?x AND (POLLRDNORM OR POLLERR OR POLLHUP OR POLLNVAL) \<noteq> 0"
    proof -
      have "POLLRDNORM OR POLLERR OR POLLHUP OR POLLNVAL = (POLLRDNORM OR POLLERR) OR (POLLHUP OR POLLNVAL)" by (simp add: or.assoc)
      then have "?x AND (POLLRDNORM OR POLLERR) \<noteq> 0 \<or> ?x AND (POLLHUP OR POLLNVAL) \<noteq> 0"
        using that by (auto simp: bit.conj_disj_distrib)
      then show ?thesis using assms(2) by (auto simp: sees_def poll_obliging_def)
    qed
    moreover have "?x AND (POLLRDNORM OR POLLERR OR POLLHUP OR POLLNVAL) \<noteq> 0" if "sees p (fds s ! i)"
      using that mask_report(1) [of ?x] by (auto simp: sees_def)
    ultimately show ?thesis using True polled_flagged(1) [OF assms(1) om i] by auto
  next
    case False
    have om: "i < om" using i max by simp
    with False show ?thesis by (simp add: flagged_def polled_nth [OF assms(1) om] i poll_entry_def nth_fds [OF assms(1) om])
  qed
  then have "filter (\<lambda>i. pf_revents (pv_client ?s ! i) \<noteq> 0) [0..<pv_maxi s + 1] = filter (flagged ?s) [0..<pv_maxi s + 1]"
    by (intro filter_cong) (simp_all del: upt_Suc)
  moreover have "pv_maxi ?s = pv_maxi s" by (simp add: polled_def)
  moreover have "take (pv_maxi s + 1) (pv_client ?s) = map (\<lambda>i. pv_client ?s ! i) [0..<pv_maxi s + 1]"
    by (rule take_nths) (use max len in simp)
  ultimately have "reported ?s = length (filter (flagged ?s) [0..<pv_maxi s + 1])"
    by (simp add: reported_def filter_map comp_def del: upt_Suc)
  also have "[0..<pv_maxi s + 1] = 0 # [1..<pv_maxi s + 1]" by (simp add: upt_conv_Cons del: upt_Suc)
  finally show ?thesis by (simp del: upt_Suc)
qed

lemma flagged_client:
  assumes "pv_inv om l s"
  shows "(\<exists>j \<in> set [1..<pv_maxi s + 1]. flagged (polled p s) j \<and> fds s ! j = fd) \<longleftrightarrow> fd \<in> dom (pv_conns s) \<and> sees p fd"
proof
  assume "\<exists>j \<in> set [1..<pv_maxi s + 1]. flagged (polled p s) j \<and> fds s ! j = fd"
  then obtain j where j: "0 < j" "j \<le> pv_maxi s" "flagged (polled p s) j" "fds s ! j = fd"
    by (auto simp: less_Suc_eq_le Suc_le_eq simp del: upt_Suc)
  have om: "j < om" and len: "length (fds s) = om" and d: "distinct (live (fds s))" and l: "fds s ! 0 = l" "0 \<le> l"
    using assms j(2) by (simp_all add: pv_inv_def fds_def)
  have "0 \<le> fd" "sees p fd" using polled_flagged(1) [OF assms om j(2)] j(3,4) by auto
  moreover have "fd \<in> set (live (fds s))" using \<open>0 \<le> fd\<close> j(4) om len by (auto simp: live_def)
  moreover have "fd \<noteq> l" using live_once [OF d, of j 0] j(1,4) l om len \<open>0 \<le> fd\<close> by auto
  ultimately show "fd \<in> dom (pv_conns s) \<and> sees p fd" using assms by (auto simp: pv_inv_def)
next
  assume a: "fd \<in> dom (pv_conns s) \<and> sees p fd"
  have len: "length (fds s) = om" and l: "fds s ! 0 = l" and live: "fd \<in> set (live (fds s))" and "fd \<noteq> l"
    using assms a by (auto simp: pv_inv_def fds_def)
  from live obtain j where j: "j < om" "fds s ! j = fd" "0 \<le> fd" by (auto simp: live_def in_set_conv_nth len)
  then have max: "j \<le> pv_maxi s" using assms by (simp add: pv_inv_def)
  moreover have "j \<noteq> 0" using j(2) l \<open>fd \<noteq> l\<close> by metis
  moreover have "flagged (polled p s) j" using polled_flagged(1) [OF assms j(1) max] j(2,3) a by simp
  ultimately show "\<exists>j \<in> set [1..<pv_maxi s + 1]. flagged (polled p s) j \<and> fds s ! j = fd"
    using j(2) by (intro bexI [of _ j]) auto
qed

lemma echo_as_select:
  assumes "l \<notin> dom C" and "pp_state p l AND POLLRDNORM \<noteq> 0 \<longrightarrow> pp_accept p \<noteq> None"
    and "\<And>c. pp_accept p = Some c \<Longrightarrow> C c = None"
  shows "echo_spec l (as_select l p) C
    = (\<lambda>fd. if fd \<in> dom C \<and> sees p fd then Option.bind (C fd) (echoed (as_select l p) fd)
         else if pp_state p l AND POLLRDNORM \<noteq> 0 then (C(the (pp_accept p) \<mapsto> fresh_conn)) fd else C fd)"
  using assms by (fastforce simp: fun_eq_iff echo_spec_def as_select_def split: option.splits)

lemma pv_step_goes:
  assumes "pv_inv om l s" and "spare s p" and "poll_obliging om l p"
  shows "\<exists>t. pv_step om s p = Inr t \<and> pv_inv om l t \<and> pv_conns t = echo_spec l (as_select l p) (pv_conns s)"
proof -
  let ?s = "polled p s" and ?is = "[1..<pv_maxi s + 1]" and ?got = "\<lambda>C fd. if fd \<in> dom (pv_conns s) \<and> sees p fd
      then Option.bind (C fd) (echoed (as_select l p) fd) else C fd"
  have inv: "pv_inv om l ?s" by (rule polled_inv [OF assms(1)])
  have same: "pv_maxi ?s = pv_maxi s" "pv_conns ?s = pv_conns s" by (simp_all add: polled_def)
  have om: "0 < om" "pv_maxi s < om" and l: "fds s ! 0 = l" "0 \<le> l" and dom: "l \<notin> dom (pv_conns s)"
    and live: "set (live (fds s)) = insert l (dom (pv_conns s))" using assms(1) by (simp_all add: pv_inv_def)
  have free: "pv_conns s c = None" "c \<notin> set (live (fds ?s))" "0 \<le> c" "c < int om" if "pp_accept p = Some c" for c
    using assms(2,3) that live by (auto simp: spare_def poll_obliging_def)
  have acc: "pp_state p l AND POLLRDNORM \<noteq> 0 \<longrightarrow> pp_accept p \<noteq> None" and ok: "\<not> pp_fails p"
    using assms(3) by (simp_all add: poll_obliging_def)
  have contract: "echo_spec l (as_select l p) (pv_conns s) = (\<lambda>fd. if fd \<in> dom (pv_conns s) \<and> sees p fd
      then Option.bind (pv_conns s fd) (echoed (as_select l p) fd)
      else if pp_state p l AND POLLRDNORM \<noteq> 0 then ((pv_conns s)(the (pp_accept p) \<mapsto> fresh_conn)) fd else pv_conns s fd)"
    by (rule echo_as_select [OF dom acc]) (rule free(1))
  have rd: "pf_revents (pv_client ?s ! 0) AND POLLRDNORM = pp_state p l AND POLLRDNORM"
    using polled_flagged(2) [OF assms(1) om(1)] l by simp
  have dis: "distinct ?is" and indices: "\<forall>i \<in> set ?is. 0 < i \<and> i < om" using om(2) by auto
  have see: "\<forall>i \<in> set ?is. flagged ?s i \<longrightarrow> sees p (fds s ! i)"
    using polled_flagged(1) [OF assms(1)] om(2) by (simp add: less_Suc_eq_le del: upt_Suc)
  note count = reported_count [OF assms(1,3)] and client = flagged_client [OF assms(1)]
  have step: "pv_step om s p = (if pp_state p l AND POLLRDNORM \<noteq> 0 then
       bindr (take_client om p ?s) (\<lambda>u. if int (reported ?s) - 1 \<le> 0 then Inr u else poll_all p [1..<pv_maxi u + 1] (int (reported ?s) - 1) u)
     else poll_all p ?is (int (reported ?s)) ?s)" using ok rd by (simp add: pv_step_def Let_def same)
  show ?thesis
  proof (cases "pp_state p l AND POLLRDNORM \<noteq> 0")
    case False
    have "int (length (filter (flagged ?s) ?is)) \<le> int (reported ?s)" unfolding count by (simp del: upt_Suc)
    from poll_all_goes [OF inv assms(3) dis indices _ this, of "[]"] see
    obtain t where t: "poll_all p ?is (int (reported ?s)) ?s = Inr t" "pv_inv om l t" "pv_conns t = ?got (pv_conns s)"
      unfolding fds_polled client same by (auto simp del: upt_Suc)
    moreover have "?got (pv_conns s) = echo_spec l (as_select l p) (pv_conns s)" using False by (auto simp: contract fun_eq_iff)
    ultimately show ?thesis using step False by auto
  next
    case True
    then obtain c where c: "pp_accept p = Some c" using acc by blast
    from take_client_goes [OF inv c free(3,4,2) [OF c]] obtain i u where u: "take_client om p ?s = Inr u" "pv_inv om l u"
      "pv_conns u = (pv_conns s)(c \<mapsto> fresh_conn)" "0 < i" "i \<le> pv_maxi s + 1" "fds s ! i < 0" "pv_maxi u = max (pv_maxi s) i"
      "pf_revents (pv_client u ! i) = pf_revents (pv_client ?s ! i)"
      "\<forall>j. j \<noteq> i \<longrightarrow> pv_client u ! j = pv_client ?s ! j \<and> fds u ! j = fds s ! j" unfolding same fds_polled by blast
    have fl: "flagged u j = flagged ?s j" if "j \<in> set ?is" for j
    proof (cases "j = i")
      case True
      then have j: "i \<le> pv_maxi s" "i < om" using that om(2) by (auto simp: less_Suc_eq_le simp del: upt_Suc)
      have "pf_revents (pv_client u ! i) = 0"
        using u(6,8) j by (simp add: polled_nth [OF assms(1) j(2)] poll_entry_def nth_fds [OF assms(1) j(2)])
      then show ?thesis using True u(6) by (simp add: flagged_def)
    qed (use u(9) in \<open>simp add: flagged_def\<close>)
    have fd: "fds u ! j = fds s ! j" if "flagged ?s j" for j
      using that u(6,9) by (cases "j = i") (auto simp: flagged_def)
    have "flagged ?s 0" using True l rd mask_report(4) [of "pf_revents (pv_client ?s ! 0)"] by (auto simp: flagged_def)
    then have all: "int (reported ?s) - 1 = int (length (filter (flagged ?s) ?is))" unfolding count by (simp del: upt_Suc)
    have "filter (flagged u) ?is = filter (flagged ?s) ?is" by (rule filter_cong [OF refl fl])
    then have cnt: "int (reported ?s) - 1 = int (length (filter (flagged u) ?is))" using all by (simp only:)
    have hit: "(\<exists>j \<in> set ?is. flagged u j \<and> fds u ! j = fd) \<longleftrightarrow> fd \<in> dom (pv_conns s) \<and> sees p fd" for fd
      unfolding client [symmetric] by (rule bex_cong [OF refl]) (use fl fd in auto)
    have "?got ((pv_conns s)(c \<mapsto> fresh_conn)) = echo_spec l (as_select l p) (pv_conns s)"
      using free(1) [OF c] by (auto simp: contract fun_eq_iff True c)
    note result = this
    show ?thesis
    proof (cases "int (reported ?s) - 1 \<le> 0")
      case stop: True
      then have "filter (flagged u) ?is = []" using cnt by (simp del: upt_Suc)
      then have "\<not> (fd \<in> dom (pv_conns s) \<and> sees p fd)" for fd unfolding hit [symmetric] by (simp add: filter_empty_conv del: upt_Suc)
      then have "?got ((pv_conns s)(c \<mapsto> fresh_conn)) = (pv_conns s)(c \<mapsto> fresh_conn)" by (auto simp: fun_eq_iff)
      with result stop True step u show ?thesis by auto
    next
      case False
      define js where "js = (if i \<le> pv_maxi s then [] else [i])"
      have tab: "[1..<pv_maxi u + 1] = ?is @ js" 
      proof (cases "i \<le> pv_maxi s")
        case False
        then have "i = pv_maxi s + 1" using u(5) by simp
        moreover have "1 \<le> pv_maxi s + 1" by simp
        note upt_Suc_append [OF this]
        ultimately show ?thesis by (simp add: u(7) js_def del: upt_Suc)
      qed (simp add: u(7) js_def max_absorb1 del: upt_Suc)
      have see': "\<forall>j \<in> set ?is. flagged u j \<longrightarrow> sees p (fds u ! j)" using see fl fd by simp
      from poll_all_goes [OF u(2) assms(3) dis indices see', of "int (reported ?s) - 1" js] cnt False
      obtain t where "poll_all p (?is @ js) (int (reported ?s) - 1) u = Inr t" "pv_inv om l t"
        "pv_conns t = ?got ((pv_conns s)(c \<mapsto> fresh_conn))" unfolding hit u(3) by (auto simp del: upt_Suc)
      moreover have "pv_step om s p = poll_all p (?is @ js) (int (reported ?s) - 1) u"
        unfolding tab [symmetric] using step True False u(1) by (simp del: upt_Suc)
      ultimately show ?thesis using result by simp
    qed
  qed
qed

interpretation poll_server: refined_system "pv_step om" "\<lambda>s p. spare s p \<and> poll_obliging om l p" "pv_inv om l" pv_conns
    "\<lambda>p. echo_spec l (as_select l p)"
  by unfold_locales (use pv_step_goes in fastforce)+

interpretation poll_server_goes: live_system "pv_step om" "\<lambda>s p. spare s p \<and> poll_obliging om l p" "pv_inv om l"
  by unfold_locales (use pv_step_goes in blast)

text \<open>
  Whatever the array held before, the server does what the contract says and runs without end.
\<close>

theorem poll_server_echoes:
  assumes "0 \<le> l" and "l < int om" and "admissible (\<lambda>s p. spare s p \<and> poll_obliging om l p) (pv_step om) (pv_start om junk l) ps"
  shows "\<exists>s. run (pv_step om) (pv_start om junk l) ps = Inr s \<and> pv_conns s = fold (\<lambda>p. echo_spec l (as_select l p)) ps Map.empty
    \<and> (\<forall>fd c. pv_conns s fd = Some c \<longrightarrow> cn_out c = cn_in c)"
proof -
  have start: "pv_inv om l (pv_start om junk l)" using pv_start_inv [of om l] assms(1,2) by simp
  obtain s where s: "run (pv_step om) (pv_start om junk l) ps = Inr s" using poll_server_goes.run_goes [OF start assms(3)] by blast
  have "pv_inv om l s" using poll_server.guarded_run_inv [OF start assms(3) s] .
  moreover have "pv_conns s = fold (\<lambda>p. echo_spec l (as_select l p)) ps Map.empty"
    using poll_server.run_spec [OF start assms(3) s] by (simp add: pv_start_def)
  ultimately show ?thesis using s by (simp add: pv_inv_def)
qed

definition example_poll :: pv_pass where
  "example_poll = \<lparr>pp_fails = False, pp_state = (\<lambda>fd. if fd = 3 then POLLRDNORM else 0), pp_accept = Some 4,
     pp_read = (\<lambda>_. Inr ''hi''), pp_writen = (\<lambda>_. True), pp_close = (\<lambda>_. True)\<rparr>"

definition example_junk :: "nat \<Rightarrow> pollfd" where
  "example_junk i = \<lparr>pf_fd = 7, pf_events = 0xFFFF, pf_revents = 0xFFFF\<rparr>"

theorem poll_server_echoes_witness:
  "\<exists>s. run (pv_step 8) (pv_start 8 example_junk 3)
      [example_poll, example_poll\<lparr>pp_state := (\<lambda>fd. if fd = 4 then POLLRDNORM else 0), pp_accept := None\<rparr>] = Inr s
    \<and> pv_conns s 4 = Some \<lparr>cn_in = ''hi'', cn_out = ''hi''\<rparr>"
proof -
  let ?ps = "[example_poll, example_poll\<lparr>pp_state := (\<lambda>fd. if fd = 4 then POLLRDNORM else 0), pp_accept := None\<rparr>]"
  have "admissible (\<lambda>s p. spare s p \<and> poll_obliging 8 3 p) (pv_step 8) (pv_start 8 example_junk 3) ?ps"
    by (auto simp: spare_def poll_obliging_def example_poll_def sees_def fds_def live_def pv_start_def POLLRDNORM_def POLLERR_def
        POLLHUP_def POLLNVAL_def split: sum.split if_splits)
  then obtain s where s: "run (pv_step 8) (pv_start 8 example_junk 3) ?ps = Inr s"
    "pv_conns s = fold (\<lambda>p. echo_spec 3 (as_select 3 p)) ?ps Map.empty"
    using poll_server_echoes [of 3 8 example_junk ?ps] by auto
  have "fold (\<lambda>p. echo_spec 3 (as_select 3 p)) ?ps Map.empty 4 = Some \<lparr>cn_in = ''hi'', cn_out = ''hi''\<rparr>"
    by (simp add: example_poll_def as_select_def sees_def POLLRDNORM_def POLLERR_def echo_spec_def echoed_def fresh_conn_def MAXLINE_def Let_def)
  with s show ?thesis by auto
qed

text \<open>
  The \<^verbatim>\<open>revents\<close> of a place taken for the first time is what the stack held. Where a client is reported
  for a hang-up alone, \<open>nready\<close> is not counted down for it, the loop reaches the new place and the server
  waits in \<^verbatim>\<open>read\<close> for a client that has sent nothing.
\<close>

theorem junk_revents_block:
  "\<exists>s. run (pv_step 8) (pv_start 8 example_junk 3)
    [example_poll,
     example_poll\<lparr>pp_state := (\<lambda>fd. if fd = 3 then POLLRDNORM else if fd = 4 then POLLHUP else 0), pp_accept := Some 5\<rparr>]
    = Inl (Hang ''read'', s)"
proof -
  have "case run (pv_step 8) (pv_start 8 example_junk 3)
    [example_poll,
     example_poll\<lparr>pp_state := (\<lambda>fd. if fd = 3 then POLLRDNORM else if fd = 4 then POLLHUP else 0), pp_accept := Some 5\<rparr>]
    of Inl (Hang m, s) \<Rightarrow> m = ''read'' | _ \<Rightarrow> False" by code_simp
  then show ?thesis by (auto split: sum.splits prod.splits stop.splits)
qed

end
