(* ===== verification/Spec2Isabelle.thy ===== *)
theory Spec2Isabelle
  imports Rtt CirQueue LinkList FileServerSetup FileStartup FileTransfer EchoStart OdrNet OdrSetup AppSetup TourProps
    InCksum StrEcho SockAddrProps ConnectNames Mcast ListFree PingMain NonbCli PollServer
begin

text \<open>
  A verification library for four network programs in C, the assignments of a course
  (\<^verbatim>\<open>src/Assignment 1\<close> to \<^verbatim>\<open>src/Assignment 4\<close>, directory \<^verbatim>\<open>Code\<close> of each). They are built
  on the library of a textbook (\<^verbatim>\<open>src/unpv13e\<close>): its archive is linked before the C library, so
  that the programs run its versions of functions both have, such as \<^verbatim>\<open>inet_pton\<close>.

  \<^bold>\<open>How C is modelled.\<close> A statement is a function from a state to an \<open>outcome\<close> (theory
  \<open>Prelude\<close>): the process goes on (\<open>Inr\<close>), or it ends by \<^verbatim>\<open>exit\<close> with a message, by
  behaviour the language leaves undefined (an access outside an array, an overrun buffer), or by a
  loop that never ends (\<open>Inl\<close>, with the state it stopped in). An event loop is a step function
  over the events the operating system delivers; \<open>run\<close> applies it to a list of events. The outcome
  of a system call, the contents of uninitialised memory and the answers of the kernel are
  arguments of the definitions. \<^verbatim>\<open>int\<close> and \<^verbatim>\<open>uint32_t\<close> values whose width matters are
  words; \<^verbatim>\<open>htonl\<close> and its relatives swap bytes, as on the little-endian hosts the programs
  were written for. Character buffers keep old bytes behind what was last written into them.
  The locales \<open>step_system\<close>, \<open>guarded_system\<close> and \<open>safe_system\<close> lift an invariant, and the absence
  of undefined behaviour, from one step to all runs, \<open>refined_system\<close> does so for a specification of
  the step and \<open>live_system\<close> for the fact that it goes on; \<open>ending_system\<close> says in which states a run
  stops. \<open>history_network\<close> and \<open>network\<close> do the same for the reachable states
  (\<open>reaches\<close>) of several nodes and the frames between them, with or without what was sent before. Every event loop interprets one of them
  or is put into a network. \<open>wire_codec\<close> is the
  contract of the byte order functions. \<open>CStrings\<close> models the conversions of \<^verbatim>\<open>printf\<close> and
  \<^verbatim>\<open>scanf\<close> with their round trips.

  \<^bold>\<open>Assignment 1: echo and time service\<close> (\<open>EchoTime\<close>, \<open>EchoStart\<close>). The server accepts connections for two
  services and gives each a thread; the clients run in windows of their own and report to the
  program that started them through a pipe. Modelled are the accept loop, both service threads,
  both clients, the choice of a service, the start of a client and the loop of the starting program
  (\<^verbatim>\<open>tcpechotimesrv.c\<close>, \<^verbatim>\<open>echo_cli.c\<close>, \<^verbatim>\<open>time_cli.c\<close>, \<^verbatim>\<open>tcpechotimecli.c\<close>). What the user
  sees is a beginning of what the user typed, and all of it when the connection has ended; a client
  that is started connects to the server the user named and writes its status into the pipe its
  starter reads; every valid choice overruns its buffer.

  \<^bold>\<open>Assignment 2: file transfer over UDP.\<close> A server sends a file over datagrams that may be
  lost, repeated and reordered, with sequence numbers, a sliding window, congestion control and a
  retransmission timer; the client acknowledges cumulatively and prints in a second thread.
  \<open>Rtt\<close> is the timer of the book (\<^verbatim>\<open>rtt.c\<close>): its range, the equivalence of its integer
  arithmetic with the formulas over the reals, when it gives up. \<open>CirQueue\<close> is the send buffer
  (\<^verbatim>\<open>CirQueue.c\<close>), a refinement of a queue as long as one slot is free. \<open>LinkList\<close> is the ordered
  list on an explicit heap (\<^verbatim>\<open>LinkList.c\<close>), a refinement of a finite set. \<open>FileServer\<close> is the transfer
  loop of \<^verbatim>\<open>server.c\<close>, \<open>FileServerSetup\<close> its sockets, its parent process and the handshake,
  \<open>IfiInfo\<close> the list of interfaces both read (\<^verbatim>\<open>get_ifi_info_plus.c\<close>), \<open>ListFree\<close> how it and the
  list of assignment 3 are released on an explicit memory, \<open>FileStartup\<close> what both do with
  it at their start, \<open>FileClient\<close> the client with both threads (\<^verbatim>\<open>client.c\<close>). \<open>FileServerInv\<close> and \<open>FileClientInv\<close>
  hold the invariants, \<open>FileServerStale\<close> what the server sends when nothing is known of the memory
  \<^verbatim>\<open>malloc\<close> gave it, \<open>FileServerClaims\<close> the properties of the server, and \<open>FileTransfer\<close> puts server,
  network and client together: what is printed is a beginning of the file. A step of the client is
  what one of its threads does between two blocking calls; a header and its line are two datagrams
  and two steps. The client takes any datagram for the line of the last header, never sets two of its
  \<open>next\<close> fields and has no lock for its list: \<open>any_line_taken\<close>, \<open>append_dangling\<close> and \<open>walk_meets_free\<close> show
  what this does, and the properties of the client and of the whole transfer name it as conditions.

  \<^bold>\<open>Assignment 3: on-demand routing.\<close> A daemon on each of ten nodes floods route requests, answers
  and relays them, and carries the messages of local applications. \<open>HwAddrs\<close> is
  \<^verbatim>\<open>get_hw_addrs.c\<close>, \<open>Api\<close> the interface of the applications and the two applications (\<^verbatim>\<open>API.c\<close>,
  \<^verbatim>\<open>client.c\<close>, \<^verbatim>\<open>server.c\<close>), \<open>Odr\<close> the daemon (\<^verbatim>\<open>ODR.c\<close>) with \<open>OdrSetup\<close> for its start and
  \<open>AppSetup\<close> for that of the applications. \<open>OdrInv\<close>
  says what each handler sends and keeps of the tables, \<open>OdrClaims\<close> when routes get better and a
  handler stops, \<open>OdrProps\<close> has the properties of one daemon, and \<open>OdrNet\<close> the ten daemons together:
  every route was learnt from a neighbour the news of the destination had come to along wires, and its
  hop count is one more than the number of these. Wires need not carry both ways.

  \<^bold>\<open>Assignment 4: address resolution and a tour.\<close> \<open>Arp\<close> and \<open>ArpProps\<close> are the daemon that resolves
  addresses (\<^verbatim>\<open>arp.c\<close>): a question is answered, no cache holds a wrong address. \<open>Tour\<close> and \<open>TourProps\<close>
  are the program that sends a packet around a list of nodes (\<^verbatim>\<open>tour.c\<close>): it visits all of them in
  order, the last one announces the end, and every node stops. Its addresses are read and printed by
  the functions of the library.

  \<^bold>\<open>The library of the book.\<close> \<open>InetAddr\<close> is \<^verbatim>\<open>inet_pton\<close> and \<^verbatim>\<open>inet_ntop\<close> (\<^verbatim>\<open>libfree\<close>) for IPv4 and
  IPv6, on the bytes of their arrays; \<open>InetAddrProps\<close> shows that the IPv4 parser accepts exactly the
  dotted quads, \<open>Inet6Props\<close> that every address survives printing and parsing. \<open>SockAddr\<close> and
  \<open>SockAddrProps\<close> are socket addresses of any family (\<^verbatim>\<open>lib/sock_*.c\<close>): printed forms are
  unambiguous, comparing is equality, ports and addresses are set independently. \<open>StreamIo\<close> is
  \<^verbatim>\<open>readn\<close>, \<^verbatim>\<open>writen\<close> and both versions of \<^verbatim>\<open>readline\<close> over a kernel that cuts the stream as it
  likes, interrupts and fails; \<open>StreamIoProps\<close> shows that the result does not depend on the cuts, and
  \<open>StrEcho\<close> that the echo server and client built on them (\<^verbatim>\<open>str_echo.c\<close>, \<^verbatim>\<open>str_cli.c\<close>) lose
  nothing in a conversation in which the server answers only what was written to it, and when the
  client waits for ever for a newline. \<open>InCksum\<close> is the internet checksum, equal to its definition as a ones' complement sum.
  \<open>Connect\<close> has the loops over the addresses of a host (\<^verbatim>\<open>tcp_connect.c\<close> and its relatives), each an
  interpretation of one contract (\<open>address_pass\<close>), and the two ways to limit the time of a connection;
  \<open>Mcast\<close> the multicast options of a socket. \<open>GetAddrInfo\<close> is \<^verbatim>\<open>getaddrinfo\<close> and \<^verbatim>\<open>getnameinfo\<close>
  (\<^verbatim>\<open>libgai\<close>) over a resolver that is an argument; \<open>GetAddrInfoProps\<close> shows that the one undoes the
  other on numeric names, that a successful answer is a list as its callers need it, and that an
  address is returned once for each transport. \<open>ConnectNames\<close> puts the connecting functions on it: a
  host and a service in printed form lead to that address and port, and the list is never empty.

  \<^bold>\<open>Programs of the book.\<close> \<open>Ping\<close> and \<open>PingMain\<close> are \<^verbatim>\<open>ping\<close> for IPv4 and IPv6, which uses the
  checksum, the addresses, \<^verbatim>\<open>host_serv\<close> and the difference of times: a printed address on the command
  line gets the first request, and a reply is matched with its request and timed, for both protocols. \<open>NonbCli\<close> is the client
  with nonblocking calls (\<^verbatim>\<open>nonblock/strclinonb.c\<close>): its two buffers lose and repeat nothing while it
  runs. \<open>SelectServer\<close> is the echo server for many clients (\<^verbatim>\<open>tcpcliserv/tcpservselect01.c\<close>), which
  does in each pass what a specification of the open connections says; \<open>PollServer\<close> is the one on
  \<^verbatim>\<open>poll\<close> (\<^verbatim>\<open>tcpcliserv/tcpservpoll01.c\<close>) against the same specification.

  \<^bold>\<open>Bounds and fuel.\<close> Loops over arrays are structural. \<open>print_loop\<close> of the file client and the
  traversals of \<open>LinkList\<close> are partial functions whose value is \<open>None\<close> when they do not end; that
  they end on the lists the programs build is proved. \<open>guess_buffer\<close> of \<open>HwAddrs\<close> takes fuel, a round
  for ten interfaces and two more, which is shown to be enough; \<open>ifi_buffer\<close> of \<open>IfiInfo\<close> needs two
  rounds when the first guess is large enough; \<open>tour_run\<close> takes one delivery per
  node. A read or write of \<open>StreamIo\<close> uses up one turn of the kernel; when no turn is left the call
  blocks and the value is \<open>None\<close>, and the properties say how many turns are enough (\<open>serves\<close>,
  \<open>accepts\<close>), or which give just what has arrived and then leave the reader waiting (\<open>cuts\<close>). The
  number \<^verbatim>\<open>NextAck\<close> returns wraps where the \<^verbatim>\<open>int\<close> of the code would overflow, at 2147483647, and the
  length of the buffer \<open>guess_buffer\<close> asks for is not bounded. Numbers read by \<^verbatim>\<open>%d\<close> and ping counts are unbounded integers: the programs print and
  read values far below the bounds of \<^verbatim>\<open>int\<close>.

  \<^bold>\<open>Not modelled.\<close> Two threads of the file client inside the list at the same moment (but see
  \<open>walk_meets_free\<close>); memory that runs out in the middle of building the answer of \<^verbatim>\<open>getaddrinfo\<close> (it
  does at the first element or not at all). Output for the user where nothing depends on it; what
  \<^verbatim>\<open>get_ifi_info_plus.c\<close> has for BSD link addresses; the handler of
  \<^verbatim>\<open>SIGCHLD\<close> in assignments 1 and 2, which waits and prints; the delivery of \<^verbatim>\<open>SIGALRM\<close> at other points than those at which the
  process waits; of the library, the wrappers that only add an exit to a system call and the functions
  no program calls (descriptor passing, daemons, error reporting); the
  other example programs of the book and the replacements for system functions that are not compiled on
  Linux.
\<close>

end
